(* ===== verification/Picpak_Base.thy ===== *)
theory Picpak_Base
  imports Main "HOL-Library.Word" "HOL-Library.Sublist"
begin

text \<open>
  Prelude of the development: the types every component shares (bytes, times, HTTP requests and
  replies) and the generic facts on lists,
  options and maps that the component proofs use.

  A Go \<open>string\<close> is a \<^typ>\<open>string\<close> (a list of bytes seen as characters), a \<open>[]byte\<close> is a list of
  8-bit words, and a nil-able slice or pointer is an option.  A wall-clock reading is an \<^typ>\<open>int\<close>
  in nanoseconds, passed to each operation as the argument \<open>now\<close>; Go's \<open>time.Now()\<close> and the
  database's \<open>now()\<close> inside one request read that same value.
\<close>

unbundle bit_operations_syntax

named_theorems go_simps \<open>rewrite rules for the Go library functions\<close>
named_theorems db_defs \<open>definitions of the elementary table updates\<close>
named_theorems inv_intros \<open>preservation lemmas of the table invariants\<close>

section \<open>Types\<close>

type_synonym byte = "8 word"
type_synonym bytes = "byte list"
type_synonym time = int
type_synonym serial = string

text \<open>Two's complement on 64 bits: the value of an \<open>int64\<close> operation whose exact result is \<open>i\<close>.\<close>

definition wrap64 :: "int \<Rightarrow> int" where
  "wrap64 i = (i + 2 ^ 63) mod 2 ^ 64 - 2 ^ 63"

lemma wrap64_id [simp]: "- (2 ^ 63) \<le> i \<Longrightarrow> i < 2 ^ 63 \<Longrightarrow> wrap64 i = i"
  by (simp add: wrap64_def)

lemma wrap64_range: "- (2 ^ 63) \<le> wrap64 i" "wrap64 i < 2 ^ 63"
  by (simp_all add: wrap64_def)

abbreviation second :: time where
  "second \<equiv> 1000000000"

text \<open>
  The Go \<open>url.Values\<close> map and its \<open>Get\<close>: the first value of a key, or the empty string.
\<close>

type_synonym query = "string \<Rightarrow> string list option"

definition q_get :: "query \<Rightarrow> string \<Rightarrow> string" where
  "q_get q k = (case q k of Some (v # _) \<Rightarrow> v | _ \<Rightarrow> [])"

text \<open>
  A request: its method, the decoded URL path and query, the header lookup \<open>Header.Get\<close> (the empty
  string for an absent header), the body, the peer address and the listener it arrived on.
\<close>

datatype listener_origin = OriginPublic | OriginLoopback

record http_req =
  rq_method :: string
  rq_path :: string
  rq_query :: query
  rq_header :: "string \<Rightarrow> string"
  rq_body :: string
  rq_remote_addr :: string
  rq_origin :: "listener_origin option"

text \<open>
  A reply as the handler writes it: the status, the headers it sets in order and the body it
  writes.  The constant error text that \<open>net/http\<close> adds to \<open>http.Error\<close> and \<open>http.NotFound\<close> is
  not part of it.
\<close>

record http_resp =
  rs_status :: nat
  rs_headers :: "(string \<times> string) list"
  rs_body :: string

definition http_error :: "nat \<Rightarrow> http_resp" where
  "http_error code = \<lparr>rs_status = code, rs_headers = [], rs_body = []\<rparr>"

definition get_header :: "http_resp \<Rightarrow> string \<Rightarrow> string option" where
  "get_header r k = map_of (rs_headers r) k"

lemma http_error_sel [simp]:
  "rs_status (http_error c) = c" "rs_headers (http_error c) = []" "rs_body (http_error c) = []"
  by (simp_all add: http_error_def)

lemma http_error_inject [simp]: "http_error a = http_error b \<longleftrightarrow> a = b"
  by (auto simp: http_error_def)

text \<open>An answer of the admin API: \<open>WriteErr\<close> with its status and code, or \<open>WriteOK\<close> with what it wraps.\<close>

datatype 'a api = ApiErr nat string | ApiOk 'a

section \<open>Byte strings\<close>

definition bytes_of :: "string \<Rightarrow> bytes" where
  "bytes_of s = map of_char s"

definition string_of :: "bytes \<Rightarrow> string" where
  "string_of b = map (\<lambda>w. char_of (unat w)) b"

lemma unat_of_char [simp]: "unat (of_char c :: byte) = of_char c"
proof -
  have "unat (of_nat (of_char c) :: byte) = of_char c mod 256"
    by (simp add: unat_of_nat)
  also have "\<dots> = of_char c"
    by (rule of_char_mod_256)
  finally show ?thesis
    by (simp only: of_nat_of_char)
qed

lemma string_of_bytes_of [simp]: "string_of (bytes_of s) = s"
  by (induction s) (simp_all add: bytes_of_def string_of_def)

lemma bytes_of_string_of [simp]: "bytes_of (string_of b) = b"
proof -
  have "(of_char (char_of (unat w) :: char) :: byte) = w" for w :: byte
  proof -
    have "(of_char (char_of (unat w) :: char) :: nat) = unat w"
      using unsigned_less [of w, where ?'a = nat] by (simp add: of_char_of)
    then show ?thesis
      by (metis of_nat_of_char of_nat_unat ucast_id)
  qed
  then show ?thesis
    by (induction b) (simp_all add: bytes_of_def string_of_def)
qed

lemma length_bytes_of [simp]: "length (bytes_of s) = length s"
  by (simp add: bytes_of_def)

lemma length_string_of [simp]: "length (string_of b) = length b"
  by (simp add: string_of_def)

lemma bytes_of_inject [simp]: "bytes_of s = bytes_of t \<longleftrightarrow> s = t"
  by (metis string_of_bytes_of)

lemma string_of_inject [simp]: "string_of s = string_of t \<longleftrightarrow> s = t"
  by (metis bytes_of_string_of)

section \<open>Lists and maps\<close>

lemma map_upd_same_dom [simp]: "k \<in> dom m \<Longrightarrow> dom (m(k \<mapsto> v)) = dom m"
  by auto

lemma filter_eq_nilD: "filter P xs = [] \<Longrightarrow> x \<in> set xs \<Longrightarrow> \<not> P x"
  by (simp add: filter_empty_conv)

lemma take_append_exact [simp]: "length xs = n \<Longrightarrow> take n (xs @ ys) = xs"
  by simp

lemma drop_append_exact [simp]: "length xs = n \<Longrightarrow> drop n (xs @ ys) = ys"
  by simp

lemma find_None_all: "find P xs = None \<longleftrightarrow> (\<forall>x \<in> set xs. \<not> P x)"
  by (auto simp: find_None_iff)

end
