(* ===== verification/Go_Strings.thy ===== *)
theory Go_Strings
  imports Picpak_Base
begin

text \<open>
  The functions of the Go standard library that the backend's parsers and serialisers call:
  \<open>strconv.ParseUint\<close>, \<open>ParseInt\<close>, \<open>Atoi\<close> and \<open>FormatInt\<close> in base ten, \<open>encoding/hex\<close>, and
  \<open>strings.Cut\<close> and \<open>strings.Split\<close> on a one-byte separator.  A Go result pair \<open>(value, err)\<close>
  is a pair here too, since several callers of the backend drop the error and keep the value.

  The locale \<open>codec\<close> is the contract of an encoder and its decoder; the decimal and the
  hexadecimal coders interpret it.
\<close>

section \<open>Encoders and decoders\<close>

locale codec =
  fixes wf :: "'a \<Rightarrow> bool"
    and enc :: "'a \<Rightarrow> 'b"
    and dec :: "'b \<Rightarrow> 'a option"
  assumes dec_enc: "wf x \<Longrightarrow> dec (enc x) = Some x"
begin

lemma enc_inject: "wf x \<Longrightarrow> wf y \<Longrightarrow> enc x = enc y \<longleftrightarrow> x = y"
  by (metis dec_enc option.inject)

lemma enc_inj_on: "inj_on enc {x. wf x}"
  by (auto simp: inj_on_def enc_inject)

lemma map_enc_inject:
  "\<forall>x \<in> set xs. wf x \<Longrightarrow> \<forall>y \<in> set ys. wf y \<Longrightarrow> map enc xs = map enc ys \<longleftrightarrow> xs = ys"
  by (rule inj_on_map_eq_map) (auto simp: inj_on_def enc_inject)

end

section \<open>Decimal numerals\<close>

definition digit_char :: "nat \<Rightarrow> char" where
  "digit_char d = char_of (48 + d)"

definition is_digit :: "char \<Rightarrow> bool" where
  "is_digit c \<longleftrightarrow> 48 \<le> (of_char c :: nat) \<and> (of_char c :: nat) \<le> 57"

definition digit_val :: "char \<Rightarrow> nat" where
  "digit_val c = of_char c - 48"

datatype num_err = ErrSyntax | ErrRange

text \<open>
  \<open>strconv.ParseUint(s, 10, bits)\<close> with \<open>mx = 2 ^ bits - 1\<close>.  The loop reads from the left, so a
  numeral that overflows before an illegal byte is a range error.  Go's three overflow tests
  (\<open>n \<ge> cutoff\<close>, \<open>n1 < n\<close>, \<open>n1 > maxVal\<close>) are together the test \<open>n * 10 + d > maxVal\<close> on
  unbounded numbers.
\<close>

fun parse_digits :: "nat \<Rightarrow> nat \<Rightarrow> string \<Rightarrow> nat \<times> num_err option" where
  "parse_digits mx n [] = (n, None)"
| "parse_digits mx n (c # cs) =
     (if \<not> is_digit c then (0, Some ErrSyntax)
      else if n * 10 + digit_val c > mx then (mx, Some ErrRange)
      else parse_digits mx (n * 10 + digit_val c) cs)"

definition ParseUint :: "nat \<Rightarrow> string \<Rightarrow> nat \<times> num_err option" where
  "ParseUint bits s = (if s = [] then (0, Some ErrSyntax) else parse_digits (2 ^ bits - 1) 0 s)"

definition int64_max :: int where
  "int64_max = 2 ^ 63 - 1"

definition int64_min :: int where
  "int64_min = - (2 ^ 63)"

text \<open>
  \<open>strconv.ParseInt(s, 10, 64)\<close>: on a range error the value is the bound on the side of the
  sign, not zero.
\<close>

definition ParseInt :: "string \<Rightarrow> int \<times> num_err option" where
  "ParseInt s =
     (if s = [] then (0, Some ErrSyntax)
      else
        let neg = hd s = CHR ''-'';
            body = (if hd s = CHR ''+'' \<or> hd s = CHR ''-'' then tl s else s)
        in case ParseUint 64 body of
             (un, Some ErrSyntax) \<Rightarrow> (0, Some ErrSyntax)
           | (un, _) \<Rightarrow>
               if \<not> neg \<and> int un \<ge> 2 ^ 63 then (int64_max, Some ErrRange)
               else if neg \<and> int un > 2 ^ 63 then (int64_min, Some ErrRange)
               else (if neg then - int un else int un, None))"

definition Atoi :: "string \<Rightarrow> int \<times> num_err option" where
  "Atoi s = ParseInt s"

fun format_nat :: "nat \<Rightarrow> string" where
  "format_nat n = (if n < 10 then [digit_char n] else format_nat (n div 10) @ [digit_char (n mod 10)])"

declare format_nat.simps [simp del]

definition FormatInt :: "int \<Rightarrow> string" where
  "FormatInt i = (if i < 0 then CHR ''-'' # format_nat (nat (- i)) else format_nat (nat i))"

lemma of_char_digit_char [simp]: "d < 10 \<Longrightarrow> (of_char (digit_char d) :: nat) = 48 + d"
  by (simp add: digit_char_def)

lemma is_digit_digit_char [simp]: "d < 10 \<Longrightarrow> is_digit (digit_char d)"
  by (simp add: is_digit_def)

lemma digit_val_digit_char [simp]: "d < 10 \<Longrightarrow> digit_val (digit_char d) = d"
  by (simp add: digit_val_def)

lemma parse_digits_append:
  "parse_digits mx n xs = (v, None) \<Longrightarrow> parse_digits mx n (xs @ ys) = parse_digits mx v ys"
  by (induction mx n xs rule: parse_digits.induct) (auto split: if_splits)

lemma parse_digits_format_nat: "n \<le> mx \<Longrightarrow> parse_digits mx 0 (format_nat n) = (n, None)"
proof (induction n rule: format_nat.induct)
  case (1 n)
  show ?case
  proof (cases "n < 10")
    case True
    with 1(2) show ?thesis
      by (subst format_nat.simps) simp
  next
    case False
    then have "parse_digits mx 0 (format_nat (n div 10)) = (n div 10, None)"
      using 1 by simp
    with False 1(2) show ?thesis
      by (subst format_nat.simps) (simp add: parse_digits_append)
  qed
qed

lemma format_nat_nonempty [simp]: "format_nat n \<noteq> []"
  by (subst format_nat.simps) simp

lemma format_nat_digits: "\<forall>c \<in> set (format_nat n). is_digit c"
proof (induction n rule: format_nat.induct)
  case (1 n)
  then show ?case
    by (subst format_nat.simps) (simp add: Ball_def)
qed

lemma hd_format_nat_digit: "is_digit (hd (format_nat n))"
  using format_nat_digits [of n] by simp

lemma is_digit_signs [simp]: "\<not> is_digit CHR ''-''" "\<not> is_digit CHR ''+''"
  by (simp_all add: is_digit_def)

lemma hd_format_nat_sign: "hd (format_nat n) \<noteq> CHR ''-''" "hd (format_nat n) \<noteq> CHR ''+''"
  using hd_format_nat_digit [of n] by (metis is_digit_signs)+

lemma ParseUint_format_nat: "n < 2 ^ bits \<Longrightarrow> ParseUint bits (format_nat n) = (n, None)"
  by (simp add: ParseUint_def parse_digits_format_nat)

lemma ParseInt_FormatInt:
  assumes "int64_min \<le> i" and "i \<le> int64_max"
  shows "ParseInt (FormatInt i) = (i, None)"
proof (cases "i < 0")
  case True
  then have "ParseUint 64 (format_nat (nat (- i))) = (nat (- i), None)"
    using assms by (intro ParseUint_format_nat) (auto simp: int64_min_def)
  with True assms show ?thesis
    by (auto simp: ParseInt_def FormatInt_def int64_min_def)
next
  case False
  then have "ParseUint 64 (format_nat (nat i)) = (nat i, None)"
    using assms by (intro ParseUint_format_nat) (auto simp: int64_max_def)
  with False assms show ?thesis
    by (simp add: ParseInt_def FormatInt_def int64_max_def hd_format_nat_sign)
qed

lemma parse_digits_bound: "n \<le> mx \<Longrightarrow> fst (parse_digits mx n s) \<le> mx"
  by (induction mx n s rule: parse_digits.induct) auto

lemma ParseUint_bound: "fst (ParseUint bits s) < 2 ^ bits"
proof -
  have "fst (parse_digits (2 ^ bits - 1) 0 s) \<le> 2 ^ bits - 1"
    by (rule parse_digits_bound) simp
  then have "fst (parse_digits (2 ^ bits - 1) 0 s) < 2 ^ bits"
    by (metis Suc_pred' le_imp_less_Suc zero_less_numeral zero_less_power)
  then show ?thesis
    by (auto simp: ParseUint_def)
qed

lemma ParseInt_bounds: "int64_min \<le> fst (ParseInt s)" "fst (ParseInt s) \<le> int64_max"
  by (simp_all add: ParseInt_def Let_def int64_min_def int64_max_def split: prod.split option.split
      num_err.split)

lemma ParseInt_syntax_zero: "snd (ParseInt s) = Some ErrSyntax \<Longrightarrow> fst (ParseInt s) = 0"
  by (auto simp: ParseInt_def Let_def split: prod.splits option.splits num_err.splits if_splits)

definition dec_int :: "string \<Rightarrow> int option" where
  "dec_int s = (case ParseInt s of (v, None) \<Rightarrow> Some v | _ \<Rightarrow> None)"

interpretation decimal: codec "\<lambda>i. int64_min \<le> i \<and> i \<le> int64_max" FormatInt dec_int
  by unfold_locales (simp add: dec_int_def ParseInt_FormatInt)

section \<open>Hexadecimal\<close>

definition hex_digit :: "nat \<Rightarrow> char" where
  "hex_digit d = (if d < 10 then char_of (48 + d) else char_of (87 + d))"

text \<open>\<open>fromHexChar\<close>: both letter cases are read, lower case is written.\<close>

definition hex_val :: "char \<Rightarrow> nat option" where
  "hex_val c =
     (let n = of_char c in
      if 48 \<le> n \<and> n \<le> 57 then Some (n - 48)
      else if 97 \<le> n \<and> n \<le> 102 then Some (n - 87)
      else if 65 \<le> n \<and> n \<le> 70 then Some (n - 55)
      else None)"

fun EncodeToString :: "bytes \<Rightarrow> string" where
  "EncodeToString [] = []"
| "EncodeToString (b # bs) = hex_digit (unat b div 16) # hex_digit (unat b mod 16) # EncodeToString bs"

text \<open>\<open>hex.DecodeString\<close>; every error (a bad byte, an odd length) is \<open>None\<close>.\<close>

fun DecodeString :: "string \<Rightarrow> bytes option" where
  "DecodeString [] = Some []"
| "DecodeString [c] = None"
| "DecodeString (c # d # cs) =
     (case (hex_val c, hex_val d, DecodeString cs) of
        (Some h, Some l, Some bs) \<Rightarrow> Some (of_nat (16 * h + l) # bs)
      | _ \<Rightarrow> None)"

lemma hex_val_hex_digit [simp]: "d < 16 \<Longrightarrow> hex_val (hex_digit d) = Some d"
  by (auto simp: hex_val_def hex_digit_def Let_def)

lemma byte_nibbles [simp]: "(of_nat (16 * (unat b div 16) + unat b mod 16) :: byte) = b"
  by (simp only: mult_div_mod_eq of_nat_unat ucast_id)

lemma unat_byte_div16 [simp]: "unat (b :: byte) div 16 < 16"
  using unsigned_less [of b, where ?'a = nat] by simp

lemma DecodeString_EncodeToString: "DecodeString (EncodeToString bs) = Some bs"
  by (induction bs) (simp_all del: of_nat_add of_nat_mult)

interpretation hex: codec "\<lambda>_. True" EncodeToString DecodeString
  by unfold_locales (rule DecodeString_EncodeToString)

lemma length_EncodeToString [simp]: "length (EncodeToString bs) = 2 * length bs"
  by (induction bs) simp_all

lemma EncodeToString_chars: "c \<in> set (EncodeToString bs) \<Longrightarrow> hex_val c \<noteq> None"
  by (induction bs) auto

section \<open>Cutting and splitting\<close>

text \<open>\<open>strings.Cut\<close> on a one-byte separator: the text before and after its first occurrence.\<close>

fun Cut :: "char \<Rightarrow> string \<Rightarrow> (string \<times> string) option" where
  "Cut sep [] = None"
| "Cut sep (c # cs) =
     (if c = sep then Some ([], cs)
      else case Cut sep cs of None \<Rightarrow> None | Some (a, b) \<Rightarrow> Some (c # a, b))"

text \<open>\<open>strings.Split\<close> on a one-byte separator; the empty string splits into one empty part.\<close>

fun Split :: "char \<Rightarrow> string \<Rightarrow> string list" where
  "Split sep [] = [[]]"
| "Split sep (c # cs) =
     (if c = sep then [] # Split sep cs
      else case Split sep cs of [] \<Rightarrow> [[c]] | p # ps \<Rightarrow> (c # p) # ps)"

text \<open>\<open>strings.SplitN\<close> with at most \<open>n + 1\<close> parts, on a one-byte separator.\<close>

fun SplitN :: "nat \<Rightarrow> char \<Rightarrow> string \<Rightarrow> string list" where
  "SplitN 0 sep s = [s]"
| "SplitN (Suc n) sep s = (case Cut sep s of None \<Rightarrow> [s] | Some (a, b) \<Rightarrow> a # SplitN n sep b)"

fun join :: "string \<Rightarrow> string list \<Rightarrow> string" where
  "join sep [] = []"
| "join sep [p] = p"
| "join sep (p # q # ps) = p @ sep @ join sep (q # ps)"

lemma Split_nonempty [simp]: "Split sep s \<noteq> []"
  by (cases s) (auto split: list.split)

lemma Cut_Some: "Cut sep s = Some (a, b) \<longleftrightarrow> s = a @ sep # b \<and> sep \<notin> set a"
proof (induction s arbitrary: a)
  case (Cons c cs)
  show ?case
  proof (cases a)
    case Nil
    then show ?thesis
      using Cons by (auto split: option.splits)
  next
    case (Cons c' a')
    then show ?thesis
      using Cons.IH [of a'] by (auto split: option.splits)
  qed
qed simp

lemma Cut_None: "Cut sep s = None \<longleftrightarrow> sep \<notin> set s"
  by (induction s) (auto split: option.splits)

lemma Split_no_sep: "sep \<notin> set s \<Longrightarrow> Split sep s = [s]"
  by (induction s) auto

lemma Split_Cons_part: "sep \<notin> set p \<Longrightarrow> Split sep (p @ sep # s) = p # Split sep s"
  by (induction p) auto

lemma join_Split [simp]: "join [sep] (Split sep s) = s"
proof (induction s)
  case (Cons c cs)
  then show ?case
    by (cases "Split sep cs"; cases "tl (Split sep cs)") auto
qed simp

lemma Split_no_seps: "p \<in> set (Split sep s) \<Longrightarrow> sep \<notin> set p"
  by (induction s arbitrary: p) (auto split: list.splits if_splits)

lemma Split_join: "ps \<noteq> [] \<Longrightarrow> \<forall>p \<in> set ps. sep \<notin> set p \<Longrightarrow> Split sep (join [sep] ps) = ps"
  by (induction "[sep]" ps rule: join.induct) (simp_all add: Split_no_sep Split_Cons_part)

interpretation parts: codec "\<lambda>ps. ps \<noteq> [] \<and> (\<forall>p \<in> set ps. sep \<notin> set p)" "join [sep]"
  "\<lambda>s. Some (Split sep s)" for sep
  by unfold_locales (simp add: Split_join)

section \<open>White space\<close>

text \<open>
  \<open>strings.Fields\<close>, \<open>strings.TrimSpace\<close> and \<open>strings.Trim\<close> with a one-byte cut set, on ASCII text;
  a byte above 127 is not white space here.
\<close>

definition is_space :: "char \<Rightarrow> bool" where
  "is_space c \<longleftrightarrow> of_char c \<in> {9, 10, 11, 12, 13, 32 :: nat}"

fun fields_from :: "string \<Rightarrow> string \<Rightarrow> string list" where
  "fields_from cur [] = (if cur = [] then [] else [rev cur])"
| "fields_from cur (c # cs) =
     (if is_space c then (if cur = [] then fields_from [] cs else rev cur # fields_from [] cs)
      else fields_from (c # cur) cs)"

definition Fields :: "string \<Rightarrow> string list" where
  "Fields s = fields_from [] s"

definition trim_by :: "(char \<Rightarrow> bool) \<Rightarrow> string \<Rightarrow> string" where
  "trim_by P s = rev (dropWhile P (rev (dropWhile P s)))"

definition TrimSpace :: "string \<Rightarrow> string" where
  "TrimSpace s = trim_by is_space s"

definition Trim :: "char \<Rightarrow> string \<Rightarrow> string" where
  "Trim c s = trim_by (\<lambda>d. d = c) s"

text \<open>\<open>strings.EqualFold\<close> where one side is ASCII.\<close>

definition to_lower :: "char \<Rightarrow> char" where
  "to_lower c = (let n = (of_char c :: nat) in if 65 \<le> n \<and> n \<le> 90 then char_of (n + 32) else c)"

definition EqualFold :: "string \<Rightarrow> string \<Rightarrow> bool" where
  "EqualFold s t \<longleftrightarrow> map to_lower s = map to_lower t"

lemma fields_from_nonempty: "w \<in> set (fields_from cur s) \<Longrightarrow> w \<noteq> []"
  by (induction cur s rule: fields_from.induct) (auto split: if_splits)

lemma fields_from_no_space:
  "\<forall>c \<in> set cur. \<not> is_space c \<Longrightarrow> w \<in> set (fields_from cur s) \<Longrightarrow> c \<in> set w \<Longrightarrow> \<not> is_space c"
  by (induction cur s rule: fields_from.induct) (auto split: if_splits)

lemma fields_from_word:
  "\<forall>c \<in> set w. \<not> is_space c \<Longrightarrow> fields_from cur (w @ s) = fields_from (rev w @ cur) s"
  by (induction w arbitrary: cur) simp_all

text \<open>Words joined by single spaces split into the same words.\<close>

lemma Fields_join:
  "\<forall>w \<in> set ws. w \<noteq> [] \<and> (\<forall>c \<in> set w. \<not> is_space c) \<Longrightarrow> Fields (join '' '' ws) = ws"
proof (induction "'' '' :: string" ws rule: join.induct)
  case 1
  then show ?case by (simp add: Fields_def)
next
  case (2 p)
  then show ?case
    using fields_from_word [of p "[]" "[]"] by (simp add: Fields_def)
next
  case (3 p q ps)
  then have p: "p \<noteq> []" "\<forall>c \<in> set p. \<not> is_space c"
    and rest: "fields_from [] (join '' '' (q # ps)) = q # ps"
    by (simp_all add: Fields_def)
  show ?case
    using p rest by (simp add: Fields_def fields_from_word is_space_def)
qed

end
