(* ===== verification/Sha.thy ===== *)
theory Sha
  imports Picpak_Base
begin

text \<open>
  SHA-1, SHA-256 and HMAC on byte strings (FIPS 180-4, FIPS 198-1), as Go's \<open>crypto/sha1\<close>,
  \<open>crypto/sha256\<close> and \<open>crypto/hmac\<close> compute them.  The one-time-password check, the OTA ticket,
  the re-key handshake and the token hashes of the backend are built on them.  The facts the
  components use are the digest lengths; no collision or forgery resistance is assumed anywhere.
\<close>

section \<open>Words and bytes\<close>

definition rotl32 :: "nat \<Rightarrow> 32 word \<Rightarrow> 32 word" where
  "rotl32 n w = push_bit n w OR drop_bit (32 - n) w"

definition rotr32 :: "nat \<Rightarrow> 32 word \<Rightarrow> 32 word" where
  "rotr32 n w = drop_bit n w OR push_bit (32 - n) w"

definition be32_bytes :: "32 word \<Rightarrow> bytes" where
  "be32_bytes w = [ucast (drop_bit 24 w), ucast (drop_bit 16 w), ucast (drop_bit 8 w), ucast w]"

definition be64_bytes :: "64 word \<Rightarrow> bytes" where
  "be64_bytes w =
     [ucast (drop_bit 56 w), ucast (drop_bit 48 w), ucast (drop_bit 40 w), ucast (drop_bit 32 w),
      ucast (drop_bit 24 w), ucast (drop_bit 16 w), ucast (drop_bit 8 w), ucast w]"

definition be32_word :: "byte \<Rightarrow> byte \<Rightarrow> byte \<Rightarrow> byte \<Rightarrow> 32 word" where
  "be32_word a b c d =
     push_bit 24 (ucast a) OR push_bit 16 (ucast b) OR push_bit 8 (ucast c) OR ucast d"

fun be32_words :: "bytes \<Rightarrow> 32 word list" where
  "be32_words (a # b # c # d # bs) = be32_word a b c d # be32_words bs"
| "be32_words _ = []"

function chunks64 :: "bytes \<Rightarrow> bytes list" where
  "chunks64 m = (if length m < 64 then [] else take 64 m # chunks64 (drop 64 m))"
  by auto
termination
  by (relation "measure length") auto

declare chunks64.simps [simp del]

text \<open>The padding both hashes share: a one bit, zeros, and the bit length in 64 bits.\<close>

definition sha_pad :: "bytes \<Rightarrow> bytes" where
  "sha_pad m = m @ 0x80 # replicate ((119 - length m mod 64) mod 64) 0 @ be64_bytes (of_nat (8 * length m))"

section \<open>SHA-1\<close>

text \<open>The message schedule, newest word first.\<close>

fun sha1_extend :: "nat \<Rightarrow> 32 word list \<Rightarrow> 32 word list" where
  "sha1_extend 0 ws = ws"
| "sha1_extend (Suc n) ws = sha1_extend n (rotl32 1 (ws ! 2 XOR ws ! 7 XOR ws ! 13 XOR ws ! 15) # ws)"

type_synonym sha1_state = "32 word \<times> 32 word \<times> 32 word \<times> 32 word \<times> 32 word"

fun sha1_round :: "nat \<times> 32 word \<Rightarrow> sha1_state \<Rightarrow> sha1_state" where
  "sha1_round (t, w) (a, b, c, d, e) =
     (let (f, k) =
            (if t < 20 then ((b AND c) OR (NOT b AND d), 0x5a827999)
             else if t < 40 then (b XOR c XOR d, 0x6ed9eba1)
             else if t < 60 then ((b AND c) OR (b AND d) OR (c AND d), 0x8f1bbcdc)
             else (b XOR c XOR d, 0xca62c1d6))
      in (rotl32 5 a + f + e + k + w, a, rotl32 30 b, c, d))"

fun sha1_block :: "bytes \<Rightarrow> sha1_state \<Rightarrow> sha1_state" where
  "sha1_block m (a, b, c, d, e) =
     (let ws = rev (sha1_extend 64 (rev (be32_words m)));
          (a', b', c', d', e') = fold sha1_round (zip [0..<80] ws) (a, b, c, d, e)
      in (a + a', b + b', c + c', d + d', e + e'))"

definition sha1 :: "bytes \<Rightarrow> bytes" where
  "sha1 m =
     (case fold sha1_block (chunks64 (sha_pad m))
        (0x67452301, 0xefcdab89, 0x98badcfe, 0x10325476, 0xc3d2e1f0) of
        (a, b, c, d, e) \<Rightarrow>
          be32_bytes a @ be32_bytes b @ be32_bytes c @ be32_bytes d @ be32_bytes e)"

section \<open>SHA-256\<close>

definition sha256_K :: "32 word list" where
  "sha256_K =
   [1116352408, 1899447441, 3049323471, 3921009573, 961987163, 1508970993,
    2453635748, 2870763221, 3624381080, 310598401, 607225278, 1426881987,
    1925078388, 2162078206, 2614888103, 3248222580, 3835390401, 4022224774,
    264347078, 604807628, 770255983, 1249150122, 1555081692, 1996064986,
    2554220882, 2821834349, 2952996808, 3210313671, 3336571891, 3584528711,
    113926993, 338241895, 666307205, 773529912, 1294757372, 1396182291,
    1695183700, 1986661051, 2177026350, 2456956037, 2730485921, 2820302411,
    3259730800, 3345764771, 3516065817, 3600352804, 4094571909, 275423344,
    430227734, 506948616, 659060556, 883997877, 958139571, 1322822218,
    1537002063, 1747873779, 1955562222, 2024104815, 2227730452, 2361852424,
    2428436474, 2756734187, 3204031479, 3329325298]"

fun sha256_extend :: "nat \<Rightarrow> 32 word list \<Rightarrow> 32 word list" where
  "sha256_extend 0 ws = ws"
| "sha256_extend (Suc n) ws =
     (let x = ws ! 14; y = ws ! 1;
          s0 = rotr32 7 x XOR rotr32 18 x XOR drop_bit 3 x;
          s1 = rotr32 17 y XOR rotr32 19 y XOR drop_bit 10 y
      in sha256_extend n ((ws ! 15 + s0 + ws ! 6 + s1) # ws))"

type_synonym sha256_state =
  "32 word \<times> 32 word \<times> 32 word \<times> 32 word \<times> 32 word \<times> 32 word \<times> 32 word \<times> 32 word"

fun sha256_round :: "32 word \<times> 32 word \<Rightarrow> sha256_state \<Rightarrow> sha256_state" where
  "sha256_round (k, w) (a, b, c, d, e, f, g, h) =
     (let S1 = rotr32 6 e XOR rotr32 11 e XOR rotr32 25 e;
          ch = (e AND f) XOR (NOT e AND g);
          t1 = h + S1 + ch + k + w;
          S0 = rotr32 2 a XOR rotr32 13 a XOR rotr32 22 a;
          maj = (a AND b) XOR (a AND c) XOR (b AND c)
      in (t1 + (S0 + maj), a, b, c, d + t1, e, f, g))"

fun sha256_block :: "bytes \<Rightarrow> sha256_state \<Rightarrow> sha256_state" where
  "sha256_block m (a, b, c, d, e, f, g, h) =
     (let ws = rev (sha256_extend 48 (rev (be32_words m)));
          (a', b', c', d', e', f', g', h') = fold sha256_round (zip sha256_K ws) (a, b, c, d, e, f, g, h)
      in (a + a', b + b', c + c', d + d', e + e', f + f', g + g', h + h'))"

definition sha256 :: "bytes \<Rightarrow> bytes" where
  "sha256 m =
     (case fold sha256_block (chunks64 (sha_pad m))
        (0x6a09e667, 0xbb67ae85, 0x3c6ef372, 0xa54ff53a, 0x510e527f, 0x9b05688c, 0x1f83d9ab, 0x5be0cd19) of
        (a, b, c, d, e, f, g, h) \<Rightarrow>
          be32_bytes a @ be32_bytes b @ be32_bytes c @ be32_bytes d @
          be32_bytes e @ be32_bytes f @ be32_bytes g @ be32_bytes h)"

section \<open>HMAC\<close>

definition hmac_pad :: "(bytes \<Rightarrow> bytes) \<Rightarrow> bytes \<Rightarrow> byte \<Rightarrow> bytes" where
  "hmac_pad H k p =
     (let k0 = (if length k > 64 then H k else k)
      in map (\<lambda>b. b XOR p) (k0 @ replicate (64 - length k0) 0))"

definition hmac :: "(bytes \<Rightarrow> bytes) \<Rightarrow> bytes \<Rightarrow> bytes \<Rightarrow> bytes" where
  "hmac H k m = H (hmac_pad H k 0x5c @ H (hmac_pad H k 0x36 @ m))"

lemma length_be32_bytes [simp]: "length (be32_bytes w) = 4"
  by (simp add: be32_bytes_def)

lemma length_be64_bytes [simp]: "length (be64_bytes w) = 8"
  by (simp add: be64_bytes_def)

lemma length_sha1 [simp]: "length (sha1 m) = 20"
  by (simp add: sha1_def split: prod.split)

lemma length_sha256 [simp]: "length (sha256 m) = 32"
  by (simp add: sha256_def split: prod.split)

lemma length_hmac_sha1 [simp]: "length (hmac sha1 k m) = 20"
  by (simp add: hmac_def)

lemma length_hmac_sha256 [simp]: "length (hmac sha256 k m) = 32"
  by (simp add: hmac_def)

text \<open>The big-endian encoding of a 64-bit counter loses nothing.\<close>

lemma byte_bits:
  fixes v w :: "'a::len word"
  assumes "(ucast (drop_bit k v) :: byte) = ucast (drop_bit k w)" and "k \<le> n" and "n < k + 8"
  shows "bit v n = bit w n"
proof -
  have "bit (ucast (drop_bit k v) :: byte) (n - k) = bit (ucast (drop_bit k w) :: byte) (n - k)"
    using assms(1) by simp
  then show ?thesis
    using assms(2,3) by (simp add: bit_simps) arith
qed

lemma be64_bytes_inject [simp]: "be64_bytes v = be64_bytes w \<longleftrightarrow> v = w"
proof
  assume eq: "be64_bytes v = be64_bytes w"
  show "v = w"
  proof (rule bit_word_eqI)
    fix n :: nat
    assume "n < LENGTH(64)"
    then consider "n < 8" | "8 \<le> n" "n < 16" | "16 \<le> n" "n < 24" | "24 \<le> n" "n < 32"
      | "32 \<le> n" "n < 40" | "40 \<le> n" "n < 48" | "48 \<le> n" "n < 56" | "56 \<le> n" "n < 64"
      by fastforce
    then show "bit v n = bit w n"
      using eq byte_bits [of 0 v w n] byte_bits [of 8 v w n] byte_bits [of 16 v w n]
        byte_bits [of 24 v w n] byte_bits [of 32 v w n] byte_bits [of 40 v w n]
        byte_bits [of 48 v w n] byte_bits [of 56 v w n]
      by cases (simp_all add: be64_bytes_def)
  qed
qed simp

end
