(* ===== verification/Schema.thy ===== *)
theory Schema
  imports Go_Strings Sha
begin

text \<open>
  The tables of the PostgreSQL database that the device-facing half of the backend reads and writes
  (\<open>backend/migrations\<close>).  A table with a primary key is a map from the key to a row; the command
  queue, whose rows are read by sequence number, is a list together with its identity counter.  An
  SQL statement of the source is an operation on these tables.  \<open>bigint\<close> columns are integers,
  except the session counter, which the code converts to and from \<open>uint64\<close> bit by bit.

  Every statement may also fail (a lost connection, a cancelled request).  Each handler of the model
  takes a predicate on its own database calls that says which of them fail, so the theorems hold for
  every pattern of failures.  A failed statement changes nothing, and a transaction that does not
  reach its commit leaves the database as it was.
\<close>

record device_row =
  d_channel :: string
  d_mac :: "string option"
  d_label :: "string option"
  d_last_seen :: "time option"

record auth_row =
  ecdsa_pubkey :: "bytes option"
  session_secret :: "bytes option"
  session_epoch :: int
  session_last_counter :: "64 word"
  session_bootstrapped :: bool
  auth_digits :: int
  auth_last_seen_at :: "time option"

record cursor_row =
  applied_seq :: int
  last_poll_at :: "time option"

record cmd_row =
  c_seq :: int
  c_serial :: string
  c_script :: string
  c_note :: "string option"
  c_operator_key_id :: "int option"
  c_idempotency_key :: "string option"
  c_applied :: bool
  c_created_at :: time

record nonce_row =
  n_nonce :: bytes
  n_issued_at :: time

text \<open>Device logs: the cursor, the reassembly fragments and the assembled lines.\<close>

record log_cursor_row =
  lc_epoch :: int
  lc_ack_off :: int
  lc_last_seq :: int

record fragment_row =
  f_start_off :: "int option"
  f_payload :: string
  f_gap :: bool

record log_row =
  l_time :: time
  l_serial :: string
  l_boot_count :: "int option"
  l_seq :: "int option"
  l_offset_start :: "int option"
  l_payload :: string
  l_source :: string
  l_gap :: bool
  l_suspect :: bool

text \<open>One telemetry point; \<open>None\<close> is SQL \<open>NULL\<close>.\<close>

record telemetry_row =
  t_time :: time
  t_serial :: string
  t_batt_mv :: "int option"
  t_batt_pct :: "int option"
  t_bad_boots :: "int option"
  t_boot_count :: "int option"
  t_reset_reason :: "string option"
  t_usb :: "bool option"
  t_uptime_ms :: "int option"
  t_running_ver :: "string option"
  t_channel :: "string option"
  t_run_part :: "string option"
  t_runstate :: "int option"
  t_o0 :: "int option"
  t_o1 :: "int option"
  t_inv :: "string option"
  t_boots :: "int option"
  t_rr :: "int option"
  t_ota_rr :: "int option"
  t_mv :: "int option"
  t_mv_err :: "int option"
  t_stage :: "string option"
  t_src_ip :: "string option"

text \<open>Firmware versions, channels and rollout targets.\<close>

record firmware_row =
  fw_sha256 :: string
  fw_blob_path :: string
  fw_size_bytes :: int
  fw_notes :: "string option"

record rollout_row =
  r_id :: int
  r_serial :: string
  r_channel :: string
  r_version :: string
  r_state :: string
  r_pinned :: bool

record db =
  devices :: "serial \<rightharpoonup> device_row"
  device_auth :: "serial \<rightharpoonup> auth_row"
  c2_nonce :: "serial \<rightharpoonup> nonce_row"
  c2_cursor :: "serial \<rightharpoonup> cursor_row"
  command_queue :: "cmd_row list"
  cmd_next_seq :: int
  log_cursor :: "serial \<rightharpoonup> log_cursor_row"
  log_fragment :: "serial \<times> int \<times> int \<rightharpoonup> fragment_row"
  logs :: "log_row list"
  telemetry :: "telemetry_row list"
  firmware_versions :: "string \<rightharpoonup> firmware_row"
  channels :: "string \<rightharpoonup> string option"
  rollout_targets :: "rollout_row list"
  rollout_next_id :: int

text \<open>The tables right after the migrations: the two seeded channels and nothing else.\<close>

definition empty_db :: db where
  "empty_db =
     \<lparr>devices = Map.empty, device_auth = Map.empty, c2_nonce = Map.empty, c2_cursor = Map.empty,
      command_queue = [], cmd_next_seq = 1, log_cursor = Map.empty, log_fragment = Map.empty,
      logs = [], telemetry = [], firmware_versions = Map.empty,
      channels = [''stable'' \<mapsto> None, ''beta'' \<mapsto> None], rollout_targets = [], rollout_next_id = 1\<rparr>"

section \<open>Column defaults\<close>

definition new_auth_row :: "bytes option \<Rightarrow> auth_row" where
  "new_auth_row pk =
     \<lparr>ecdsa_pubkey = pk, session_secret = None, session_epoch = 0, session_last_counter = 0,
      session_bootstrapped = False, auth_digits = 8, auth_last_seen_at = None\<rparr>"

section \<open>The command queue\<close>

text \<open>
  The partial unique index \<open>command_queue_pending_dedup\<close>: at most one row per serial and
  idempotency key among the rows with a key that are not applied.
\<close>

definition pending_key :: "string \<Rightarrow> string \<Rightarrow> cmd_row \<Rightarrow> bool" where
  "pending_key serial key r \<longleftrightarrow>
     c_serial r = serial \<and> c_idempotency_key r = Some key \<and> \<not> c_applied r"

definition queue_ok :: "cmd_row list \<Rightarrow> int \<Rightarrow> bool" where
  "queue_ok q nxt \<longleftrightarrow>
     sorted_wrt (\<lambda>a b. c_seq a < c_seq b) q \<and>
     (\<forall>r \<in> set q. 0 < c_seq r \<and> c_seq r < nxt) \<and> 0 < nxt"

definition dedup_ok :: "cmd_row list \<Rightarrow> bool" where
  "dedup_ok q \<longleftrightarrow>
     (\<forall>r \<in> set q. \<forall>r' \<in> set q. \<forall>s k. pending_key s k r \<longrightarrow> pending_key s k r' \<longrightarrow> c_seq r = c_seq r')"

text \<open>
  \<open>SELECT ... FROM command_queue WHERE serial IN ($1, '*') AND seq > $2 ORDER BY seq LIMIT 1\<close>.
\<close>

definition targets :: "string \<Rightarrow> cmd_row \<Rightarrow> bool" where
  "targets serial r \<longleftrightarrow> c_serial r = serial \<or> c_serial r = ''*''"

definition pending_cmds :: "cmd_row list \<Rightarrow> string \<Rightarrow> int \<Rightarrow> cmd_row list" where
  "pending_cmds q serial applied = sort_key c_seq (filter (\<lambda>r. targets serial r \<and> c_seq r > applied) q)"

definition next_cmd :: "cmd_row list \<Rightarrow> string \<Rightarrow> int \<Rightarrow> cmd_row option" where
  "next_cmd q serial applied =
     (case pending_cmds q serial applied of [] \<Rightarrow> None | r # _ \<Rightarrow> Some r)"

lemma next_cmd_None: "next_cmd q s a = None \<longleftrightarrow> (\<forall>r \<in> set q. targets s r \<longrightarrow> c_seq r \<le> a)"
proof -
  have "next_cmd q s a = None \<longleftrightarrow> set (pending_cmds q s a) = {}"
    by (simp add: next_cmd_def split: list.split)
  also have "\<dots> \<longleftrightarrow> (\<forall>r \<in> set q. targets s r \<longrightarrow> c_seq r \<le> a)"
    by (auto simp: pending_cmds_def)
  finally show ?thesis .
qed

lemma next_cmd_Some:
  assumes "next_cmd q s a = Some r"
  shows "r \<in> set q" "targets s r" "a < c_seq r"
    "\<And>r'. r' \<in> set q \<Longrightarrow> targets s r' \<Longrightarrow> a < c_seq r' \<Longrightarrow> c_seq r \<le> c_seq r'"
proof -
  obtain rs where rs: "pending_cmds q s a = r # rs"
    using assms by (auto simp: next_cmd_def split: list.splits)
  have mem: "set (pending_cmds q s a) = {r \<in> set q. targets s r \<and> a < c_seq r}"
    by (auto simp: pending_cmds_def)
  then show "r \<in> set q" "targets s r" "a < c_seq r"
    using rs by (metis (mono_tags, lifting) list.set_intros(1) mem_Collect_eq)+
  have "sorted (map c_seq (r # rs))"
    using rs by (metis pending_cmds_def sorted_sort_key)
  then show "c_seq r \<le> c_seq r'" if "r' \<in> set q" "targets s r'" "a < c_seq r'" for r'
    using that mem rs by (metis (mono_tags, lifting) image_eqI list.set_map list.simps(9)
        mem_Collect_eq order_refl set_ConsD sorted_simps(2))
qed

end
