(* ===== verification/Hotp.thy ===== *)
theory Hotp
  imports Sha
begin

text \<open>
  Package \<open>auth\<close>: the one-time password of RFC 4226 (\<open>hotp.go\<close>) and the check of a session's
  password and counter (\<open>session.go\<close>, \<open>validate.go\<close>).  Counters are \<open>uint64\<close>, passwords are
  \<open>uint32\<close>; the look-ahead \<open>lastCounter + WindowFar\<close> wraps as it does in Go.
\<close>

section \<open>HOTP\<close>

primrec pow10_loop :: "nat \<Rightarrow> 32 word \<Rightarrow> 32 word" where
  "pow10_loop 0 p = p"
| "pow10_loop (Suc i) p = pow10_loop i (p * 10)"

definition pow10 :: "int \<Rightarrow> 32 word" where
  "pow10 n = pow10_loop (nat n) 1"

definition HOTP :: "bytes \<Rightarrow> 64 word \<Rightarrow> int \<Rightarrow> 32 word" where
  "HOTP secret c digits =
     (if digits < 6 \<or> digits > 8 then 0
      else
        let msg = be64_bytes c;
            sum = hmac sha1 secret msg;
            off = unat (sum ! (length sum - 1) AND 0x0f);
            bin = push_bit 24 (ucast (sum ! off AND 0x7f)) OR
                  push_bit 16 (ucast (sum ! (off + 1))) OR
                  push_bit 8 (ucast (sum ! (off + 2))) OR
                  ucast (sum ! (off + 3))
        in bin mod pow10 digits)"

text \<open>
  The reference: RFC 4226, section 5.3, on natural numbers.  The four bytes at the offset are
  read as a big-endian number, its top bit is dropped and the remainder modulo \<open>10 ^ digits\<close> is
  the password.
\<close>

definition nat_of_be :: "bytes \<Rightarrow> nat" where
  "nat_of_be bs = foldl (\<lambda>acc b. acc * 256 + unat b) 0 bs"

definition rfc4226 :: "bytes \<Rightarrow> nat \<Rightarrow> nat" where
  "rfc4226 mac digits =
     nat_of_be (take 4 (drop (unat (last mac) mod 16) mac)) mod 2 ^ 31 mod 10 ^ digits"

section \<open>Session check\<close>

record auth_config =
  Digits :: int
  Window :: "64 word"
  WindowFar :: "64 word"

record auth_result =
  OK :: bool
  NewCounter :: "64 word"
  Reason :: string

definition reject :: "string \<Rightarrow> auth_result" where
  "reject r = \<lparr>OK = False, NewCounter = 0, Reason = r\<rparr>"

definition ValidateSession ::
  "auth_config \<Rightarrow> bytes option \<Rightarrow> 64 word \<Rightarrow> bool \<Rightarrow> 64 word \<Rightarrow> 32 word \<Rightarrow> auth_result" where
  "ValidateSession cfg secret lastCounter bootstrapped c otp =
     (case secret of
        None \<Rightarrow> reject ''no_session''
      | Some sec \<Rightarrow>
          let matches = HOTP sec c (Digits cfg) = otp in
          if \<not> bootstrapped then
            (if c \<le> WindowFar cfg \<and> matches
             then \<lparr>OK = True, NewCounter = c, Reason = ''session-bootstrap''\<rparr>
             else reject ''no_match'')
          else if c \<le> lastCounter then reject ''replay''
          else if c \<le> lastCounter + WindowFar cfg then
            (if matches then \<lparr>OK = True, NewCounter = c, Reason = ''session''\<rparr>
             else reject ''no_match'')
          else reject ''no_match'')"

section \<open>The truncation agrees with the reference\<close>

lemma OK_reject [simp]: "\<not> OK (reject r)"
  by (simp add: reject_def)

lemma digits_cases:
  assumes "6 \<le> d" and "d \<le> (8::int)"
  obtains "d = 6" | "d = 7" | "d = 8"
  using assms by linarith

lemma pow10_loop_eq: "pow10_loop n p = p * 10 ^ n"
  by (induction n arbitrary: p) (simp_all add: ac_simps)

lemma unat_pow10: "6 \<le> d \<Longrightarrow> d \<le> 8 \<Longrightarrow> unat (pow10 d) = 10 ^ nat d"
  by (erule (1) digits_cases) (simp_all add: pow10_def pow10_loop_eq)

text \<open>Bytes laid out by shifts and ors, as a number.\<close>

lemma push_or_nat:
  fixes a m :: nat
  assumes "m < 2 ^ n"
  shows "push_bit n a OR m = a * 2 ^ n + m"
proof -
  have "push_bit n a AND m = 0"
  proof (rule bit_eqI)
    fix k
    have "k < n" if "bit m k"
      using that assms by (metis bit_take_bit_iff take_bit_nat_eq_self)
    then show "bit (push_bit n a AND m) k = bit 0 k"
      by (auto simp: bit_simps)
  qed
  then show ?thesis
    by (simp add: disjunctive_add_eq_or [symmetric] push_bit_eq_mult)
qed

lemma unat_byte_less: "unat (b :: byte) < 256"
  using unsigned_less [of b, where ?'a = nat] by simp

lemma unat_ucast_byte [simp]: "unat (ucast (b :: byte) :: 32 word) = unat b"
  using unat_byte_less [of b] by (simp add: unsigned_ucast_eq take_bit_nat_eq_self)

lemma unat_push_byte:
  assumes "n + 8 \<le> 32"
  shows "unat (push_bit n (ucast (b :: byte)) :: 32 word) = push_bit n (unat b)"
proof -
  have "unat b * 2 ^ n < 2 ^ 8 * 2 ^ n"
    using unat_byte_less [of b] by simp
  also have "\<dots> \<le> 2 ^ 32"
    using assms by (metis add.commute one_le_numeral power_add power_increasing)
  finally show ?thesis
    unfolding unsigned_push_bit_eq unat_ucast_byte
    by (intro take_bit_nat_eq_self) (simp add: push_bit_eq_mult)
qed

lemma unat_be32:
  "unat (push_bit 24 (ucast (a :: byte)) OR push_bit 16 (ucast (b :: byte)) OR
         push_bit 8 (ucast (c :: byte)) OR ucast (d :: byte) :: 32 word) =
   ((unat a * 256 + unat b) * 256 + unat c) * 256 + unat d"
proof -
  have 1: "push_bit 8 (unat c) OR unat d = unat c * 2 ^ 8 + unat d"
    using unat_byte_less [of d] by (intro push_or_nat) simp
  have 2: "push_bit 16 (unat b) OR (unat c * 2 ^ 8 + unat d) = unat b * 2 ^ 16 + (unat c * 2 ^ 8 + unat d)"
    using unat_byte_less [of c] unat_byte_less [of d] by (intro push_or_nat) simp
  have 3: "push_bit 24 (unat a) OR (unat b * 2 ^ 16 + (unat c * 2 ^ 8 + unat d)) =
      unat a * 2 ^ 24 + (unat b * 2 ^ 16 + (unat c * 2 ^ 8 + unat d))"
    using unat_byte_less [of b] unat_byte_less [of c] unat_byte_less [of d]
    by (intro push_or_nat) simp
  show ?thesis
    by (simp add: unsigned_or_eq unat_push_byte or.assoc 1 [simplified] 2 [simplified] 3 [simplified])
qed

lemma unat_and_mask_byte:
  "unat (b AND 0x0f :: byte) = unat b mod 16" "unat (b AND 0x7f :: byte) = unat b mod 128"
proof -
  have "unat (b AND mask n :: byte) = unat b mod 2 ^ n" for n
    unfolding take_bit_eq_mask [symmetric] unsigned_take_bit_eq by (rule take_bit_eq_mod)
  from this [of 4] this [of 7] show
    "unat (b AND 0x0f :: byte) = unat b mod 16" "unat (b AND 0x7f :: byte) = unat b mod 128"
    by (simp_all add: mask_eq_exp_minus_1)
qed

lemma nat_of_be4: "nat_of_be [a, b, c, d] = ((unat a * 256 + unat b) * 256 + unat c) * 256 + unat d"
  by (simp add: nat_of_be_def)

lemma take4_drop:
  "i + 3 < length xs \<Longrightarrow> take 4 (drop i xs) = [xs ! i, xs ! (i + 1), xs ! (i + 2), xs ! (i + 3)]"
  by (simp add: list_eq_iff_nth_eq nth_Cons' less_Suc_eq numeral_eq_Suc)

lemma top_bit_mod:
  fixes a b c d :: nat
  assumes "b < 256" and "c < 256" and "d < 256"
  shows "(((a mod 128) * 256 + b) * 256 + c) * 256 + d =
         (((a * 256 + b) * 256 + c) * 256 + d) mod 2 ^ 31"
proof -
  define q r where "q = a div 128" and "r = a mod 128"
  have a: "a = q * 128 + r" and r: "r < 128"
    by (simp_all add: q_def r_def)
  have "((a * 256 + b) * 256 + c) * 256 + d = ((r * 256 + b) * 256 + c) * 256 + d + q * 2 ^ 31"
    by (simp add: a algebra_simps)
  moreover have "((r * 256 + b) * 256 + c) * 256 + d < 2 ^ 31"
    using r assms by simp
  ultimately show ?thesis
    by (simp only: r_def [symmetric] mod_mult_self1 mod_less)
qed

text \<open>
  C5 (session passwords).  For every admissible digit count the shifted and masked word arithmetic
  of \<open>HOTP\<close> computes the RFC 4226 value of the HMAC-SHA-1 digest of the big-endian counter, with
  every index inside the digest; in particular the password has at most \<open>digits\<close> decimal digits.
\<close>

theorem HOTP_rfc4226:
  assumes "6 \<le> digits" and "digits \<le> 8"
  shows "unat (HOTP secret c digits) = rfc4226 (hmac sha1 secret (be64_bytes c)) (nat digits) \<and>
         unat (HOTP secret c digits) < 10 ^ nat digits"
proof -
  define mac where "mac = hmac sha1 secret (be64_bytes c)"
  define off where "off = unat (last mac) mod 16"
  have len: "length mac = 20"
    by (simp add: mac_def)
  then have last: "last mac = mac ! 19"
    by (cases "mac = []") (simp_all add: last_conv_nth)
  have off: "off + 3 < length mac"
    using len by (simp add: off_def)
  have "HOTP secret c digits =
      (push_bit 24 (ucast (mac ! off AND 0x7f)) OR push_bit 16 (ucast (mac ! (off + 1))) OR
       push_bit 8 (ucast (mac ! (off + 2))) OR ucast (mac ! (off + 3))) mod pow10 digits"
    using assms by (simp add: HOTP_def Let_def mac_def [symmetric] last len unat_and_mask_byte off_def)
  then have "unat (HOTP secret c digits) =
      ((((unat (mac ! off) mod 128) * 256 + unat (mac ! (off + 1))) * 256 + unat (mac ! (off + 2))) * 256
       + unat (mac ! (off + 3))) mod 10 ^ nat digits"
    by (simp only: unat_mod unat_be32 unat_and_mask_byte unat_pow10 [OF assms])
  also have "\<dots> = rfc4226 mac (nat digits)"
    by (simp only: rfc4226_def off_def [symmetric] take4_drop [OF off] nat_of_be4
        top_bit_mod unat_byte_less)
  finally have eq: "unat (HOTP secret c digits) = rfc4226 mac (nat digits)" .
  then show ?thesis
    by (simp add: mac_def rfc4226_def)
qed

theorem HOTP_rfc4226_witness:
  "unat (HOTP [1, 2, 3] 7 6) = rfc4226 (hmac sha1 [1, 2, 3] (be64_bytes 7)) (nat 6) \<and>
   unat (HOTP [1, 2, 3] 7 6) < 10 ^ nat 6"
  by (rule HOTP_rfc4226) simp_all

section \<open>What an accepted counter satisfies\<close>

text \<open>
  The session rule on unbounded numbers: the first counter of a session lies within the window, a
  later one lies strictly above the last and at most a window ahead of it.
\<close>

definition session_fresh :: "auth_config \<Rightarrow> 64 word \<Rightarrow> bool \<Rightarrow> 64 word \<Rightarrow> bool" where
  "session_fresh cfg lastCounter bootstrapped c \<longleftrightarrow>
     (if bootstrapped
      then unat lastCounter < unat c \<and> unat c \<le> unat lastCounter + unat (WindowFar cfg)
      else unat c \<le> unat (WindowFar cfg))"

lemma window_wraps:
  fixes l w c :: "64 word"
  assumes "\<not> unat l + unat w < 2 ^ 64" and "l < c"
  shows "\<not> c \<le> l + w"
proof -
  have lw: "unat l < 2 ^ 64" "unat w < 2 ^ 64"
    using unsigned_less [of l, where ?'a = nat] unsigned_less [of w, where ?'a = nat] by simp_all
  have "unat (l + w) = (unat l + unat w) mod 2 ^ 64"
    by (simp add: unat_word_ariths(1))
  also have "\<dots> = unat l + unat w - 2 ^ 64"
    using assms(1) lw by (subst le_mod_geq) simp_all
  finally have "unat (l + w) < unat l"
    using assms(1) lw by linarith
  then show ?thesis
    using assms(2) by (simp add: word_le_nat_alt word_less_nat_alt)
qed

lemma ValidateSession_OK:
  "OK (ValidateSession cfg secret lastCounter bootstrapped c otp) \<longleftrightarrow>
   (\<exists>sec. secret = Some sec \<and> HOTP sec c (Digits cfg) = otp \<and>
      (if bootstrapped then lastCounter < c \<and> c \<le> lastCounter + WindowFar cfg else c \<le> WindowFar cfg))"
  by (auto simp: ValidateSession_def Let_def split: option.split)

lemma ValidateSession_NewCounter:
  "OK (ValidateSession cfg secret lastCounter bootstrapped c otp) \<Longrightarrow>
   NewCounter (ValidateSession cfg secret lastCounter bootstrapped c otp) = c"
  by (auto simp: ValidateSession_def Let_def split: option.splits if_splits)

lemma session_fresh_word:
  assumes "bootstrapped \<Longrightarrow> unat lastCounter + unat (WindowFar cfg) < 2 ^ 64"
  shows "session_fresh cfg lastCounter bootstrapped c \<longleftrightarrow>
    (if bootstrapped then lastCounter < c \<and> c \<le> lastCounter + WindowFar cfg else c \<le> WindowFar cfg)"
  using assms by (auto simp: session_fresh_def word_le_nat_alt word_less_nat_alt unat_word_ariths(1))

text \<open>
  C4 (session check).  The check accepts exactly when a session secret exists, the password is the
  HOTP of the claimed counter under it, and the counter is fresh in unbounded arithmetic, except
  where \<open>lastCounter + WindowFar\<close> exceeds 64 bits: there the wrapped bound refuses every counter.
  What it accepts is recorded as the new counter.
\<close>

theorem ValidateSession_accepts:
  "OK (ValidateSession cfg secret lastCounter bootstrapped c otp) \<longleftrightarrow>
     (\<exists>sec. secret = Some sec \<and> HOTP sec c (Digits cfg) = otp \<and>
        session_fresh cfg lastCounter bootstrapped c \<and>
        (bootstrapped \<longrightarrow> unat lastCounter + unat (WindowFar cfg) < 2 ^ 64))"
proof (cases "bootstrapped \<longrightarrow> unat lastCounter + unat (WindowFar cfg) < 2 ^ 64")
  case True
  then show ?thesis
    by (auto simp: ValidateSession_OK session_fresh_word)
next
  case False
  then show ?thesis
    using window_wraps [of lastCounter "WindowFar cfg" c] by (auto simp: ValidateSession_OK)
qed

theorem ValidateSession_accepts_witness:
  "OK (ValidateSession \<lparr>Digits = 8, Window = 8, WindowFar = 4096\<rparr> (Some [1]) 5 True 6 (HOTP [1] 6 8)) \<and>
   \<not> OK (ValidateSession \<lparr>Digits = 8, Window = 8, WindowFar = 4096\<rparr> (Some [1]) 6 True 6 (HOTP [1] 6 8))"
  by (simp add: ValidateSession_accepts session_fresh_def)

end
