(* ===== verification/C2_Channel.thy ===== *)
theory C2_Channel
  imports Schema Hotp
begin

text \<open>
  The command channel: \<open>ingestcore/c2.go\<close> (the poll), \<open>c2auth.go\<close> (session authentication),
  \<open>c2rekey.go\<close> (the signed re-key handshake), \<open>commandstore/commandstore.go\<close> (enqueueing and the
  dedup flag) and \<open>devicestore.Register\<close> (registration and re-bonding), each a function of the
  database state, the request and the failing database calls.

  Not modelled: the discarded dummy HMAC computations of the rejection paths, which only equalise
  the response time.
\<close>

section \<open>Authentication (c2auth.go)\<close>

datatype c2_call =
    C2Begin | C2AuthSelect | C2AuthUpdate | C2CursorUpsert | C2MarkApplied | C2NextCommand | C2Commit

definition authWindow :: "64 word" where
  "authWindow = 8"

definition authWindowFar :: "64 word" where
  "authWindowFar = 4096"

definition digitsOr8 :: "int \<Rightarrow> int" where
  "digitsOr8 d = (if d < 6 \<or> d > 8 then 8 else d)"

definition auth_cfg :: "auth_row \<Rightarrow> auth_config" where
  "auth_cfg row = \<lparr>Digits = digitsOr8 (auth_digits row), Window = authWindow, WindowFar = authWindowFar\<rparr>"

definition authDevice ::
  "(c2_call \<Rightarrow> bool) \<Rightarrow> time \<Rightarrow> 'a db_scheme \<Rightarrow> serial \<Rightarrow> query \<Rightarrow> bool \<times> 'a db_scheme" where
  "authDevice flt now db serial q =
     (case (ParseUint 64 (q_get q ''c''), ParseUint 32 (q_get q ''otp'')) of
        ((claimedC, None), (otp64, None)) \<Rightarrow>
          (if flt C2AuthSelect then (False, db)
           else case device_auth db serial of
             None \<Rightarrow> (False, db)
           | Some row \<Rightarrow>
               (case session_secret row of
                  None \<Rightarrow> (False, db)
                | Some sec \<Rightarrow>
                    let res = ValidateSession (auth_cfg row) (Some sec) (session_last_counter row)
                                (session_bootstrapped row) (of_nat claimedC) (of_nat otp64)
                    in if \<not> OK res then (False, db)
                       else if flt C2AuthUpdate then (False, db)
                       else (True, db\<lparr>device_auth := (device_auth db)(serial \<mapsto>
                              row\<lparr>session_last_counter := NewCounter res, session_bootstrapped := True,
                                  auth_last_seen_at := Some now\<rparr>)\<rparr>)))
      | _ \<Rightarrow> (False, db))"

section \<open>The poll (c2.go)\<close>

definition c2MaxWaitS :: int where
  "c2MaxWaitS = 25"

text \<open>\<open>MarkApplied\<close> of \<open>commandstore.go\<close>.\<close>

definition MarkApplied :: "cmd_row list \<Rightarrow> serial \<Rightarrow> int \<Rightarrow> cmd_row list" where
  "MarkApplied q serial uptoSeq =
     map (\<lambda>r. if c_serial r = serial \<and> c_seq r \<le> uptoSeq \<and> c_idempotency_key r \<noteq> None \<and> \<not> c_applied r
              then r\<lparr>c_applied := True\<rparr> else r) q"

text \<open>
  The upsert of the cursor: \<open>GREATEST\<close> on conflict, and a foreign-key error (\<open>None\<close>) for a serial
  that is not in \<open>devices\<close>.
\<close>

definition cursor_upsert :: "time \<Rightarrow> 'a db_scheme \<Rightarrow> serial \<Rightarrow> int \<Rightarrow> (int \<times> 'a db_scheme) option" where
  "cursor_upsert now db serial ack =
     (if devices db serial = None then None
      else
        let applied = (case c2_cursor db serial of None \<Rightarrow> ack | Some cr \<Rightarrow> max (applied_seq cr) ack)
        in Some (applied, db\<lparr>c2_cursor := (c2_cursor db)(serial \<mapsto>
                   \<lparr>applied_seq = applied, last_poll_at = Some now\<rparr>)\<rparr>))"

datatype c2_outcome = Reply http_resp | Hold serial int time

definition serve_cmd :: "cmd_row \<Rightarrow> http_resp" where
  "serve_cmd r =
     \<lparr>rs_status = 200,
      rs_headers = [(''X-C2-Seq'', FormatInt (c_seq r)), (''Content-Type'', ''text/plain; charset=utf-8'')],
      rs_body = c_script r\<rparr>"

definition no_content :: http_resp where
  "no_content = http_error 204"

definition c2_ack :: "query \<Rightarrow> int" where
  "c2_ack q = (let ack = fst (ParseInt (q_get q ''ack'')) in if ack < 0 then 0 else ack)"

text \<open>
  \<open>Hold\<close> stands for the call of \<open>c2LongPoll\<close> with its arguments, after which the handler returns;
  its loop is the subject of another theory.
\<close>

definition handleC2 ::
  "(c2_call \<Rightarrow> bool) \<Rightarrow> time \<Rightarrow> 'a db_scheme \<Rightarrow> query \<Rightarrow> c2_outcome \<times> 'a db_scheme" where
  "handleC2 flt now db q =
     (let serial = q_get q ''sn''; ack = c2_ack q in
      if serial = [] then (Reply (http_error 404), db)
      else if flt C2Begin then (Reply (http_error 500), db)
      else case authDevice flt now db serial q of
        (False, _) \<Rightarrow> (Reply (http_error 401), db)
      | (True, tx1) \<Rightarrow>
          (case (if flt C2CursorUpsert then None else cursor_upsert now tx1 serial ack) of
             None \<Rightarrow> (Reply (http_error 404), db)
           | Some (applied, tx2) \<Rightarrow>
               if flt C2MarkApplied then (Reply (http_error 500), db)
               else
                 let tx3 = tx2\<lparr>command_queue := MarkApplied (command_queue tx2) serial applied\<rparr> in
                 if flt C2NextCommand then (Reply (http_error 500), db)
                 else case next_cmd (command_queue tx3) serial applied of
                   None \<Rightarrow>
                     (if flt C2Commit then (Reply (http_error 500), db)
                      else
                        let waitS = fst (Atoi (q_get q ''wait'')) in
                        if waitS \<le> 0 then (Reply no_content, tx3)
                        else (Hold serial applied ((if waitS > c2MaxWaitS then c2MaxWaitS else waitS) * second), tx3))
                 | Some r \<Rightarrow>
                     (if flt C2Commit then (Reply (http_error 500), db)
                      else (Reply (serve_cmd r), tx3))))"

section \<open>Enqueueing (commandstore.go)\<close>

definition ScriptMax :: nat where
  "ScriptMax = 8191"

datatype cmd_error = ErrScriptEmpty | ErrScriptTooLong | ErrUnknownSerial | ErrDatabase | ErrNoRows

datatype enqueue_call = EqDeviceSelect | EqInsert | EqReadBack

text \<open>
  \<open>INSERT INTO command_queue\<close>, with \<open>ON CONFLICT ... DO NOTHING\<close> when the row carries a key.  The
  identity counter is drawn before the conflict is detected, so a deduplicated insert leaves a gap.
\<close>

definition insert_cmd ::
  "time \<Rightarrow> 'a db_scheme \<Rightarrow> serial \<Rightarrow> string \<Rightarrow> string option \<Rightarrow> int option \<Rightarrow> string option \<Rightarrow>
   int option \<times> 'a db_scheme" where
  "insert_cmd now db serial script note opkey key =
     (let seq = cmd_next_seq db;
          conflict = (case key of None \<Rightarrow> False | Some k \<Rightarrow> list_ex (pending_key serial k) (command_queue db));
          row = \<lparr>c_seq = seq, c_serial = serial, c_script = script, c_note = note, c_operator_key_id = opkey,
                 c_idempotency_key = key, c_applied = False, c_created_at = now\<rparr>
      in if conflict then (None, db\<lparr>cmd_next_seq := seq + 1\<rparr>)
         else (Some seq, db\<lparr>command_queue := command_queue db @ [row], cmd_next_seq := seq + 1\<rparr>))"

definition pending_seq :: "cmd_row list \<Rightarrow> serial \<Rightarrow> string \<Rightarrow> int option" where
  "pending_seq q serial key =
     (case sort_key c_seq (filter (pending_key serial key) q) of [] \<Rightarrow> None | r # _ \<Rightarrow> Some (c_seq r))"

text \<open>The checks before the insert: the script's length in bytes and the registration of a target.\<close>

definition enqueue_check :: "(enqueue_call \<Rightarrow> bool) \<Rightarrow> 'a db_scheme \<Rightarrow> serial \<Rightarrow> string \<Rightarrow> cmd_error option" where
  "enqueue_check flt db serial script =
     (if script = [] then Some ErrScriptEmpty
      else if length script > ScriptMax then Some ErrScriptTooLong
      else if serial \<noteq> ''*'' then
        (if flt EqDeviceSelect then Some ErrDatabase
         else if devices db serial = None then Some ErrUnknownSerial
         else None)
      else None)"

text \<open>The insert: with a non-empty key it deduplicates and reads the pending row's number back.\<close>

definition enqueue_insert ::
  "(enqueue_call \<Rightarrow> bool) \<Rightarrow> time \<Rightarrow> 'a db_scheme \<Rightarrow> serial \<Rightarrow> string \<Rightarrow> string option \<Rightarrow> int \<Rightarrow>
   string option \<Rightarrow> (cmd_error + int) \<times> 'a db_scheme" where
  "enqueue_insert flt now db serial script note operatorKeyID key =
     (if flt EqInsert then (Inl ErrDatabase, db)
      else case insert_cmd now db serial script note (Some operatorKeyID) key of
        (Some seq, db') \<Rightarrow> (Inr seq, db')
      | (None, db') \<Rightarrow>
          (if flt EqReadBack then (Inl ErrDatabase, db')
           else case pending_seq (command_queue db') serial (the key) of
             None \<Rightarrow> (Inl ErrNoRows, db')
           | Some seq \<Rightarrow> (Inr seq, db')))"

definition dedup_key :: "string option \<Rightarrow> string option" where
  "dedup_key key = (if key = Some [] then None else key)"

definition Enqueue ::
  "(enqueue_call \<Rightarrow> bool) \<Rightarrow> time \<Rightarrow> 'a db_scheme \<Rightarrow> serial \<Rightarrow> string \<Rightarrow> string option \<Rightarrow> int \<Rightarrow>
   string option \<Rightarrow> (cmd_error + int) \<times> 'a db_scheme" where
  "Enqueue flt now db serial script note operatorKeyID idempotencyKey =
     (case enqueue_check flt db serial script of
        Some e \<Rightarrow> (Inl e, db)
      | None \<Rightarrow> enqueue_insert flt now db serial script note operatorKeyID (dedup_key idempotencyKey))"

section \<open>The re-key handshake (c2rekey.go)\<close>

definition nonceLen :: nat where
  "nonceLen = 16"

definition nonceTTL :: time where
  "nonceTTL = 60 * second"

definition pubkeyLen :: nat where
  "pubkeyLen = 65"

definition secretSize :: nat where
  "secretSize = 20"

definition newline :: string where
  "newline = [char_of (10::nat)]"

definition rekeyMsg :: "string \<Rightarrow> string \<Rightarrow> bytes \<Rightarrow> bytes" where
  "rekeyMsg sn nonceHex secret =
     bytes_of (''c2rekey'' @ newline @ sn @ newline @ nonceHex @ newline @ EncodeToString (sha256 secret))"

text \<open>
  \<open>elliptic.Unmarshal(P256, b)\<close>: an uncompressed point whose coordinates are below the field prime
  and satisfy the curve equation \<open>y\<^sup>2 = x\<^sup>3 - 3 x + b\<close>.
\<close>

definition p256_p :: int where
  "p256_p = 2 ^ 256 - 2 ^ 224 + 2 ^ 192 + 2 ^ 96 - 1"

definition p256_b :: int where
  "p256_b = 0x5ac635d8aa3a93e7b3ebbd55769886bc651d06b0cc53b0f63bce3c3e27d2604b"

definition p256_unmarshal :: "bytes \<Rightarrow> (int \<times> int) option" where
  "p256_unmarshal b =
     (if length b \<noteq> 65 \<or> b ! 0 \<noteq> 4 then None
      else
        let x = int (nat_of_be (take 32 (drop 1 b))); y = int (nat_of_be (drop 33 b)) in
        if x \<ge> p256_p \<or> y \<ge> p256_p then None
        else if (y * y) mod p256_p \<noteq> (x * x * x - 3 * x + p256_b) mod p256_p then None
        else Some (x, y))"

text \<open>
  \<open>ecdsa.VerifyASN1\<close> is the parameter \<open>verify_asn1\<close>: a predicate of the public point, the digest
  and the DER signature.
\<close>

type_synonym ecdsa_verifier = "int \<times> int \<Rightarrow> bytes \<Rightarrow> bytes \<Rightarrow> bool"

definition verifyRekeySig ::
  "ecdsa_verifier \<Rightarrow> bytes \<Rightarrow> string \<Rightarrow> string \<Rightarrow> bytes \<Rightarrow> bytes \<Rightarrow> bool" where
  "verifyRekeySig verify_asn1 pub sn nonceHex secret sig =
     (if length pub \<noteq> pubkeyLen \<or> pub ! 0 \<noteq> 4 then False
      else case p256_unmarshal pub of
        None \<Rightarrow> False
      | Some pk \<Rightarrow> verify_asn1 pk (sha256 (rekeyMsg sn nonceHex secret)) sig)"

text \<open>
  \<open>handleC2Challenge\<close>: the nonce is the outcome of \<open>rand.Read\<close> (\<open>None\<close> for an error of it); the
  error of the insert is ignored, as in the source.  The JSON body is the compact encoding of the
  one-entry map with the newline that \<open>json.Encoder\<close> appends.
\<close>

datatype challenge_call = ChInsert

definition nonce_json :: "bytes \<Rightarrow> string" where
  "nonce_json nonce =
     [char_of (123::nat), char_of (34::nat)] @ ''nonce'' @ [char_of (34::nat), CHR '':'', char_of (34::nat)] @
     EncodeToString nonce @ [char_of (34::nat), char_of (125::nat)] @ newline"

definition handleC2Challenge ::
  "(challenge_call \<Rightarrow> bool) \<Rightarrow> time \<Rightarrow> bytes option \<Rightarrow> 'a db_scheme \<Rightarrow> query \<Rightarrow> http_resp \<times> 'a db_scheme" where
  "handleC2Challenge flt now rnd db q =
     (let sn = q_get q ''sn'' in
      if sn = [] then (http_error 404, db)
      else case rnd of
        None \<Rightarrow> (http_error 500, db)
      | Some nonce \<Rightarrow>
          let db' = (if flt ChInsert then db
                     else case device_auth db sn of
                       None \<Rightarrow> db
                     | Some row \<Rightarrow>
                         (if ecdsa_pubkey row = None then db
                          else db\<lparr>c2_nonce := (c2_nonce db)(sn \<mapsto> \<lparr>n_nonce = nonce, n_issued_at = now\<rparr>)\<rparr>))
          in (\<lparr>rs_status = 200, rs_headers = [(''Content-Type'', ''application/json'')],
               rs_body = nonce_json nonce\<rparr>, db'))"

text \<open>
  \<open>handleC2Rekey\<close>: the body is what the JSON decoder returns, \<open>None\<close> when it fails or the body is
  over 4096 bytes.
\<close>

record rekey_body =
  rk_nonce :: string
  rk_secret :: string
  rk_sig :: string

datatype rekey_call = RkBegin | RkSelect | RkUpdate | RkDelete | RkCommit

definition rekey_ok ::
  "ecdsa_verifier \<Rightarrow> time \<Rightarrow> 'a db_scheme \<Rightarrow> serial \<Rightarrow> rekey_body \<Rightarrow> bool" where
  "rekey_ok verify_asn1 now db sn body =
     (case (DecodeString (rk_nonce body), DecodeString (rk_secret body), DecodeString (rk_sig body)) of
        (Some nonce, Some secret, Some sig) \<Rightarrow>
          (case device_auth db sn of
             None \<Rightarrow> False
           | Some row \<Rightarrow>
               (case (ecdsa_pubkey row, c2_nonce db sn) of
                  (Some pk, Some nr) \<Rightarrow>
                    length secret = secretSize \<and> nonce = n_nonce nr \<and> now - n_issued_at nr < nonceTTL \<and>
                    verifyRekeySig verify_asn1 pk sn (rk_nonce body) secret sig
                | _ \<Rightarrow> False))
      | _ \<Rightarrow> False)"

definition rekey_row :: "bytes \<Rightarrow> time \<Rightarrow> auth_row \<Rightarrow> auth_row" where
  "rekey_row secret now row =
     row\<lparr>session_secret := Some secret, session_epoch := session_epoch row + 1,
         session_last_counter := 0, session_bootstrapped := False, auth_last_seen_at := Some now\<rparr>"

definition handleC2Rekey ::
  "(rekey_call \<Rightarrow> bool) \<Rightarrow> ecdsa_verifier \<Rightarrow> time \<Rightarrow> 'a db_scheme \<Rightarrow> query \<Rightarrow> rekey_body option \<Rightarrow>
   http_resp \<times> 'a db_scheme" where
  "handleC2Rekey flt verify_asn1 now db q body_opt =
     (let sn = q_get q ''sn'' in
      if sn = [] then (http_error 404, db)
      else case body_opt of
        None \<Rightarrow> (http_error 401, db)
      | Some body \<Rightarrow>
          if flt RkBegin then (http_error 500, db)
          else if flt RkSelect \<or> \<not> rekey_ok verify_asn1 now db sn body then (http_error 401, db)
          else if flt RkUpdate then (http_error 500, db)
          else if flt RkDelete then (http_error 500, db)
          else if flt RkCommit then (http_error 500, db)
          else (no_content,
                db\<lparr>device_auth := (device_auth db)(sn \<mapsto>
                     rekey_row (the (DecodeString (rk_secret body))) now (the (device_auth db sn))),
                   c2_nonce := (c2_nonce db)(sn := None)\<rparr>))"

section \<open>Registration (devicestore.go)\<close>

definition serial_char :: "char \<Rightarrow> bool" where
  "serial_char c \<longleftrightarrow>
     (let n = (of_char c :: nat) in
      (65 \<le> n \<and> n \<le> 90) \<or> (97 \<le> n \<and> n \<le> 122) \<or> (48 \<le> n \<and> n \<le> 57) \<or> c = CHR ''_'' \<or> c = CHR ''-'')"

definition ValidSerial :: "string \<Rightarrow> bool" where
  "ValidSerial s \<longleftrightarrow> s \<noteq> ''*'' \<and> 1 \<le> length s \<and> length s \<le> 31 \<and> list_all serial_char s"

definition ValidPubkey :: "bytes \<Rightarrow> bool" where
  "ValidPubkey b = (if length b \<noteq> 65 \<or> b ! 0 \<noteq> 4 then False else p256_unmarshal b \<noteq> None)"

datatype register_action = created | rebonded | updated

datatype register_call = RgBegin | RgSelect | RgDevices | RgAuth | RgCursor | RgCommit

definition max_seq :: "cmd_row list \<Rightarrow> int" where
  "max_seq q = fold (\<lambda>r m. max (c_seq r) m) q 0"

text \<open>
  \<open>None\<close> is an error of a database call, a channel that does not exist (the foreign key of
  \<open>devices.channel\<close>) and a key of the wrong length (the check \<open>ecdsa_pubkey_len\<close>) included.
  \<open>bytes.Equal\<close> takes a nil slice as an empty one.
\<close>

definition Register ::
  "(register_call \<Rightarrow> bool) \<Rightarrow> time \<Rightarrow> 'a db_scheme \<Rightarrow> serial \<Rightarrow> string option \<Rightarrow> string option \<Rightarrow> bytes \<Rightarrow>
   register_action option \<times> 'a db_scheme" where
  "Register flt now db serial label channel pubkey =
     (if flt RgBegin \<or> flt RgSelect then (None, db)
      else
        let existing = device_auth db serial;
            rebond = (case existing of
                        None \<Rightarrow> False
                      | Some row \<Rightarrow> (case ecdsa_pubkey row of None \<Rightarrow> [] | Some pk \<Rightarrow> pk) \<noteq> pubkey);
            action = (case existing of None \<Rightarrow> created | Some _ \<Rightarrow> if rebond then rebonded else updated);
            drow = (case devices db serial of
                      None \<Rightarrow> \<lparr>d_channel = (case channel of None \<Rightarrow> ''stable'' | Some c \<Rightarrow> c),
                               d_mac = None, d_label = label, d_last_seen = Some now\<rparr>
                    | Some d \<Rightarrow> d\<lparr>d_last_seen := Some now,
                                d_channel := (case channel of None \<Rightarrow> d_channel d | Some c \<Rightarrow> c),
                                d_label := (case label of None \<Rightarrow> d_label d | Some l \<Rightarrow> Some l)\<rparr>);
            arow = (case existing of
                      None \<Rightarrow> new_auth_row (Some pubkey)
                    | Some row \<Rightarrow>
                        (if rebond
                         then row\<lparr>ecdsa_pubkey := Some pubkey, session_secret := None,
                                 session_bootstrapped := False, session_epoch := session_epoch row + 1,
                                 session_last_counter := 0\<rparr>
                         else row\<lparr>ecdsa_pubkey := Some pubkey\<rparr>));
            cursors = (case c2_cursor db serial of
                         None \<Rightarrow> (c2_cursor db)(serial \<mapsto>
                           \<lparr>applied_seq = max_seq (command_queue db), last_poll_at = None\<rparr>)
                       | Some _ \<Rightarrow> c2_cursor db)
        in if flt RgDevices \<or> channels db (d_channel drow) = None then (None, db)
           else if flt RgAuth \<or> length pubkey \<noteq> 65 then (None, db)
           else if flt RgCursor \<or> flt RgCommit then (None, db)
           else (Some action,
                 db\<lparr>devices := (devices db)(serial \<mapsto> drow),
                    device_auth := (device_auth db)(serial \<mapsto> arow),
                    c2_cursor := cursors\<rparr>))"

end
