(* ===== verification/Runs.thy ===== *)
theory Runs
  imports Main
begin

text \<open>
  Sequences of operations on a state, with the two contracts the components use: an operation that
  keeps an invariant keeps it along every sequence, and an operation that moves a state only upwards
  in a preorder does so along every sequence.  A predicate on the operations says which of them
  are considered.
\<close>

primrec run :: "('a \<Rightarrow> 's \<Rightarrow> 's) \<Rightarrow> 'a list \<Rightarrow> 's \<Rightarrow> 's" where
  "run step [] s = s"
| "run step (a # as) s = run step as (step a s)"

lemma run_append [simp]: "run step (as @ bs) s = run step bs (run step as s)"
  by (induction as arbitrary: s) simp_all

lemma list_all_True [simp]: "list_all (\<lambda>_. True) xs"
  by (induction xs) simp_all

locale invariant_run =
  fixes step :: "'a \<Rightarrow> 's \<Rightarrow> 's"
    and ok :: "'a \<Rightarrow> bool"
    and I :: "'s \<Rightarrow> bool"
  assumes step_I: "ok a \<Longrightarrow> I s \<Longrightarrow> I (step a s)"
begin

lemma run_I: "list_all ok as \<Longrightarrow> I s \<Longrightarrow> I (run step as s)"
  by (induction as arbitrary: s) (simp_all add: step_I)

end

locale monotone_run =
  fixes step :: "'a \<Rightarrow> 's \<Rightarrow> 's"
    and ok :: "'a \<Rightarrow> bool"
    and le :: "'s \<Rightarrow> 's \<Rightarrow> bool"
  assumes le_refl: "le s s"
    and le_trans: "le s t \<Longrightarrow> le t u \<Longrightarrow> le s u"
    and step_le: "ok a \<Longrightarrow> le s (step a s)"
begin

lemma run_le: "list_all ok as \<Longrightarrow> le s (run step as s)"
proof (induction as arbitrary: s)
  case (Cons a as)
  then show ?case
    by (auto intro: le_trans [OF step_le])
qed (simp add: le_refl)

end

text \<open>An invariant is a preorder on states, so the first contract is an instance of the second.\<close>

sublocale invariant_run \<subseteq> keeps: monotone_run step ok "\<lambda>s t. I s \<longrightarrow> I t"
  by unfold_locales (auto intro: step_I)

end
