(* ===== verification/C2_Security.thy ===== *)
theory C2_Security
  imports C2_Channel Runs
begin

text \<open>
  What the command channel promises against forged, replayed and re-ordered requests.  The handlers
  of \<open>C2_Channel\<close> are the operations of one transition system (\<open>c2_apply\<close>), and the session
  position of a device, its epoch and its counter, only moves forward in it.
\<close>

section \<open>Authentication\<close>

text \<open>What makes a poll authentic: the specification of \<open>authDevice\<close>.\<close>

definition authentic :: "'a db_scheme \<Rightarrow> serial \<Rightarrow> query \<Rightarrow> bool" where
  "authentic db serial q \<longleftrightarrow>
     (\<exists>row sec c otp.
        device_auth db serial = Some row \<and> session_secret row = Some sec \<and>
        ParseUint 64 (q_get q ''c'') = (c, None) \<and> ParseUint 32 (q_get q ''otp'') = (otp, None) \<and>
        HOTP sec (of_nat c) (digitsOr8 (auth_digits row)) = of_nat otp \<and>
        (if session_bootstrapped row
         then unat (session_last_counter row) < c \<and> c \<le> unat (session_last_counter row) + 4096 \<and>
              unat (session_last_counter row) + 4096 < 2 ^ 64
         else c \<le> 4096))"

text \<open>The row an accepted poll leaves: the claimed counter is recorded.\<close>

definition accepted_row :: "time \<Rightarrow> query \<Rightarrow> auth_row \<Rightarrow> auth_row" where
  "accepted_row now q row =
     row\<lparr>session_last_counter := of_nat (fst (ParseUint 64 (q_get q ''c''))),
         session_bootstrapped := True, auth_last_seen_at := Some now\<rparr>"

lemma unat_parsed:
  assumes "ParseUint 64 s = (c, e)"
  shows "unat (of_nat c :: 64 word) = c"
proof -
  have "c < 2 ^ 64"
    using ParseUint_bound [of 64 s] assms by simp
  then show ?thesis
    by (simp add: unat_of_nat)
qed

lemma ValidateSession_parsed:
  assumes "ParseUint 64 s = (c, None)"
  shows "OK (ValidateSession (auth_cfg row) (Some sec) l b (of_nat c) otp) \<longleftrightarrow>
    HOTP sec (of_nat c) (digitsOr8 (auth_digits row)) = otp \<and>
    (if b then unat l < c \<and> c \<le> unat l + 4096 \<and> unat l + 4096 < 2 ^ 64 else c \<le> 4096)"
proof -
  have "OK (ValidateSession (auth_cfg row) (Some sec) l b (of_nat c) otp) \<longleftrightarrow>
    HOTP sec (of_nat c) (digitsOr8 (auth_digits row)) = otp \<and>
    (if b then l < of_nat c \<and> of_nat c \<le> l + 4096 else of_nat c \<le> (4096 :: 64 word))"
    by (simp add: ValidateSession_OK auth_cfg_def authWindowFar_def)
  moreover have "l < of_nat c \<and> of_nat c \<le> l + 4096 \<longleftrightarrow>
      unat l < c \<and> c \<le> unat l + 4096 \<and> unat l + 4096 < 2 ^ 64"
  proof (cases "unat l + 4096 < 2 ^ 64")
    case True
    then show ?thesis
      by (simp add: word_le_nat_alt word_less_nat_alt unat_parsed [OF assms] unat_word_ariths(1))
  next
    case False
    then show ?thesis
      using window_wraps [of l 4096 "of_nat c"] by auto
  qed
  moreover have "of_nat c \<le> (4096 :: 64 word) \<longleftrightarrow> c \<le> 4096"
    by (simp add: word_le_nat_alt unat_parsed [OF assms])
  ultimately show ?thesis
    by simp
qed

lemma authDevice_eq:
  "authDevice flt now db serial q =
     (if authentic db serial q \<and> \<not> flt C2AuthSelect \<and> \<not> flt C2AuthUpdate
      then (True, db\<lparr>device_auth := (device_auth db)(serial \<mapsto>
                      accepted_row now q (the (device_auth db serial)))\<rparr>)
      else (False, db))"
proof -
  obtain c e otp e' where p: "ParseUint 64 (q_get q ''c'') = (c, e)" "ParseUint 32 (q_get q ''otp'') = (otp, e')"
    by (metis surj_pair)
  show ?thesis
  proof (cases "e = None \<and> e' = None")
    case True
    then show ?thesis
      using p ValidateSession_NewCounter
      by (auto simp: authDevice_def authentic_def accepted_row_def ValidateSession_parsed
          Let_def split: option.split)
  next
    case False
    then show ?thesis
      using p by (auto simp: authDevice_def authentic_def split: option.split)
  qed
qed

section \<open>The outcome of a poll\<close>

definition poll_sn :: "query \<Rightarrow> serial" where
  "poll_sn q = q_get q ''sn''"

definition poll_applied :: "'a db_scheme \<Rightarrow> query \<Rightarrow> int" where
  "poll_applied db q =
     (case c2_cursor db (poll_sn q) of None \<Rightarrow> c2_ack q | Some cr \<Rightarrow> max (applied_seq cr) (c2_ack q))"

text \<open>The state and the reply of a poll that commits.\<close>

definition polled :: "time \<Rightarrow> 'a db_scheme \<Rightarrow> query \<Rightarrow> 'a db_scheme" where
  "polled now db q =
     db\<lparr>device_auth := (device_auth db)(poll_sn q \<mapsto> accepted_row now q (the (device_auth db (poll_sn q)))),
        c2_cursor := (c2_cursor db)(poll_sn q \<mapsto>
          \<lparr>applied_seq = poll_applied db q, last_poll_at = Some now\<rparr>),
        command_queue := MarkApplied (command_queue db) (poll_sn q) (poll_applied db q)\<rparr>"

definition poll_reply :: "'a db_scheme \<Rightarrow> query \<Rightarrow> c2_outcome" where
  "poll_reply db q =
     (case next_cmd (MarkApplied (command_queue db) (poll_sn q) (poll_applied db q)) (poll_sn q) (poll_applied db q) of
        Some r \<Rightarrow> Reply (serve_cmd r)
      | None \<Rightarrow>
          let waitS = fst (Atoi (q_get q ''wait'')) in
          if waitS \<le> 0 then Reply no_content
          else Hold (poll_sn q) (poll_applied db q) (min waitS c2MaxWaitS * second))"

text \<open>
  Every poll either commits as above, for an authentic request of a registered device, or changes
  nothing and answers one of three constant errors.
\<close>

definition poll_refused :: "c2_outcome \<times> 'a db_scheme \<Rightarrow> 'a db_scheme \<Rightarrow> bool" where
  "poll_refused res db \<longleftrightarrow> (\<exists>code \<in> {401, 404, 500}. res = (Reply (http_error code), db))"

lemma handleC2_cases:
  "poll_refused (handleC2 flt now db q) db \<or>
   poll_sn q \<noteq> [] \<and> authentic db (poll_sn q) q \<and> devices db (poll_sn q) \<noteq> None \<and>
   handleC2 flt now db q = (poll_reply db q, polled now db q)"
  by (simp add: handleC2_def authDevice_eq cursor_upsert_def poll_refused_def polled_def poll_reply_def
      poll_applied_def poll_sn_def [symmetric] Let_def min_def split: option.split)

lemma handleC2_served:
  assumes "\<And>c. \<not> flt c" and "poll_sn q \<noteq> []" and "authentic db (poll_sn q) q"
    and "devices db (poll_sn q) \<noteq> None"
  shows "handleC2 flt now db q = (poll_reply db q, polled now db q)"
  using assms by (auto simp: handleC2_def authDevice_eq cursor_upsert_def polled_def poll_reply_def
      poll_applied_def poll_sn_def [symmetric] Let_def min_def split: option.split)

lemma poll_reply_not_error [simp]: "code \<noteq> 204 \<Longrightarrow> code \<noteq> 200 \<Longrightarrow> poll_reply db q \<noteq> Reply (http_error code)"
  by (auto simp: poll_reply_def serve_cmd_def no_content_def http_error_def Let_def split: option.split)

lemma not_refused: "\<not> poll_refused (poll_reply db q, db') db"
  by (auto simp: poll_refused_def)

lemma not_authentic_refused: "\<not> authentic db (poll_sn q) q \<Longrightarrow> poll_refused (handleC2 flt now db q) db"
  using handleC2_cases [of flt now db q] by auto

text \<open>
  C1 (command channel, forgery).  A poll that is not authentic, whatever it acknowledges and whichever
  database calls fail, changes no table and gets a constant error: it can neither advance a device's
  cursor nor move its session counter nor read a command.
\<close>

theorem forged_poll_changes_nothing:
  assumes "\<not> authentic db (q_get q ''sn'') q"
  shows "\<exists>code \<in> {401, 404, 500}. handleC2 flt now db q = (Reply (http_error code), db)"
  using not_authentic_refused [of db q flt now] assms by (auto simp: poll_refused_def poll_sn_def)

text \<open>
  A registered device \<open>pp1\<close> with an established session at counter 5, cursor 3 and three queued
  commands, for the examples.
\<close>

definition example_auth :: auth_row where
  "example_auth =
     \<lparr>ecdsa_pubkey = Some (replicate 65 4), session_secret = Some (replicate 20 7), session_epoch = 2,
      session_last_counter = 5, session_bootstrapped = True, auth_digits = 8, auth_last_seen_at = None\<rparr>"

definition example_cmd :: "int \<Rightarrow> serial \<Rightarrow> string \<Rightarrow> cmd_row" where
  "example_cmd seq serial script =
     \<lparr>c_seq = seq, c_serial = serial, c_script = script, c_note = None, c_operator_key_id = Some 1,
      c_idempotency_key = None, c_applied = False, c_created_at = 0\<rparr>"

definition example_db :: db where
  "example_db = empty_db
     \<lparr>devices := [''pp1'' \<mapsto> \<lparr>d_channel = ''stable'', d_mac = None, d_label = None, d_last_seen = None\<rparr>],
      device_auth := [''pp1'' \<mapsto> example_auth],
      c2_cursor := [''pp1'' \<mapsto> \<lparr>applied_seq = 3, last_poll_at = None\<rparr>],
      command_queue := [example_cmd 3 ''pp1'' ''a'', example_cmd 4 ''*'' ''b'', example_cmd 6 ''pp1'' ''c''],
      cmd_next_seq := 7\<rparr>"

text \<open>The query of a device that claims counter \<open>c\<close> with the right password and acknowledges \<open>ack\<close>.\<close>

definition device_query :: "serial \<Rightarrow> bytes \<Rightarrow> int \<Rightarrow> nat \<Rightarrow> int \<Rightarrow> query" where
  "device_query sn sec digits c ack =
     [''sn'' \<mapsto> [sn], ''c'' \<mapsto> [format_nat c], ''otp'' \<mapsto> [format_nat (unat (HOTP sec (of_nat c) digits))],
      ''ack'' \<mapsto> [FormatInt ack]]"

definition forged_query :: query where
  "forged_query = [''sn'' \<mapsto> [''pp1''], ''c'' \<mapsto> [''6''], ''otp'' \<mapsto> [''guess''], ''ack'' \<mapsto> [''9'']]"

lemma device_query_get [simp]:
  "q_get (device_query sn sec d c ack) ''sn'' = sn"
  "q_get (device_query sn sec d c ack) ''c'' = format_nat c"
  "q_get (device_query sn sec d c ack) ''otp'' = format_nat (unat (HOTP sec (of_nat c) d))"
  "q_get (device_query sn sec d c ack) ''ack'' = FormatInt ack"
  "q_get (device_query sn sec d c ack) ''wait'' = []"
  by (simp_all add: q_get_def device_query_def)

lemma forged_query_not_authentic: "\<not> authentic db ''pp1'' forged_query"
  by (simp add: authentic_def q_get_def forged_query_def ParseUint_def is_digit_def)

theorem forged_poll_changes_nothing_witness:
  "\<exists>code \<in> {401, 404, 500}. handleC2 (\<lambda>_. False) 0 example_db forged_query = (Reply (http_error code), example_db)"
proof (rule forged_poll_changes_nothing)
  have "q_get forged_query ''sn'' = ''pp1''"
    by (simp add: q_get_def forged_query_def)
  then show "\<not> authentic example_db (q_get forged_query ''sn'') forged_query"
    by (simp add: forged_query_not_authentic)
qed

lemma HOTP_less: "unat (HOTP sec c d) < 2 ^ 32"
  using unsigned_less [of "HOTP sec c d", where ?'a = nat] by simp

lemma authentic_device_query:
  assumes "device_auth db sn = Some row" and "session_secret row = Some sec"
    and "d = digitsOr8 (auth_digits row)" and "session_bootstrapped row"
    and "c = unat (session_last_counter row) + 1" and "c + 4096 < 2 ^ 64"
  shows "authentic db sn (device_query sn sec d c ack)"
  unfolding authentic_def
  using assms HOTP_less [of sec "of_nat c" d] by (simp add: ParseUint_format_nat)

section \<open>The channel as a transition system\<close>

datatype c2_action =
    Poll "c2_call \<Rightarrow> bool" time query
  | Challenge "challenge_call \<Rightarrow> bool" time "bytes option" query
  | Rekey "rekey_call \<Rightarrow> bool" time query "rekey_body option"
  | EnqueueCmd "enqueue_call \<Rightarrow> bool" time serial string "string option" int "string option"
  | RegisterDev "register_call \<Rightarrow> bool" time serial "string option" "string option" bytes

fun c2_apply :: "ecdsa_verifier \<Rightarrow> c2_action \<Rightarrow> 'a db_scheme \<Rightarrow> 'a db_scheme" where
  "c2_apply v (Poll flt now q) db = snd (handleC2 flt now db q)"
| "c2_apply v (Challenge flt now rnd q) db = snd (handleC2Challenge flt now rnd db q)"
| "c2_apply v (Rekey flt now q body) db = snd (handleC2Rekey flt v now db q body)"
| "c2_apply v (EnqueueCmd flt now sn script note op key) db = snd (Enqueue flt now db sn script note op key)"
| "c2_apply v (RegisterDev flt now sn label channel pk) db = snd (Register flt now db sn label channel pk)"

text \<open>The tables each operation leaves alone, and the cases in which it changes the others.\<close>

lemma insert_cmd_frame [simp]:
  "device_auth (snd (insert_cmd now db sn sc nt op k)) = device_auth db"
  "c2_cursor (snd (insert_cmd now db sn sc nt op k)) = c2_cursor db"
  "c2_nonce (snd (insert_cmd now db sn sc nt op k)) = c2_nonce db"
  "devices (snd (insert_cmd now db sn sc nt op k)) = devices db"
  by (simp_all add: insert_cmd_def Let_def)

lemma Enqueue_snd:
  "snd (Enqueue flt now db sn sc nt op k) = db \<or>
   enqueue_check flt db sn sc = None \<and>
   snd (Enqueue flt now db sn sc nt op k) = snd (insert_cmd now db sn sc nt (Some op) (dedup_key k))"
  by (cases "insert_cmd now db sn sc nt (Some op) (dedup_key k)")
    (simp add: Enqueue_def enqueue_insert_def split: option.split)

lemma Enqueue_frame [simp]:
  "device_auth (snd (Enqueue flt now db sn sc nt op k)) = device_auth db"
  "c2_cursor (snd (Enqueue flt now db sn sc nt op k)) = c2_cursor db"
  "c2_nonce (snd (Enqueue flt now db sn sc nt op k)) = c2_nonce db"
  "devices (snd (Enqueue flt now db sn sc nt op k)) = devices db"
  using Enqueue_snd [of flt now db sn sc nt op k] by (metis insert_cmd_frame)+

lemma handleC2Challenge_frame [simp]:
  "device_auth (snd (handleC2Challenge flt now rnd db q)) = device_auth db"
  "c2_cursor (snd (handleC2Challenge flt now rnd db q)) = c2_cursor db"
  "command_queue (snd (handleC2Challenge flt now rnd db q)) = command_queue db"
  "cmd_next_seq (snd (handleC2Challenge flt now rnd db q)) = cmd_next_seq db"
  "devices (snd (handleC2Challenge flt now rnd db q)) = devices db"
  by (simp_all add: handleC2Challenge_def Let_def split: option.split)

lemma handleC2Rekey_frame [simp]:
  "c2_cursor (snd (handleC2Rekey flt v now db q body)) = c2_cursor db"
  "command_queue (snd (handleC2Rekey flt v now db q body)) = command_queue db"
  "cmd_next_seq (snd (handleC2Rekey flt v now db q body)) = cmd_next_seq db"
  "devices (snd (handleC2Rekey flt v now db q body)) = devices db"
  by (simp_all add: handleC2Rekey_def Let_def split: option.split)

section \<open>The session position only moves forward\<close>

definition session_ctr :: "auth_row \<Rightarrow> nat" where
  "session_ctr row = (if session_bootstrapped row then Suc (unat (session_last_counter row)) else 0)"

text \<open>
  A device's position is its epoch together with the next counter it may use.  Within an epoch the
  secret and the digit count stay.
\<close>

definition row_le :: "auth_row \<Rightarrow> auth_row \<Rightarrow> bool" where
  "row_le row row' \<longleftrightarrow>
     session_epoch row < session_epoch row' \<or>
     session_epoch row = session_epoch row' \<and> session_secret row = session_secret row' \<and>
     auth_digits row = auth_digits row' \<and> session_ctr row \<le> session_ctr row'"

definition session_le :: "serial \<Rightarrow> 'a db_scheme \<Rightarrow> 'a db_scheme \<Rightarrow> bool" where
  "session_le sn db db' \<longleftrightarrow>
     (\<forall>row. device_auth db sn = Some row \<longrightarrow> (\<exists>row'. device_auth db' sn = Some row' \<and> row_le row row'))"

lemma row_le_refl [simp]: "row_le r r"
  by (simp add: row_le_def)

lemma row_le_trans: "row_le a b \<Longrightarrow> row_le b c \<Longrightarrow> row_le a c"
  by (auto simp: row_le_def)

lemma session_le_refl: "session_le sn db db"
  by (simp add: session_le_def)

lemma session_le_trans: "session_le sn a b \<Longrightarrow> session_le sn b c \<Longrightarrow> session_le sn a c"
  unfolding session_le_def by (meson row_le_trans)

lemma session_le_same: "device_auth db' = device_auth db \<Longrightarrow> session_le sn db db'"
  by (simp add: session_le_def)

lemma authentic_row: "authentic db s q \<Longrightarrow> \<exists>row. device_auth db s = Some row"
  by (auto simp: authentic_def)

lemma accepted_row_ctr:
  assumes "authentic db s q" and "device_auth db s = Some row"
  shows "session_ctr row \<le> fst (ParseUint 64 (q_get q ''c''))"
    and "session_ctr (accepted_row now q row) = Suc (fst (ParseUint 64 (q_get q ''c'')))"
proof -
  obtain c where c: "ParseUint 64 (q_get q ''c'') = (c, None)"
    using assms by (auto simp: authentic_def)
  show "session_ctr row \<le> fst (ParseUint 64 (q_get q ''c''))"
    using assms by (auto simp: authentic_def session_ctr_def split: if_splits)
  show "session_ctr (accepted_row now q row) = Suc (fst (ParseUint 64 (q_get q ''c'')))"
    by (simp add: session_ctr_def accepted_row_def c unat_parsed [OF c])
qed

lemma accepted_row_sel [simp]:
  "session_epoch (accepted_row now q row) = session_epoch row"
  "session_secret (accepted_row now q row) = session_secret row"
  "auth_digits (accepted_row now q row) = auth_digits row"
  "ecdsa_pubkey (accepted_row now q row) = ecdsa_pubkey row"
  by (simp_all add: accepted_row_def)

lemma handleC2_session_le: "session_le sn db (snd (handleC2 flt now db q))"
proof (cases "poll_refused (handleC2 flt now db q) db")
  case True
  then show ?thesis
    by (auto simp: poll_refused_def session_le_refl)
next
  case False
  then have auth: "authentic db (poll_sn q) q" and res: "handleC2 flt now db q = (poll_reply db q, polled now db q)"
    using handleC2_cases [of flt now db q] by auto
  from auth obtain row where row: "device_auth db (poll_sn q) = Some row"
    using authentic_row by blast
  have "session_ctr row \<le> session_ctr (accepted_row now q row)"
    using accepted_row_ctr [OF auth row] by simp
  then show ?thesis
    unfolding session_le_def using row by (simp add: res polled_def row_le_def)
qed

lemma handleC2Rekey_session_le: "session_le sn db (snd (handleC2Rekey flt v now db q body))"
  by (auto simp: session_le_def row_le_def handleC2Rekey_def rekey_row_def Let_def split: option.splits)

lemma Register_session_le: "session_le sn db (snd (Register flt now db s label channel pk))"
proof (cases "device_auth db s")
  case None
  then show ?thesis
    by (auto simp: session_le_def Register_def Let_def)
next
  case (Some row)
  then show ?thesis
    unfolding session_le_def by (simp add: Register_def Let_def row_le_def session_ctr_def)
qed

lemma c2_apply_session_le: "session_le sn db (c2_apply v a db)"
  by (cases a) (simp_all add: handleC2_session_le handleC2Rekey_session_le Register_session_le session_le_same)

interpretation session: monotone_run "c2_apply v" "\<lambda>_. True" "session_le sn" for v sn
  by unfold_locales (auto intro: session_le_refl session_le_trans c2_apply_session_le)

text \<open>
  C2 (replay).  A poll that was accepted is refused whenever it is presented again in the same session:
  after any sequence of polls, challenges, re-keys, enqueues and registrations that leaves the
  device's session epoch as it was, the same request changes nothing and gets a constant error.
\<close>

theorem replayed_poll_refused:
  assumes "handleC2 flt now db q = (out, db1)" and "\<forall>code \<in> {401, 404, 500}. out \<noteq> Reply (http_error code)"
    and "db2 = run (c2_apply v) as db1"
    and "device_auth db1 (q_get q ''sn'') = Some r1" and "device_auth db2 (q_get q ''sn'') = Some r2"
    and "session_epoch r2 = session_epoch r1"
  shows "\<exists>code \<in> {401, 404, 500}. handleC2 flt' now' db2 q = (Reply (http_error code), db2)"
proof -
  have "\<not> authentic db2 (poll_sn q) q"
  proof
  assume "authentic db2 (poll_sn q) q"
  then have replay: "authentic db2 (q_get q ''sn'') q"
    by (simp add: poll_sn_def)
  have "\<not> poll_refused (handleC2 flt now db q) db"
    using assms(1,2) by (auto simp: poll_refused_def)
  then have auth: "authentic db (poll_sn q) q" and db1: "db1 = polled now db q"
    using handleC2_cases [of flt now db q] assms(1) by auto
  from auth obtain row where row: "device_auth db (poll_sn q) = Some row"
    using authentic_row by blast
  have "session_ctr r1 = Suc (fst (ParseUint 64 (q_get q ''c'')))"
    using accepted_row_ctr(2) [OF auth row, of now] assms(4) row db1 by (simp add: polled_def poll_sn_def)
  moreover have "session_le (q_get q ''sn'') db1 db2"
    unfolding assms(3) by (rule session.run_le) simp
  then have "session_ctr r1 \<le> session_ctr r2"
    using assms(4,5,6) by (simp add: session_le_def row_le_def)
  ultimately show False
    using accepted_row_ctr(1) [OF replay assms(5)] by simp
  qed
  then show ?thesis
    using not_authentic_refused [of db2 q flt' now'] by (auto simp: poll_refused_def)
qed

definition example_poll :: query where
  "example_poll = device_query ''pp1'' (replicate 20 7) 8 6 3"

lemma example_authentic: "authentic example_db ''pp1'' example_poll"
  unfolding example_poll_def
  by (rule authentic_device_query [where row = example_auth])
    (simp_all add: example_db_def example_auth_def digitsOr8_def)

lemma example_poll_sn [simp]: "q_get example_poll ''sn'' = ''pp1''" "poll_sn example_poll = ''pp1''"
  by (simp_all add: example_poll_def poll_sn_def)

lemma example_served:
  "handleC2 (\<lambda>_. False) now example_db example_poll =
     (poll_reply example_db example_poll, polled now example_db example_poll)"
  by (rule handleC2_served) (simp_all add: example_authentic, simp add: example_db_def)

theorem replayed_poll_refused_witness:
  "\<exists>code \<in> {401, 404, 500}.
     handleC2 (\<lambda>_. False) 9
       (run (c2_apply (\<lambda>_ _ _. True)) [Challenge (\<lambda>_. False) 3 (Some (replicate 16 1)) example_poll]
         (polled 0 example_db example_poll)) example_poll =
     (Reply (http_error code),
       run (c2_apply (\<lambda>_ _ _. True)) [Challenge (\<lambda>_. False) 3 (Some (replicate 16 1)) example_poll]
         (polled 0 example_db example_poll))"
proof (rule replayed_poll_refused [OF example_served [of 0] _ refl])
  show "\<forall>code \<in> {401, 404, 500}. poll_reply example_db example_poll \<noteq> Reply (http_error code)"
    by simp
qed (simp_all add: polled_def)

section \<open>Re-keying\<close>

lemma handleC2Rekey_status:
  "rs_status (fst (handleC2Rekey flt v now db q body)) = 204 \<longleftrightarrow>
     q_get q ''sn'' \<noteq> [] \<and> (\<forall>c. \<not> flt c) \<and> (\<exists>b. body = Some b \<and> rekey_ok v now db (q_get q ''sn'') b)"
proof -
  have "(\<forall>c. \<not> flt c) \<longleftrightarrow> \<not> flt RkBegin \<and> \<not> flt RkSelect \<and> \<not> flt RkUpdate \<and> \<not> flt RkDelete \<and> \<not> flt RkCommit"
    by (metis rekey_call.exhaust)
  then show ?thesis
    by (auto simp: handleC2Rekey_def Let_def no_content_def split: option.split)
qed

lemma rekey_ok_iff:
  "rekey_ok v now db sn body \<longleftrightarrow>
     (\<exists>row pk nr nonce secret sig pt.
        device_auth db sn = Some row \<and> ecdsa_pubkey row = Some pk \<and> c2_nonce db sn = Some nr \<and>
        DecodeString (rk_nonce body) = Some nonce \<and> DecodeString (rk_secret body) = Some secret \<and>
        DecodeString (rk_sig body) = Some sig \<and> length secret = 20 \<and> n_nonce nr = nonce \<and>
        now - n_issued_at nr < 60 * second \<and> p256_unmarshal pk = Some pt \<and>
        v pt (sha256 (rekeyMsg sn (rk_nonce body) secret)) sig)"
  by (auto simp: rekey_ok_def verifyRekeySig_def secretSize_def nonceTTL_def pubkeyLen_def p256_unmarshal_def
      Let_def split: option.split)

text \<open>
  A re-key answers 204 exactly when no database call fails and the body carries the
  pending nonce of the device, less than sixty seconds old, with a signature under the device's bonded
  public key over the message that binds the serial, the nonce and the 20-byte secret.  It then
  installs that secret, opens a new epoch at counter zero and consumes the nonce; every other
  outcome changes nothing.
\<close>

theorem rekey_installs_signed_secret:
  "if rs_status (fst (handleC2Rekey flt v now db q body)) = 204
   then \<exists>b row pk nr secret sig pt.
     body = Some b \<and> device_auth db (q_get q ''sn'') = Some row \<and> ecdsa_pubkey row = Some pk \<and>
     c2_nonce db (q_get q ''sn'') = Some nr \<and> DecodeString (rk_nonce b) = Some (n_nonce nr) \<and>
     now - n_issued_at nr < 60 * second \<and> DecodeString (rk_secret b) = Some secret \<and> length secret = 20 \<and>
     DecodeString (rk_sig b) = Some sig \<and> p256_unmarshal pk = Some pt \<and>
     v pt (sha256 (rekeyMsg (q_get q ''sn'') (rk_nonce b) secret)) sig \<and>
     snd (handleC2Rekey flt v now db q body) =
       db\<lparr>device_auth := (device_auth db)(q_get q ''sn'' \<mapsto>
            row\<lparr>session_secret := Some secret, session_epoch := session_epoch row + 1,
                session_last_counter := 0, session_bootstrapped := False, auth_last_seen_at := Some now\<rparr>),
          c2_nonce := (c2_nonce db)(q_get q ''sn'' := None)\<rparr>
   else snd (handleC2Rekey flt v now db q body) = db"
proof (cases "rs_status (fst (handleC2Rekey flt v now db q body)) = 204")
  case True
  then obtain b where b: "body = Some b" "rekey_ok v now db (q_get q ''sn'') b"
    and ok: "q_get q ''sn'' \<noteq> []" "\<forall>c. \<not> flt c"
    by (auto simp: handleC2Rekey_status)
  then have "snd (handleC2Rekey flt v now db q body) =
      db\<lparr>device_auth := (device_auth db)(q_get q ''sn'' \<mapsto>
           rekey_row (the (DecodeString (rk_secret b))) now (the (device_auth db (q_get q ''sn'')))),
         c2_nonce := (c2_nonce db)(q_get q ''sn'' := None)\<rparr>"
    by (simp add: handleC2Rekey_def Let_def)
  with b show ?thesis
    unfolding if_P [OF True] rekey_ok_iff by (auto simp: rekey_row_def)
next
  case False
  then show ?thesis
    by (auto simp: handleC2Rekey_def Let_def no_content_def split: option.splits if_splits)
qed

text \<open>A nonce is not stored unless a challenge for the device issues it.\<close>

definition issues_nonce :: "serial \<Rightarrow> bytes \<Rightarrow> c2_action \<Rightarrow> bool" where
  "issues_nonce sn n a =
     (case a of Challenge flt now (Some n') q \<Rightarrow> n' = n \<and> q_get q ''sn'' = sn | _ \<Rightarrow> False)"

definition nonce_absent :: "serial \<Rightarrow> bytes \<Rightarrow> 'a db_scheme \<Rightarrow> bool" where
  "nonce_absent sn n db = (case c2_nonce db sn of None \<Rightarrow> True | Some nr \<Rightarrow> n_nonce nr \<noteq> n)"

lemma handleC2_nonce [simp]: "c2_nonce (snd (handleC2 flt now db q)) = c2_nonce db"
  using handleC2_cases [of flt now db q] by (auto simp: poll_refused_def polled_def)

lemma Register_nonce [simp]: "c2_nonce (snd (Register flt now db s l ch pk)) = c2_nonce db"
  by (simp add: Register_def Let_def)

lemma c2_apply_nonce_absent:
  "\<not> issues_nonce sn n a \<Longrightarrow> nonce_absent sn n db \<Longrightarrow> nonce_absent sn n (c2_apply v a db)"
  by (cases a) (auto simp: issues_nonce_def nonce_absent_def handleC2Challenge_def handleC2Rekey_def Let_def
      split: option.splits)

interpretation nonce: invariant_run "c2_apply v" "\<lambda>a. \<not> issues_nonce sn n a" "nonce_absent sn n" for v sn n
  by unfold_locales (rule c2_apply_nonce_absent)

text \<open>
  C3 (single-use nonce).  After an accepted re-key the same body is refused, and changes nothing, at
  every later point before a challenge of that device draws the same nonce again.
\<close>

theorem rekey_nonce_single_use:
  assumes "rs_status (fst (handleC2Rekey flt v now db q (Some body))) = 204"
    and "DecodeString (rk_nonce body) = Some n"
    and "list_all (\<lambda>a. \<not> issues_nonce (q_get q ''sn'') n a) as"
    and "db2 = run (c2_apply v) as (snd (handleC2Rekey flt v now db q (Some body)))"
  shows "rs_status (fst (handleC2Rekey flt' v now' db2 q (Some body))) \<noteq> 204 \<and>
         snd (handleC2Rekey flt' v now' db2 q (Some body)) = db2"
proof -
  have "nonce_absent (q_get q ''sn'') n (snd (handleC2Rekey flt v now db q (Some body)))"
    using assms(1) unfolding handleC2Rekey_status
    by (auto simp: handleC2Rekey_def nonce_absent_def Let_def)
  then have "nonce_absent (q_get q ''sn'') n db2"
    unfolding assms(4) by (rule nonce.run_I [OF assms(3)])
  then have "\<not> rekey_ok v now' db2 (q_get q ''sn'') body"
    using assms(2) by (auto simp: rekey_ok_iff nonce_absent_def)
  then show ?thesis
    by (simp add: handleC2Rekey_status) (simp add: handleC2Rekey_def Let_def)
qed

text \<open>A bonded device whose key is the base point of the curve, with a pending nonce.\<close>

definition p256_base :: bytes where
  "p256_base = 4 #
    [0x6b, 0x17, 0xd1, 0xf2, 0xe1, 0x2c, 0x42, 0x47, 0xf8, 0xbc, 0xe6, 0xe5, 0x63, 0xa4, 0x40, 0xf2,
     0x77, 0x03, 0x7d, 0x81, 0x2d, 0xeb, 0x33, 0xa0, 0xf4, 0xa1, 0x39, 0x45, 0xd8, 0x98, 0xc2, 0x96,
     0x4f, 0xe3, 0x42, 0xe2, 0xfe, 0x1a, 0x7f, 0x9b, 0x8e, 0xe7, 0xeb, 0x4a, 0x7c, 0x0f, 0x9e, 0x16,
     0x2b, 0xce, 0x33, 0x57, 0x6b, 0x31, 0x5e, 0xce, 0xcb, 0xb6, 0x40, 0x68, 0x37, 0xbf, 0x51, 0xf5]"

lemma p256_base_on_curve: "p256_unmarshal p256_base \<noteq> None"
proof -
  define x :: int where "x = 0x6b17d1f2e12c4247f8bce6e563a440f277037d812deb33a0f4a13945d898c296"
  define y :: int where "y = 0x4fe342e2fe1a7f9b8ee7eb4a7c0f9e162bce33576b315ececbb6406837bf51f5"
  define k :: int where "k = 0x12bdd1ad23dfc833dccf5f6141d6bb4a1f365dc1430b0e600b52dd851938d2d6933106a72efbf035fdaf43963b37fd5456e90c6581a8fb7a0d8a46a3629f0458"
  have xy: "int (nat_of_be (take 32 (drop 1 p256_base))) = x" "int (nat_of_be (drop 33 p256_base)) = y"
    by (simp_all add: p256_base_def nat_of_be_def x_def y_def)
  have "x * x * x - 3 * x + p256_b = y * y + k * p256_p"
    by (simp add: x_def y_def k_def p256_b_def p256_p_def)
  then have "(y * y) mod p256_p = (x * x * x - 3 * x + p256_b) mod p256_p"
    by simp
  moreover have "x < p256_p" "y < p256_p"
    by (simp_all add: x_def y_def p256_p_def)
  ultimately show ?thesis
    unfolding p256_unmarshal_def Let_def xy by (simp add: p256_base_def)
qed

definition example_rekey_db :: db where
  "example_rekey_db = example_db
     \<lparr>device_auth := [''pp1'' \<mapsto> new_auth_row (Some p256_base)],
      c2_nonce := [''pp1'' \<mapsto> \<lparr>n_nonce = [1, 2], n_issued_at = 0\<rparr>]\<rparr>"

definition example_rekey_body :: rekey_body where
  "example_rekey_body =
     \<lparr>rk_nonce = EncodeToString [1, 2], rk_secret = EncodeToString (replicate 20 9), rk_sig = EncodeToString [5]\<rparr>"

lemma example_rekey_ok:
  "rs_status (fst (handleC2Rekey (\<lambda>_. False) (\<lambda>_ _ _. True) 5 example_rekey_db example_poll
     (Some example_rekey_body))) = 204"
  unfolding handleC2Rekey_status rekey_ok_iff using p256_base_on_curve
  by (auto simp: example_rekey_db_def example_rekey_body_def DecodeString_EncodeToString new_auth_row_def)

lemma example_rekey_nonce: "DecodeString (rk_nonce example_rekey_body) = Some [1, 2]"
  by (simp add: example_rekey_body_def DecodeString_EncodeToString del: EncodeToString.simps)

theorem rekey_nonce_single_use_witness:
  "let db1 = snd (handleC2Rekey (\<lambda>_. False) (\<lambda>_ _ _. True) 5 example_rekey_db example_poll (Some example_rekey_body));
       db2 = run (c2_apply (\<lambda>_ _ _. True)) [Challenge (\<lambda>_. False) 6 (Some [3, 4]) example_poll] db1
   in rs_status (fst (handleC2Rekey (\<lambda>_. False) (\<lambda>_ _ _. True) 7 db2 example_poll (Some example_rekey_body))) \<noteq> 204 \<and>
      snd (handleC2Rekey (\<lambda>_. False) (\<lambda>_ _ _. True) 7 db2 example_poll (Some example_rekey_body)) = db2"
  unfolding Let_def
  by (rule rekey_nonce_single_use [OF example_rekey_ok example_rekey_nonce _ refl]) (simp add: issues_nonce_def)

section \<open>The signed message\<close>

lemma hex_val_newline: "hex_val (char_of (10::nat)) = None"
  by (simp add: hex_val_def Let_def)

lemma EncodeToString_no_newline: "char_of (10::nat) \<notin> set (EncodeToString bs)"
  using EncodeToString_chars hex_val_newline by blast

lemma DecodeString_no_newline: "DecodeString s \<noteq> None \<Longrightarrow> char_of (10::nat) \<notin> set s"
proof (induction s rule: DecodeString.induct)
  case (3 c d cs)
  then have "hex_val c \<noteq> None" "hex_val d \<noteq> None" "DecodeString cs \<noteq> None"
    by (auto split: option.splits)
  with 3(1) show ?case
    using hex_val_newline by (metis set_ConsD)
qed simp_all

lemma append_newline_unique:
  assumes "a @ newline @ x = b @ newline @ y" and "char_of (10::nat) \<notin> set x" and "char_of (10::nat) \<notin> set y"
  shows "a = b \<and> x = y"
proof -
  have cut: "Cut (char_of (10::nat)) (rev (u @ newline @ w)) = Some (rev w, rev u)"
    if "char_of (10::nat) \<notin> set w" for u w
    using that unfolding Cut_Some by (simp add: newline_def)
  have "Some (rev x, rev a) = Some (rev y, rev b)"
    unfolding cut [OF assms(2), of a, symmetric] cut [OF assms(3), of b, symmetric] by (simp only: assms(1))
  then show ?thesis
    by simp
qed

text \<open>
  Two signed re-key messages with hexadecimal nonces are equal only for the
  same serial, the same nonce text and the same digest of the secret, even when a serial contains
  line breaks: a signature cannot be carried over to another device, nonce or secret digest.
\<close>

theorem rekeyMsg_binds:
  assumes "rekeyMsg sn nonceHex secret = rekeyMsg sn' nonceHex' secret'"
    and "DecodeString nonceHex \<noteq> None" and "DecodeString nonceHex' \<noteq> None"
  shows "sn = sn' \<and> nonceHex = nonceHex' \<and> sha256 secret = sha256 secret'"
proof -
  have "(''c2rekey'' @ newline @ sn @ newline @ nonceHex) @ newline @ EncodeToString (sha256 secret) =
        (''c2rekey'' @ newline @ sn' @ newline @ nonceHex') @ newline @ EncodeToString (sha256 secret')"
    using assms(1) by (simp add: rekeyMsg_def)
  from append_newline_unique [OF this EncodeToString_no_newline EncodeToString_no_newline]
  have 1: "EncodeToString (sha256 secret) = EncodeToString (sha256 secret')"
    and 2: "(''c2rekey'' @ newline @ sn) @ newline @ nonceHex = (''c2rekey'' @ newline @ sn') @ newline @ nonceHex'"
    by simp_all
  from append_newline_unique [OF 2 DecodeString_no_newline DecodeString_no_newline] assms(2,3)
  show ?thesis
    using 1 hex.enc_inject by simp
qed

theorem rekeyMsg_binds_witness:
  "''pp1'' = ''pp1'' \<and> ''0a'' = ''0a'' \<and> sha256 [1] = sha256 [1]"
  by (rule rekeyMsg_binds) (simp_all add: hex_val_def)

end
