(* ===== verification/C2_Delivery.thy ===== *)
theory C2_Delivery
  imports C2_Security
begin

text \<open>
  What the command channel promises about delivery: the cursor of a device only moves forward and
  only by its own polls, the queue's indexes hold in every reachable state, an enqueue with a key is
  idempotent while the command is pending, a poll serves the oldest command past the cursor, and a
  device that keeps polling receives every command exactly once and in order.
\<close>

section \<open>Cursor\<close>

definition cursor_le :: "'a db_scheme \<Rightarrow> 'a db_scheme \<Rightarrow> bool" where
  "cursor_le db db' \<longleftrightarrow>
     (\<forall>s cr. c2_cursor db s = Some cr \<longrightarrow>
        (\<exists>cr'. c2_cursor db' s = Some cr' \<and> applied_seq cr \<le> applied_seq cr'))"

lemma cursor_le_refl: "cursor_le db db"
  by (simp add: cursor_le_def)

lemma cursor_le_trans: "cursor_le a b \<Longrightarrow> cursor_le b c \<Longrightarrow> cursor_le a c"
  unfolding cursor_le_def by (meson order.trans)

lemma cursor_le_same: "c2_cursor db' = c2_cursor db \<Longrightarrow> cursor_le db db'"
  by (simp add: cursor_le_def)

lemma polled_cursor:
  "c2_cursor (polled now db q) =
     (c2_cursor db)(poll_sn q \<mapsto> \<lparr>applied_seq = poll_applied db q, last_poll_at = Some now\<rparr>)"
  by (simp add: polled_def)

lemma cursor_le_polled: "cursor_le db (polled now db q)"
  by (simp add: cursor_le_def polled_cursor poll_applied_def)

lemma Register_cursor:
  "c2_cursor (snd (Register flt now db s l ch pk)) = c2_cursor db \<or>
   c2_cursor db s = None \<and>
   c2_cursor (snd (Register flt now db s l ch pk)) =
     (c2_cursor db)(s \<mapsto> \<lparr>applied_seq = max_seq (command_queue db), last_poll_at = None\<rparr>)"
  by (auto simp: Register_def Let_def split: option.split)

lemma Register_cursor_le: "cursor_le db (snd (Register flt now db s l ch pk))"
  using Register_cursor [of flt now db s l ch pk] by (auto simp: cursor_le_def)

lemma handleC2_cursor_le: "cursor_le db (snd (handleC2 flt now db q))"
  using handleC2_cases [of flt now db q] by (auto simp: poll_refused_def cursor_le_refl cursor_le_polled)

interpretation cursor: monotone_run "c2_apply v" "\<lambda>_. True" cursor_le for v
proof
  show "cursor_le db (c2_apply v a db)" for a v and db :: "'b db_scheme"
    by (cases a) (simp_all add: handleC2_cursor_le Register_cursor_le cursor_le_same)
qed (auto intro: cursor_le_refl cursor_le_trans)

text \<open>
  C6 (cursor).  No sequence of channel operations rolls a device's cursor back, so an old
  acknowledgement cannot make the channel serve a command again; and a single operation changes the
  cursor of a device only if it is an authentic poll of that device, which sets it to the larger of
  the old position and the acknowledgement, or the registration that creates it.
\<close>

theorem cursor_forward_and_owned:
  "(c2_cursor db s = Some cr \<longrightarrow>
     (\<exists>cr'. c2_cursor (run (c2_apply v) as db) s = Some cr' \<and> applied_seq cr \<le> applied_seq cr')) \<and>
   (c2_cursor (c2_apply v a db) s \<noteq> c2_cursor db s \<longrightarrow>
     (\<exists>flt now q. a = Poll flt now q \<and> q_get q ''sn'' = s \<and> authentic db s q \<and>
        c2_cursor (c2_apply v a db) s =
          Some \<lparr>applied_seq = (case c2_cursor db s of None \<Rightarrow> c2_ack q | Some cr \<Rightarrow> max (applied_seq cr) (c2_ack q)),
                last_poll_at = Some now\<rparr>) \<or>
     (\<exists>flt now l ch pk. a = RegisterDev flt now s l ch pk \<and> c2_cursor db s = None))"
proof (intro conjI impI)
  assume "c2_cursor db s = Some cr"
  then show "\<exists>cr'. c2_cursor (run (c2_apply v) as db) s = Some cr' \<and> applied_seq cr \<le> applied_seq cr'"
    using cursor.run_le [of as db v] by (simp add: cursor_le_def)
next
  assume changed: "c2_cursor (c2_apply v a db) s \<noteq> c2_cursor db s"
  show "(\<exists>flt now q. a = Poll flt now q \<and> q_get q ''sn'' = s \<and> authentic db s q \<and>
        c2_cursor (c2_apply v a db) s =
          Some \<lparr>applied_seq = (case c2_cursor db s of None \<Rightarrow> c2_ack q | Some cr \<Rightarrow> max (applied_seq cr) (c2_ack q)),
                last_poll_at = Some now\<rparr>) \<or>
     (\<exists>flt now l ch pk. a = RegisterDev flt now s l ch pk \<and> c2_cursor db s = None)"
  proof (cases a)
    case (Poll flt now q)
    then show ?thesis
      using changed handleC2_cases [of flt now db q]
      by (auto simp: poll_refused_def polled_cursor poll_applied_def poll_sn_def split: if_splits)
  next
    case (RegisterDev flt now s' l ch pk)
    then show ?thesis
      using changed Register_cursor [of flt now db s' l ch pk] by (auto split: if_splits)
  qed (use changed in simp_all)
qed

theorem cursor_forward_and_owned_witness:
  "\<exists>cr'. c2_cursor (run (c2_apply (\<lambda>_ _ _. True)) [Poll (\<lambda>_. False) 1 example_poll] example_db) ''pp1'' = Some cr' \<and>
      3 \<le> applied_seq cr'"
proof -
  have "c2_cursor example_db ''pp1'' = Some \<lparr>applied_seq = 3, last_poll_at = None\<rparr>"
    by (simp add: example_db_def)
  with cursor_forward_and_owned [of example_db "''pp1''" "\<lparr>applied_seq = 3, last_poll_at = None\<rparr>"
      "\<lambda>_ _ _. True" "[Poll (\<lambda>_. False) 1 example_poll]" "Poll (\<lambda>_. False) 1 example_poll"]
  show ?thesis
    by simp
qed

section \<open>The queue's invariant\<close>

definition queue_inv :: "'a db_scheme \<Rightarrow> bool" where
  "queue_inv db \<longleftrightarrow> queue_ok (command_queue db) (cmd_next_seq db) \<and> dedup_ok (command_queue db)"

lemma set_MarkApplied_seq:
  "r' \<in> set (MarkApplied q s a) \<Longrightarrow> \<exists>r \<in> set q. c_seq r = c_seq r' \<and> c_serial r = c_serial r' \<and>
     c_idempotency_key r = c_idempotency_key r' \<and> (\<not> c_applied r' \<longrightarrow> \<not> c_applied r)"
  by (auto simp: MarkApplied_def)

lemma map_seq_MarkApplied [simp]: "map c_seq (MarkApplied q s a) = map c_seq q"
  by (simp add: MarkApplied_def)

lemma queue_ok_map:
  "queue_ok q n \<longleftrightarrow> sorted_wrt (<) (map c_seq q) \<and> (\<forall>i \<in> set (map c_seq q). 0 < i \<and> i < n) \<and> 0 < n"
  by (simp add: queue_ok_def sorted_wrt_map)

lemma queue_ok_MarkApplied: "queue_ok q n \<Longrightarrow> queue_ok (MarkApplied q s a) n"
  unfolding queue_ok_map map_seq_MarkApplied .

lemma dedup_ok_MarkApplied: "dedup_ok q \<Longrightarrow> dedup_ok (MarkApplied q s a)"
  unfolding dedup_ok_def pending_key_def by (metis set_MarkApplied_seq)

lemma queue_inv_polled: "queue_inv db \<Longrightarrow> queue_inv (polled now db q)"
  by (simp add: queue_inv_def polled_def queue_ok_MarkApplied dedup_ok_MarkApplied)

lemma queue_ok_append: "queue_ok q n \<Longrightarrow> c_seq r = n \<Longrightarrow> queue_ok (q @ [r]) (n + 1)"
  unfolding queue_ok_def by (auto simp: sorted_wrt_append)

lemma queue_ok_next: "queue_ok q n \<Longrightarrow> queue_ok q (n + 1)"
  unfolding queue_ok_def by auto

lemma dedup_ok_append:
  assumes "dedup_ok q" and "\<And>s key r'. r' \<in> set q \<Longrightarrow> pending_key s key r \<Longrightarrow> \<not> pending_key s key r'"
  shows "dedup_ok (q @ [r])"
  unfolding dedup_ok_def
proof (intro ballI allI impI)
  fix a b s k
  assume "a \<in> set (q @ [r])" "b \<in> set (q @ [r])" "pending_key s k a" "pending_key s k b"
  then show "c_seq a = c_seq b"
    using assms by (simp add: dedup_ok_def) metis
qed

definition cmd_conflict :: "'a db_scheme \<Rightarrow> serial \<Rightarrow> string option \<Rightarrow> bool" where
  "cmd_conflict db sn k = (case k of None \<Rightarrow> False | Some key \<Rightarrow> \<exists>r \<in> set (command_queue db). pending_key sn key r)"

definition new_cmd ::
  "time \<Rightarrow> 'a db_scheme \<Rightarrow> serial \<Rightarrow> string \<Rightarrow> string option \<Rightarrow> int option \<Rightarrow> string option \<Rightarrow> cmd_row" where
  "new_cmd now db sn sc nt op k =
     \<lparr>c_seq = cmd_next_seq db, c_serial = sn, c_script = sc, c_note = nt, c_operator_key_id = op,
      c_idempotency_key = k, c_applied = False, c_created_at = now\<rparr>"

lemma insert_cmd_eq:
  "insert_cmd now db sn sc nt op k =
     (if cmd_conflict db sn k then (None, db\<lparr>cmd_next_seq := cmd_next_seq db + 1\<rparr>)
      else (Some (cmd_next_seq db),
            db\<lparr>command_queue := command_queue db @ [new_cmd now db sn sc nt op k],
               cmd_next_seq := cmd_next_seq db + 1\<rparr>))"
  by (simp add: insert_cmd_def cmd_conflict_def new_cmd_def Let_def list_ex_iff split: option.split)

lemma queue_inv_insert_cmd:
  assumes "queue_inv db"
  shows "queue_inv (snd (insert_cmd now db sn sc nt op k))"
proof (cases "cmd_conflict db sn k")
  case True
  then show ?thesis
    using assms by (simp add: insert_cmd_eq queue_inv_def queue_ok_next)
next
  case False
  then have "dedup_ok (command_queue db @ [new_cmd now db sn sc nt op k])"
    using assms by (intro dedup_ok_append)
      (auto simp: queue_inv_def new_cmd_def pending_key_def cmd_conflict_def split: option.splits)
  moreover have "queue_ok (command_queue db @ [new_cmd now db sn sc nt op k]) (cmd_next_seq db + 1)"
    using assms by (intro queue_ok_append) (simp_all add: queue_inv_def new_cmd_def)
  ultimately show ?thesis
    using False by (simp add: insert_cmd_eq queue_inv_def)
qed

lemma queue_inv_frame:
  "command_queue db' = command_queue db \<Longrightarrow> cmd_next_seq db' = cmd_next_seq db \<Longrightarrow> queue_inv db' = queue_inv db"
  by (simp add: queue_inv_def)

lemma Register_queue [simp]:
  "command_queue (snd (Register flt now db s l ch pk)) = command_queue db"
  "cmd_next_seq (snd (Register flt now db s l ch pk)) = cmd_next_seq db"
  by (simp_all add: Register_def Let_def)

lemma c2_apply_queue_inv: "queue_inv db \<Longrightarrow> queue_inv (c2_apply v a db)"
proof (cases a)
  case (Poll flt now q)
  then show "queue_inv db \<Longrightarrow> ?thesis"
    using handleC2_cases [of flt now db q] by (auto simp: poll_refused_def queue_inv_polled)
next
  case (EnqueueCmd flt now sn sc nt op k)
  then show "queue_inv db \<Longrightarrow> ?thesis"
    using Enqueue_snd [of flt now db sn sc nt op k] queue_inv_insert_cmd by fastforce
qed (simp_all add: queue_inv_def)

interpretation queue: invariant_run "c2_apply v" "\<lambda>_. True" queue_inv for v
  by unfold_locales (rule c2_apply_queue_inv)

lemma queue_inv_empty: "queue_inv empty_db"
  by (simp add: queue_inv_def queue_ok_def dedup_ok_def empty_db_def)

text \<open>
  In every state that the channel's operations reach from the freshly migrated
  tables the sequence numbers of the queue strictly increase below the identity counter and the
  pending-dedup index holds: no two pending rows share a serial and an idempotency key.
\<close>

theorem reachable_queue_inv:
  "queue_ok (command_queue (run (c2_apply v) as empty_db)) (cmd_next_seq (run (c2_apply v) as empty_db)) \<and>
   dedup_ok (command_queue (run (c2_apply v) as empty_db))"
  using queue.run_I [of as empty_db v] queue_inv_empty by (simp add: queue_inv_def)

section \<open>Enqueueing\<close>

lemma queue_ok_seq_inj:
  "queue_ok q n \<Longrightarrow> r \<in> set q \<Longrightarrow> r' \<in> set q \<Longrightarrow> c_seq r = c_seq r' \<Longrightarrow> r = r'"
  by (induction q) (auto simp: queue_ok_def)

lemma pending_seq_Some:
  assumes "dedup_ok q" and "r \<in> set q" and "pending_key s k r"
  shows "pending_seq q s k = Some (c_seq r)"
proof -
  have set: "set (sort_key c_seq (filter (pending_key s k) q)) = {r \<in> set q. pending_key s k r}"
    by auto
  obtain r' rs where rs: "sort_key c_seq (filter (pending_key s k) q) = r' # rs"
    using assms(2,3) set by (cases "sort_key c_seq (filter (pending_key s k) q)") auto
  then have "r' \<in> set q" "pending_key s k r'"
    using set by auto
  then have "c_seq r' = c_seq r"
    using assms unfolding dedup_ok_def by blast
  with rs show ?thesis
    by (simp add: pending_seq_def)
qed

lemma enqueue_check_None:
  "enqueue_check flt db sn sc = None \<longleftrightarrow>
     sc \<noteq> [] \<and> length sc \<le> 8191 \<and> (sn = ''*'' \<or> \<not> flt EqDeviceSelect \<and> devices db sn \<noteq> None)"
  by (auto simp: enqueue_check_def ScriptMax_def)

lemma Enqueue_pending:
  assumes "queue_inv db" and "\<And>c. \<not> flt c" and "enqueue_check flt db sn sc = None" and "k \<noteq> []"
    and "r \<in> set (command_queue db)" and "pending_key sn k r"
  shows "Enqueue flt now db sn sc nt op (Some k) = (Inr (c_seq r), db\<lparr>cmd_next_seq := cmd_next_seq db + 1\<rparr>)"
proof -
  have "cmd_conflict db sn (Some k)"
    using assms(5,6) by (auto simp: cmd_conflict_def)
  moreover have "pending_seq (command_queue db) sn k = Some (c_seq r)"
    using assms(1,5,6) by (intro pending_seq_Some) (simp_all add: queue_inv_def)
  ultimately show ?thesis
    using assms(2,3,4) by (simp add: Enqueue_def enqueue_insert_def insert_cmd_eq dedup_key_def)
qed

lemma Enqueue_new:
  assumes "\<And>c. \<not> flt c" and "enqueue_check flt db sn sc = None" and "k \<noteq> []" and "\<not> cmd_conflict db sn (Some k)"
  shows "Enqueue flt now db sn sc nt op (Some k) =
    (Inr (cmd_next_seq db),
     db\<lparr>command_queue := command_queue db @ [new_cmd now db sn sc nt (Some op) (Some k)],
        cmd_next_seq := cmd_next_seq db + 1\<rparr>)"
  using assms by (simp add: Enqueue_def enqueue_insert_def insert_cmd_eq dedup_key_def)

text \<open>
  A keyed enqueue for a registered device or for the fleet leaves exactly
  one pending row with that serial and key, whose number it returns; a row that was pending already is
  kept as it is and no row is added.  Repeating the call at once returns the same number and adds
  nothing, so a double click runs a command once.
\<close>

theorem Enqueue_idempotent:
  assumes "queue_inv db" and "\<forall>c. \<not> flt c" and "enqueue_check flt db sn sc = None" and "k \<noteq> []"
  shows "\<exists>seq db' db''.
    Enqueue flt now db sn sc nt op (Some k) = (Inr seq, db') \<and>
    (\<exists>!r. r \<in> set (command_queue db') \<and> pending_key sn k r) \<and>
    (\<exists>r \<in> set (command_queue db'). pending_key sn k r \<and> c_seq r = seq) \<and>
    (command_queue db' = command_queue db \<or>
     command_queue db' = command_queue db @ [new_cmd now db sn sc nt (Some op) (Some k)] \<and>
     (\<forall>r \<in> set (command_queue db). \<not> pending_key sn k r \<and> c_seq r < seq)) \<and>
    Enqueue flt now' db' sn sc nt op (Some k) = (Inr seq, db'') \<and> command_queue db'' = command_queue db'"
proof -
  obtain seq db' where db': "Enqueue flt now db sn sc nt op (Some k) = (Inr seq, db')"
    and mem: "\<exists>r \<in> set (command_queue db'). pending_key sn k r \<and> c_seq r = seq"
    and queue: "command_queue db' = command_queue db \<or>
     command_queue db' = command_queue db @ [new_cmd now db sn sc nt (Some op) (Some k)] \<and>
     (\<forall>r \<in> set (command_queue db). \<not> pending_key sn k r \<and> c_seq r < seq)"
    and devs: "devices db' = devices db"
  proof (cases "cmd_conflict db sn (Some k)")
    case True
    then obtain r where "r \<in> set (command_queue db)" "pending_key sn k r"
      by (auto simp: cmd_conflict_def)
    with Enqueue_pending [of db flt sn sc k r now nt op] assms show ?thesis
      by (intro that [of "c_seq r" "db\<lparr>cmd_next_seq := cmd_next_seq db + 1\<rparr>"]) auto
  next
    case False
    have "\<forall>r \<in> set (command_queue db). \<not> pending_key sn k r \<and> c_seq r < cmd_next_seq db"
      using False assms(1) by (auto simp: cmd_conflict_def queue_inv_def queue_ok_def)
    with Enqueue_new [of flt db sn sc k now nt op] False assms show ?thesis
      by (intro that [of "cmd_next_seq db" "db\<lparr>command_queue := command_queue db @
            [new_cmd now db sn sc nt (Some op) (Some k)], cmd_next_seq := cmd_next_seq db + 1\<rparr>"])
        (simp_all add: new_cmd_def pending_key_def)
  qed
  have inv: "queue_inv db'"
    using c2_apply_queue_inv [OF assms(1), of undefined "EnqueueCmd flt now sn sc nt op (Some k)"] db' by simp
  obtain r where r: "r \<in> set (command_queue db')" "pending_key sn k r" "c_seq r = seq"
    using mem by blast
  have "r' = r" if "r' \<in> set (command_queue db')" "pending_key sn k r'" for r'
    using inv r that queue_ok_seq_inj unfolding queue_inv_def dedup_ok_def by metis
  then have "\<exists>!r. r \<in> set (command_queue db') \<and> pending_key sn k r"
    using r by blast
  moreover have "enqueue_check flt db' sn sc = None"
    using assms(3) devs by (simp add: enqueue_check_None)
  then have "Enqueue flt now' db' sn sc nt op (Some k) = (Inr seq, db'\<lparr>cmd_next_seq := cmd_next_seq db' + 1\<rparr>)"
    using Enqueue_pending [of db' flt sn sc k r now' nt op] inv r assms(2,4) by simp
  ultimately show ?thesis
    using db' mem queue by auto
qed

lemma example_queue_inv: "queue_inv example_db"
  by (auto simp: queue_inv_def queue_ok_def dedup_ok_def pending_key_def example_db_def example_cmd_def)

theorem Enqueue_idempotent_witness:
  "\<exists>seq db' db''.
    Enqueue (\<lambda>_. False) 1 example_db ''*'' ''reboot()'' None 7 (Some ''k'') = (Inr seq, db') \<and>
    (\<exists>!r. r \<in> set (command_queue db') \<and> pending_key ''*'' ''k'' r) \<and>
    (\<exists>r \<in> set (command_queue db'). pending_key ''*'' ''k'' r \<and> c_seq r = seq) \<and>
    (command_queue db' = command_queue example_db \<or>
     command_queue db' = command_queue example_db @ [new_cmd 1 example_db ''*'' ''reboot()'' None (Some 7) (Some ''k'')] \<and>
     (\<forall>r \<in> set (command_queue example_db). \<not> pending_key ''*'' ''k'' r \<and> c_seq r < seq)) \<and>
    Enqueue (\<lambda>_. False) 2 db' ''*'' ''reboot()'' None 7 (Some ''k'') = (Inr seq, db'') \<and>
    command_queue db'' = command_queue db'"
  by (rule Enqueue_idempotent) (simp_all add: example_queue_inv enqueue_check_None)

section \<open>Serving in order\<close>

lemma pending_cmds_later: "a \<le> b \<Longrightarrow> pending_cmds q s b = filter (\<lambda>r. c_seq r > b) (pending_cmds q s a)"
  unfolding pending_cmds_def filter_sort filter_filter
  by (rule arg_cong [where f = "sort_key c_seq"], rule filter_cong) auto

lemma MarkApplied_filter:
  assumes "\<And>r. r \<in> set q \<Longrightarrow> c_serial r = s \<Longrightarrow> c_seq r \<le> a \<Longrightarrow> \<not> P r"
    and "\<And>r. r \<in> set q \<Longrightarrow> P (r\<lparr>c_applied := True\<rparr>) = P r"
  shows "filter P (MarkApplied q s a) = filter P q"
  using assms by (induction q) (simp_all add: MarkApplied_def)

lemma pending_cmds_MarkApplied: "a \<le> b \<Longrightarrow> pending_cmds (MarkApplied q s a) s' b = pending_cmds q s' b"
  unfolding pending_cmds_def by (subst MarkApplied_filter) (auto simp: targets_def)

lemma next_cmd_pending: "next_cmd q s a = (case pending_cmds q s a of [] \<Rightarrow> None | r # _ \<Rightarrow> Some r)"
  by (simp add: next_cmd_def)

lemma pending_cmds_strict:
  assumes "queue_ok q n"
  shows "sorted_wrt (\<lambda>a b. c_seq a < c_seq b) (pending_cmds q s a)"
proof -
  let ?f = "filter (\<lambda>r. targets s r \<and> a < c_seq r) q"
  have f: "sorted_wrt (\<lambda>a b. c_seq a < c_seq b) ?f"
    using assms by (simp add: queue_ok_def sorted_wrt_filter)
  then have "sorted (map c_seq ?f)"
    unfolding sorted_map by (rule sorted_wrt_mono_rel [rotated]) simp
  then have "pending_cmds q s a = ?f"
    unfolding pending_cmds_def by (rule sort_key_id_if_sorted)
  then show ?thesis
    using f by simp
qed

lemma pending_cmds_tl:
  assumes "queue_ok q n" and "pending_cmds q s a = r # rs"
  shows "pending_cmds q s (c_seq r) = rs" and "a < c_seq r"
proof -
  have mem: "set (pending_cmds q s a) = {r \<in> set q. targets s r \<and> a < c_seq r}"
    by (auto simp: pending_cmds_def)
  then show less: "a < c_seq r"
    using assms(2) by (metis (mono_tags, lifting) list.set_intros(1) mem_Collect_eq)
  have "\<forall>x \<in> set rs. c_seq r < c_seq x"
    using pending_cmds_strict [OF assms(1), of s a] assms(2) by simp
  then show "pending_cmds q s (c_seq r) = rs"
    using pending_cmds_later [of a "c_seq r" q s] less assms(2) by (simp add: filter_id_conv)
qed

lemma poll_reply_pending:
  "poll_reply db q =
     (case pending_cmds (command_queue db) (poll_sn q) (poll_applied db q) of
        r # _ \<Rightarrow> Reply (serve_cmd r)
      | [] \<Rightarrow>
          let waitS = fst (Atoi (q_get q ''wait'')) in
          if waitS \<le> 0 then Reply no_content
          else Hold (poll_sn q) (poll_applied db q) (min waitS c2MaxWaitS * second))"
  by (simp add: poll_reply_def next_cmd_pending pending_cmds_MarkApplied split: list.split)

text \<open>
  When a poll answers with a script, that script is the one of the oldest queued
  command past the device's committed cursor that targets the device or the fleet, and the header
  names its sequence number; when it answers 204, or starts to hold the request, no such command
  exists.
\<close>

theorem poll_serves_oldest:
  assumes "handleC2 flt now db q = (out, db')"
  shows "(case out of
     Reply resp \<Rightarrow>
       (rs_status resp = 200 \<longrightarrow>
          (\<exists>cr r. c2_cursor db' (q_get q ''sn'') = Some cr \<and> r \<in> set (command_queue db) \<and>
             targets (q_get q ''sn'') r \<and> applied_seq cr < c_seq r \<and> resp = serve_cmd r \<and>
             (\<forall>r' \<in> set (command_queue db). targets (q_get q ''sn'') r' \<longrightarrow> applied_seq cr < c_seq r' \<longrightarrow>
                c_seq r \<le> c_seq r'))) \<and>
       (rs_status resp = 204 \<longrightarrow>
          (\<exists>cr. c2_cursor db' (q_get q ''sn'') = Some cr \<and>
             (\<forall>r \<in> set (command_queue db). targets (q_get q ''sn'') r \<longrightarrow> c_seq r \<le> applied_seq cr)))
   | Hold sn applied budget \<Rightarrow>
       sn = q_get q ''sn'' \<and> 0 < budget \<and> budget \<le> 25 * second \<and>
       (\<exists>cr. c2_cursor db' sn = Some cr \<and> applied_seq cr = applied) \<and>
       (\<forall>r \<in> set (command_queue db). targets sn r \<longrightarrow> c_seq r \<le> applied))"
proof (cases "poll_refused (handleC2 flt now db q) db")
  case True
  then show ?thesis
    using assms by (auto simp: poll_refused_def)
next
  case False
  then have out: "out = poll_reply db q" and db': "db' = polled now db q"
    using handleC2_cases [of flt now db q] assms by auto
  let ?s = "q_get q ''sn''" and ?a = "poll_applied db q"
  have cur: "c2_cursor db' ?s = Some \<lparr>applied_seq = ?a, last_poll_at = Some now\<rparr>"
    by (simp add: db' polled_cursor poll_sn_def)
  show ?thesis
  proof (cases "next_cmd (command_queue db) ?s ?a")
    case None
    then have none: "\<forall>r \<in> set (command_queue db). targets ?s r \<longrightarrow> c_seq r \<le> ?a"
      by (simp add: next_cmd_None)
    have "pending_cmds (command_queue db) ?s ?a = []"
      using None by (simp add: next_cmd_pending split: list.splits)
    then show ?thesis
      using none cur by (simp add: out poll_reply_pending poll_sn_def Let_def no_content_def c2MaxWaitS_def)
  next
    case (Some r)
    then obtain rs where "pending_cmds (command_queue db) ?s ?a = r # rs"
      by (auto simp: next_cmd_pending split: list.splits)
    then have "out = Reply (serve_cmd r)"
      by (simp add: out poll_reply_pending poll_sn_def)
    then show ?thesis
      using next_cmd_Some [OF Some] cur by (auto simp: serve_cmd_def)
  qed
qed

theorem poll_serves_oldest_witness:
  "\<exists>cr r. c2_cursor (polled 0 example_db example_poll) ''pp1'' = Some cr \<and> r \<in> set (command_queue example_db) \<and>
     applied_seq cr < c_seq r \<and> poll_reply example_db example_poll = Reply (serve_cmd r)"
proof -
  have "poll_reply example_db example_poll = Reply (serve_cmd (example_cmd 4 ''*'' ''b''))"
    by (simp add: poll_reply_pending poll_applied_def example_db_def example_poll_def poll_sn_def
        pending_cmds_def targets_def example_cmd_def c2_ack_def ParseInt_FormatInt int64_min_def int64_max_def)
  with poll_serves_oldest [OF example_served [of 0]] show ?thesis
    by (auto simp: serve_cmd_def)
qed

section \<open>A device that keeps polling\<close>

text \<open>
  A device with an established session polls with the next counter, runs the script it receives and
  acknowledges the number in the reply's header with its next poll, until it is told to go idle.
\<close>

fun drain :: "time \<Rightarrow> nat \<Rightarrow> serial \<Rightarrow> bytes \<Rightarrow> int \<Rightarrow> nat \<Rightarrow> int \<Rightarrow> 'a db_scheme \<Rightarrow> string list \<times> 'a db_scheme" where
  "drain now 0 sn sec d c ack db = ([], db)"
| "drain now (Suc n) sn sec d c ack db =
     (case handleC2 (\<lambda>_. False) now db (device_query sn sec d c ack) of
        (Reply resp, db') \<Rightarrow>
          (case get_header resp ''X-C2-Seq'' of
             Some seq \<Rightarrow>
               (case drain now n sn sec d (c + 1) (fst (ParseInt seq)) db' of
                  (scripts, db'') \<Rightarrow> (rs_body resp # scripts, db''))
           | None \<Rightarrow> ([], db'))
      | (Hold _ _ _, db') \<Rightarrow> ([], db'))"

definition session_at :: "'a db_scheme \<Rightarrow> serial \<Rightarrow> bytes \<Rightarrow> int \<Rightarrow> nat \<Rightarrow> bool" where
  "session_at db sn sec d c \<longleftrightarrow>
     (\<exists>row. device_auth db sn = Some row \<and> session_secret row = Some sec \<and> digitsOr8 (auth_digits row) = d \<and>
        session_bootstrapped row \<and> c = unat (session_last_counter row) + 1)"

definition cursor_at :: "'a db_scheme \<Rightarrow> serial \<Rightarrow> int \<Rightarrow> int" where
  "cursor_at db sn ack = (case c2_cursor db sn of None \<Rightarrow> ack | Some cr \<Rightarrow> max (applied_seq cr) ack)"

lemma c2_ack_device_query: "0 \<le> ack \<Longrightarrow> ack \<le> int64_max \<Longrightarrow> c2_ack (device_query sn sec d c ack) = ack"
  by (simp add: c2_ack_def ParseInt_FormatInt int64_min_def)

lemma device_poll:
  assumes "session_at db sn sec d c" and "c + 4096 < 2 ^ 64" and "devices db sn \<noteq> None" and "sn \<noteq> []"
    and "0 \<le> ack" and "ack \<le> int64_max"
  shows "handleC2 (\<lambda>_. False) now db (device_query sn sec d c ack) =
      (poll_reply db (device_query sn sec d c ack), polled now db (device_query sn sec d c ack))"
    and "poll_applied db (device_query sn sec d c ack) = cursor_at db sn ack"
    and "session_at (polled now db (device_query sn sec d c ack)) sn sec d (c + 1)"
    and "cursor_at (polled now db (device_query sn sec d c ack)) sn ack' = max (cursor_at db sn ack) ack'"
proof -
  have auth: "authentic db sn (device_query sn sec d c ack)"
    using assms(1,2) unfolding session_at_def by (auto intro: authentic_device_query)
  have sn: "poll_sn (device_query sn sec d c ack) = sn"
    by (simp add: poll_sn_def)
  show "handleC2 (\<lambda>_. False) now db (device_query sn sec d c ack) =
      (poll_reply db (device_query sn sec d c ack), polled now db (device_query sn sec d c ack))"
    using auth assms(3,4) by (intro handleC2_served) (simp_all add: sn)
  show app: "poll_applied db (device_query sn sec d c ack) = cursor_at db sn ack"
    by (simp add: poll_applied_def cursor_at_def poll_sn_def c2_ack_device_query [OF assms(5,6)]
        split: option.split)
  show "cursor_at (polled now db (device_query sn sec d c ack)) sn ack' = max (cursor_at db sn ack) ack'"
    by (simp add: cursor_at_def [of "polled now db (device_query sn sec d c ack)"] polled_cursor sn app)
  have c: "unat (of_nat c :: 64 word) = c" "fst (ParseUint 64 (format_nat c)) = c"
    using assms(2) by (simp_all add: unat_of_nat ParseUint_format_nat)
  obtain row where row: "device_auth db sn = Some row" "session_secret row = Some sec" "digitsOr8 (auth_digits row) = d"
    using assms(1) by (auto simp: session_at_def)
  have "session_last_counter (accepted_row now (device_query sn sec d c ack) row) = of_nat c"
    by (simp add: accepted_row_def c)
  then show "session_at (polled now db (device_query sn sec d c ack)) sn sec d (c + 1)"
    using row c(1) by (simp add: session_at_def polled_def sn) (simp add: accepted_row_def)
qed

text \<open>
  C7 (delivery).  A device with an established session that polls often enough receives the scripts
  of exactly the commands queued for it or for the fleet past its cursor, each once and in the order
  of their sequence numbers, and then finds nothing left.
\<close>

theorem drain_delivers_in_order:
  assumes "queue_inv db" and "session_at db sn sec d c" and "c + n + 4096 < 2 ^ 64"
    and "devices db sn \<noteq> None" and "sn \<noteq> []" and "0 \<le> ack" and "ack \<le> int64_max"
    and "cmd_next_seq db \<le> int64_max"
    and "length (pending_cmds (command_queue db) sn (cursor_at db sn ack)) < n"
    and "drain now n sn sec d c ack db = (scripts, db')"
  shows "scripts = map c_script (pending_cmds (command_queue db) sn (cursor_at db sn ack)) \<and>
         pending_cmds (command_queue db') sn (cursor_at db' sn 0) = []"
  using assms
proof (induction n arbitrary: db c ack scripts)
  case (Suc n)
  let ?q = "device_query sn sec d c ack" and ?a = "cursor_at db sn ack"
  have "c + 4096 < 2 ^ 64"
    using Suc.prems(3) by simp
  note poll = device_poll [OF Suc.prems(2) this Suc.prems(4,5,6,7)]
  have queue: "command_queue (polled now db ?q) = MarkApplied (command_queue db) sn ?a"
    using poll(2) by (simp add: polled_def poll_sn_def)
  have ok: "queue_ok (command_queue db) (cmd_next_seq db)"
    using Suc.prems(1) by (simp add: queue_inv_def)
  have a0: "0 \<le> ?a"
    using Suc.prems(6) by (simp add: cursor_at_def le_max_iff_disj split: option.split)
  show ?case
  proof (cases "pending_cmds (command_queue db) sn ?a")
    case Nil
    then have reply: "poll_reply db ?q = Reply no_content"
      using poll(2) by (simp add: poll_reply_pending poll_sn_def Atoi_def ParseInt_def)
    then have "scripts = []" "db' = polled now db ?q"
      using Suc.prems(10) poll(1) [of now] by (simp_all add: no_content_def get_header_def)
    moreover have "cursor_at (polled now db ?q) sn 0 = ?a"
      using poll(4) [of now 0] a0 by simp
    ultimately show ?thesis
      using Nil queue by (simp add: pending_cmds_MarkApplied)
  next
    case (Cons r rs)
    have r: "r \<in> set (command_queue db)" "?a < c_seq r"
      using Cons next_cmd_Some [of "command_queue db" sn ?a r] by (auto simp: next_cmd_pending)
    then have seq: "0 \<le> c_seq r" "c_seq r \<le> int64_max"
      using ok Suc.prems(8) by (auto simp: queue_ok_def)
    have reply: "poll_reply db ?q = Reply (serve_cmd r)"
      using poll(2) Cons by (simp add: poll_reply_pending poll_sn_def)
    obtain scripts' where rec: "drain now n sn sec d (c + 1) (c_seq r) (polled now db ?q) = (scripts', db')"
      and scripts: "scripts = c_script r # scripts'"
      using Suc.prems(10) poll(1) [of now] reply seq
      by (auto simp: serve_cmd_def get_header_def ParseInt_FormatInt int64_min_def split: prod.splits)
    have cur: "cursor_at (polled now db ?q) sn (c_seq r) = c_seq r"
      using poll(4) [of now "c_seq r"] r(2) by simp
    have rs: "pending_cmds (command_queue (polled now db ?q)) sn (c_seq r) = rs"
      using pending_cmds_tl [OF ok Cons] queue by (simp add: pending_cmds_MarkApplied)
    have "scripts' = map c_script (pending_cmds (command_queue (polled now db ?q)) sn
            (cursor_at (polled now db ?q) sn (c_seq r))) \<and>
          pending_cmds (command_queue db') sn (cursor_at db' sn 0) = []"
    proof (rule Suc.IH)
      show "queue_inv (polled now db ?q)"
        using Suc.prems(1) by (rule queue_inv_polled)
      show "session_at (polled now db ?q) sn sec d (c + 1)"
        by (rule poll(3))
      show "length (pending_cmds (command_queue (polled now db ?q)) sn (cursor_at (polled now db ?q) sn (c_seq r))) < n"
        using Suc.prems(9) Cons by (simp add: cur rs)
    qed (use Suc.prems seq rec in \<open>simp_all add: polled_def\<close>)
    then show ?thesis
      using scripts Cons by (simp add: cur rs)
  qed
qed simp

theorem drain_delivers_in_order_witness:
  "fst (drain 0 5 ''pp1'' (replicate 20 7) 8 6 3 example_db) = [''b'', ''c'']"
proof -
  obtain scripts db' where run: "drain 0 5 ''pp1'' (replicate 20 7) 8 6 3 example_db = (scripts, db')"
    by (metis surj_pair)
  have at: "cursor_at example_db ''pp1'' 3 = 3"
    by (simp add: cursor_at_def example_db_def)
  have pend: "pending_cmds (command_queue example_db) ''pp1'' 3 = [example_cmd 4 ''*'' ''b'', example_cmd 6 ''pp1'' ''c'']"
    by (simp add: pending_cmds_def targets_def example_db_def example_cmd_def)
  have "scripts = map c_script (pending_cmds (command_queue example_db) ''pp1'' (cursor_at example_db ''pp1'' 3)) \<and>
        pending_cmds (command_queue db') ''pp1'' (cursor_at db' ''pp1'' 0) = []"
    by (rule drain_delivers_in_order [OF example_queue_inv _ _ _ _ _ _ _ _ run])
      (simp_all add: at pend, simp_all add: session_at_def example_db_def example_auth_def digitsOr8_def int64_max_def)
  then show ?thesis
    by (simp add: run at pend example_cmd_def)
qed

text \<open>
  An acknowledgement outside the 64-bit range: the error of \<open>ParseInt\<close> is dropped and its clamped
  value kept, so an authentic poll moves the cursor to the largest sequence number and no command
  that can exist is ever served to the device again.
\<close>

theorem ack_overflow_skips_queue:
  assumes "snd (ParseInt (q_get q ''ack'')) = Some ErrRange" and "hd (q_get q ''ack'') \<noteq> CHR ''-''"
    and "handleC2 flt now db q = (out, db')" and "\<forall>code \<in> {401, 404, 500}. out \<noteq> Reply (http_error code)"
    and "\<forall>r \<in> set queue'. c_seq r \<le> int64_max"
  shows "\<exists>cr. c2_cursor db' (q_get q ''sn'') = Some cr \<and> int64_max \<le> applied_seq cr \<and>
         next_cmd queue' (q_get q ''sn'') (applied_seq cr) = None"
proof -
  have ack: "c2_ack q = int64_max"
    using assms(1,2) unfolding c2_ack_def ParseInt_def Let_def
    by (auto simp: int64_max_def split: prod.splits option.splits num_err.splits if_splits)
  have "db' = polled now db q"
    using handleC2_cases [of flt now db q] assms(3,4) by (auto simp: poll_refused_def)
  then have cr: "c2_cursor db' (q_get q ''sn'') = Some \<lparr>applied_seq = poll_applied db q, last_poll_at = Some now\<rparr>"
    by (simp add: polled_cursor poll_sn_def)
  have "int64_max \<le> poll_applied db q"
    by (simp add: poll_applied_def ack split: option.split)
  then show ?thesis
    using cr assms(5) by (fastforce simp: next_cmd_None)
qed

end
