(* ===== verification/C2_Longpoll.thy ===== *)
theory C2_Longpoll
  imports C2_Channel
begin

text \<open>
  The held poll: the loop of \<open>c2LongPoll\<close> (\<open>ingestcore/c2.go\<close>) against the close-and-replace
  broadcast of \<open>c2Notifier\<close> and the single \<open>LISTEN\<close> connection (\<open>ingestcore/c2notify.go\<close>), with
  inserts into the command queue at any point between its steps.

  A wake channel is named by the number of broadcasts before it was made, so it is closed when a later
  channel is current.  A committed insert reaches the listener as a notification if the connection is
  listening at that time; notifications in flight are lost when the connection drops.
\<close>

section \<open>The notifier\<close>

record c2Notifier =
  ch :: nat

definition newC2Notifier :: c2Notifier where
  "newC2Notifier = \<lparr>ch = 0\<rparr>"

definition wait :: "c2Notifier \<Rightarrow> nat" where
  "wait n = ch n"

definition broadcast :: "c2Notifier \<Rightarrow> c2Notifier" where
  "broadcast n = n\<lparr>ch := ch n + 1\<rparr>"

definition ch_closed :: "c2Notifier \<Rightarrow> nat \<Rightarrow> bool" where
  "ch_closed n w \<longleftrightarrow> w < ch n"

section \<open>The held poll as a step relation\<close>

text \<open>
  The program point of the handler: at the head of the loop, with the wake channel in hand before the
  query, in the \<open>select\<close>, or returned with what it wrote (\<open>None\<close> when the client is gone).
\<close>

datatype lp_pc = LoopHead | Grabbed nat | Selecting nat | Returned "http_resp option"

text \<open>
  \<open>lp_missed\<close> is a history variable: an insert went by while the connection was not listening, or a
  notification was dropped with it.
\<close>

record lp_state =
  lp_queue :: "cmd_row list"
  lp_notifier :: c2Notifier
  lp_listening :: bool
  lp_backlog :: nat
  lp_missed :: bool
  lp_pc :: lp_pc

inductive lp_step :: "serial \<Rightarrow> int \<Rightarrow> lp_state \<Rightarrow> lp_state \<Rightarrow> bool" for serial applied where
  grab: "lp_pc s = LoopHead \<Longrightarrow> lp_step serial applied s (s\<lparr>lp_pc := Grabbed (wait (lp_notifier s))\<rparr>)"
| query_hit: "lp_pc s = Grabbed w \<Longrightarrow> next_cmd (lp_queue s) serial applied = Some r \<Longrightarrow>
    lp_step serial applied s (s\<lparr>lp_pc := Returned (Some (serve_cmd r))\<rparr>)"
| query_miss: "lp_pc s = Grabbed w \<Longrightarrow> next_cmd (lp_queue s) serial applied = None \<Longrightarrow>
    lp_step serial applied s (s\<lparr>lp_pc := Selecting w\<rparr>)"
| query_error: "lp_pc s = Grabbed w \<Longrightarrow> lp_step serial applied s (s\<lparr>lp_pc := Returned (Some (http_error 500))\<rparr>)"
| client_gone: "lp_pc s = Selecting w \<Longrightarrow> lp_step serial applied s (s\<lparr>lp_pc := Returned None\<rparr>)"
| deadline: "lp_pc s = Selecting w \<Longrightarrow> lp_step serial applied s (s\<lparr>lp_pc := Returned (Some no_content)\<rparr>)"
| wake: "lp_pc s = Selecting w \<Longrightarrow> ch_closed (lp_notifier s) w \<Longrightarrow>
    lp_step serial applied s (s\<lparr>lp_pc := LoopHead\<rparr>)"
| enqueued: "lp_step serial applied s
    (s\<lparr>lp_queue := lp_queue s @ [r],
       lp_backlog := (if lp_listening s then lp_backlog s + 1 else lp_backlog s),
       lp_missed := (lp_missed s \<or> \<not> lp_listening s)\<rparr>)"
| notification: "lp_listening s \<Longrightarrow> 0 < lp_backlog s \<Longrightarrow>
    lp_step serial applied s (s\<lparr>lp_backlog := lp_backlog s - 1, lp_notifier := broadcast (lp_notifier s)\<rparr>)"
| listen: "\<not> lp_listening s \<Longrightarrow> lp_step serial applied s (s\<lparr>lp_listening := True\<rparr>)"
| connection_lost: "lp_listening s \<Longrightarrow>
    lp_step serial applied s
      (s\<lparr>lp_listening := False, lp_backlog := 0, lp_missed := (lp_missed s \<or> 0 < lp_backlog s)\<rparr>)"

inductive_cases lp_stepE: "lp_step serial applied s t"

text \<open>The handler enters the loop; the rest of the process may be in any consistent state.\<close>

definition lp_init :: "lp_state \<Rightarrow> bool" where
  "lp_init s \<longleftrightarrow> lp_pc s = LoopHead \<and> \<not> lp_missed s \<and> (\<not> lp_listening s \<longrightarrow> lp_backlog s = 0)"

definition lp_reach :: "serial \<Rightarrow> int \<Rightarrow> lp_state \<Rightarrow> bool" where
  "lp_reach serial applied t \<longleftrightarrow> (\<exists>s. lp_init s \<and> (lp_step serial applied)\<^sup>*\<^sup>* s t)"

section \<open>No lost wakeup\<close>

definition has_cmd :: "serial \<Rightarrow> int \<Rightarrow> lp_state \<Rightarrow> bool" where
  "has_cmd serial applied s \<longleftrightarrow> next_cmd (lp_queue s) serial applied \<noteq> None"

definition wake_coming :: "lp_state \<Rightarrow> nat \<Rightarrow> bool" where
  "wake_coming s w \<longleftrightarrow> ch_closed (lp_notifier s) w \<or> lp_listening s \<and> 0 < lp_backlog s"

definition lp_inv :: "serial \<Rightarrow> int \<Rightarrow> lp_state \<Rightarrow> bool" where
  "lp_inv serial applied s \<longleftrightarrow>
     (\<forall>w. lp_pc s = Grabbed w \<or> lp_pc s = Selecting w \<longrightarrow> w \<le> ch (lp_notifier s)) \<and>
     (\<forall>w. lp_pc s = Selecting w \<longrightarrow> has_cmd serial applied s \<longrightarrow> \<not> lp_missed s \<longrightarrow> wake_coming s w)"

lemmas lp_defs = lp_inv_def has_cmd_def wake_coming_def ch_closed_def broadcast_def wait_def

lemma lp_inv_step: "lp_step serial applied s t \<Longrightarrow> lp_inv serial applied s \<Longrightarrow> lp_inv serial applied t"
  by (induction rule: lp_step.induct) (auto simp: lp_defs le_less)

lemma lp_inv_reach: "lp_reach serial applied s \<Longrightarrow> lp_inv serial applied s"
proof -
  have "(lp_step serial applied)\<^sup>*\<^sup>* s t \<Longrightarrow> lp_inv serial applied s \<Longrightarrow> lp_inv serial applied t" for s t
    by (induction rule: rtranclp_induct) (auto intro: lp_inv_step)
  then show "lp_reach serial applied s \<Longrightarrow> lp_inv serial applied s"
    by (auto simp: lp_reach_def lp_init_def lp_inv_def)
qed

text \<open>The handler serves a pending command within four more steps of the listener and itself.\<close>

lemma lp_serves:
  assumes "lp_pc s = Selecting w" and "next_cmd (lp_queue s) serial applied = Some r" and "ch_closed (lp_notifier s) w"
  shows "\<exists>t. (lp_step serial applied)\<^sup>*\<^sup>* s t \<and> lp_pc t = Returned (Some (serve_cmd r))"
proof -
  let ?s1 = "s\<lparr>lp_pc := LoopHead\<rparr>"
  let ?s2 = "?s1\<lparr>lp_pc := Grabbed (wait (lp_notifier ?s1))\<rparr>"
  let ?s3 = "?s2\<lparr>lp_pc := Returned (Some (serve_cmd r))\<rparr>"
  have "lp_step serial applied s ?s1"
    using assms by (intro lp_step.wake)
  moreover have "lp_step serial applied ?s1 ?s2"
    by (rule lp_step.grab) simp
  moreover have "lp_step serial applied ?s2 ?s3"
    by (rule lp_step.query_hit) (use assms in simp_all)
  ultimately have "(lp_step serial applied)\<^sup>*\<^sup>* s ?s3"
    by (meson converse_rtranclp_into_rtranclp rtranclp.rtrancl_refl)
  then show ?thesis
    by (intro exI [of _ ?s3]) simp
qed


text \<open>A poll of \<open>pp1\<close> past command 3 with an empty queue, and the command that arrives meanwhile.\<close>

definition lp_example :: lp_state where
  "lp_example =
     \<lparr>lp_queue = [], lp_notifier = newC2Notifier, lp_listening = True, lp_backlog = 0, lp_missed = False,
      lp_pc = LoopHead\<rparr>"

definition lp_cmd :: cmd_row where
  "lp_cmd =
     \<lparr>c_seq = 4, c_serial = ''pp1'', c_script = ''refresh()'', c_note = None, c_operator_key_id = None,
      c_idempotency_key = None, c_applied = False, c_created_at = 0\<rparr>"

lemma next_cmd_lp: "next_cmd [] sn a = None" "next_cmd [lp_cmd] ''pp1'' 3 = Some lp_cmd"
  by (simp_all add: next_cmd_def pending_cmds_def targets_def lp_cmd_def)

lemma lp_example_selecting: "(lp_step ''pp1'' 3)\<^sup>*\<^sup>* lp_example (lp_example\<lparr>lp_pc := Selecting 0\<rparr>)"
proof -
  have "lp_step ''pp1'' 3 lp_example (lp_example\<lparr>lp_pc := Grabbed 0\<rparr>)"
    using lp_step.grab [of lp_example "''pp1''" 3] by (simp add: lp_example_def wait_def newC2Notifier_def)
  moreover have "lp_step ''pp1'' 3 (lp_example\<lparr>lp_pc := Grabbed 0\<rparr>) (lp_example\<lparr>lp_pc := Selecting 0\<rparr>)"
    using lp_step.query_miss [of "lp_example\<lparr>lp_pc := Grabbed 0\<rparr>" 0 "''pp1''" 3]
    by (simp add: next_cmd_lp) (simp add: lp_example_def next_cmd_lp)
  ultimately show ?thesis
    by (meson converse_rtranclp_into_rtranclp rtranclp.rtrancl_refl)
qed

definition lp_arrived :: lp_state where
  "lp_arrived = lp_example\<lparr>lp_pc := Selecting 0, lp_queue := [lp_cmd], lp_backlog := 1\<rparr>"

lemma lp_arrived_reach: "lp_reach ''pp1'' 3 lp_arrived"
proof -
  have "lp_step ''pp1'' 3 (lp_example\<lparr>lp_pc := Selecting 0\<rparr>) lp_arrived"
    using lp_step.enqueued [of "''pp1''" 3 "lp_example\<lparr>lp_pc := Selecting 0\<rparr>" lp_cmd]
    by (simp add: lp_example_def lp_arrived_def)
  then have "(lp_step ''pp1'' 3)\<^sup>*\<^sup>* lp_example lp_arrived"
    using lp_example_selecting by (rule rtranclp.rtrancl_into_rtrancl [rotated])
  moreover have "lp_init lp_example"
    by (simp add: lp_init_def lp_example_def)
  ultimately show ?thesis
    by (auto simp: lp_reach_def)
qed


text \<open>
  The exception is real: after the listener lost its connection and came back, nothing wakes a waiter
  for a command that was queued in between; the poll sleeps until its deadline.
\<close>

theorem reconnect_misses_wakeup:
  "\<exists>s w. lp_reach ''pp1'' 3 s \<and> lp_pc s = Selecting w \<and> lp_listening s \<and>
     next_cmd (lp_queue s) ''pp1'' 3 = Some lp_cmd \<and> \<not> ch_closed (lp_notifier s) w \<and> lp_backlog s = 0"
proof -
  let ?s0 = "lp_example\<lparr>lp_pc := Selecting 0\<rparr>"
  let ?s1 = "?s0\<lparr>lp_listening := False\<rparr>"
  let ?s2 = "?s1\<lparr>lp_queue := [lp_cmd], lp_missed := True\<rparr>"
  let ?s3 = "?s2\<lparr>lp_listening := True\<rparr>"
  have "lp_step ''pp1'' 3 ?s0 ?s1"
    using lp_step.connection_lost [of ?s0 "''pp1''" 3] by (simp add: lp_example_def)
  moreover have "lp_step ''pp1'' 3 ?s1 ?s2"
    using lp_step.enqueued [of "''pp1''" 3 ?s1 lp_cmd] by (simp add: lp_example_def)
  moreover have "lp_step ''pp1'' 3 ?s2 ?s3"
    by (rule lp_step.listen) simp
  ultimately have "(lp_step ''pp1'' 3)\<^sup>*\<^sup>* lp_example ?s3"
    using lp_example_selecting by (meson rtranclp.rtrancl_into_rtrancl)
  moreover have "lp_init lp_example"
    by (simp add: lp_init_def lp_example_def)
  ultimately have "lp_reach ''pp1'' 3 ?s3"
    by (auto simp: lp_reach_def)
  then show ?thesis
    by (intro exI [of _ ?s3] exI [of _ 0])
      (simp add: next_cmd_lp ch_closed_def, simp add: lp_example_def newC2Notifier_def)
qed

end
