(* ===== verification/Log_Ingest.thy ===== *)
theory Log_Ingest
  imports Schema Runs
begin

text \<open>
  The telemetry and log push: the parsers of \<open>ingestcore/server.go\<close> (\<open>parseDiag\<close>, the column
  helpers), the log frame and its reassembly of \<open>ingestcore/logingest.go\<close>, and \<open>ingest\<close>, the
  transaction that writes the device row, the telemetry point and the log in one piece.

  Offsets, epochs and sequence numbers are \<open>int64\<close> values; the differences the plausibility checks
  compute wrap.
\<close>

section \<open>Parsers\<close>

type_synonym fields_map = "string \<rightharpoonup> string"

definition m_get :: "fields_map \<Rightarrow> string \<Rightarrow> string" where
  "m_get m k = (case m k of None \<Rightarrow> [] | Some v \<Rightarrow> v)"

definition diag_add :: "string \<Rightarrow> fields_map \<Rightarrow> fields_map" where
  "diag_add tok m = (case Cut CHR ''='' tok of None \<Rightarrow> m | Some (k, v) \<Rightarrow> m(k \<mapsto> v))"

definition parseDiag :: "string \<Rightarrow> fields_map" where
  "parseDiag s = fold diag_add (Fields s) Map.empty"

definition pInt64 :: "string \<Rightarrow> int option" where
  "pInt64 s = (if s = [] then None else case ParseInt s of (n, None) \<Rightarrow> Some n | _ \<Rightarrow> None)"

definition ni :: "string \<Rightarrow> int option" where
  "ni s = (if s = [] then None else case ParseInt s of (n, None) \<Rightarrow> Some n | _ \<Rightarrow> None)"

definition nbool :: "string \<Rightarrow> bool option" where
  "nbool s = (if s = ''1'' then Some True else if s = ''0'' then Some False else None)"

definition ntext :: "string \<Rightarrow> string option" where
  "ntext s = (if s = [] then None else Some s)"

definition nIP :: "string \<Rightarrow> string option" where
  "nIP s = (if s = [] then None else Some s)"

record logFrame =
  lf_epoch :: int
  lf_end :: int
  lf_base :: "int option"
  lf_gapClaim :: int
  lf_explicit :: bool

definition parseLogFrame :: "query \<Rightarrow> string \<Rightarrow> logFrame option" where
  "parseLogFrame q frameHdr =
     (let m = parseDiag frameHdr;
          fallback =
            (case pInt64 (q_get q ''off'') of
               None \<Rightarrow> None
             | Some e \<Rightarrow>
                 Some \<lparr>lf_epoch = (case pInt64 (q_get q ''bc'') of None \<Rightarrow> 0 | Some b \<Rightarrow> b), lf_end = e,
                       lf_base = None, lf_gapClaim = 0, lf_explicit = False\<rparr>)
      in if frameHdr \<noteq> []
         then case (pInt64 (m_get m ''ep''), pInt64 (m_get m ''end'')) of
                (Some ep, Some e) \<Rightarrow>
                  Some \<lparr>lf_epoch = ep, lf_end = e, lf_base = pInt64 (m_get m ''base''),
                        lf_gapClaim = (case pInt64 (m_get m ''gap'') of None \<Rightarrow> 0 | Some g \<Rightarrow> g),
                        lf_explicit = True\<rparr>
              | _ \<Rightarrow> fallback
         else fallback)"

section \<open>Reassembly\<close>

datatype log_call = LgLazyCreate | LgLock | LgFragment | LgLogs | LgAdvance

text \<open>The three outcomes: a database error, a skipped frame, an acknowledged offset.\<close>

datatype log_outcome = LogError | LogSkipped | LogAcked int

text \<open>The checks that do not look at the cursor.\<close>

definition frame_bad :: "logFrame \<Rightarrow> string \<Rightarrow> int \<Rightarrow> bool" where
  "frame_bad lf payload maxFrame \<longleftrightarrow>
     payload = [] \<or> lf_end lf < 0 \<or>
     (lf_explicit lf \<and>
        ((case lf_base lf of None \<Rightarrow> False | Some b \<Rightarrow> b > lf_end lf) \<or> lf_gapClaim lf < 0 \<or>
         (case lf_base lf of None \<Rightarrow> False | Some b \<Rightarrow> wrap64 (lf_end lf - b) > maxFrame)))"

definition frame_oversize :: "logFrame \<Rightarrow> log_cursor_row \<Rightarrow> int \<Rightarrow> bool" where
  "frame_oversize lf cur maxFrame \<longleftrightarrow>
     \<not> lf_explicit lf \<and> lf_epoch lf = lc_epoch cur \<and> lf_end lf > lc_ack_off cur \<and>
     wrap64 (lf_end lf - lc_ack_off cur) > maxFrame"

definition gapFlag :: "logFrame \<Rightarrow> log_cursor_row \<Rightarrow> bool" where
  "gapFlag lf cur \<longleftrightarrow> lf_epoch lf > lc_epoch cur"

definition suspectFlag :: "logFrame \<Rightarrow> log_cursor_row \<Rightarrow> bool" where
  "suspectFlag lf cur \<longleftrightarrow>
     (lf_epoch lf = lc_epoch cur \<and> lf_end lf < lc_ack_off cur) \<or> lf_epoch lf < lc_epoch cur"

definition startOff :: "logFrame \<Rightarrow> log_cursor_row \<Rightarrow> int option" where
  "startOff lf cur =
     (if lf_epoch lf = lc_epoch cur \<and> lf_end lf > lc_ack_off cur then Some (lc_ack_off cur) else None)"

definition advance :: "logFrame \<Rightarrow> bool \<Rightarrow> log_cursor_row \<Rightarrow> log_cursor_row" where
  "advance lf inserted cur =
     \<lparr>lc_epoch = (if lf_epoch lf > lc_epoch cur then lf_epoch lf else lc_epoch cur),
      lc_ack_off =
        (if lf_epoch lf > lc_epoch cur then lf_end lf
         else if lf_epoch lf = lc_epoch cur \<and> lf_end lf > lc_ack_off cur then lf_end lf
         else lc_ack_off cur),
      lc_last_seq = (if inserted then wrap64 (lc_last_seq cur + 1) else lc_last_seq cur)\<rparr>"

definition new_log_cursor :: log_cursor_row where
  "new_log_cursor = \<lparr>lc_epoch = 0, lc_ack_off = 0, lc_last_seq = 0\<rparr>"

definition log_line ::
  "time \<Rightarrow> serial \<Rightarrow> logFrame \<Rightarrow> log_cursor_row \<Rightarrow> string \<Rightarrow> log_row" where
  "log_line now serial lf cur payload =
     \<lparr>l_time = now, l_serial = serial, l_boot_count = Some (lf_epoch lf),
      l_seq = Some (wrap64 (lc_last_seq cur + 1)), l_offset_start = startOff lf cur, l_payload = payload,
      l_source = ''telemetry'', l_gap = gapFlag lf cur, l_suspect = suspectFlag lf cur\<rparr>"

text \<open>
  \<open>reassembleLog\<close> on the transaction's tables.  The foreign key of the cursor needs the device row,
  which \<open>ingest\<close> has written before.
\<close>

definition reassembleLog ::
  "(log_call \<Rightarrow> bool) \<Rightarrow> time \<Rightarrow> 'a db_scheme \<Rightarrow> serial \<Rightarrow> logFrame \<Rightarrow> string \<Rightarrow> int \<Rightarrow>
   log_outcome \<times> 'a db_scheme" where
  "reassembleLog flt now tx serial lf payload maxFrame =
     (if frame_bad lf payload maxFrame then (LogSkipped, tx)
      else if flt LgLazyCreate \<or> devices tx serial = None then (LogError, tx)
      else
        let cur = (case log_cursor tx serial of None \<Rightarrow> new_log_cursor | Some c \<Rightarrow> c);
            tx1 = tx\<lparr>log_cursor := (log_cursor tx)(serial \<mapsto> cur)\<rparr>
        in if flt LgLock then (LogError, tx1)
           else if frame_oversize lf cur maxFrame then (LogSkipped, tx1)
           else if flt LgFragment then (LogError, tx1)
           else
             let key = (serial, lf_epoch lf, lf_end lf);
                 inserted = (log_fragment tx1 key = None);
                 tx2 = (if inserted
                        then tx1\<lparr>log_fragment := (log_fragment tx1)(key \<mapsto>
                               \<lparr>f_start_off = startOff lf cur, f_payload = payload, f_gap = gapFlag lf cur\<rparr>)\<rparr>
                        else tx1)
             in if inserted \<and> flt LgLogs then (LogError, tx2)
                else
                  let tx3 = (if inserted then tx2\<lparr>logs := logs tx2 @ [log_line now serial lf cur payload]\<rparr> else tx2)
                  in if flt LgAdvance then (LogError, tx3)
                     else (LogAcked (lc_ack_off (advance lf inserted cur)),
                           tx3\<lparr>log_cursor := (log_cursor tx3)(serial \<mapsto> advance lf inserted cur)\<rparr>))"

text \<open>\<open>insertSnapshot\<close>: the log that rides along with a firmware download.\<close>

definition insertSnapshot :: "time \<Rightarrow> 'a db_scheme \<Rightarrow> serial \<Rightarrow> int option \<Rightarrow> string \<Rightarrow> 'a db_scheme" where
  "insertSnapshot now db serial bootCount payload =
     db\<lparr>logs := logs db @
        [\<lparr>l_time = now, l_serial = serial, l_boot_count = bootCount, l_seq = None, l_offset_start = None,
          l_payload = payload, l_source = ''ota-snapshot'', l_gap = False, l_suspect = False\<rparr>]\<rparr>"

definition logFrameMaxFromEnv :: "string \<Rightarrow> int" where
  "logFrameMaxFromEnv v =
     (case ParseInt v of (n, None) \<Rightarrow> if v \<noteq> [] \<and> n > 0 then n else 65536 | _ \<Rightarrow> 65536)"

section \<open>The push transaction\<close>

definition fits :: "nat \<Rightarrow> int option \<Rightarrow> bool" where
  "fits bits v = (case v of None \<Rightarrow> True | Some n \<Rightarrow> - (2 ^ (bits - 1)) \<le> n \<and> n < 2 ^ (bits - 1))"

definition telemetry_of :: "time \<Rightarrow> serial \<Rightarrow> query \<Rightarrow> string \<Rightarrow> string \<Rightarrow> telemetry_row" where
  "telemetry_of now serial q diag srcIP =
     (let d = parseDiag diag in
      \<lparr>t_time = now, t_serial = serial, t_batt_mv = ni (q_get q ''v''), t_batt_pct = ni (q_get q ''p''),
       t_bad_boots = ni (q_get q ''bad''), t_boot_count = ni (q_get q ''bc''), t_reset_reason = ntext (q_get q ''rr''),
       t_usb = nbool (q_get q ''usb''), t_uptime_ms = ni (q_get q ''up''), t_running_ver = ntext (q_get q ''fw''),
       t_channel = ntext (q_get q ''ch''), t_run_part = Some (m_get d ''run''), t_runstate = ni (m_get d ''runstate''),
       t_o0 = ni (m_get d ''o0''), t_o1 = ni (m_get d ''o1''), t_inv = ntext (m_get d ''inv''),
       t_boots = ni (m_get d ''boots''), t_rr = ni (m_get d ''rr''), t_ota_rr = ni (m_get d ''ota_rr''),
       t_mv = ni (m_get d ''mv''), t_mv_err = ni (m_get d ''mv_err''), t_stage = ntext (m_get d ''stage''),
       t_src_ip = nIP srcIP\<rparr>)"

text \<open>The widths of the integer columns: a value outside them is an error of the insert.\<close>

definition telemetry_fits :: "telemetry_row \<Rightarrow> bool" where
  "telemetry_fits t \<longleftrightarrow>
     fits 32 (t_batt_mv t) \<and> fits 16 (t_batt_pct t) \<and> fits 32 (t_bad_boots t) \<and> fits 16 (t_runstate t) \<and>
     fits 16 (t_o0 t) \<and> fits 16 (t_o1 t) \<and> fits 16 (t_rr t) \<and> fits 16 (t_ota_rr t) \<and> fits 16 (t_mv_err t)"

datatype ingest_call = IgBegin | IgDevice | IgTelemetry | IgLog log_call | IgCommit

definition device_upsert :: "time \<Rightarrow> 'a db_scheme \<Rightarrow> serial \<Rightarrow> string \<Rightarrow> 'a db_scheme" where
  "device_upsert now db serial mac =
     db\<lparr>devices := (devices db)(serial \<mapsto>
        (case devices db serial of
           None \<Rightarrow> \<lparr>d_channel = ''stable'', d_mac = ntext mac, d_label = None, d_last_seen = Some now\<rparr>
         | Some d \<Rightarrow> d\<lparr>d_last_seen := Some now,
                      d_mac := (case d_mac d of None \<Rightarrow> ntext mac | Some m \<Rightarrow> Some m)\<rparr>))\<rparr>"

text \<open>
  \<open>ingest\<close> returns \<open>None\<close> for an error (the transaction is rolled back) and otherwise the
  acknowledged offset, if there is one.
\<close>

definition ingest ::
  "(ingest_call \<Rightarrow> bool) \<Rightarrow> time \<Rightarrow> 'a db_scheme \<Rightarrow> http_req \<Rightarrow> string \<Rightarrow> serial \<Rightarrow> int \<Rightarrow>
   int option option \<times> 'a db_scheme" where
  "ingest flt now db r srcIP serial logFrameMax =
     (let q = rq_query r;
          tx1 = device_upsert now db serial (q_get q ''id'');
          t = telemetry_of now serial q (rq_header r ''X-Picpak-Diag'') srcIP;
          tx2 = tx1\<lparr>telemetry := telemetry tx1 @ [t]\<rparr>;
          logHdr = rq_header r ''X-Picpak-Log'';
          lf = (if logHdr \<noteq> [] then parseLogFrame q (rq_header r ''X-Picpak-Log-Frame'') else None)
      in if flt IgBegin \<or> flt IgDevice then (None, db)
         else if flt IgTelemetry \<or> \<not> telemetry_fits t then (None, db)
         else
           let (res, tx3) = (case lf of
                  None \<Rightarrow> (LogSkipped, tx2)
                | Some f \<Rightarrow> reassembleLog (\<lambda>c. flt (IgLog c)) now tx2 serial f logHdr logFrameMax)
           in if res = LogError then (None, db)
              else if flt IgCommit then (None, db)
              else (Some (case res of LogAcked off \<Rightarrow> Some off | _ \<Rightarrow> None), tx3))"

section \<open>The effect of a push on the log tables\<close>

definition the_cursor :: "'a db_scheme \<Rightarrow> serial \<Rightarrow> log_cursor_row" where
  "the_cursor db sn = (case log_cursor db sn of None \<Rightarrow> new_log_cursor | Some c \<Rightarrow> c)"

definition touched :: "serial \<Rightarrow> 'a db_scheme \<Rightarrow> 'a db_scheme" where
  "touched sn db = db\<lparr>log_cursor := (log_cursor db)(sn \<mapsto> the_cursor db sn)\<rparr>"

definition is_new :: "'a db_scheme \<Rightarrow> serial \<Rightarrow> logFrame \<Rightarrow> bool" where
  "is_new db sn lf \<longleftrightarrow> log_fragment db (sn, lf_epoch lf, lf_end lf) = None"

definition pushed :: "time \<Rightarrow> serial \<Rightarrow> logFrame \<Rightarrow> string \<Rightarrow> 'a db_scheme \<Rightarrow> 'a db_scheme" where
  "pushed now sn lf payload db =
     db\<lparr>log_cursor := (log_cursor db)(sn \<mapsto> advance lf (is_new db sn lf) (the_cursor db sn)),
        log_fragment :=
          (if is_new db sn lf
           then (log_fragment db)((sn, lf_epoch lf, lf_end lf) \<mapsto>
                  \<lparr>f_start_off = startOff lf (the_cursor db sn), f_payload = payload,
                   f_gap = gapFlag lf (the_cursor db sn)\<rparr>)
           else log_fragment db),
        logs := (if is_new db sn lf then logs db @ [log_line now sn lf (the_cursor db sn) payload] else logs db)\<rparr>"

lemma reassembleLog_acked:
  assumes "reassembleLog flt now tx sn lf payload mx = (LogAcked off, tx')"
  shows "\<not> frame_bad lf payload mx" "\<not> frame_oversize lf (the_cursor tx sn) mx"
    "tx' = pushed now sn lf payload tx" "off = lc_ack_off (the_cursor tx' sn)"
  using assms
  by (auto simp: reassembleLog_def the_cursor_def pushed_def is_new_def Let_def split: if_splits)

lemma reassembleLog_skipped:
  assumes "reassembleLog flt now tx sn lf payload mx = (LogSkipped, tx')"
  shows "tx' = tx \<or> tx' = touched sn tx"
  using assms by (auto simp: reassembleLog_def the_cursor_def touched_def Let_def split: if_splits)

lemma reassembleLog_runs:
  assumes "\<And>c. \<not> flt c" and "devices tx sn \<noteq> None" and "\<not> frame_bad lf payload mx"
    and "\<not> frame_oversize lf (the_cursor tx sn) mx"
  shows "reassembleLog flt now tx sn lf payload mx =
    (LogAcked (lc_ack_off (advance lf (is_new tx sn lf) (the_cursor tx sn))), pushed now sn lf payload tx)"
  using assms by (auto simp: reassembleLog_def the_cursor_def [symmetric] pushed_def is_new_def Let_def)

definition log_part :: "'a db_scheme \<Rightarrow> (serial \<rightharpoonup> log_cursor_row) \<times> (serial \<times> int \<times> int \<rightharpoonup> fragment_row) \<times> log_row list" where
  "log_part db = (log_cursor db, log_fragment db, logs db)"

text \<open>The frame a request carries, as \<open>ingest\<close> reads it.\<close>

definition req_frame :: "http_req \<Rightarrow> logFrame option" where
  "req_frame r =
     (if rq_header r ''X-Picpak-Log'' \<noteq> [] then parseLogFrame (rq_query r) (rq_header r ''X-Picpak-Log-Frame'') else None)"

lemma ingest_cases:
  assumes "ingest flt now db r ip sn mx = (res, db')"
  obtains (error) "res = None" "db' = db"
  | (plain) "res = Some None" "log_part db' = log_part db \<or> log_part db' = log_part (touched sn db)"
  | (acked) lf off where "res = Some (Some off)" "req_frame r = Some lf"
      "\<not> frame_bad lf (rq_header r ''X-Picpak-Log'') mx" "\<not> frame_oversize lf (the_cursor db sn) mx"
      "log_part db' = log_part (pushed now sn lf (rq_header r ''X-Picpak-Log'') db)"
      "off = lc_ack_off (the_cursor db' sn)"
proof -
  let ?tx = "(device_upsert now db sn (q_get (rq_query r) ''id''))
      \<lparr>telemetry := telemetry (device_upsert now db sn (q_get (rq_query r) ''id'')) @
         [telemetry_of now sn (rq_query r) (rq_header r ''X-Picpak-Diag'') ip]\<rparr>"
  obtain out tx3 where out: "(case req_frame r of None \<Rightarrow> (LogSkipped, ?tx)
      | Some f \<Rightarrow> reassembleLog (\<lambda>c. flt (IgLog c)) now ?tx sn f (rq_header r ''X-Picpak-Log'') mx) = (out, tx3)"
    by (metis surj_pair)
  have res: "(res, db') =
     (if flt IgBegin \<or> flt IgDevice then (None, db)
      else if flt IgTelemetry \<or> \<not> telemetry_fits (telemetry_of now sn (rq_query r) (rq_header r ''X-Picpak-Diag'') ip)
      then (None, db)
      else if out = LogError then (None, db)
      else if flt IgCommit then (None, db)
      else (Some (case out of LogAcked off \<Rightarrow> Some off | _ \<Rightarrow> None), tx3))"
    using assms unfolding ingest_def Let_def req_frame_def [symmetric] out prod.case by (rule sym)
  have part: "log_part ?tx = log_part db" "log_part (touched sn ?tx) = log_part (touched sn db)"
    "the_cursor ?tx sn = the_cursor db sn"
    "\<And>lf p. log_part (pushed now sn lf p ?tx) = log_part (pushed now sn lf p db)"
    by (simp_all add: log_part_def touched_def the_cursor_def pushed_def is_new_def device_upsert_def)
  show ?thesis
  proof (cases "res")
    case None
    then show ?thesis
      using res error by (auto split: if_splits)
  next
    case (Some o')
    then have o': "o' = (case out of LogAcked off \<Rightarrow> Some off | _ \<Rightarrow> None)" and db': "db' = tx3" and ne: "out \<noteq> LogError"
      using res by (auto split: if_splits)
    show ?thesis
    proof (cases out)
      case LogSkipped
      then have "tx3 = ?tx \<or> tx3 = touched sn ?tx"
        using out by (cases "req_frame r") (simp_all, blast dest: reassembleLog_skipped)
      then have "log_part db' = log_part db \<or> log_part db' = log_part (touched sn db)"
        using db' part by auto
      then show ?thesis
        using Some o' LogSkipped by (intro plain) simp_all
    next
      case (LogAcked off)
      then obtain lf where lf: "req_frame r = Some lf"
        "reassembleLog (\<lambda>c. flt (IgLog c)) now ?tx sn lf (rq_header r ''X-Picpak-Log'') mx = (LogAcked off, tx3)"
        using out by (auto split: option.splits)
      note facts = reassembleLog_acked [OF lf(2)]
      show ?thesis
      proof (rule acked)
        show "res = Some (Some off)"
          using Some o' LogAcked by simp
        show "\<not> frame_oversize lf (the_cursor db sn) mx"
          using facts(2) part(3) by simp
        show "log_part db' = log_part (pushed now sn lf (rq_header r ''X-Picpak-Log'') db)"
          using facts(3) db' part(4) by simp
        show "off = lc_ack_off (the_cursor db' sn)"
          using facts(4) db' by simp
      qed (use lf(1) facts(1) in simp_all)
    qed (use ne in simp)
  qed
qed

lemma ingest_acked_stored:
  assumes "ingest flt now db r ip sn mx = (Some (Some off), db')"
  shows "\<exists>lf cur. req_frame r = Some lf \<and> log_cursor db' sn = Some cur \<and> lc_ack_off cur = off \<and>
           log_fragment db' (sn, lf_epoch lf, lf_end lf) \<noteq> None"
  using assms
proof (cases rule: ingest_cases)
  case (acked lf off')
  moreover have "log_cursor db' sn = Some (the_cursor db' sn)"
    using acked(5) by (simp add: log_part_def pushed_def the_cursor_def)
  moreover have "log_fragment db' (sn, lf_epoch lf, lf_end lf) \<noteq> None"
    using acked(5) by (auto simp: log_part_def pushed_def is_new_def)
  ultimately show ?thesis
    by auto
qed simp_all

text \<open>
  C9 (durable before ack).  A push either fails and leaves every table as it was, or commits; it is
  given an acknowledgement only when it commits, the acknowledged offset is the one in the committed
  cursor, and the fragment of the pushed frame is in the committed table.
\<close>

theorem ingest_durable_before_ack:
  assumes "ingest flt now db r ip sn mx = (res, db')"
  shows "(case res of
     None \<Rightarrow> db' = db
   | Some None \<Rightarrow> log_fragment db' = log_fragment db \<and> logs db' = logs db
   | Some (Some off) \<Rightarrow>
       \<not> flt IgCommit \<and>
       (\<exists>lf cur. req_frame r = Some lf \<and> log_cursor db' sn = Some cur \<and> lc_ack_off cur = off \<and>
          log_fragment db' (sn, lf_epoch lf, lf_end lf) \<noteq> None))"
  using assms
proof (cases rule: ingest_cases)
  case (acked lf off)
  have "\<not> flt IgCommit"
    using assms acked(1) by (auto simp: ingest_def Let_def split: if_splits prod.splits)
  then show ?thesis
    using acked(1) assms ingest_acked_stored by simp
qed (auto simp: log_part_def touched_def)

section \<open>Pushes as a transition system\<close>

datatype log_action = PushLog "ingest_call \<Rightarrow> bool" time http_req string serial int

primrec log_apply :: "log_action \<Rightarrow> 'a db_scheme \<Rightarrow> 'a db_scheme" where
  "log_apply (PushLog flt now r ip sn mx) db = snd (ingest flt now db r ip sn mx)"

text \<open>The log tables after one push: unchanged, a cursor created, or one frame pushed.\<close>

lemma log_apply_cases:
  obtains "log_part (log_apply a db) = log_part db"
  | now sn where "log_part (log_apply a db) = log_part (touched sn db)"
  | now sn lf p mx where "log_part (log_apply a db) = log_part (pushed now sn lf p db)" "0 \<le> lf_end lf"
proof -
  obtain flt now r ip sn mx where a: "a = PushLog flt now r ip sn mx"
    by (cases a)
  obtain res db' where i: "ingest flt now db r ip sn mx = (res, db')"
    by (metis surj_pair)
  from i show ?thesis
  proof (cases rule: ingest_cases)
    case (acked lf off)
    then show ?thesis
      using that(3) [of now sn lf "rq_header r ''X-Picpak-Log''"] i a by (simp add: frame_bad_def)
  qed (use that(1,2) i a in auto)
qed

text \<open>The log state of a device: what the tables say about one serial.\<close>

definition seqs :: "serial \<Rightarrow> log_row list \<Rightarrow> int list" where
  "seqs sn ls = map (\<lambda>l. the (l_seq l)) (filter (\<lambda>l. l_serial l = sn \<and> l_source l = ''telemetry'') ls)"

text \<open>A fragment lies at or below the cursor: in an older epoch, or below the acknowledged offset.\<close>

definition below_cursor :: "log_cursor_row \<Rightarrow> int \<Rightarrow> int \<Rightarrow> bool" where
  "below_cursor cur e n \<longleftrightarrow> e \<le> lc_epoch cur \<and> (e = lc_epoch cur \<longrightarrow> n \<le> lc_ack_off cur)"

definition log_inv :: "serial \<Rightarrow> 'a db_scheme \<Rightarrow> bool" where
  "log_inv sn db \<longleftrightarrow>
     0 \<le> lc_ack_off (the_cursor db sn) \<and>
     (\<forall>e n. log_fragment db (sn, e, n) \<noteq> None \<longrightarrow> below_cursor (the_cursor db sn) e n)"

definition cursor_pos_le :: "log_cursor_row \<Rightarrow> log_cursor_row \<Rightarrow> bool" where
  "cursor_pos_le a b \<longleftrightarrow> lc_epoch a < lc_epoch b \<or> lc_epoch a = lc_epoch b \<and> lc_ack_off a \<le> lc_ack_off b"

lemma below_cursor_mono: "cursor_pos_le cur cur' \<Longrightarrow> below_cursor cur e n \<Longrightarrow> below_cursor cur' e n"
  by (auto simp: cursor_pos_le_def below_cursor_def)

lemma below_cursor_advance: "below_cursor (advance lf ins cur) (lf_epoch lf) (lf_end lf)"
  by (auto simp: below_cursor_def advance_def)

lemma advance_ack_nonneg: "0 \<le> lc_ack_off cur \<Longrightarrow> 0 \<le> lf_end lf \<Longrightarrow> 0 \<le> lc_ack_off (advance lf ins cur)"
  by (simp add: advance_def)

lemma advance_le: "cursor_pos_le cur (advance lf ins cur)"
  by (auto simp: cursor_pos_le_def advance_def)

lemma the_cursor_touched [simp]: "the_cursor (touched sn db) sn' = the_cursor db sn'"
  by (simp add: touched_def the_cursor_def)

lemma touched_sel [simp]: "log_fragment (touched sn db) = log_fragment db" "logs (touched sn db) = logs db"
  by (simp_all add: touched_def)

lemma the_cursor_pushed:
  "the_cursor (pushed now sn lf p db) sn' =
     (if sn' = sn then advance lf (is_new db sn lf) (the_cursor db sn) else the_cursor db sn')"
  by (simp add: pushed_def the_cursor_def)

lemma log_part_cong:
  assumes "log_part db = log_part db'"
  shows "the_cursor db sn = the_cursor db' sn" "log_fragment db = log_fragment db'" "logs db = logs db'"
    "log_cursor db = log_cursor db'"
  using assms by (auto simp: log_part_def the_cursor_def)

lemma log_inv_cong: "log_part db = log_part db' \<Longrightarrow> log_inv sn db = log_inv sn db'"
  using log_part_cong by (metis log_inv_def)

lemma log_inv_touched: "log_inv sn (touched sn' db) = log_inv sn db"
  by (simp add: log_inv_def)

lemma log_fragment_pushed:
  "log_fragment (pushed now sn lf p db) k \<noteq> None \<longleftrightarrow> k = (sn, lf_epoch lf, lf_end lf) \<or> log_fragment db k \<noteq> None"
  by (auto simp: pushed_def is_new_def)

lemma log_inv_pushed:
  assumes "log_inv sn db" and "0 \<le> lf_end lf"
  shows "log_inv sn (pushed now sn' lf p db)"
proof (cases "sn' = sn")
  case True
  let ?cur = "the_cursor db sn" and ?new = "advance lf (is_new db sn lf) (the_cursor db sn)"
  have "below_cursor ?new e n" if "log_fragment (pushed now sn lf p db) (sn, e, n) \<noteq> None" for e n
    using that assms(1) below_cursor_advance below_cursor_mono [OF advance_le]
    unfolding log_fragment_pushed log_inv_def by auto
  then show ?thesis
    using assms True by (simp add: log_inv_def the_cursor_pushed advance_ack_nonneg)
next
  case False
  then have "log_fragment (pushed now sn' lf p db) (sn, e, n) = log_fragment db (sn, e, n)" for e n
    by (simp add: pushed_def)
  then show ?thesis
    using assms(1) False by (simp add: log_inv_def the_cursor_pushed)
qed

lemma log_apply_inv: "log_inv sn db \<Longrightarrow> log_inv sn (log_apply a db)"
  by (rule log_apply_cases [of a db]) (metis log_inv_cong log_inv_touched log_inv_pushed)+

interpretation log_inv: invariant_run log_apply "\<lambda>_. True" "log_inv sn" for sn
  by unfold_locales (rule log_apply_inv)

text \<open>Nothing is taken back: cursors move forward, fragments and lines stay as they are.\<close>

definition log_le :: "'a db_scheme \<Rightarrow> 'a db_scheme \<Rightarrow> bool" where
  "log_le db db' \<longleftrightarrow>
     (\<forall>sn. cursor_pos_le (the_cursor db sn) (the_cursor db' sn)) \<and>
     log_fragment db \<subseteq>\<^sub>m log_fragment db' \<and> prefix (logs db) (logs db')"

lemma log_apply_le: "log_le db (log_apply a db)"
proof (rule log_apply_cases [of a db])
  assume "log_part (log_apply a db) = log_part db"
  from log_part_cong [OF this] show ?thesis
    by (simp add: log_le_def cursor_pos_le_def)
next
  fix now sn
  assume "log_part (log_apply a db) = log_part (touched sn db)"
  from log_part_cong [OF this] show ?thesis
    by (simp add: log_le_def cursor_pos_le_def)
next
  fix now sn lf p mx
  assume "log_part (log_apply a db) = log_part (pushed now sn lf p db)"
  from log_part_cong [OF this] show ?thesis
    by (auto simp: log_le_def the_cursor_pushed advance_le) (auto simp: pushed_def cursor_pos_le_def is_new_def map_le_def)
qed

lemma cursor_pos_le_trans: "cursor_pos_le a b \<Longrightarrow> cursor_pos_le b c \<Longrightarrow> cursor_pos_le a c"
  by (auto simp: cursor_pos_le_def)

lemma log_le_refl: "log_le db db"
  by (simp add: log_le_def cursor_pos_le_def)

lemma log_le_trans: "log_le a b \<Longrightarrow> log_le b c \<Longrightarrow> log_le a c"
  unfolding log_le_def by (meson cursor_pos_le_trans map_le_trans prefix_order.trans)

interpretation log_grow: monotone_run log_apply "\<lambda>_. True" log_le
  by unfold_locales (auto intro: log_le_refl log_le_trans log_apply_le)

lemma ingest_is_log_apply: "ingest flt now db r ip sn mx = (res, db') \<Longrightarrow> db' = log_apply (PushLog flt now r ip sn mx) db"
  by simp

lemma advance_below: "below_cursor cur (lf_epoch lf) (lf_end lf) \<Longrightarrow> advance lf False cur = cur"
  by (cases cur) (auto simp: below_cursor_def advance_def)

text \<open>
  When a push was acknowledged, pushing the same request again at any later
  point stores nothing twice: after any sequence of pushes of any device in between, the repetition
  adds no fragment and no log line, leaves the cursor where it is, and an acknowledgement it gets is
  that cursor's offset.
\<close>

theorem repush_idempotent:
  assumes "log_inv sn db" and "ingest flt now db r ip sn mx = (Some (Some off), db1)"
    and "db2 = run log_apply as db1" and "ingest flt' now' db2 r ip' sn mx' = (res, db3)"
  shows "log_fragment db3 = log_fragment db2 \<and> logs db3 = logs db2 \<and> the_cursor db3 sn = the_cursor db2 sn \<and>
         (\<forall>off'. res = Some (Some off') \<longrightarrow> off' = lc_ack_off (the_cursor db2 sn))"
proof -
  obtain lf where lf: "req_frame r = Some lf" "log_fragment db1 (sn, lf_epoch lf, lf_end lf) \<noteq> None"
    using ingest_acked_stored [OF assms(2)] by auto
  have "log_inv sn db1"
    using ingest_is_log_apply [OF assms(2)] assms(1) by (simp only: log_apply_inv)
  then have "log_inv sn db2"
    unfolding assms(3) by (intro log_inv.run_I) simp_all
  have "log_le db1 db2"
    unfolding assms(3) by (rule log_grow.run_le) simp
  then have stored: "log_fragment db2 (sn, lf_epoch lf, lf_end lf) \<noteq> None"
    using lf(2) by (auto simp: log_le_def map_le_def dom_def)
  from assms(4) show ?thesis
  proof (cases rule: ingest_cases)
    case plain
    then show ?thesis
      using log_part_cong [of db3 db2] log_part_cong [of db3 "touched sn db2"] by auto
  next
    case (acked lf' off')
    then have [simp]: "lf' = lf"
      using lf(1) by simp
    have old: "\<not> is_new db2 sn lf"
      using stored by (simp add: is_new_def)
    have "below_cursor (the_cursor db2 sn) (lf_epoch lf) (lf_end lf)"
      using \<open>log_inv sn db2\<close> stored unfolding log_inv_def by blast
    then have adv: "advance lf False (the_cursor db2 sn) = the_cursor db2 sn"
      by (rule advance_below)
    note part = log_part_cong [OF acked(5)]
    have "the_cursor db3 sn = the_cursor db2 sn"
      using part(1) [of sn] old adv by (simp add: the_cursor_pushed)
    moreover have "log_fragment db3 = log_fragment db2" "logs db3 = logs db2"
      using part(2,3) old by (simp_all add: pushed_def)
    ultimately show ?thesis
      using acked(1,6) by simp
  qed simp
qed

section \<open>The stored lines are a contiguous stream\<close>

text \<open>
  \<open>stream db sn ep a b ls\<close>: the lines \<open>ls\<close> cover the bytes from \<open>a\<close> to \<open>b\<close> of an epoch, each starting
  at the offset where the one before it ended, with the payloads of the stored fragments.
\<close>

inductive stream ::
  "(serial \<times> int \<times> int \<rightharpoonup> fragment_row) \<Rightarrow> serial \<Rightarrow> int \<Rightarrow> int \<Rightarrow> int \<Rightarrow> log_row list \<Rightarrow> bool" for fr sn ep a where
  start: "stream fr sn ep a a []"
| more: "stream fr sn ep a b ls \<Longrightarrow> b < c \<Longrightarrow> fr (sn, ep, c) = Some f \<Longrightarrow> f_start_off f = Some b \<Longrightarrow>
    l_offset_start l = Some b \<Longrightarrow> l_payload l = f_payload f \<Longrightarrow> stream fr sn ep a c (ls @ [l])"

lemma stream_mono: "stream fr sn ep a b ls \<Longrightarrow> fr \<subseteq>\<^sub>m fr' \<Longrightarrow> stream fr' sn ep a b ls"
proof (induction rule: stream.induct)
  case (more b ls c f l)
  then have "fr' (sn, ep, c) = Some f"
    by (metis domI map_le_def)
  with more show ?case
    by (intro stream.more)
qed (rule stream.start)

definition epoch_lines :: "serial \<Rightarrow> int \<Rightarrow> log_row list \<Rightarrow> log_row list" where
  "epoch_lines sn ep ls =
     filter (\<lambda>l. l_serial l = sn \<and> l_boot_count l = Some ep \<and> l_offset_start l \<noteq> None) ls"

definition line_epochs_ok :: "serial \<Rightarrow> 'a db_scheme \<Rightarrow> bool" where
  "line_epochs_ok sn db \<longleftrightarrow> (\<forall>ep > lc_epoch (the_cursor db sn). epoch_lines sn ep (logs db) = [])"

definition stream_inv :: "serial \<Rightarrow> 'a db_scheme \<Rightarrow> bool" where
  "stream_inv sn db \<longleftrightarrow>
     log_inv sn db \<and> line_epochs_ok sn db \<and>
     (let cur = the_cursor db sn in
      \<exists>a. stream (log_fragment db) sn (lc_epoch cur) a (lc_ack_off cur) (epoch_lines sn (lc_epoch cur) (logs db)))"

lemma stream_inv_cong: "log_part db = log_part db' \<Longrightarrow> stream_inv sn db = stream_inv sn db'"
  using log_part_cong log_inv_cong by (metis stream_inv_def line_epochs_ok_def)

lemma stream_inv_touched: "stream_inv sn (touched sn' db) = stream_inv sn db"
  by (simp add: stream_inv_def line_epochs_ok_def log_inv_touched)

lemma fragment_grows: "log_fragment db \<subseteq>\<^sub>m log_fragment (pushed now sn lf p db)"
  by (auto simp: pushed_def is_new_def map_le_def)

lemma epoch_lines_pushed:
  "epoch_lines sn ep (logs (pushed now sn' lf p db)) =
     epoch_lines sn ep (logs db) @
     (if sn' = sn \<and> ep = lf_epoch lf \<and> is_new db sn lf \<and> startOff lf (the_cursor db sn) \<noteq> None
      then [log_line now sn lf (the_cursor db sn) p] else [])"
  by (auto simp: pushed_def epoch_lines_def log_line_def)

lemma stream_inv_pushed:
  assumes "stream_inv sn db" and "0 \<le> lf_end lf"
  shows "stream_inv sn (pushed now sn' lf p db)"
proof -
  let ?cur = "the_cursor db sn" and ?db' = "pushed now sn' lf p db"
  have inv: "log_inv sn ?db'"
    using assms by (simp add: stream_inv_def log_inv_pushed)
  obtain a where st: "stream (log_fragment db) sn (lc_epoch ?cur) a (lc_ack_off ?cur)
      (epoch_lines sn (lc_epoch ?cur) (logs db))"
    using assms(1) unfolding stream_inv_def Let_def by blast
  then have st': "stream (log_fragment ?db') sn (lc_epoch ?cur) a (lc_ack_off ?cur)
      (epoch_lines sn (lc_epoch ?cur) (logs db))"
    using fragment_grows by (rule stream_mono)
  have none: "epoch_lines sn ep (logs db) = []" if "ep > lc_epoch ?cur" for ep
    using assms(1) that by (simp add: stream_inv_def line_epochs_ok_def)
  have epochs: "line_epochs_ok sn ?db'"
    unfolding line_epochs_ok_def the_cursor_pushed epoch_lines_pushed
    using none by (auto simp: advance_def startOff_def split: if_splits)
  consider (other) "sn' \<noteq> sn" | (gap) "sn' = sn" "lf_epoch lf > lc_epoch ?cur"
    | (next_part) "sn' = sn" "lf_epoch lf = lc_epoch ?cur" "lf_end lf > lc_ack_off ?cur"
    | (old) "sn' = sn" "startOff lf ?cur = None" "\<And>b. lc_epoch (advance lf b ?cur) = lc_epoch ?cur"
        "\<And>b. lc_ack_off (advance lf b ?cur) = lc_ack_off ?cur"
    by (cases "sn' = sn"; cases "lc_epoch ?cur < lf_epoch lf";
        cases "lf_epoch lf = lc_epoch ?cur \<and> lc_ack_off ?cur < lf_end lf")
      (simp_all add: startOff_def advance_def)
  then have "\<exists>a. stream (log_fragment ?db') sn (lc_epoch (the_cursor ?db' sn)) a (lc_ack_off (the_cursor ?db' sn))
      (epoch_lines sn (lc_epoch (the_cursor ?db' sn)) (logs ?db'))"
  proof cases
    case other
    then show ?thesis
      using st' by (auto simp: the_cursor_pushed epoch_lines_pushed)
  next
    case gap
    then have "epoch_lines sn (lf_epoch lf) (logs ?db') = []"
      by (simp add: epoch_lines_pushed none startOff_def)
    then show ?thesis
      using gap by (auto simp: the_cursor_pushed advance_def intro: stream.start)
  next
    case next_part
    then have new: "is_new db sn lf"
      using assms(1) unfolding stream_inv_def log_inv_def is_new_def below_cursor_def by force
    have start: "startOff lf ?cur = Some (lc_ack_off ?cur)"
      using next_part by (simp add: startOff_def)
    have frag: "log_fragment ?db' (sn, lc_epoch ?cur, lf_end lf) =
        Some \<lparr>f_start_off = Some (lc_ack_off ?cur), f_payload = p, f_gap = gapFlag lf ?cur\<rparr>"
      using new next_part start by (simp add: pushed_def)
    have "stream (log_fragment ?db') sn (lc_epoch ?cur) a (lf_end lf)
        (epoch_lines sn (lc_epoch ?cur) (logs db) @ [log_line now sn lf ?cur p])"
      using start by (intro stream.more [OF st' next_part(3) frag]) (simp_all add: log_line_def)
    then show ?thesis
      using next_part new start by (auto simp: the_cursor_pushed advance_def epoch_lines_pushed)
  next
    case old
    then show ?thesis
      using st' by (auto simp: the_cursor_pushed epoch_lines_pushed)
  qed
  then show ?thesis
    using inv epochs by (simp add: stream_inv_def Let_def)
qed

lemma log_apply_stream_inv: "stream_inv sn db \<Longrightarrow> stream_inv sn (log_apply a db)"
  by (rule log_apply_cases [of a db]) (metis stream_inv_cong stream_inv_touched stream_inv_pushed)+

interpretation stream: invariant_run log_apply "\<lambda>_. True" "stream_inv sn" for sn
  by unfold_locales (rule log_apply_stream_inv)

section \<open>Sequence numbers\<close>

text \<open>
  The sequence counter of the cursor is an \<open>int64\<close>; the numbering is stated for fewer than \<open>2 ^ 63\<close>
  stored lines, below which it cannot wrap.
\<close>

definition seq_inv :: "serial \<Rightarrow> 'a db_scheme \<Rightarrow> bool" where
  "seq_inv sn db \<longleftrightarrow>
     (length (logs db) < 2 ^ 63 \<longrightarrow>
        lc_last_seq (the_cursor db sn) = int (length (seqs sn (logs db))) \<and>
        seqs sn (logs db) = map int [1..<Suc (length (seqs sn (logs db)))])"

lemma seq_inv_cong: "log_part db = log_part db' \<Longrightarrow> seq_inv sn db = seq_inv sn db'"
  using log_part_cong by (metis seq_inv_def)

lemma seq_inv_touched: "seq_inv sn (touched sn' db) = seq_inv sn db"
  by (simp add: seq_inv_def)

lemma length_seqs: "length (seqs sn ls) \<le> length ls"
  by (simp add: seqs_def)

lemma seqs_pushed:
  "seqs sn (logs (pushed now sn' lf p db)) =
     seqs sn (logs db) @ (if sn' = sn \<and> is_new db sn lf then [wrap64 (lc_last_seq (the_cursor db sn) + 1)] else [])"
  by (auto simp: pushed_def seqs_def log_line_def)

lemma seq_inv_pushed:
  assumes "seq_inv sn db"
  shows "seq_inv sn (pushed now sn' lf p db)"
  unfolding seq_inv_def
proof (rule impI)
  let ?db' = "pushed now sn' lf p db" and ?n = "length (seqs sn (logs db))"
  assume len: "length (logs ?db') < 2 ^ 63"
  have lens: "length (logs db) \<le> length (logs ?db')"
    by (simp add: pushed_def)
  then have ih: "lc_last_seq (the_cursor db sn) = int ?n" "seqs sn (logs db) = map int [1..<Suc ?n]"
    using assms len by (auto simp: seq_inv_def)
  show "lc_last_seq (the_cursor ?db' sn) = int (length (seqs sn (logs ?db'))) \<and>
        seqs sn (logs ?db') = map int [1..<Suc (length (seqs sn (logs ?db')))]"
  proof (cases "sn' = sn \<and> is_new db sn lf")
    case True
    have "Suc ?n \<le> length (logs ?db')"
      using True length_seqs [of sn "logs db"] by (simp add: pushed_def)
    then have "Suc ?n < 2 ^ 63"
      using len by linarith
    then have w: "wrap64 (int ?n + 1) = int (Suc ?n)"
      by (subst wrap64_id) simp_all
    have "seqs sn (logs ?db') = seqs sn (logs db) @ [int (Suc ?n)]"
      using True w by (simp add: seqs_pushed ih(1))
    then show ?thesis
      using True ih w by (simp add: the_cursor_pushed advance_def)
  next
    case False
    then have same: "seqs sn (logs ?db') = seqs sn (logs db)"
      by (simp add: seqs_pushed)
    have "lc_last_seq (the_cursor ?db' sn) = lc_last_seq (the_cursor db sn)"
      using False by (auto simp: the_cursor_pushed advance_def)
    then show ?thesis
      using ih same by simp
  qed
qed

lemma log_apply_seq_inv: "seq_inv sn db \<Longrightarrow> seq_inv sn (log_apply a db)"
  by (rule log_apply_cases [of a db]) (metis seq_inv_cong seq_inv_touched seq_inv_pushed)+

interpretation seq: invariant_run log_apply "\<lambda>_. True" "seq_inv sn" for sn
  by unfold_locales (rule log_apply_seq_inv)

text \<open>
  C10 (log reassembly).  After any sequence of pushes from the freshly migrated tables, for every device:
  the lines of its current boot epoch that carry an offset form one contiguous stream of stored
  fragments up to the acknowledged offset, no byte missing and none twice; and the sequence numbers
  of its lines are 1, 2, 3, and so on in the order of arrival, the last one in the cursor.
\<close>

theorem reachable_log_stream:
  fixes as :: "log_action list"
  defines "db \<equiv> run log_apply as empty_db"
  shows "(\<exists>a. stream (log_fragment db) sn (lc_epoch (the_cursor db sn)) a (lc_ack_off (the_cursor db sn))
              (epoch_lines sn (lc_epoch (the_cursor db sn)) (logs db))) \<and>
         (length (logs db) < 2 ^ 63 \<longrightarrow>
            seqs sn (logs db) = map int [1..<Suc (length (seqs sn (logs db)))] \<and>
            lc_last_seq (the_cursor db sn) = int (length (seqs sn (logs db))))"
proof -
  have "stream_inv sn empty_db"
    by (auto simp: stream_inv_def log_inv_def line_epochs_ok_def epoch_lines_def empty_db_def the_cursor_def
        new_log_cursor_def Let_def intro: stream.start)
  then have st: "stream_inv sn db"
    unfolding db_def by (intro stream.run_I) simp_all
  have "seq_inv sn empty_db"
    by (simp add: seq_inv_def seqs_def empty_db_def the_cursor_def new_log_cursor_def)
  then have "seq_inv sn db"
    unfolding db_def by (intro seq.run_I) simp_all
  with st show ?thesis
    unfolding stream_inv_def seq_inv_def Let_def by blast
qed

text \<open>A device that pushes the bytes up to offset 5 of its first boot.\<close>

definition example_push :: http_req where
  "example_push =
     \<lparr>rq_method = ''GET'', rq_path = ''/t/pp'', rq_query = [''sn'' \<mapsto> [''pp1''], ''off'' \<mapsto> [''5'']],
      rq_header = (\<lambda>h. if h = ''X-Picpak-Log'' then ''hello'' else []), rq_body = [], rq_remote_addr = [],
      rq_origin = None\<rparr>"

lemma example_push_result:
  "ingest (\<lambda>_. False) 0 empty_db example_push [] ''pp1'' 65536 =
     (Some (Some 5), log_apply (PushLog (\<lambda>_. False) 0 example_push [] ''pp1'' 65536) empty_db)"
proof -
  have p5: "ParseInt ''5'' = (5, None)"
    by (simp add: ParseInt_def ParseUint_def is_digit_def digit_val_def)
  have fit: "telemetry_fits (telemetry_of 0 ''pp1'' (rq_query example_push) [] [])"
    by (simp add: telemetry_fits_def telemetry_of_def fits_def ni_def q_get_def example_push_def parseDiag_def
        Fields_def m_get_def)
  have frame: "parseLogFrame (rq_query example_push) [] =
      Some \<lparr>lf_epoch = 0, lf_end = 5, lf_base = None, lf_gapClaim = 0, lf_explicit = False\<rparr>"
    by (simp add: parseLogFrame_def q_get_def example_push_def pInt64_def p5)
  have "fst (ingest (\<lambda>_. False) 0 empty_db example_push [] ''pp1'' 65536) = Some (Some 5)"
    using fit frame
    by (simp add: ingest_def example_push_def reassembleLog_def frame_bad_def frame_oversize_def device_upsert_def
        empty_db_def new_log_cursor_def advance_def Let_def)
  then show ?thesis
    by (metis log_apply.simps prod.collapse)
qed

theorem repush_idempotent_witness:
  "let db1 = log_apply (PushLog (\<lambda>_. False) 0 example_push [] ''pp1'' 65536) empty_db;
       db2 = run log_apply [PushLog (\<lambda>_. False) 1 example_push [] ''pp2'' 65536] db1;
       db3 = snd (ingest (\<lambda>_. False) 2 db2 example_push [] ''pp1'' 65536)
   in log_fragment db3 = log_fragment db2 \<and> logs db3 = logs db2 \<and> the_cursor db3 ''pp1'' = the_cursor db2 ''pp1''"
proof -
  have inv: "log_inv ''pp1'' empty_db"
    by (simp add: log_inv_def the_cursor_def new_log_cursor_def empty_db_def)
  show ?thesis
    unfolding Let_def
    using repush_idempotent [OF inv example_push_result refl prod.collapse [symmetric]] by blast
qed

theorem ingest_durable_before_ack_witness:
  "case Some (Some 5) of
     None \<Rightarrow> log_apply (PushLog (\<lambda>_. False) 0 example_push [] ''pp1'' 65536) empty_db = empty_db
   | Some None \<Rightarrow> True
   | Some (Some off) \<Rightarrow>
       (\<exists>lf cur. req_frame example_push = Some lf \<and>
          log_cursor (log_apply (PushLog (\<lambda>_. False) 0 example_push [] ''pp1'' 65536) empty_db) ''pp1'' = Some cur \<and>
          lc_ack_off cur = off)"
  using ingest_durable_before_ack [OF example_push_result] by auto

theorem reachable_log_stream_witness:
  "\<exists>a. stream (log_fragment (run log_apply [PushLog (\<lambda>_. False) 0 example_push [] ''pp1'' 65536] empty_db)) ''pp1''
      (lc_epoch (the_cursor (run log_apply [PushLog (\<lambda>_. False) 0 example_push [] ''pp1'' 65536] empty_db) ''pp1'')) a
      (lc_ack_off (the_cursor (run log_apply [PushLog (\<lambda>_. False) 0 example_push [] ''pp1'' 65536] empty_db) ''pp1''))
      (epoch_lines ''pp1''
        (lc_epoch (the_cursor (run log_apply [PushLog (\<lambda>_. False) 0 example_push [] ''pp1'' 65536] empty_db) ''pp1''))
        (logs (run log_apply [PushLog (\<lambda>_. False) 0 example_push [] ''pp1'' 65536] empty_db)))"
  using reachable_log_stream [of "[PushLog (\<lambda>_. False) 0 example_push [] ''pp1'' 65536]" "''pp1''"] by blast

end
