(* ===== verification/Go_Base64.thy ===== *)
theory Go_Base64
  imports Go_Strings
begin

text \<open>
  \<open>base64.RawURLEncoding\<close> of Go: the URL alphabet without padding.  The decoder skips carriage
  returns and line feeds and does not insist on zero trailing bits, as Go's non-strict decoder; every
  error is \<open>None\<close>.
\<close>

definition b64_char :: "nat \<Rightarrow> char" where
  "b64_char v =
     (if v < 26 then char_of (65 + v)
      else if v < 52 then char_of (71 + v)
      else if v < 62 then char_of (v - 4)
      else if v = 62 then CHR ''-'' else CHR ''_'')"

definition b64_val :: "char \<Rightarrow> nat option" where
  "b64_val c =
     (let n = of_char c in
      if 65 \<le> n \<and> n \<le> 90 then Some (n - 65)
      else if 97 \<le> n \<and> n \<le> 122 then Some (n - 71)
      else if 48 \<le> n \<and> n \<le> 57 then Some (n + 4)
      else if c = CHR ''-'' then Some 62
      else if c = CHR ''_'' then Some 63
      else None)"

fun b64_encode :: "bytes \<Rightarrow> string" where
  "b64_encode [] = []"
| "b64_encode [a] = [b64_char (unat a div 4), b64_char (unat a mod 4 * 16)]"
| "b64_encode [a, b] =
     [b64_char (unat a div 4), b64_char (unat a mod 4 * 16 + unat b div 16), b64_char (unat b mod 16 * 4)]"
| "b64_encode (a # b # c # rest) =
     [b64_char (unat a div 4), b64_char (unat a mod 4 * 16 + unat b div 16),
      b64_char (unat b mod 16 * 4 + unat c div 64), b64_char (unat c mod 64)] @ b64_encode rest"

fun b64_bytes :: "nat list \<Rightarrow> bytes option" where
  "b64_bytes [] = Some []"
| "b64_bytes [x] = None"
| "b64_bytes [x, y] = Some [of_nat (x * 4 + y div 16)]"
| "b64_bytes [x, y, z] = Some [of_nat (x * 4 + y div 16), of_nat (y mod 16 * 16 + z div 4)]"
| "b64_bytes (x # y # z # w # rest) =
     (case b64_bytes rest of
        None \<Rightarrow> None
      | Some bs \<Rightarrow>
          Some (of_nat (x * 4 + y div 16) # of_nat (y mod 16 * 16 + z div 4) # of_nat (z mod 4 * 64 + w) # bs))"

fun b64_vals :: "string \<Rightarrow> nat list option" where
  "b64_vals [] = Some []"
| "b64_vals (c # cs) =
     (case (b64_val c, b64_vals cs) of (Some v, Some vs) \<Rightarrow> Some (v # vs) | _ \<Rightarrow> None)"

definition is_crlf :: "char \<Rightarrow> bool" where
  "is_crlf c \<longleftrightarrow> of_char c \<in> {10, 13 :: nat}"

definition b64_decode :: "string \<Rightarrow> bytes option" where
  "b64_decode s = (case b64_vals (filter (\<lambda>c. \<not> is_crlf c) s) of None \<Rightarrow> None | Some vs \<Rightarrow> b64_bytes vs)"

lemma b64_val_char [simp]: "v < 64 \<Longrightarrow> b64_val (b64_char v) = Some v"
  by (auto simp: b64_val_def b64_char_def Let_def char_of_eq_iff)

lemma byte_lt: "unat (b :: byte) < 256"
  using unsigned_less [of b, where ?'a = nat] by simp

lemma six_bits [simp]:
  "unat (a :: byte) div 4 < 64" "unat a mod 4 * 16 < 64" "unat a mod 16 * 4 < 64"
  "unat a mod 4 * 16 + unat (b :: byte) div 16 < 64" "unat a mod 16 * 4 + unat b div 64 < 64"
  using byte_lt [of a] byte_lt [of b] by (simp_all add: less_mult_imp_div_less; presburger)+

lemma byte_div [simp]:
  "unat (a :: byte) div 64 div 4 = 0" "unat a div 64 mod 4 = unat a div 64"
  "unat a div 16 div 16 = 0" "unat a div 16 mod 16 = unat a div 16"
  using byte_lt [of a] by (simp_all add: div_mult2_eq [symmetric] less_mult_imp_div_less)

lemma byte_parts [simp]:
  "unat (a :: byte) div 4 * 4 + unat a mod 4 = unat a" "unat a div 16 * 16 + unat a mod 16 = unat a"
  "unat a div 64 * 64 + unat a mod 64 = unat a"
  by simp_all

lemma join_bits [simp]:
  "(y * 16 + x) div 16 = y + x div 16" "(y * 16 + x) mod 16 = x mod 16"
  "(y * 4 + x) div 4 = y + x div 4" "(y * 4 + x) mod 4 = x mod (4 :: nat)"
  by simp_all

lemma b64_encode_vals: "\<exists>vs. b64_vals (b64_encode bs) = Some vs \<and> b64_bytes vs = Some bs"
proof (induction bs rule: b64_encode.induct)
  case (4 a b c rest)
  then obtain vs where "b64_vals (b64_encode rest) = Some vs" "b64_bytes vs = Some rest"
    by blast
  then show ?case
    by (simp del: of_nat_add of_nat_mult)
qed (simp_all del: of_nat_add of_nat_mult)

lemma b64_vals_chars: "b64_vals s = Some vs \<Longrightarrow> c \<in> set s \<Longrightarrow> b64_val c \<noteq> None"
  by (induction s arbitrary: vs) (auto split: option.splits)

lemma b64_val_specials [simp]: "b64_val CHR ''.'' = None" "is_crlf c \<Longrightarrow> b64_val c = None"
  by (auto simp: b64_val_def is_crlf_def Let_def)

lemma b64_encode_chars: "c \<in> set (b64_encode bs) \<Longrightarrow> b64_val c \<noteq> None"
  using b64_encode_vals b64_vals_chars by blast

lemma b64_encode_no_dot: "CHR ''.'' \<notin> set (b64_encode bs)"
  using b64_encode_chars b64_val_specials(1) by blast

lemma b64_decode_encode: "b64_decode (b64_encode bs) = Some bs"
proof -
  have "filter (\<lambda>c. \<not> is_crlf c) (b64_encode bs) = b64_encode bs"
    using b64_encode_chars b64_val_specials(2) by (metis (mono_tags, lifting) filter_True)
  then show ?thesis
    using b64_encode_vals [of bs] by (auto simp: b64_decode_def)
qed

interpretation b64: codec "\<lambda>_. True" b64_encode b64_decode
  by unfold_locales (rule b64_decode_encode)

section \<open>The standard alphabet and padding\<close>

text \<open>\<open>base64.RawStdEncoding\<close> differs from the URL alphabet in its last two characters.\<close>

definition to_std :: "char \<Rightarrow> char" where
  "to_std c = (if c = CHR ''-'' then CHR ''+'' else if c = CHR ''_'' then CHR ''/'' else c)"

definition from_std :: "char \<Rightarrow> char" where
  "from_std c =
     (if c = CHR ''+'' then CHR ''-'' else if c = CHR ''/'' then CHR ''_''
      else if c = CHR ''-'' \<or> c = CHR ''_'' then CHR ''!'' else c)"

definition std_encode :: "bytes \<Rightarrow> string" where
  "std_encode b = map to_std (b64_encode b)"

definition std_decode :: "string \<Rightarrow> bytes option" where
  "std_decode s = b64_decode (map from_std s)"

text \<open>\<open>base64.StdEncoding\<close>, with padding.\<close>

definition pad_decode :: "string \<Rightarrow> bytes option" where
  "pad_decode s =
     (let t = filter (\<lambda>c. \<not> is_crlf c) s;
          n = length (takeWhile (\<lambda>c. c = CHR ''='') (rev t))
      in if length t mod 4 \<noteq> 0 \<or> n > 2 then None else std_decode (take (length t - n) t))"

definition pad_encode :: "bytes \<Rightarrow> string" where
  "pad_encode b = (let t = std_encode b in t @ replicate ((4 - length t mod 4) mod 4) CHR ''='')"

lemma from_to_std: "b64_val c \<noteq> None \<Longrightarrow> from_std (to_std c) = c"
  by (auto simp: from_std_def to_std_def b64_val_def Let_def split: if_splits)

lemma std_decode_encode [simp]: "std_decode (std_encode b) = Some b"
proof -
  have "map from_std (std_encode b) = b64_encode b"
    unfolding std_encode_def using b64_encode_chars [of _ b] from_to_std by (simp add: map_idI)
  then show ?thesis
    by (simp add: std_decode_def b64_decode_encode)
qed

lemma std_encode_no_dollar [simp]: "CHR ''$'' \<notin> set (std_encode b)"
proof
  assume "CHR ''$'' \<in> set (std_encode b)"
  then obtain c where "c \<in> set (b64_encode b)" "CHR ''$'' = to_std c"
    by (auto simp: std_encode_def)
  then show False
    using b64_encode_chars [of c b] by (auto simp: to_std_def b64_val_def split: if_splits)
qed

lemma length_b64_encode: "length (b64_encode bs) mod 4 \<in> {0, 2, 3}"
proof (induction bs rule: b64_encode.induct)
qed (simp_all add: Let_def)

lemma std_encode_chars: "c \<in> set (std_encode b) \<Longrightarrow> c \<noteq> CHR ''='' \<and> \<not> is_crlf c \<and> \<not> is_space c \<and> c \<noteq> CHR '':''"
proof -
  assume "c \<in> set (std_encode b)"
  then obtain d where "d \<in> set (b64_encode b)" "c = to_std d"
    by (auto simp: std_encode_def)
  then show ?thesis
    using b64_encode_chars [of d b] by (auto simp: to_std_def b64_val_def is_crlf_def is_space_def split: if_splits)
qed

lemma pad_encode_chars: "c \<in> set (pad_encode b) \<Longrightarrow> \<not> is_crlf c \<and> \<not> is_space c \<and> c \<noteq> CHR '':''"
  by (auto simp: pad_encode_def Let_def is_crlf_def is_space_def dest: std_encode_chars)

lemma takeWhile_replicate_append:
  "ys = [] \<or> hd ys \<noteq> c \<Longrightarrow> takeWhile (\<lambda>d. d = c) (replicate n c @ ys) = replicate n c"
  by (induction n) (cases ys; simp)+

lemma pad_decode_encode: "pad_decode (pad_encode b) = Some b"
proof -
  let ?t = "std_encode b" and ?n = "(4 - length (std_encode b) mod 4) mod 4"
  have len: "length ?t mod 4 \<in> {0, 2, 3}"
    using length_b64_encode [of b] by (simp add: std_encode_def)
  have "filter (\<lambda>c. \<not> is_crlf c) (pad_encode b) = pad_encode b"
    using pad_encode_chars by (metis (mono_tags, lifting) filter_True)
  moreover have "takeWhile (\<lambda>c. c = CHR ''='') (rev (pad_encode b)) = replicate ?n CHR ''=''"
  proof -
    have "rev ?t = [] \<or> hd (rev ?t) \<noteq> CHR ''=''"
      using std_encode_chars [of "last ?t" b] by (cases "?t = []") (simp_all add: hd_rev)
    then show ?thesis
      unfolding pad_encode_def Let_def rev_append rev_replicate by (rule takeWhile_replicate_append)
  qed
  moreover have "length (pad_encode b) mod 4 = 0" "?n \<le> 2"
    using len by (auto simp: pad_encode_def Let_def mod_simps) presburger+
  ultimately show ?thesis
    by (simp add: pad_decode_def Let_def) (simp add: pad_encode_def Let_def)
qed

interpretation std64: codec "\<lambda>_. True" pad_encode pad_decode
  by unfold_locales (rule pad_decode_encode)

end
