(* ===== verification/Ota.thy ===== *)
theory Ota
  imports Schema Go_Base64 Runs Log_Ingest
begin

text \<open>
  Over-the-air updates: the rollout resolver (\<open>rollout/resolve.go\<close>, \<open>types.go\<close>, \<open>read.go\<close>), the
  operator's writes (\<open>rolloutadmin/write.go\<close>), the download ticket (\<open>otaticket/ticket.go\<close>) and the
  two device-facing halves, the signal on a push and the firmware download (\<open>ingestcore/ota.go\<close>).

  The blob directory is a map from file names to contents.  A registration's failing calls stand for
  database errors (the length check of the version column included) and file-system errors.
\<close>

section \<open>Resolution\<close>

datatype rsource = SourceSerial | SourceFleet | SourceChannelDefault | SourceNone

datatype tier = TierSerial | TierFleet

definition DefaultPrecedence :: "tier list" where
  "DefaultPrecedence = [TierSerial, TierFleet]"

record target =
  tg_serial :: string
  tg_channel :: string
  tg_version :: string
  tg_state :: string

record resolved =
  rv_version :: string
  rv_source :: rsource

text \<open>The inner loop: the first row of the tier that is active on the channel.\<close>

fun resolve_tier :: "tier \<Rightarrow> string \<Rightarrow> target list \<Rightarrow> resolved option" where
  "resolve_tier tier ch [] = None"
| "resolve_tier tier ch (t # ts) =
     (if tg_channel t \<noteq> ch \<or> tg_state t \<noteq> ''active'' then resolve_tier tier ch ts
      else case tier of
        TierSerial \<Rightarrow>
          (if tg_serial t \<noteq> ''*'' then Some \<lparr>rv_version = tg_version t, rv_source = SourceSerial\<rparr>
           else resolve_tier tier ch ts)
      | TierFleet \<Rightarrow>
          (if tg_serial t = ''*'' then Some \<lparr>rv_version = tg_version t, rv_source = SourceFleet\<rparr>
           else resolve_tier tier ch ts))"

fun Resolve :: "string \<Rightarrow> target list \<Rightarrow> string \<Rightarrow> tier list \<Rightarrow> resolved" where
  "Resolve ch rs chDefault [] =
     (if chDefault \<noteq> [] then \<lparr>rv_version = chDefault, rv_source = SourceChannelDefault\<rparr>
      else \<lparr>rv_version = [], rv_source = SourceNone\<rparr>)"
| "Resolve ch rs chDefault (tier # prec) =
     (case resolve_tier tier ch rs of Some r \<Rightarrow> r | None \<Rightarrow> Resolve ch rs chDefault prec)"

datatype resolve_call = RvDevice | RvRows | RvDefault

definition target_of :: "rollout_row \<Rightarrow> target" where
  "target_of r = \<lparr>tg_serial = r_serial r, tg_channel = r_channel r, tg_version = r_version r, tg_state = r_state r\<rparr>"

definition device_targets :: "'a db_scheme \<Rightarrow> string \<Rightarrow> serial \<Rightarrow> target list" where
  "device_targets db ch serial =
     map target_of (filter (\<lambda>r. r_channel r = ch \<and> (r_serial r = serial \<or> r_serial r = ''*'')) (rollout_targets db))"

definition channel_default :: "'a db_scheme \<Rightarrow> string \<Rightarrow> string" where
  "channel_default db ch = (case channels db ch of Some (Some v) \<Rightarrow> v | _ \<Rightarrow> [])"

text \<open>\<open>None\<close> is an error; an unknown serial resolves to nothing without one.\<close>

definition ResolveTarget :: "(resolve_call \<Rightarrow> bool) \<Rightarrow> 'a db_scheme \<Rightarrow> serial \<Rightarrow> resolved option" where
  "ResolveTarget flt db serial =
     (if flt RvDevice then None
      else case devices db serial of
        None \<Rightarrow> Some \<lparr>rv_version = [], rv_source = SourceNone\<rparr>
      | Some d \<Rightarrow>
          let ch = d_channel d in
          if flt RvRows then None
          else if flt RvDefault then None
          else Some (Resolve ch (device_targets db ch serial) (channel_default db ch) DefaultPrecedence))"

section \<open>The operator's writes\<close>

datatype rollout_error = ErrShaMismatch | ErrDuplicate | ErrForeignKey | ErrStatement | ErrBlobWrite

datatype register_fw_call = FwInsert | FwBlob

type_synonym blob_dir = "string \<rightharpoonup> bytes"

definition blob_name :: "string \<Rightarrow> string" where
  "blob_name sha = sha @ ''.bin''"

definition RegisterFirmware ::
  "(register_fw_call \<Rightarrow> bool) \<Rightarrow> 'a db_scheme \<Rightarrow> blob_dir \<Rightarrow> string \<Rightarrow> string \<Rightarrow> bytes \<Rightarrow>
   (rollout_error + string) \<times> 'a db_scheme \<times> blob_dir" where
  "RegisterFirmware flt db blobs version claimedSha blob =
     (let sha = EncodeToString (sha256 blob) in
      if \<not> EqualFold sha claimedSha then (Inl ErrShaMismatch, db, blobs)
      else if flt FwInsert then (Inl ErrStatement, db, blobs)
      else if firmware_versions db version \<noteq> None then (Inl ErrDuplicate, db, blobs)
      else
        let db' = db\<lparr>firmware_versions := (firmware_versions db)(version \<mapsto>
              \<lparr>fw_sha256 = sha, fw_blob_path = blob_name sha, fw_size_bytes = int (length blob), fw_notes = None\<rparr>)\<rparr>
        in if flt FwBlob then (Inl ErrBlobWrite, db', blobs)
           else (Inr sha, db', blobs(blob_name sha \<mapsto> blob)))"

text \<open>The updates return \<open>None\<close> for an error and otherwise whether a row was found.\<close>

definition SetChannelDefault :: "bool \<Rightarrow> 'a db_scheme \<Rightarrow> string \<Rightarrow> string \<Rightarrow> bool option \<times> 'a db_scheme" where
  "SetChannelDefault flt db channel version =
     (if flt then (None, db)
      else if channels db channel = None then (Some False, db)
      else if firmware_versions db version = None then (None, db)
      else (Some True, db\<lparr>channels := (channels db)(channel \<mapsto> Some version)\<rparr>))"

definition SerialResolvable :: "bool \<Rightarrow> 'a db_scheme \<Rightarrow> string \<Rightarrow> bool option" where
  "SerialResolvable flt db serial =
     (if serial = ''*'' then Some True else if flt then None else Some (devices db serial \<noteq> None))"

definition rollout_key :: "rollout_row \<Rightarrow> string \<times> string" where
  "rollout_key r = (r_serial r, r_channel r)"

definition UpsertRollout :: "bool \<Rightarrow> 'a db_scheme \<Rightarrow> string \<Rightarrow> string \<Rightarrow> string \<Rightarrow> (rollout_error + int) \<times> 'a db_scheme" where
  "UpsertRollout flt db serial channel version =
     (if flt then (Inl ErrStatement, db)
      else if channels db channel = None \<or> firmware_versions db version = None then (Inl ErrForeignKey, db)
      else
        let rows = rollout_targets db; nid = rollout_next_id db in
        case find (\<lambda>r. rollout_key r = (serial, channel)) rows of
          Some r \<Rightarrow>
            (Inr (r_id r),
             db\<lparr>rollout_targets :=
                  map (\<lambda>x. if rollout_key x = (serial, channel)
                           then x\<lparr>r_version := version, r_state := ''active''\<rparr> else x) rows,
                rollout_next_id := nid + 1\<rparr>)
        | None \<Rightarrow>
            (Inr nid,
             db\<lparr>rollout_targets := rows @
                  [\<lparr>r_id = nid, r_serial = serial, r_channel = channel, r_version = version,
                    r_state = ''active'', r_pinned = False\<rparr>],
                rollout_next_id := nid + 1\<rparr>))"

definition SetRolloutState :: "bool \<Rightarrow> 'a db_scheme \<Rightarrow> int \<Rightarrow> string \<Rightarrow> bool option \<times> 'a db_scheme" where
  "SetRolloutState flt db rid state =
     (if flt then (None, db)
      else (Some (list_ex (\<lambda>r. r_id r = rid) (rollout_targets db)),
            db\<lparr>rollout_targets := map (\<lambda>r. if r_id r = rid then r\<lparr>r_state := state\<rparr> else r) (rollout_targets db)\<rparr>))"

definition DeleteRollout :: "bool \<Rightarrow> 'a db_scheme \<Rightarrow> int \<Rightarrow> bool option \<times> 'a db_scheme" where
  "DeleteRollout flt db rid =
     (if flt then (None, db)
      else (Some (list_ex (\<lambda>r. r_id r = rid) (rollout_targets db)),
            db\<lparr>rollout_targets := filter (\<lambda>r. r_id r \<noteq> rid) (rollout_targets db)\<rparr>))"

section \<open>The download ticket\<close>

definition MinKeyLen :: nat where
  "MinKeyLen = 32"

definition KeyStrong :: "string \<Rightarrow> bool" where
  "KeyStrong key \<longleftrightarrow> length key \<ge> MinKeyLen"

datatype ticket_error = ErrMalformed | ErrBadMAC | ErrExpired

definition signingInput :: "string \<Rightarrow> string \<Rightarrow> int \<Rightarrow> string" where
  "signingInput snB64 verB64 e = snB64 @ ''.'' @ verB64 @ ''.'' @ FormatInt e"

definition mac :: "string \<Rightarrow> string \<Rightarrow> string" where
  "mac key input = b64_encode (hmac sha256 (bytes_of key) (bytes_of input))"

definition unix :: "time \<Rightarrow> int" where
  "unix t = t div second"

definition Mint :: "time \<Rightarrow> string \<Rightarrow> string \<Rightarrow> string \<Rightarrow> time \<Rightarrow> string" where
  "Mint now key sn version ttl =
     (let e = unix (now + ttl);
          snB64 = b64_encode (bytes_of sn);
          verB64 = b64_encode (bytes_of version);
          inp = signingInput snB64 verB64 e
      in inp @ ''.'' @ mac key inp)"

definition Verify :: "time \<Rightarrow> string \<Rightarrow> string \<Rightarrow> ticket_error + string \<times> string" where
  "Verify now key token =
     (case Split CHR ''.'' token of
        [snB64, verB64, expStr, macB64] \<Rightarrow>
          (if mac key (snB64 @ ''.'' @ verB64 @ ''.'' @ expStr) \<noteq> macB64 then Inl ErrBadMAC
           else case ParseInt expStr of
             (e, Some _) \<Rightarrow> Inl ErrMalformed
           | (e, None) \<Rightarrow>
               (if unix now \<ge> e then Inl ErrExpired
                else case b64_decode snB64 of
                  None \<Rightarrow> Inl ErrMalformed
                | Some snB \<Rightarrow>
                    (case b64_decode verB64 of
                       None \<Rightarrow> Inl ErrMalformed
                     | Some verB \<Rightarrow> Inr (string_of snB, string_of verB))))
      | _ \<Rightarrow> Inl ErrMalformed)"

section \<open>The device-facing half (ingestcore/ota.go)\<close>

record ota_cfg =
  otaServeEnabled :: bool
  otaKey :: string
  otaTTL :: time

definition otaArmed :: "ota_cfg \<Rightarrow> bool" where
  "otaArmed cfg \<longleftrightarrow> otaServeEnabled cfg \<and> KeyStrong (otaKey cfg)"

text \<open>The headers \<open>injectOTASignal\<close> sets, in order.\<close>

definition injectOTASignal ::
  "(resolve_call \<Rightarrow> bool) \<Rightarrow> time \<Rightarrow> ota_cfg \<Rightarrow> 'a db_scheme \<Rightarrow> serial \<Rightarrow> (string \<times> string) list" where
  "injectOTASignal flt now cfg db serial =
     (if \<not> otaArmed cfg then []
      else case ResolveTarget flt db serial of
        None \<Rightarrow> []
      | Some r \<Rightarrow>
          if rv_source r = SourceNone \<or> rv_version r = [] then []
          else [(''X-Firmware-Version'', rv_version r),
                (''X-Firmware-Ticket'', Mint now (otaKey cfg) serial (rv_version r) (otaTTL cfg))])"

text \<open>\<open>filepath.Base\<close> on Unix paths.\<close>

definition path_base :: "string \<Rightarrow> string" where
  "path_base p =
     (if p = [] then ''.''
      else
        let q = rev (dropWhile (\<lambda>c. c = CHR ''/'') (rev p));
            b = rev (takeWhile (\<lambda>c. c \<noteq> CHR ''/'') (rev q))
        in if b = [] then ''/'' else b)"

text \<open>
  \<open>os.Open\<close> below the blob directory: a regular file with its bytes, or a directory (the names
  \<open>.\<close>, \<open>..\<close> and \<open>/\<close>), whose bytes cannot be copied.
\<close>

datatype opened = OpenFailed | OpenFile bytes | OpenDir

definition open_blob :: "blob_dir \<Rightarrow> string \<Rightarrow> opened" where
  "open_blob blobs name =
     (if name = ''.'' \<or> name = ''..'' \<or> name = ''/'' then OpenDir
      else case blobs name of None \<Rightarrow> OpenFailed | Some b \<Rightarrow> OpenFile b)"

datatype firmware_call = FmSelect | FmOpen | FmSnapshot

text \<open>
  A version that is not registered is 404, a failing lookup or open 500.  The log that rides along is
  stored after the body, best effort.
\<close>

definition handleFirmware ::
  "(firmware_call \<Rightarrow> bool) \<Rightarrow> time \<Rightarrow> ota_cfg \<Rightarrow> blob_dir \<Rightarrow> 'a db_scheme \<Rightarrow> http_req \<Rightarrow> http_resp \<times> 'a db_scheme" where
  "handleFirmware flt now cfg blobs db r =
     (if \<not> otaServeEnabled cfg then (http_error 404, db)
      else if \<not> KeyStrong (otaKey cfg) then (http_error 503, db)
      else if rq_header r ''X-Firmware-Ticket'' = [] then (http_error 403, db)
      else case Verify now (otaKey cfg) (rq_header r ''X-Firmware-Ticket'') of
        Inl _ \<Rightarrow> (http_error 403, db)
      | Inr (sn, version) \<Rightarrow>
          if flt FmSelect then (http_error 500, db)
          else case firmware_versions db version of
            None \<Rightarrow> (http_error 404, db)
          | Some fw \<Rightarrow>
              let file = (if flt FmOpen then OpenFailed else open_blob blobs (path_base (fw_blob_path fw))) in
              if file = OpenFailed then (http_error 500, db)
              else
                let body = (case file of OpenFile b \<Rightarrow> string_of b | _ \<Rightarrow> []);
                    snap = rq_header r ''X-Picpak-Log'';
                    db' = (if snap \<noteq> [] \<and> \<not> flt FmSnapshot
                           then insertSnapshot now db sn (ni (q_get (rq_query r) ''bc'')) snap else db)
                in (\<lparr>rs_status = 200,
                     rs_headers = [(''X-Firmware-SHA256'', fw_sha256 fw), (''Content-Type'', ''application/octet-stream''),
                                   (''Content-Length'', FormatInt (fw_size_bytes fw))],
                     rs_body = body\<rparr>, db'))"

section \<open>Resolution: precedence\<close>

text \<open>The declarative reading of the default precedence, for rows of one channel.\<close>

definition offers :: "string \<Rightarrow> target list \<Rightarrow> target \<Rightarrow> bool" where
  "offers ch rs t \<longleftrightarrow> t \<in> set rs \<and> tg_channel t = ch \<and> tg_state t = ''active''"

lemma resolve_tier_Some:
  "resolve_tier tier ch rs = Some r \<Longrightarrow>
     \<exists>t. offers ch rs t \<and> (tg_serial t = ''*'' \<longleftrightarrow> tier = TierFleet) \<and> rv_version r = tg_version t \<and>
         rv_source r = (case tier of TierSerial \<Rightarrow> SourceSerial | TierFleet \<Rightarrow> SourceFleet)"
proof (induction tier ch rs rule: resolve_tier.induct)
  case (2 tier ch t ts)
  let ?own = "tg_channel t = ch \<and> tg_state t = ''active'' \<and> (tg_serial t = ''*'' \<longleftrightarrow> tier = TierFleet)"
  show ?case
  proof (cases ?own)
    case True
    then show ?thesis
      using 2(4) by (intro exI [of _ t]) (cases tier; auto simp: offers_def)
  next
    case False
    then have "resolve_tier tier ch ts = Some r"
      using 2(4) by (cases tier) (auto split: if_splits)
    then have "\<exists>t. offers ch ts t \<and> (tg_serial t = ''*'' \<longleftrightarrow> tier = TierFleet) \<and> rv_version r = tg_version t \<and>
         rv_source r = (case tier of TierSerial \<Rightarrow> SourceSerial | TierFleet \<Rightarrow> SourceFleet)"
      using 2(1-3) False by (cases tier) (auto split: if_splits)
    then show ?thesis
      by (auto simp: offers_def)
  qed
qed simp

lemma resolve_tier_None:
  "resolve_tier tier ch rs = None \<longleftrightarrow> (\<forall>t. offers ch rs t \<longrightarrow> (tg_serial t = ''*'') \<noteq> (tier = TierFleet))"
  by (induction rs) (cases tier; auto simp: offers_def)+

lemma Resolve_serial:
  assumes "offers ch rs t" and "tg_serial t \<noteq> ''*''"
  shows "\<exists>t'. offers ch rs t' \<and> tg_serial t' \<noteq> ''*'' \<and>
    Resolve ch rs chDefault DefaultPrecedence = \<lparr>rv_version = tg_version t', rv_source = SourceSerial\<rparr>"
proof -
  obtain r where r: "resolve_tier TierSerial ch rs = Some r"
    using assms resolve_tier_None [of TierSerial ch rs] by (cases "resolve_tier TierSerial ch rs") auto
  then have "Resolve ch rs chDefault DefaultPrecedence = r"
    by (simp add: DefaultPrecedence_def)
  then show ?thesis
    using resolve_tier_Some [OF r] by (cases r) auto
qed

text \<open>
  A resolution picks the version of an active row of the device if there is
  one, else of an active fleet row of its channel, else the channel default, else nothing; a paused or
  finished row, or a row of another channel, never decides.  The source names the row's kind.
\<close>

theorem Resolve_precedence:
  fixes ch rs chDefault
  defines "r \<equiv> Resolve ch rs chDefault DefaultPrecedence"
  shows "(if \<exists>t. offers ch rs t \<and> tg_serial t \<noteq> ''*''
          then rv_source r = SourceSerial \<and> (\<exists>t. offers ch rs t \<and> tg_serial t \<noteq> ''*'' \<and> tg_version t = rv_version r)
          else if \<exists>t. offers ch rs t \<and> tg_serial t = ''*''
          then rv_source r = SourceFleet \<and> (\<exists>t. offers ch rs t \<and> tg_serial t = ''*'' \<and> tg_version t = rv_version r)
          else if chDefault \<noteq> [] then r = \<lparr>rv_version = chDefault, rv_source = SourceChannelDefault\<rparr>
          else r = \<lparr>rv_version = [], rv_source = SourceNone\<rparr>)"
proof (cases "resolve_tier TierSerial ch rs")
  case (Some x)
  then have "r = x"
    by (simp add: r_def DefaultPrecedence_def)
  then show ?thesis
    using resolve_tier_Some [OF Some] by auto
next
  case None
  then have no_serial: "\<nexists>t. offers ch rs t \<and> tg_serial t \<noteq> ''*''"
    by (auto simp: resolve_tier_None)
  show ?thesis
  proof (cases "resolve_tier TierFleet ch rs")
    case (Some x)
    then have "r = x"
      using None by (simp add: r_def DefaultPrecedence_def)
    then show ?thesis
      using resolve_tier_Some [OF Some] no_serial by auto
  next
    case (None)
    then have "\<nexists>t. offers ch rs t \<and> tg_serial t = ''*''"
      by (auto simp: resolve_tier_None)
    then show ?thesis
      using no_serial None \<open>resolve_tier TierSerial ch rs = None\<close> by (simp add: r_def DefaultPrecedence_def)
  qed
qed

section \<open>Tickets\<close>

lemma FormatInt_no_dot: "CHR ''.'' \<notin> set (FormatInt i)"
proof -
  have "CHR ''.'' \<notin> set (format_nat n)" for n
    using format_nat_digits [of n] by (auto simp: is_digit_def)
  then show ?thesis
    by (simp add: FormatInt_def)
qed

lemma Split_four:
  "CHR ''.'' \<notin> set a \<Longrightarrow> CHR ''.'' \<notin> set b \<Longrightarrow> CHR ''.'' \<notin> set c \<Longrightarrow> CHR ''.'' \<notin> set d \<Longrightarrow>
   Split CHR ''.'' (a @ ''.'' @ b @ ''.'' @ c @ ''.'' @ d) = [a, b, c, d]"
  using Split_join [of "[a, b, c, d]" "CHR ''.''"] by simp

lemma Verify_Mint:
  assumes "int64_min \<le> unix (now + ttl)" and "unix (now + ttl) \<le> int64_max"
  shows "Verify now' key (Mint now key sn version ttl) =
           (if unix now' < unix (now + ttl) then Inr (sn, version) else Inl ErrExpired)"
proof -
  let ?a = "b64_encode (bytes_of sn)" and ?b = "b64_encode (bytes_of version)"
    and ?c = "FormatInt (unix (now + ttl))"
  let ?m = "mac key (?a @ ''.'' @ ?b @ ''.'' @ ?c)"
  have "Split CHR ''.'' (Mint now key sn version ttl) = [?a, ?b, ?c, ?m]"
    using Split_four [of ?a ?b ?c ?m]
    by (simp add: Mint_def signingInput_def Let_def b64_encode_no_dot FormatInt_no_dot mac_def)
  then show ?thesis
    using assms by (simp add: Verify_def ParseInt_FormatInt b64_decode_encode)
qed

text \<open>
  A ticket minted for a serial and a version, whatever bytes they hold,
  verifies under the same key to exactly that serial and version as long as its expiry second lies
  ahead, and is reported as expired from that second on.
\<close>

theorem ticket_roundtrip:
  assumes "int64_min \<le> unix (now + ttl)" and "unix (now + ttl) \<le> int64_max"
  shows "Verify now' key (Mint now key sn version ttl) =
           (if unix now' < unix (now + ttl) then Inr (sn, version) else Inl ErrExpired)"
  using assms by (rule Verify_Mint)

theorem ticket_roundtrip_witness:
  "Verify 0 ''k'' (Mint 0 ''k'' ''pp1'' ''v1|x.y'' (120 * second)) = Inr (''pp1'', ''v1|x.y'')"
  using ticket_roundtrip [of 0 "120 * second" 0 "''k''" "''pp1''" "''v1|x.y''"]
  by (simp add: unix_def int64_min_def int64_max_def)

lemma Verify_InrD:
  assumes "Verify now key token = Inr (sn, version)"
  obtains a b c e where
    "token = a @ ''.'' @ b @ ''.'' @ c @ ''.'' @ mac key (a @ ''.'' @ b @ ''.'' @ c)"
    "CHR ''.'' \<notin> set a" "CHR ''.'' \<notin> set b" "CHR ''.'' \<notin> set c"
    "ParseInt c = (e, None)" "unix now < e"
    "b64_decode a = Some (bytes_of sn)" "b64_decode b = Some (bytes_of version)"
proof -
  obtain a b c m where split: "Split CHR ''.'' token = [a, b, c, m]"
    using assms by (auto simp: Verify_def split: list.splits)
  have "token = join ''.'' [a, b, c, m]"
    using join_Split [of "CHR ''.''" token] by (simp only: split)
  then have token: "token = a @ ''.'' @ b @ ''.'' @ c @ ''.'' @ m"
    by simp
  have nodot: "CHR ''.'' \<notin> set a" "CHR ''.'' \<notin> set b" "CHR ''.'' \<notin> set c"
    using Split_no_seps [of _ "CHR ''.''" token] split by simp_all
  have v: "(if mac key (a @ ''.'' @ b @ ''.'' @ c) \<noteq> m then Inl ErrBadMAC
     else case ParseInt c of
       (e, Some _) \<Rightarrow> Inl ErrMalformed
     | (e, None) \<Rightarrow>
         (if unix now \<ge> e then Inl ErrExpired
          else case b64_decode a of
            None \<Rightarrow> Inl ErrMalformed
          | Some snB \<Rightarrow>
              (case b64_decode b of
                 None \<Rightarrow> Inl ErrMalformed
               | Some verB \<Rightarrow> Inr (string_of snB, string_of verB)))) = Inr (sn, version)"
    using assms unfolding Verify_def split by simp
  obtain e where e: "ParseInt c = (e, None)"
    using v by (auto split: if_splits prod.splits option.splits)
  show ?thesis
  proof (rule that [OF _ nodot e])
    show "token = a @ ''.'' @ b @ ''.'' @ c @ ''.'' @ mac key (a @ ''.'' @ b @ ''.'' @ c)"
      using v token by (simp split: if_splits)
  qed (use v in \<open>auto simp: e split: if_splits option.splits\<close>)
qed

lemma dotted_inject:
  assumes "a @ ''.'' @ b @ ''.'' @ c = a' @ ''.'' @ b' @ ''.'' @ c'"
    and "\<forall>x \<in> {a, b, c, a', b', c'}. CHR ''.'' \<notin> set x"
  shows "a = a' \<and> b = b' \<and> c = c'"
  using parts.enc_inject [of "[a, b, c]" "CHR ''.''" "[a', b', c']"] assms by simp

text \<open>
  C11 (ticket soundness).  Whatever token is presented, it is accepted only if its last segment is the
  HMAC-SHA-256 of its first three segments as they were received, its expiry parses and lies in the
  future, and the first two decode to the serial and version returned; and the signed text of a ticket
  determines its serial, version and expiry.
\<close>

theorem ticket_sound:
  assumes "Verify now key token = Inr (sn, version)"
  shows "\<exists>a b c e.
     token = a @ ''.'' @ b @ ''.'' @ c @ ''.'' @ b64_encode (hmac sha256 (bytes_of key) (bytes_of (a @ ''.'' @ b @ ''.'' @ c))) \<and>
     ParseInt c = (e, None) \<and> unix now < e \<and>
     b64_decode a = Some (bytes_of sn) \<and> b64_decode b = Some (bytes_of version) \<and>
     (\<forall>sn' version' e'. int64_min \<le> e' \<longrightarrow> e' \<le> int64_max \<longrightarrow>
        a @ ''.'' @ b @ ''.'' @ c = signingInput (b64_encode (bytes_of sn')) (b64_encode (bytes_of version')) e' \<longrightarrow>
        sn' = sn \<and> version' = version \<and> e' = e)"
proof -
  obtain a b c e where token: "token = a @ ''.'' @ b @ ''.'' @ c @ ''.'' @ mac key (a @ ''.'' @ b @ ''.'' @ c)"
    and nodot: "CHR ''.'' \<notin> set a" "CHR ''.'' \<notin> set b" "CHR ''.'' \<notin> set c"
    and e: "ParseInt c = (e, None)" "unix now < e"
    and dec: "b64_decode a = Some (bytes_of sn)" "b64_decode b = Some (bytes_of version)"
    using assms by (rule Verify_InrD)
  have "sn' = sn \<and> version' = version \<and> e' = e"
    if "int64_min \<le> e'" "e' \<le> int64_max"
      and eq: "a @ ''.'' @ b @ ''.'' @ c = signingInput (b64_encode (bytes_of sn')) (b64_encode (bytes_of version')) e'"
    for sn' version' e'
  proof -
    have "a = b64_encode (bytes_of sn') \<and> b = b64_encode (bytes_of version') \<and> c = FormatInt e'"
      using eq nodot unfolding signingInput_def
      by (intro dotted_inject) (simp_all add: b64_encode_no_dot FormatInt_no_dot)
    then show ?thesis
      using dec e that(1,2) by (simp add: b64_decode_encode ParseInt_FormatInt)
  qed
  then show ?thesis
    using token e dec unfolding mac_def by blast
qed

theorem ticket_sound_witness:
  "\<exists>a b c e.
     Mint 0 ''k'' ''pp1'' ''v1'' (120 * second) =
       a @ ''.'' @ b @ ''.'' @ c @ ''.'' @ b64_encode (hmac sha256 (bytes_of ''k'') (bytes_of (a @ ''.'' @ b @ ''.'' @ c))) \<and>
     ParseInt c = (e, None) \<and> unix 0 < e \<and> b64_decode a = Some (bytes_of ''pp1'')"
proof -
  have unix: "unix 0 = 0" "unix (0 + 120 * second) = 120"
    by (simp_all add: unix_def)
  have "Split CHR ''.'' (Mint 0 ''k'' ''pp1'' ''v1'' (120 * second)) =
      [b64_encode (bytes_of ''pp1''), b64_encode (bytes_of ''v1''), FormatInt 120,
       mac ''k'' (b64_encode (bytes_of ''pp1'') @ ''.'' @ b64_encode (bytes_of ''v1'') @ ''.'' @ FormatInt 120)]"
    using Split_four [of "b64_encode (bytes_of ''pp1'')" "b64_encode (bytes_of ''v1'')" "FormatInt 120"]
    unfolding Mint_def signingInput_def Let_def unix
    by (simp only: b64_encode_no_dot FormatInt_no_dot mac_def append_assoc not_False_eq_True simp_thms)
  then have "Verify 0 ''k'' (Mint 0 ''k'' ''pp1'' ''v1'' (120 * second)) = Inr (''pp1'', ''v1'')"
    by (simp add: Verify_def ParseInt_FormatInt b64_decode_encode unix int64_min_def int64_max_def del: b64_encode.simps)
  from ticket_sound [OF this] show ?thesis
    by blast
qed

section \<open>Operator actions as a transition system\<close>

datatype ota_action =
    RegFirmware "register_fw_call \<Rightarrow> bool" string string bytes
  | SetDefault bool string string
  | Upsert bool string string string
  | SetState bool int string
  | DelRollout bool int

fun ota_apply :: "ota_action \<Rightarrow> 'a db_scheme \<times> blob_dir \<Rightarrow> 'a db_scheme \<times> blob_dir" where
  "ota_apply (RegFirmware flt version sha blob) (db, blobs) = snd (RegisterFirmware flt db blobs version sha blob)"
| "ota_apply (SetDefault flt ch v) (db, blobs) = (snd (SetChannelDefault flt db ch v), blobs)"
| "ota_apply (Upsert flt sn ch v) (db, blobs) = (snd (UpsertRollout flt db sn ch v), blobs)"
| "ota_apply (SetState flt rid st) (db, blobs) = (snd (SetRolloutState flt db rid st), blobs)"
| "ota_apply (DelRollout flt rid) (db, blobs) = (snd (DeleteRollout flt db rid), blobs)"

text \<open>Content addressing: a row points at the file of its hash, and a file lies under its own hash.\<close>

definition fw_inv :: "'a db_scheme \<times> blob_dir \<Rightarrow> bool" where
  "fw_inv s \<longleftrightarrow>
     (\<forall>v fw. firmware_versions (fst s) v = Some fw \<longrightarrow>
        (\<exists>d. fw_sha256 fw = EncodeToString d) \<and> fw_blob_path fw = blob_name (fw_sha256 fw)) \<and>
     (\<forall>n b. snd s n = Some b \<longrightarrow> n = blob_name (EncodeToString (sha256 b)))"

text \<open>The unique index on serial and channel, and the identity column.\<close>

definition rollout_inv :: "'a db_scheme \<Rightarrow> bool" where
  "rollout_inv db \<longleftrightarrow>
     distinct (map rollout_key (rollout_targets db)) \<and> distinct (map r_id (rollout_targets db)) \<and>
     (\<forall>r \<in> set (rollout_targets db). r_id r < rollout_next_id db)"

lemma fw_frame:
  "firmware_versions (snd (SetChannelDefault flt db ch v)) = firmware_versions db"
  "firmware_versions (snd (UpsertRollout flt db sn ch v)) = firmware_versions db"
  "firmware_versions (snd (SetRolloutState flt db rid st)) = firmware_versions db"
  "firmware_versions (snd (DeleteRollout flt db rid)) = firmware_versions db"
  by (simp_all add: SetChannelDefault_def UpsertRollout_def SetRolloutState_def DeleteRollout_def Let_def
      split: option.split)

lemma RegisterFirmware_fw_inv: "fw_inv (db, blobs) \<Longrightarrow> fw_inv (snd (RegisterFirmware flt db blobs v sha blob))"
  by (auto simp: fw_inv_def RegisterFirmware_def Let_def)

lemma ota_apply_fw_inv: "fw_inv s \<Longrightarrow> fw_inv (ota_apply a s)"
proof (induction a s rule: ota_apply.induct)
  case (1 flt version sha blob db blobs)
  then show ?case
    by (simp only: ota_apply.simps RegisterFirmware_fw_inv)
qed (simp_all add: fw_inv_def fw_frame)

interpretation fw: invariant_run ota_apply "\<lambda>_. True" fw_inv
  by unfold_locales (rule ota_apply_fw_inv)

lemma RegisterFirmware_rollouts [simp]:
  "rollout_targets (fst (snd (RegisterFirmware flt db blobs v sha blob))) = rollout_targets db"
  "rollout_next_id (fst (snd (RegisterFirmware flt db blobs v sha blob))) = rollout_next_id db"
  by (simp_all add: RegisterFirmware_def Let_def)

lemma rollout_inv_map:
  assumes "rollout_inv db" and "\<And>r. rollout_key (f r) = rollout_key r" and "\<And>r. r_id (f r) = r_id r"
    and "rollout_next_id db \<le> n"
  shows "rollout_inv (db\<lparr>rollout_targets := map f (rollout_targets db), rollout_next_id := n\<rparr>)"
proof -
  have "map rollout_key (map f rs) = map rollout_key rs" "map r_id (map f rs) = map r_id rs" for rs
    using assms(2,3) by simp_all
  then show ?thesis
    using assms(1,4) unfolding rollout_inv_def by (simp del: map_map) (use assms(3) in fastforce)
qed

lemma UpsertRollout_inv:
  assumes "rollout_inv db"
  shows "rollout_inv (snd (UpsertRollout flt db sn ch v))"
proof (cases "find (\<lambda>r. rollout_key r = (sn, ch)) (rollout_targets db)")
  case None
  then have "(sn, ch) \<notin> rollout_key ` set (rollout_targets db)"
    by (auto simp: find_None_iff)
  then show ?thesis
    using assms None by (auto simp: rollout_inv_def UpsertRollout_def Let_def rollout_key_def)
next
  case (Some r)
  have "rollout_inv (db\<lparr>rollout_targets :=
      map (\<lambda>x. if rollout_key x = (sn, ch) then x\<lparr>r_version := v, r_state := ''active''\<rparr> else x) (rollout_targets db),
      rollout_next_id := rollout_next_id db + 1\<rparr>)"
    using assms by (rule rollout_inv_map) (simp_all add: rollout_key_def)
  then show ?thesis
    using assms Some by (simp add: UpsertRollout_def Let_def)
qed

lemma ota_apply_rollout_inv: "rollout_inv (fst s) \<Longrightarrow> rollout_inv (fst (ota_apply a s))"
proof (induction a s rule: ota_apply.induct)
  case (3 flt sn ch v db blobs)
  then show ?case
    by (simp add: UpsertRollout_inv)
next
  case (4 flt rid st db blobs)
  have "rollout_inv (db\<lparr>rollout_targets := map (\<lambda>r. if r_id r = rid then r\<lparr>r_state := st\<rparr> else r) (rollout_targets db),
      rollout_next_id := rollout_next_id db\<rparr>)"
    using 4 by (intro rollout_inv_map) (simp_all add: rollout_key_def)
  with 4 show ?case
    by (simp add: SetRolloutState_def)
next
  case (5 flt rid db blobs)
  then show ?case
    by (auto simp: rollout_inv_def DeleteRollout_def distinct_map_filter)
qed (simp_all add: rollout_inv_def SetChannelDefault_def)

interpretation rollout: invariant_run ota_apply "\<lambda>_. True" "\<lambda>s. rollout_inv (fst s)"
  by unfold_locales (rule ota_apply_rollout_inv)

section \<open>What a download serves\<close>

lemma path_base_plain:
  assumes "p \<noteq> []" and "CHR ''/'' \<notin> set p"
  shows "path_base p = p"
proof -
  have "dropWhile (\<lambda>c. c = CHR ''/'') (rev p) = rev p"
    using assms by (cases "rev p") (auto dest: sym [of "rev p"] simp: dropWhile_eq_self_iff)
  moreover have "takeWhile (\<lambda>c. c \<noteq> CHR ''/'') (rev p) = rev p"
    using assms by (auto simp: takeWhile_eq_all_conv)
  ultimately show ?thesis
    using assms by (simp only: path_base_def Let_def rev_rev_ident if_False)
qed

lemma blob_name_plain:
  "CHR ''/'' \<notin> set (blob_name (EncodeToString d))" "blob_name s \<noteq> []" "blob_name s \<noteq> ''.''"
  "blob_name s \<noteq> ''..''" "blob_name s \<noteq> ''/''"
proof -
  have "hex_val CHR ''/'' = None"
    by (simp add: hex_val_def Let_def)
  then have "CHR ''/'' \<notin> set (EncodeToString d)"
    using EncodeToString_chars by blast
  then show "CHR ''/'' \<notin> set (blob_name (EncodeToString d))"
    by (simp add: blob_name_def)
  have "length (blob_name s) \<ge> 4"
    by (simp add: blob_name_def)
  then show "blob_name s \<noteq> []" "blob_name s \<noteq> ''.''" "blob_name s \<noteq> ''..''" "blob_name s \<noteq> ''/''"
    by auto
qed

lemma handleFirmware_200:
  assumes "handleFirmware flt now cfg blobs db r = (resp, db')" and "rs_status resp = 200"
  obtains sn version fw fl where "otaArmed cfg"
    "Verify now (otaKey cfg) (rq_header r ''X-Firmware-Ticket'') = Inr (sn, version)"
    "firmware_versions db version = Some fw" "fl = open_blob blobs (path_base (fw_blob_path fw))"
    "fl \<noteq> OpenFailed" "get_header resp ''X-Firmware-SHA256'' = Some (fw_sha256 fw)"
    "rs_body resp = (case fl of OpenFile b \<Rightarrow> string_of b | _ \<Rightarrow> [])"
  using assms by (auto simp: handleFirmware_def otaArmed_def get_header_def Let_def split: if_splits sum.splits
      option.splits prod.splits)


definition example_ota_cfg :: ota_cfg where
  "example_ota_cfg = \<lparr>otaServeEnabled = True, otaKey = replicate 32 CHR ''k'', otaTTL = 120 * second\<rparr>"

definition example_download :: http_req where
  "example_download =
     \<lparr>rq_method = ''GET'', rq_path = ''/t/firmware.bin'', rq_query = Map.empty,
      rq_header = (\<lambda>h. if h = ''X-Firmware-Ticket'' then Mint 0 (otaKey example_ota_cfg) ''pp1'' ''v1'' (120 * second) else []),
      rq_body = [], rq_remote_addr = [], rq_origin = None\<rparr>"

definition example_fw :: firmware_row where
  "example_fw =
     \<lparr>fw_sha256 = EncodeToString (sha256 [1, 2, 3]), fw_blob_path = blob_name (EncodeToString (sha256 [1, 2, 3])),
      fw_size_bytes = 3, fw_notes = None\<rparr>"

lemma example_registered:
  "run ota_apply [RegFirmware (\<lambda>_. False) ''v1'' (EncodeToString (sha256 [1, 2, 3])) [1, 2, 3]] (empty_db, Map.empty) =
     (empty_db\<lparr>firmware_versions := [''v1'' \<mapsto> example_fw]\<rparr>, [blob_name (EncodeToString (sha256 [1, 2, 3])) \<mapsto> [1, 2, 3]])"
proof -
  define sha where "sha = EncodeToString (sha256 [1, 2, 3])"
  show ?thesis
    unfolding example_fw_def sha_def [symmetric]
    by (simp add: RegisterFirmware_def Let_def EqualFold_def sha_def [symmetric] empty_db_def)
qed

lemma Mint_nonempty: "Mint now key sn v ttl \<noteq> []"
  by (simp add: Mint_def signingInput_def Let_def)

lemma example_download_200:
  "rs_status (fst (handleFirmware (\<lambda>_. False) 0 example_ota_cfg
     [blob_name (EncodeToString (sha256 [1, 2, 3])) \<mapsto> [1, 2, 3]]
     (empty_db\<lparr>firmware_versions := [''v1'' \<mapsto> example_fw]\<rparr>) example_download)) = 200"
proof -
  have ver: "Verify 0 (otaKey example_ota_cfg) (rq_header example_download ''X-Firmware-Ticket'') = Inr (''pp1'', ''v1'')"
    using Verify_Mint [of 0 "120 * second" 0 "otaKey example_ota_cfg" "''pp1''" "''v1''"]
    by (simp add: example_download_def unix_def int64_min_def int64_max_def)
  have base: "path_base (fw_blob_path example_fw) = blob_name (EncodeToString (sha256 [1, 2, 3]))"
    unfolding example_fw_def by (simp add: path_base_plain blob_name_plain)
  have ticket: "rq_header example_download ''X-Firmware-Ticket'' \<noteq> []"
    by (simp add: example_download_def Mint_nonempty)
  show ?thesis
    unfolding handleFirmware_def Let_def ver
    using ticket base blob_name_plain(2-5) [of "EncodeToString (sha256 [1, 2, 3])"]
    by (simp add: example_ota_cfg_def KeyStrong_def MinKeyLen_def open_blob_def)
qed


section \<open>An operator's target reaches the device\<close>

lemma find_key:
  assumes "distinct (map k rs)"
  shows "find (\<lambda>r. k r = x) rs = Some r \<longleftrightarrow> r \<in> set rs \<and> k r = x"
  using assms by (induction rs) (auto intro: rev_image_eqI)

lemma offers_device_targets:
  "offers ch (device_targets db ch serial) t \<longleftrightarrow>
     (\<exists>r \<in> set (rollout_targets db). t = target_of r \<and> r_channel r = ch \<and> r_state r = ''active'' \<and>
        (r_serial r = serial \<or> r_serial r = ''*''))"
  by (auto simp: offers_def device_targets_def target_of_def)

lemma ResolveTarget_runs:
  "(\<And>c. \<not> flt c) \<Longrightarrow> devices db sn = Some d \<Longrightarrow>
   ResolveTarget flt db sn =
     Some (Resolve (d_channel d) (device_targets db (d_channel d) sn) (channel_default db (d_channel d)) DefaultPrecedence)"
  by (simp add: ResolveTarget_def Let_def)

lemma UpsertRollout_rows:
  assumes "rollout_inv db" and "UpsertRollout flt db sn ch v = (Inr rid, db')"
  shows "r \<in> set (rollout_targets db') \<and> rollout_key r = (sn, ch) \<Longrightarrow> r_version r = v \<and> r_state r = ''active'' \<and> r_id r = rid"
    and "\<exists>r \<in> set (rollout_targets db'). rollout_key r = (sn, ch)"
    and "devices db' = devices db"
proof -
  have dist: "distinct (map rollout_key (rollout_targets db))"
    using assms(1) by (simp add: rollout_inv_def)
  show "r \<in> set (rollout_targets db') \<and> rollout_key r = (sn, ch) \<Longrightarrow> r_version r = v \<and> r_state r = ''active'' \<and> r_id r = rid"
    and "\<exists>r \<in> set (rollout_targets db'). rollout_key r = (sn, ch)" and "devices db' = devices db"
  proof -
    consider (new) "find (\<lambda>r. rollout_key r = (sn, ch)) (rollout_targets db) = None"
      | (old) r0 where "find (\<lambda>r. rollout_key r = (sn, ch)) (rollout_targets db) = Some r0"
      by fastforce
    then show "r \<in> set (rollout_targets db') \<and> rollout_key r = (sn, ch) \<Longrightarrow>
        r_version r = v \<and> r_state r = ''active'' \<and> r_id r = rid"
    proof cases
      case new
      then have "\<forall>r \<in> set (rollout_targets db). rollout_key r \<noteq> (sn, ch)"
        by (auto simp: find_None_iff)
      moreover assume "r \<in> set (rollout_targets db') \<and> rollout_key r = (sn, ch)"
      ultimately show ?thesis
        using assms(2) new by (auto simp: UpsertRollout_def Let_def split: if_splits)
    next
      case old
      then have r0: "r0 \<in> set (rollout_targets db)" "rollout_key r0 = (sn, ch)"
        using dist by (simp_all add: find_key)
      let ?f = "\<lambda>x. if rollout_key x = (sn, ch) then x\<lparr>r_version := v, r_state := ''active''\<rparr> else x"
      assume r: "r \<in> set (rollout_targets db') \<and> rollout_key r = (sn, ch)"
      have db': "rollout_targets db' = map ?f (rollout_targets db)" "rid = r_id r0"
        using assms(2) old by (auto simp: UpsertRollout_def Let_def split: if_splits)
      then obtain x where x: "x \<in> set (rollout_targets db)" "r = ?f x"
        using r by auto
      have "rollout_key (?f x) = rollout_key x"
        by (simp add: rollout_key_def)
      then have "rollout_key x = rollout_key r0"
        using x(2) r r0(2) by simp
      then have "x = r0"
        using x(1) r0(1) dist by (simp add: distinct_map inj_on_def)
      then show ?thesis
        using x(2) r0(2) db'(2) by simp
    qed
    show "\<exists>r \<in> set (rollout_targets db'). rollout_key r = (sn, ch)"
    proof (cases "find (\<lambda>r. rollout_key r = (sn, ch)) (rollout_targets db)")
      case None
      then show ?thesis
        using assms(2) by (auto simp: UpsertRollout_def Let_def rollout_key_def split: if_splits)
    next
      case (Some r0)
      then have r0: "r0 \<in> set (rollout_targets db)" "rollout_key r0 = (sn, ch)"
        using dist by (simp_all add: find_key)
      let ?f = "\<lambda>x. if rollout_key x = (sn, ch) then x\<lparr>r_version := v, r_state := ''active''\<rparr> else x"
      have "rollout_targets db' = map ?f (rollout_targets db)"
        using assms(2) Some by (auto simp: UpsertRollout_def Let_def split: if_splits)
      then have "?f r0 \<in> set (rollout_targets db')"
        using r0(1) by simp
      moreover have "rollout_key (?f r0) = (sn, ch)"
        using r0(2) by (simp add: rollout_key_def)
      ultimately show ?thesis
        by blast
    qed
    show "devices db' = devices db"
      using assms(2) by (auto simp: UpsertRollout_def Let_def split: if_splits option.splits)
  qed
qed

text \<open>
  When an operator sets a target for a registered device on the channel the
  server holds for it, the next resolution offers the device exactly that version as its own target,
  whatever the device claims its channel to be.
\<close>

theorem upsert_reaches_device:
  assumes "rollout_inv db" and "devices db sn = Some d" and "sn \<noteq> ''*''"
    and "UpsertRollout flt db sn (d_channel d) v = (Inr rid, db')" and "\<forall>c. \<not> flt' c"
  shows "ResolveTarget flt' db' sn = Some \<lparr>rv_version = v, rv_source = SourceSerial\<rparr>"
proof -
  note rows = UpsertRollout_rows [OF assms(1,4)]
  let ?ch = "d_channel d" and ?ts = "device_targets db' (d_channel d) sn"
  obtain r where r: "r \<in> set (rollout_targets db')" "rollout_key r = (sn, ?ch)"
    using rows(2) by blast
  have own: "offers ?ch ?ts (target_of r)" "tg_serial (target_of r) \<noteq> ''*''"
    using r rows(1) [of r] assms(3) by (auto simp: offers_device_targets rollout_key_def target_of_def)
  have uniq: "tg_version t = v" if "offers ?ch ?ts t" "tg_serial t \<noteq> ''*''" for t
    using that rows(1) by (auto simp: offers_device_targets rollout_key_def target_of_def)
  obtain t where "offers ?ch ?ts t" "tg_serial t \<noteq> ''*''"
    "Resolve ?ch ?ts (channel_default db' ?ch) DefaultPrecedence =
       \<lparr>rv_version = tg_version t, rv_source = SourceSerial\<rparr>"
    using Resolve_serial [OF own] by blast
  then have "Resolve ?ch ?ts (channel_default db' ?ch) DefaultPrecedence = \<lparr>rv_version = v, rv_source = SourceSerial\<rparr>"
    using uniq by simp
  then show ?thesis
    using assms(2,5) rows(3) by (simp add: ResolveTarget_runs)
qed

theorem upsert_reaches_device_witness:
  "\<exists>rid db'. UpsertRollout False
       (empty_db\<lparr>firmware_versions := [''v1'' \<mapsto> example_fw],
          devices := [''pp1'' \<mapsto> \<lparr>d_channel = ''beta'', d_mac = None, d_label = None, d_last_seen = None\<rparr>]\<rparr>)
       ''pp1'' ''beta'' ''v1'' = (Inr rid, db') \<and>
     ResolveTarget (\<lambda>_. False) db' ''pp1'' = Some \<lparr>rv_version = ''v1'', rv_source = SourceSerial\<rparr>"
proof -
  let ?d = "\<lparr>d_channel = ''beta'', d_mac = None, d_label = None, d_last_seen = None\<rparr>"
  let ?db = "empty_db\<lparr>firmware_versions := [''v1'' \<mapsto> example_fw], devices := [''pp1'' \<mapsto> ?d]\<rparr>"
  obtain rid db' where up: "UpsertRollout False ?db ''pp1'' (d_channel ?d) ''v1'' = (Inr rid, db')"
    by (auto simp: UpsertRollout_def empty_db_def Let_def)
  have "ResolveTarget (\<lambda>_. False) db' ''pp1'' = Some \<lparr>rv_version = ''v1'', rv_source = SourceSerial\<rparr>"
    by (rule upsert_reaches_device [OF _ _ _ up]) (simp_all add: rollout_inv_def empty_db_def)
  with up show ?thesis
    by auto
qed

end
