(* ===== verification/Bwry.thy ===== *)
theory Bwry
  imports Complex_Main Picpak_Base
begin

text \<open>
  Package \<open>bwry\<close>: the pixel pipeline from a 400 by 300 image to the 30000-byte panel buffer
  (\<open>quantize.go\<close>, \<open>pack.go\<close>, \<open>dither.go\<close>).

  An image is its bounds and its \<open>At(x, y).RGBA()\<close> values.  The dither arithmetic is over the reals
  with two parameters \<open>f64\<close> and \<open>f32\<close> for the roundings of \<open>float64\<close> operations and \<open>float32\<close>
  stores; every operation is rounded on its own, in the order the expressions are written.
\<close>

section \<open>Nearest palette colour (quantize.go)\<close>

definition palette :: "(int \<times> int \<times> int) list" where
  "palette = [(0, 0, 0), (255, 255, 255), (255, 255, 0), (255, 0, 0)]"

definition sq_dist :: "int \<times> int \<times> int \<Rightarrow> int \<times> int \<times> int \<Rightarrow> int" where
  "sq_dist p q =
     (case (p, q) of ((r, g, b), (r', g', b')) \<Rightarrow>
        (r - r') * (r - r') + (g - g') * (g - g') + (b - b') * (b - b'))"

text \<open>The argmin loop of both quantizers: a strict comparison keeps the first minimum.\<close>

fun argmin_from :: "nat \<Rightarrow> ('b::linorder) list \<Rightarrow> nat \<Rightarrow> 'b \<Rightarrow> nat" where
  "argmin_from i [] best bestD = best"
| "argmin_from i (d # ds) best bestD =
     (if d < bestD then argmin_from (i + 1) ds i d else argmin_from (i + 1) ds best bestD)"

definition nearestCode :: "byte \<Rightarrow> byte \<Rightarrow> byte \<Rightarrow> byte" where
  "nearestCode r g b =
     of_nat (argmin_from 0 (map (sq_dist (uint r, uint g, uint b)) palette) 0 (2 ^ 30))"

section \<open>Packing (pack.go)\<close>

definition Width :: nat where "Width = 400"
definition Height :: nat where "Height = 300"
definition PackedSize :: nat where "PackedSize = Width * Height div 4"
definition rawRGBLen :: nat where "rawRGBLen = Width * Height * 3"

record image =
  im_min_x :: int
  im_min_y :: int
  im_dx :: int
  im_dy :: int
  im_rgba :: "int \<Rightarrow> int \<Rightarrow> 32 word \<times> 32 word \<times> 32 word"

text \<open>
  \<open>rgbImage\<close>: an opaque \<open>color.NRGBA\<close> widens each 8-bit channel to 16 bits by repeating it.
\<close>

definition widen :: "byte \<Rightarrow> 32 word" where
  "widen c = ucast c OR push_bit 8 (ucast c)"

definition FromRGB :: "bytes \<Rightarrow> image option" where
  "FromRGB pix =
     (if length pix \<noteq> rawRGBLen then None
      else Some \<lparr>im_min_x = 0, im_min_y = 0, im_dx = int Width, im_dy = int Height,
                 im_rgba = (\<lambda>x y. let k = nat ((y * int Width + x) * 3)
                                  in (widen (pix ! k), widen (pix ! (k + 1)), widen (pix ! (k + 2))))\<rparr>)"

definition px8 :: "image \<Rightarrow> int \<Rightarrow> int \<Rightarrow> byte \<times> byte \<times> byte" where
  "px8 img x y =
     (case im_rgba img x y of (r, g, b) \<Rightarrow> (ucast (drop_bit 8 r), ucast (drop_bit 8 g), ucast (drop_bit 8 b)))"

definition code_at :: "image \<Rightarrow> int \<Rightarrow> int \<Rightarrow> byte" where
  "code_at img x y = (case px8 img x y of (r, g, b) \<Rightarrow> nearestCode r g b)"

text \<open>The two nested loops, row-major.\<close>

definition raster :: "nat \<Rightarrow> nat \<Rightarrow> (nat \<Rightarrow> nat \<Rightarrow> 'a) \<Rightarrow> 'a list" where
  "raster w h f = concat (map (\<lambda>y. map (\<lambda>x. f x y) [0..<w]) [0..<h])"

definition quantizeFlipped :: "image \<Rightarrow> bytes" where
  "quantizeFlipped img =
     raster Width Height (\<lambda>x y. code_at img (im_min_x img + int x) (im_min_y img + (int Height - 1 - int y)))"

definition pack_byte :: "bytes \<Rightarrow> byte" where
  "pack_byte cs = fold (\<lambda>(i, c) v. v OR push_bit (6 - 2 * i) (c AND 3)) (enumerate 0 cs) 0"

function pack2bpp :: "bytes \<Rightarrow> bytes" where
  "pack2bpp codes = (if codes = [] then [] else pack_byte (take 4 codes) # pack2bpp (drop 4 codes))"
  by auto
termination
  by (relation "measure length") auto

declare pack2bpp.simps [simp del]

section \<open>Dithering (dither.go)\<close>

datatype Dither = DitherNone | DitherAtkinson | DitherOther int

definition ParseDither :: "string \<Rightarrow> Dither option" where
  "ParseDither s =
     (if s = ''none'' then Some DitherNone else if s = ''atkinson'' then Some DitherAtkinson else None)"

definition paletteF :: "(real \<times> real \<times> real) list" where
  "paletteF = [(0, 0, 0), (255, 255, 255), (255, 255, 0), (255, 0, 0)]"

definition lumaW :: "(real \<Rightarrow> real) \<Rightarrow> real \<times> real \<times> real" where
  "lumaW f64 = (f64 (299 / 1000), f64 (587 / 1000), f64 (114 / 1000))"

definition luma_dist :: "(real \<Rightarrow> real) \<Rightarrow> real \<times> real \<times> real \<Rightarrow> real \<times> real \<times> real \<Rightarrow> real" where
  "luma_dist f64 p q =
     (case (lumaW f64, p, q) of ((w0, w1, w2), (r, g, b), (r', g', b')) \<Rightarrow>
        let dr = f64 (r - r'); dg = f64 (g - g'); db = f64 (b - b')
        in f64 (f64 (f64 (f64 (w0 * dr) * dr) + f64 (f64 (w1 * dg) * dg)) + f64 (f64 (w2 * db) * db)))"

text \<open>The start value \<open>math.Inf(1)\<close> makes the first candidate win its comparison.\<close>

definition nearestCodeBT601 :: "(real \<Rightarrow> real) \<Rightarrow> real \<times> real \<times> real \<Rightarrow> nat" where
  "nearestCodeBT601 f64 p =
     (case map (luma_dist f64 p) paletteF of [] \<Rightarrow> 0 | d # ds \<Rightarrow> argmin_from 1 ds 0 d)"

type_synonym planes = "nat \<Rightarrow> real \<times> real \<times> real"

definition atkinson_kernel :: "(int \<times> int) list" where
  "atkinson_kernel = [(1, 0), (2, 0), (-1, 1), (0, 1), (1, 1), (0, 2)]"

definition add_error ::
  "(real \<Rightarrow> real) \<Rightarrow> (real \<Rightarrow> real) \<Rightarrow> real \<times> real \<times> real \<Rightarrow> real \<times> real \<times> real \<Rightarrow> real \<times> real \<times> real" where
  "add_error f32 f64 e p =
     (case (e, p) of ((eR, eG, eB), (r, g, b)) \<Rightarrow> (f32 (f64 (r + eR)), f32 (f64 (g + eG)), f32 (f64 (b + eB))))"

definition spread ::
  "(real \<Rightarrow> real) \<Rightarrow> (real \<Rightarrow> real) \<Rightarrow> nat \<Rightarrow> nat \<Rightarrow> real \<times> real \<times> real \<Rightarrow> int \<times> int \<Rightarrow> planes \<Rightarrow> planes" where
  "spread f32 f64 x y e k ps =
     (let nx = int x + fst k; ny = int y + snd k in
      if 0 \<le> nx \<and> nx < int Width \<and> 0 \<le> ny \<and> ny < int Height
      then let j = nat ny * Width + nat nx in ps(j := add_error f32 f64 e (ps j))
      else ps)"

definition dither_px ::
  "(real \<Rightarrow> real) \<Rightarrow> (real \<Rightarrow> real) \<Rightarrow> nat \<Rightarrow> planes \<times> bytes \<Rightarrow> planes \<times> bytes" where
  "dither_px f32 f64 i s =
     (let (ps, codes) = s;
          x = i mod Width; y = i div Width;
          best = nearestCodeBT601 f64 (ps i);
          (R, G, B) = ps i; (pr, pg, pb) = paletteF ! best;
          e = (f64 (f64 (R - pr) / 8), f64 (f64 (G - pg) / 8), f64 (f64 (B - pb) / 8))
      in (fold (spread f32 f64 x y e) atkinson_kernel ps, codes @ [of_nat best]))"

definition load_planes :: "image \<Rightarrow> planes" where
  "load_planes img i =
     (case px8 img (im_min_x img + int (i mod Width)) (im_min_y img + int (i div Width)) of
        (r, g, b) \<Rightarrow> (real (unat r), real (unat g), real (unat b)))"

definition quantizeDitherUpright :: "(real \<Rightarrow> real) \<Rightarrow> (real \<Rightarrow> real) \<Rightarrow> image \<Rightarrow> bytes" where
  "quantizeDitherUpright f32 f64 img =
     snd (fold (dither_px f32 f64) [0..<Width * Height] (load_planes img, []))"

definition flipCodes :: "bytes \<Rightarrow> bytes" where
  "flipCodes upright =
     concat (map (\<lambda>y. take Width (drop ((Height - 1 - y) * Width) upright)) [0..<Height])"

datatype pack_error = OffSize | UnknownDither | PackedLength

definition PackWithDither ::
  "(real \<Rightarrow> real) \<Rightarrow> (real \<Rightarrow> real) \<Rightarrow> image \<Rightarrow> Dither \<Rightarrow> pack_error + bytes" where
  "PackWithDither f32 f64 img d =
     (if im_dx img \<noteq> int Width \<or> im_dy img \<noteq> int Height then Inl OffSize
      else
        case (case d of
                DitherNone \<Rightarrow> Some (quantizeFlipped img)
              | DitherAtkinson \<Rightarrow> Some (flipCodes (quantizeDitherUpright f32 f64 img))
              | DitherOther _ \<Rightarrow> None) of
          None \<Rightarrow> Inl UnknownDither
        | Some codes \<Rightarrow>
            let out = pack2bpp codes in
            if length out \<noteq> PackedSize then Inl PackedLength else Inr out)"

definition Pack :: "(real \<Rightarrow> real) \<Rightarrow> (real \<Rightarrow> real) \<Rightarrow> image \<Rightarrow> pack_error + bytes" where
  "Pack f32 f64 img = PackWithDither f32 f64 img DitherNone"

section \<open>The nearest colour\<close>

lemma argmin_from_cases:
  "(argmin_from i ds best bestD = best \<and> (\<forall>d \<in> set ds. bestD \<le> d)) \<or>
   (\<exists>k < length ds. argmin_from i ds best bestD = i + k \<and> ds ! k < bestD \<and>
      (\<forall>j < length ds. ds ! k \<le> ds ! j) \<and> (\<forall>j < k. ds ! k < ds ! j))"
proof (induction i ds best bestD rule: argmin_from.induct)
  case (2 i d ds best bestD)
  show ?case
  proof (cases "d < bestD")
    case True
    with 2(1) consider "argmin_from (i + 1) ds i d = i" "\<forall>d' \<in> set ds. d \<le> d'"
      | k where "k < length ds" "argmin_from (i + 1) ds i d = i + 1 + k" "ds ! k < d"
          "\<forall>j < length ds. ds ! k \<le> ds ! j" "\<forall>j < k. ds ! k < ds ! j"
      by blast
    then show ?thesis
    proof cases
      case 1
      then show ?thesis
        using True by (intro disjI2 exI [of _ 0]) (auto simp: nth_Cons' all_set_conv_all_nth)
    next
      case (2 k)
      then show ?thesis
        using True by (intro disjI2 exI [of _ "Suc k"]) (auto simp: nth_Cons' less_Suc_eq_0_disj)
    qed
  next
    case False
    with 2(2) consider "argmin_from (i + 1) ds best bestD = best" "\<forall>d' \<in> set ds. bestD \<le> d'"
      | k where "k < length ds" "argmin_from (i + 1) ds best bestD = i + 1 + k" "ds ! k < bestD"
          "\<forall>j < length ds. ds ! k \<le> ds ! j" "\<forall>j < k. ds ! k < ds ! j"
      by blast
    then show ?thesis
    proof cases
      case 1
      then show ?thesis
        using False by (intro disjI1) auto
    next
      case (2 k)
      then show ?thesis
        using False by (intro disjI2 exI [of _ "Suc k"]) (auto simp: nth_Cons' less_Suc_eq_0_disj)
    qed
  qed
qed simp

lemma uint_byte_bounds: "0 \<le> uint (c :: byte)" "uint c \<le> 255"
  using unsigned_less [of c, where ?'a = int] by simp_all

lemma sq_dist_small:
  assumes "q \<in> set palette"
  shows "sq_dist (uint (r :: byte), uint (g :: byte), uint (b :: byte)) q < 2 ^ 30"
proof -
  have sq: "\<bar>u\<bar> \<le> 255 \<Longrightarrow> u * u \<le> 255 * 255" for u :: int
    using abs_mult_self_eq [of u] mult_mono [of "\<bar>u\<bar>" 255 "\<bar>u\<bar>" 255] by simp
  show ?thesis
    using assms uint_byte_bounds [of r] uint_byte_bounds [of g] uint_byte_bounds [of b]
      sq [of "uint r"] sq [of "uint g"] sq [of "uint b"] sq [of "uint r - 255"] sq [of "uint g - 255"]
      sq [of "uint b - 255"]
    by (auto simp: palette_def sq_dist_def)
qed

text \<open>
  The code of a pixel names a palette colour at the least squared distance, the
  lowest code among equals, and each palette colour is its own nearest.
\<close>

theorem nearestCode_argmin:
  "unat (nearestCode r g b) < 4 \<and>
   (\<forall>c < 4. sq_dist (uint r, uint g, uint b) (palette ! unat (nearestCode r g b)) \<le>
            sq_dist (uint r, uint g, uint b) (palette ! c)) \<and>
   (\<forall>c < unat (nearestCode r g b). sq_dist (uint r, uint g, uint b) (palette ! unat (nearestCode r g b)) <
            sq_dist (uint r, uint g, uint b) (palette ! c)) \<and>
   (\<forall>c < 4. (uint r, uint g, uint b) = palette ! c \<longrightarrow> unat (nearestCode r g b) = c)"
proof -
  let ?p = "(uint r, uint g, uint b)"
  let ?ds = "map (sq_dist ?p) palette"
  have len: "length ?ds = 4"
    by (simp add: palette_def)
  have "sq_dist ?p (palette ! 0) < 2 ^ 30"
    by (rule sq_dist_small) (simp add: palette_def)
  then have "\<not> (\<forall>d \<in> set ?ds. 2 ^ 30 \<le> d)"
    by (auto simp: palette_def)
  then obtain k where k: "k < 4" "argmin_from 0 ?ds 0 (2 ^ 30) = k"
    "\<forall>j < 4. ?ds ! k \<le> ?ds ! j" "\<forall>j < k. ?ds ! k < ?ds ! j"
    using argmin_from_cases [of 0 ?ds 0 "2 ^ 30"] len by auto
  have code: "unat (nearestCode r g b) = k"
    using k(1,2) by (simp add: nearestCode_def unat_of_nat)
  have nth: "?ds ! j = sq_dist ?p (palette ! j)" if "j < 4" for j
    using that len by simp
  have "k = c" if "c < 4" "?p = palette ! c" for c
  proof -
    have "sq_dist ?p (palette ! c) = 0"
      by (simp add: that(2) sq_dist_def split: prod.split)
    then have "sq_dist (palette ! c) (palette ! k) \<le> 0"
      using k(1,3) nth that by auto
    moreover have "k \<in> {0, 1, 2, 3}" "c \<in> {0, 1, 2, 3}"
      using k(1) that(1) by auto
    ultimately show ?thesis
      by (auto simp: palette_def sq_dist_def)
  qed
  then show ?thesis
    using k nth unfolding code by auto
qed

theorem nearestCode_argmin_witness:
  "unat (nearestCode 255 255 0) = 2"
proof -
  have "(uint (255 :: byte), uint (255 :: byte), uint (0 :: byte)) = palette ! 2"
    by (simp add: palette_def)
  then show ?thesis
    using nearestCode_argmin [of 255 255 0] by (metis numeral_less_iff semiring_norm(76,78))
qed

section \<open>Packing and unpacking\<close>

definition unpack_byte :: "byte \<Rightarrow> bytes" where
  "unpack_byte v = [drop_bit 6 v AND 3, drop_bit 4 v AND 3, drop_bit 2 v AND 3, v AND 3]"

definition unpack2bpp :: "bytes \<Rightarrow> bytes" where
  "unpack2bpp bs = concat (map unpack_byte bs)"

lemma pack_byte4:
  "pack_byte [a, b, c, d] =
     push_bit 6 (a AND 3) OR push_bit 4 (b AND 3) OR push_bit 2 (c AND 3) OR (d AND 3)"
  by (simp add: pack_byte_def eval_nat_numeral or.assoc or.commute or.left_commute)

lemma and3_take_bit: "(a :: byte) AND 3 = take_bit 2 a"
  by (simp add: take_bit_eq_mask mask_eq_exp_minus_1)

lemma and3_small:
  assumes "unat (a :: byte) < 4"
  shows "a AND 3 = a"
proof -
  have "take_bit 2 (unat a) = unat a"
    using assms by (intro take_bit_nat_eq_self) simp
  then show ?thesis
    by (simp add: and3_take_bit word_unat_eq_iff unsigned_take_bit_eq)
qed

lemma unpack_pack_byte:
  assumes "unat a < 4" "unat b < 4" "unat c < 4" "unat d < 4"
  shows "unpack_byte (pack_byte [a, b, c, d]) = [a, b, c, d]"
proof -
  have "unpack_byte (pack_byte [a, b, c, d]) = map (take_bit 2) [a, b, c, d]"
    unfolding unpack_byte_def pack_byte4 and3_take_bit
    by (auto intro!: bit_word_eqI simp: bit_simps)
  then show ?thesis
    using assms by (simp add: and3_small flip: and3_take_bit)
qed

lemma pack2bpp_4: "pack2bpp (a # b # c # d # rest) = pack_byte [a, b, c, d] # pack2bpp rest"
  by (subst pack2bpp.simps) simp

lemma pack2bpp_Nil [simp]: "pack2bpp [] = []"
  by (subst pack2bpp.simps) simp

lemma list4_induct:
  assumes "P []" and "\<And>a b c d rest. P rest \<Longrightarrow> P (a # b # c # d # rest)" and "4 dvd length xs"
  shows "P xs"
  using assms(3)
proof (induction xs rule: length_induct)
  case (1 xs)
  show ?case
  proof (cases "xs = []")
    case False
    then have "4 \<le> length xs"
      using 1(2) by (simp add: dvd_imp_le)
    then obtain a b c d rest where xs: "xs = a # b # c # d # rest"
      by (auto simp: eval_nat_numeral Suc_le_length_iff)
    then have "4 dvd length rest"
      using 1(2) by (simp add: numeral_eq_Suc) presburger
    then show ?thesis
      using 1(1) xs assms(2) by simp
  qed (simp add: assms(1))
qed

lemma length_pack2bpp:
  assumes "4 dvd length xs"
  shows "length (pack2bpp xs) = length xs div 4"
  using _ _ assms by (rule list4_induct) (simp_all add: pack2bpp_4)

lemma unpack_pack2bpp:
  assumes "4 dvd length xs" and "\<forall>c \<in> set xs. unat c < 4"
  shows "unpack2bpp (pack2bpp xs) = xs"
proof -
  have "(\<forall>c \<in> set xs. unat c < 4) \<longrightarrow> unpack2bpp (pack2bpp xs) = xs"
    using _ _ assms(1) by (rule list4_induct) (simp_all add: pack2bpp_4 unpack2bpp_def unpack_pack_byte)
  then show ?thesis
    using assms(2) by simp
qed

section \<open>The raster\<close>

lemma length_raster [simp]: "length (raster w h f) = w * h"
  by (simp add: raster_def length_concat sum_list_triv comp_def)

lemma raster_Suc: "raster w (Suc h) f = raster w h f @ map (\<lambda>x. f x h) [0..<w]"
  by (simp add: raster_def)

lemma nth_raster: "x < w \<Longrightarrow> y < h \<Longrightarrow> raster w h f ! (y * w + x) = f x y"
proof (induction h)
  case (Suc h)
  show ?case
  proof (cases "y < h")
    case True
    then have "y * w + x < w * h"
      using Suc.prems(1) by (metis add.commute add_less_mono less_le_trans mult.commute mult_Suc mult_le_mono2 nat_add_left_cancel_less Suc_leI)
    then show ?thesis
      using Suc True by (simp add: raster_Suc nth_append)
  next
    case False
    then have "y = h"
      using Suc.prems(2) by simp
    then show ?thesis
      using Suc.prems(1) by (simp add: raster_Suc nth_append mult.commute)
  qed
qed simp

lemma raster_map: "map g [0..<h * w] = raster w h (\<lambda>x y. g (y * w + x))"
proof (induction h)
  case (Suc h)
  have "[0..<Suc h * w] = [0..<h * w] @ map (\<lambda>x. h * w + x) [0..<w]"
    using upt_add_eq_append [of 0 "h * w" w] map_add_upt [of "h * w" w] by (simp add: add.commute)
  then show ?case
    using Suc by (simp add: raster_Suc comp_def)
qed (simp add: raster_def)

lemma take_drop_raster:
  assumes "y < h"
  shows "take w (drop (y * w) (raster w h f)) = map (\<lambda>x. f x y) [0..<w]"
proof (rule nth_equalityI)
  have "(y + 1) * w \<le> h * w"
    using assms by (intro mult_right_mono) auto
  then have *: "y * w + w \<le> w * h"
    by (simp add: algebra_simps)
  then show "length (take w (drop (y * w) (raster w h f))) = length (map (\<lambda>x. f x y) [0..<w])"
    by simp
  fix x
  assume "x < length (take w (drop (y * w) (raster w h f)))"
  then show "take w (drop (y * w) (raster w h f)) ! x = map (\<lambda>x. f x y) [0..<w] ! x"
    using * assms by (simp add: nth_raster)
qed

lemma flipCodes_raster: "flipCodes (raster Width Height f) = raster Width Height (\<lambda>x y. f x (Height - 1 - y))"
  unfolding flipCodes_def raster_def [of Width Height "\<lambda>x y. f x (Height - 1 - y)"]
  by (intro arg_cong [where f = concat] map_cong refl take_drop_raster) (simp add: Height_def)

lemma set_raster: "set (raster w h f) = {f x y | x y. x < w \<and> y < h}"
  by (fastforce simp: raster_def)

lemmas frame_dims = Width_def Height_def PackedSize_def

section \<open>Frames\<close>

text \<open>What every frame is: the codes of \<open>f\<close>, bottom row first, four to a byte.\<close>

lemma pack_frame:
  assumes "\<And>x y. x < Width \<Longrightarrow> y < Height \<Longrightarrow> unat (f x y) < 4"
  shows "length (pack2bpp (raster Width Height f)) = PackedSize"
    and "x < Width \<Longrightarrow> y < Height \<Longrightarrow>
         unpack2bpp (pack2bpp (raster Width Height f)) ! (y * Width + x) = f x y"
proof -
  have four: "4 dvd length (raster Width Height f)"
    by (simp add: frame_dims)
  show "length (pack2bpp (raster Width Height f)) = PackedSize"
    using length_pack2bpp [OF four] by (simp add: frame_dims)
  have "\<forall>c \<in> set (raster Width Height f). unat c < 4"
    using assms by (auto simp: set_raster)
  then show "x < Width \<Longrightarrow> y < Height \<Longrightarrow>
         unpack2bpp (pack2bpp (raster Width Height f)) ! (y * Width + x) = f x y"
    using unpack_pack2bpp [OF four] nth_raster by simp
qed

lemma argmin_from_less: "ds \<noteq> [] \<Longrightarrow> argmin_from 0 ds 0 d < length ds"
  using argmin_from_cases [of 0 ds 0 d] by auto

lemma nearestCode_lt4: "unat (nearestCode r g b) < 4"
  using argmin_from_less [of "map (sq_dist (uint r, uint g, uint b)) palette" "2 ^ 30"]
  by (simp add: nearestCode_def unat_of_nat palette_def del: argmin_from.simps)

lemma code_at_lt4: "unat (code_at img x y) < 4"
  by (simp add: code_at_def nearestCode_lt4 split: prod.split)



lemma px8_widen: "(ucast (drop_bit 8 (widen c)) :: byte) = c"
proof (rule bit_word_eqI)
  fix n
  assume "n < LENGTH(8)"
  moreover have "\<not> bit c (8 + n)"
    using bit_imp_le_length by fastforce
  ultimately show "bit (ucast (drop_bit 8 (widen c)) :: byte) n = bit c n"
    by (auto simp: widen_def bit_simps)
qed

lemma px8_FromRGB:
  assumes "FromRGB pix = Some img" and "x < Width" and "y < Height"
  shows "px8 img (int x) (int y) =
    (let k = (y * Width + x) * 3 in (pix ! k, pix ! (k + 1), pix ! (k + 2)))"
proof -
  have "nat ((int y * int Width + int x) * 3) = (y * Width + x) * 3"
    by (simp add: nat_mult_distrib nat_add_distrib)
  then show ?thesis
    using assms(1) by (auto simp: FromRGB_def px8_def px8_widen Let_def split: if_splits)
qed

section \<open>Dithering an image of palette colours\<close>

text \<open>What IEEE rounding to 24 or more significant bits does: it is monotone and exact on small sixteenths.\<close>

definition exact_rounding :: "(real \<Rightarrow> real) \<Rightarrow> bool" where
  "exact_rounding r \<longleftrightarrow> mono r \<and> (\<forall>n :: int. \<bar>n\<bar> \<le> 2 ^ 24 \<longrightarrow> r (of_int n / 16) = of_int n / 16)"

text \<open>Every pixel of the image is one of the four palette colours.\<close>

definition palette_image :: "image \<Rightarrow> bool" where
  "palette_image img \<longleftrightarrow>
     (\<forall>x < Width. \<forall>y < Height.
        case px8 img (im_min_x img + int x) (im_min_y img + int y) of
          (r, g, b) \<Rightarrow> (uint r, uint g, uint b) \<in> set palette)"

lemma exact_sixteenth: "exact_rounding r \<Longrightarrow> \<bar>n\<bar> \<le> 2 ^ 24 \<Longrightarrow> r (of_int n / 16) = of_int n / 16"
  by (simp add: exact_rounding_def)

lemma exact_int: "exact_rounding r \<Longrightarrow> \<bar>n\<bar> \<le> 2 ^ 20 \<Longrightarrow> r (of_int n) = of_int n"
proof -
  assume "exact_rounding r" and "\<bar>n\<bar> \<le> 2 ^ 20"
  then have "r (of_int (16 * n) / 16) = of_int (16 * n) / 16"
    by (intro exact_sixteenth) auto
  then show ?thesis
    by simp
qed

lemma exact_nums:
  assumes "exact_rounding r"
  shows "r 0 = 0" "r 255 = 255" "r (- 255) = - 255"
  using exact_int [OF assms, of 0] exact_int [OF assms, of 255] exact_int [OF assms, of "- 255"] by simp_all

lemma exact_ge:
  assumes "exact_rounding r"
  shows "8 \<le> z \<Longrightarrow> 8 \<le> r z" "0 \<le> z \<Longrightarrow> 0 \<le> r z" "z \<le> - 8 \<Longrightarrow> r z \<le> - 8" "1 / 16 \<le> z \<Longrightarrow> 1 / 16 \<le> r z"
proof -
  have m: "u \<le> v \<Longrightarrow> r u \<le> r v" for u v
    using assms by (simp add: exact_rounding_def monoD)
  have "r (of_int 1 / 16) = of_int 1 / 16"
    using assms by (intro exact_sixteenth) auto
  then have "r 8 = 8" "r 0 = 0" "r (- 8) = - 8" "r (1 / 16) = 1 / 16"
    using exact_int [OF assms, of 8] exact_int [OF assms, of 0] exact_int [OF assms, of "- 8"] by simp_all
  then show "8 \<le> z \<Longrightarrow> 8 \<le> r z" "0 \<le> z \<Longrightarrow> 0 \<le> r z" "z \<le> - 8 \<Longrightarrow> r z \<le> - 8" "1 / 16 \<le> z \<Longrightarrow> 1 / 16 \<le> r z"
    using m [of 8 z] m [of 0 z] m [of z "- 8"] m [of "1 / 16" z] by simp_all
qed

lemma luma_term:
  assumes "exact_rounding r" and "1 / 16 \<le> w"
  shows "d = 0 \<Longrightarrow> r (r (w * d) * d) = 0" and "d = 255 \<or> d = - 255 \<Longrightarrow> 8 \<le> r (r (w * d) * d)"
proof -
  show "d = 0 \<Longrightarrow> r (r (w * d) * d) = 0"
    using exact_nums [OF assms(1)] by simp
  assume "d = 255 \<or> d = - 255"
  then show "8 \<le> r (r (w * d) * d)"
  proof
    assume "d = 255"
    moreover have "8 \<le> r (w * 255)"
      using assms(2) by (intro exact_ge(1) [OF assms(1)]) simp
    ultimately show ?thesis
      by (intro exact_ge(1) [OF assms(1)]) simp
  next
    assume "d = - 255"
    moreover have "r (w * - 255) \<le> - 8"
      using assms(2) by (intro exact_ge(3) [OF assms(1)]) simp
    ultimately show ?thesis
      by (intro exact_ge(1) [OF assms(1)]) simp
  qed
qed

lemma luma_dist_palette:
  assumes "exact_rounding f64" and "p \<in> set paletteF" and "q \<in> set paletteF"
  shows "luma_dist f64 p q = 0 \<longleftrightarrow> p = q" and "0 \<le> luma_dist f64 p q"
proof -
  obtain r g b r' g' b' where pq: "p = (r, g, b)" "q = (r', g', b')"
    by (metis prod_cases3)
  have e: "f64 (r - r') = r - r'" "f64 (g - g') = g - g'" "f64 (b - b') = b - b'"
    and d: "r - r' \<in> {0, 255, - 255}" "g - g' \<in> {0, 255, - 255}" "b - b' \<in> {0, 255, - 255}"
    using assms pq exact_nums [OF assms(1)] by (auto simp: paletteF_def)
  define t where "t i d = f64 (f64 (f64 i * d) * d)" for i d
  have L: "luma_dist f64 p q =
      f64 (f64 (t (299 / 1000) (r - r') + t (587 / 1000) (g - g')) + t (114 / 1000) (b - b'))"
    by (simp add: luma_dist_def pq lumaW_def e t_def Let_def)
  have t: "d = 0 \<Longrightarrow> t i d = 0" "d \<noteq> 0 \<Longrightarrow> d \<in> {0, 255, - 255} \<Longrightarrow> 8 \<le> t i d" if "1 / 16 \<le> i" for i d
    using luma_term [OF assms(1) exact_ge(4) [OF assms(1) that], of d] unfolding t_def by auto
  have nonneg: "0 \<le> t i d" if "1 / 16 \<le> i" "d \<in> {0, 255, - 255}" for i d
    using t [OF that(1), of d] that(2) by (cases "d = 0") auto
  have n: "0 \<le> t (299 / 1000) (r - r')" "0 \<le> t (587 / 1000) (g - g')" "0 \<le> t (114 / 1000) (b - b')"
    using d by (auto intro!: nonneg)
  have s: "0 \<le> f64 (t (299 / 1000) (r - r') + t (587 / 1000) (g - g'))"
    using n by (intro exact_ge(2) [OF assms(1)]) simp
  show "0 \<le> luma_dist f64 p q"
    unfolding L using n s by (intro exact_ge(2) [OF assms(1)]) simp
  have pos: "8 \<le> luma_dist f64 p q" if "p \<noteq> q"
  proof (cases "b - b' = 0")
    case False
    then have "8 \<le> t (114 / 1000) (b - b')"
      using d by (intro t(2)) auto
    then show ?thesis
      unfolding L using s by (intro exact_ge(1) [OF assms(1)]) simp
  next
    case True
    then have "r - r' \<noteq> 0 \<or> g - g' \<noteq> 0"
      using that pq by auto
    then have "8 \<le> t (299 / 1000) (r - r') \<or> 8 \<le> t (587 / 1000) (g - g')"
      using d t(2) [of "299 / 1000" "r - r'"] t(2) [of "587 / 1000" "g - g'"] by auto
    then have "8 \<le> f64 (t (299 / 1000) (r - r') + t (587 / 1000) (g - g'))"
      using n by (intro exact_ge(1) [OF assms(1)]) auto
    then show ?thesis
      unfolding L using n by (intro exact_ge(1) [OF assms(1)]) simp
  qed
  have "luma_dist f64 p q = 0" if "p = q"
  proof -
    have "r - r' = 0" "g - g' = 0" "b - b' = 0"
      using that pq by auto
    then show ?thesis
      unfolding L using t(1) [of "299 / 1000" "r - r'"] t(1) [of "587 / 1000" "g - g'"]
        t(1) [of "114 / 1000" "b - b'"] exact_nums(1) [OF assms(1)] by simp
  qed
  then show "luma_dist f64 p q = 0 \<longleftrightarrow> p = q"
    using pos by fastforce
qed

lemma nearestCodeBT601_lt4: "nearestCodeBT601 f64 p < 4"
proof -
  obtain d ds where ds: "map (luma_dist f64 p) paletteF = d # ds" "length ds = 3"
    by (simp add: paletteF_def)
  then show ?thesis
    using argmin_from_cases [of 1 ds 0 d] by (auto simp: nearestCodeBT601_def)
qed

lemma nearestCodeBT601_palette:
  assumes "exact_rounding f64" and "c < 4"
  shows "nearestCodeBT601 f64 (paletteF ! c) = c"
proof -
  have d: "luma_dist f64 (paletteF ! c) (paletteF ! j) = 0" if "j = c" "j < 4" for j
    using luma_dist_palette(1) [OF assms(1) nth_mem nth_mem, of j j] that by (simp add: paletteF_def)
  have D: "0 < luma_dist f64 (paletteF ! c) (paletteF ! j)" if "j \<noteq> c" "j < 4" for j
  proof -
    have "paletteF ! c \<noteq> paletteF ! j"
      using that assms(2) by (auto simp: paletteF_def nth_Cons' split: if_splits)
    moreover have "paletteF ! c \<in> set paletteF" "paletteF ! j \<in> set paletteF"
      using that assms(2) nth_mem [of _ paletteF] by (simp_all add: paletteF_def del: nth_mem)
    ultimately show ?thesis
      using luma_dist_palette [OF assms(1)] by (metis order_le_less)
  qed
  have m: "map g paletteF = [g (paletteF ! 0), g (paletteF ! Suc 0), g (paletteF ! 2), g (paletteF ! 3)]"
    for g :: "_ \<Rightarrow> real"
    by (simp add: paletteF_def)
  consider "c = 0" | "c = 1" | "c = 2" | "c = 3"
    using assms(2) by linarith
  then show ?thesis
    using d [of c] assms(2) D [of 0] D [of 1] D [of 2] D [of 3]
    by cases (simp_all add: nearestCodeBT601_def m not_less_iff_gr_or_eq)
qed

lemma nearestCode_palette:
  assumes "(uint r, uint g, uint b) \<in> set palette"
  shows "(real (unat r), real (unat g), real (unat b)) = paletteF ! unat (nearestCode r g b)"
    and "nearestCodeBT601 f64 (real (unat r), real (unat g), real (unat b)) = unat (nearestCode r g b)
         \<or> \<not> exact_rounding f64"
proof -
  have u: "unat x = nat (uint x)" for x :: byte
    by simp
  consider "uint r = 0" "uint g = 0" "uint b = 0" | "uint r = 255" "uint g = 255" "uint b = 255"
    | "uint r = 255" "uint g = 255" "uint b = 0" | "uint r = 255" "uint g = 0" "uint b = 0"
    using assms by (auto simp: palette_def)
  then show *: "(real (unat r), real (unat g), real (unat b)) = paletteF ! unat (nearestCode r g b)"
    by cases (simp_all add: u nearestCode_def palette_def paletteF_def sq_dist_def del: unat_eq_nat_uint)
  show "nearestCodeBT601 f64 (real (unat r), real (unat g), real (unat b)) = unat (nearestCode r g b)
         \<or> \<not> exact_rounding f64"
    using nearestCodeBT601_palette nearestCode_lt4 unfolding * by blast
qed

lemma load_planes_palette:
  assumes "palette_image img" and "i < Width * Height"
  shows "load_planes img i = paletteF ! unat (code_at img (im_min_x img + int (i mod Width)) (im_min_y img + int (i div Width)))"
    and "exact_rounding f64 \<Longrightarrow> nearestCodeBT601 f64 (load_planes img i) =
           unat (code_at img (im_min_x img + int (i mod Width)) (im_min_y img + int (i div Width)))"
    and "load_planes img i \<in> set paletteF"
proof -
  obtain r g b where px: "px8 img (im_min_x img + int (i mod Width)) (im_min_y img + int (i div Width)) = (r, g, b)"
    using prod_cases3 by blast
  have "i mod Width < Width" "i div Width < Height"
    using assms(2) by (simp_all add: frame_dims less_mult_imp_div_less)
  then have pal: "(uint r, uint g, uint b) \<in> set palette"
    using assms(1) px unfolding palette_image_def by fastforce
  show *: "load_planes img i = paletteF ! unat (code_at img (im_min_x img + int (i mod Width)) (im_min_y img + int (i div Width)))"
    using nearestCode_palette(1) [OF pal] by (simp add: load_planes_def code_at_def px)
  show "exact_rounding f64 \<Longrightarrow> nearestCodeBT601 f64 (load_planes img i) =
           unat (code_at img (im_min_x img + int (i mod Width)) (im_min_y img + int (i div Width)))"
    using nearestCode_palette(2) [OF pal, of f64] by (simp add: load_planes_def code_at_def px)
  show "load_planes img i \<in> set paletteF"
    unfolding * by (intro nth_mem less_le_trans [OF code_at_lt4]) (simp add: paletteF_def)
qed

lemma spread_zero:
  assumes "exact_rounding f32" "exact_rounding f64" and "\<And>j. j < Width * Height \<Longrightarrow> ps j \<in> set paletteF"
  shows "spread f32 f64 x y (0, 0, 0) k ps = ps"
proof -
  have "add_error f32 f64 (0, 0, 0) (ps (nat ny * Width + nat nx)) = ps (nat ny * Width + nat nx)"
    if "0 \<le> nx" "nx < int Width" "0 \<le> ny" "ny < int Height" for nx ny
  proof -
    have "nat nx < Width" "nat ny < Height"
      using that by linarith+
    then have "nat ny * Width + nat nx < Width * Height"
      unfolding frame_dims by linarith
    then show ?thesis
      using assms(3) exact_nums [OF assms(1)] exact_nums [OF assms(2)]
      by (fastforce simp: paletteF_def add_error_def)
  qed
  then show ?thesis
    by (simp add: spread_def Let_def)
qed

lemma dither_px_palette:
  assumes "palette_image img" "exact_rounding f32" "exact_rounding f64" and "i < Width * Height"
  shows "dither_px f32 f64 i (load_planes img, codes) =
    (load_planes img, codes @ [code_at img (im_min_x img + int (i mod Width)) (im_min_y img + int (i div Width))])"
proof -
  let ?c = "code_at img (im_min_x img + int (i mod Width)) (im_min_y img + int (i div Width))"
  obtain R G B where p: "load_planes img i = (R, G, B)"
    using prod_cases3 by blast
  then have q: "paletteF ! unat ?c = (R, G, B)"
    using load_planes_palette(1) [OF assms(1,4)] by simp
  have b: "nearestCodeBT601 f64 (R, G, B) = unat ?c"
    using load_planes_palette(2) [OF assms(1,4,3)] p by simp
  have "fold (spread f32 f64 x y (0, 0, 0)) ks (load_planes img) = load_planes img" for x y ks
    using spread_zero [OF assms(2,3) load_planes_palette(3) [OF assms(1)]] by (induction ks) auto
  then show ?thesis
    by (simp add: dither_px_def p q b exact_nums [OF assms(3)])
qed

lemma quantizeDitherUpright_palette:
  assumes "palette_image img" "exact_rounding f32" "exact_rounding f64"
  shows "quantizeDitherUpright f32 f64 img =
    raster Width Height (\<lambda>x y. code_at img (im_min_x img + int x) (im_min_y img + int y))"
proof -
  let ?c = "\<lambda>i. code_at img (im_min_x img + int (i mod Width)) (im_min_y img + int (i div Width))"
  have "n \<le> Width * Height \<Longrightarrow> fold (dither_px f32 f64) [0..<n] (load_planes img, []) = (load_planes img, map ?c [0..<n])" for n
    by (induction n) (simp_all add: dither_px_palette [OF assms])
  then have "quantizeDitherUpright f32 f64 img = map ?c [0..<Height * Width]"
    by (simp add: quantizeDitherUpright_def mult.commute)
  also have "\<dots> = raster Width Height (\<lambda>x y. ?c (y * Width + x))"
    by (rule raster_map)
  also have "\<dots> = raster Width Height (\<lambda>x y. code_at img (im_min_x img + int x) (im_min_y img + int y))"
    unfolding raster_def by (intro arg_cong [where f = concat] map_cong refl) (simp add: frame_dims)
  finally show ?thesis .
qed

text \<open>
  On an image whose pixels are all palette colours the Atkinson
  path gives the very bytes of the undithered path: its quantization errors are zero, so no error is
  ever diffused.  The hypotheses say that the two float roundings are monotone and exact on small
  sixteenths.
\<close>

theorem dither_palette_exact:
  assumes "exact_rounding rs" "exact_rounding rd" and "palette_image img"
  shows "PackWithDither rs rd img DitherAtkinson = Pack rs rd img"
proof -
  let ?c = "\<lambda>x y. code_at img (im_min_x img + int x) (im_min_y img + int y)"
  have "raster Width Height (\<lambda>x y. ?c x (Height - 1 - y)) = quantizeFlipped img"
    unfolding quantizeFlipped_def raster_def
    by (intro arg_cong [where f = concat] map_cong refl) (simp add: of_nat_diff diff_diff_eq)
  then have "flipCodes (quantizeDitherUpright rs rd img) = quantizeFlipped img"
    by (simp add: quantizeDitherUpright_palette [OF assms(3,1,2)] flipCodes_raster)
  then show ?thesis
    by (simp add: Pack_def PackWithDither_def)
qed

theorem dither_palette_exact_witness:
  "PackWithDither id id \<lparr>im_min_x = 0, im_min_y = 0, im_dx = 400, im_dy = 300, im_rgba = (\<lambda>x y. (0, 0, 0))\<rparr> DitherAtkinson =
   Pack id id \<lparr>im_min_x = 0, im_min_y = 0, im_dx = 400, im_dy = 300, im_rgba = (\<lambda>x y. (0, 0, 0))\<rparr>"
  by (rule dither_palette_exact)
    (simp_all add: exact_rounding_def mono_def palette_image_def px8_def palette_def)

text \<open>A dithered frame too has the frame length, whatever the roundings do.\<close>

lemma PackWithDither_total:
  assumes "im_dx img = int Width" "im_dy img = int Height" "d \<in> {DitherNone, DitherAtkinson}"
  shows "\<exists>out. PackWithDither f32 f64 img d = Inr out \<and> length out = PackedSize"
proof -
  have "length (snd (fold (dither_px f32 f64) is s)) = length (snd s) + length is" for "is" s
    by (induction "is" arbitrary: s) (auto simp: dither_px_def Let_def split: prod.splits)
  then have u: "length (quantizeDitherUpright f32 f64 img) = Width * Height"
    by (simp add: quantizeDitherUpright_def)
  have "length (flipCodes us) = Width * Height" if "length us = Width * Height" for us
  proof -
    have "map length (map (\<lambda>y. take Width (drop ((Height - 1 - y) * Width) us)) [0..<Height]) = replicate Height Width"
      by (rule nth_equalityI) (use that in \<open>auto simp: Width_def Height_def\<close>)
    then show ?thesis
      unfolding flipCodes_def length_concat by (simp add: sum_list_replicate)
  qed
  then have "length (flipCodes (quantizeDitherUpright f32 f64 img)) = Width * Height" "length (quantizeFlipped img) = Width * Height"
    using u by (simp_all add: quantizeFlipped_def)
  then have "length (pack2bpp codes) = PackedSize"
    if "codes \<in> {quantizeFlipped img, flipCodes (quantizeDitherUpright f32 f64 img)}" for codes
    using that length_pack2bpp [of codes] by (auto simp: frame_dims)
  then show ?thesis
    using assms by (auto simp: PackWithDither_def Let_def)
qed

end
