(* ===== verification/Faas_Proto.thy ===== *)
theory Faas_Proto
  imports Picpak_Base Sha
begin

text \<open>
  Package \<open>faasproto\<close>: the length-prefixed frames between the render supervisor and its worker
  (\<open>frame.go\<close>) and the response payload they carry (\<open>msg.go\<close>).

  A reader is the byte string the peer has sent before it closed; a read past its end is an error.
  \<open>ReadFrame\<close> also returns what is left unread and the sizes of the buffers it allocated.  The JSON
  of the response meta is a pair of functions \<open>marshal\<close> and \<open>unmarshal\<close>, arguments of the two codecs.
\<close>

definition KindRenderRequest :: byte where "KindRenderRequest = 1"
definition KindRenderResponse :: byte where "KindRenderResponse = 2"
definition KindCancel :: byte where "KindCancel = 3"
definition KindReady :: byte where "KindReady = 4"

definition RawFrameSize :: nat where "RawFrameSize = 400 * 300 * 3"
definition MetaMax :: nat where "MetaMax = 16 * 1024"
definition MaxFrame :: nat where "MaxFrame = 1 + 4 + MetaMax + RawFrameSize"
definition MaxRequestImageBytes :: nat where "MaxRequestImageBytes = 12 * 1024 * 1024"
definition MaxRequestFrame :: nat where
  "MaxRequestFrame = 1 + MetaMax + (MaxRequestImageBytes div 3 + 1) * 4"

lemmas frame_sizes = RawFrameSize_def MetaMax_def MaxFrame_def MaxRequestImageBytes_def MaxRequestFrame_def

datatype frame_error = ErrFrameLow | ErrFrameHigh | IoEOF | IoUnexpectedEOF

section \<open>Frames (frame.go)\<close>

definition WriteFrame :: "byte \<Rightarrow> bytes \<Rightarrow> frame_error + bytes" where
  "WriteFrame kind payload =
     (let total = 1 + length payload in
      if total > MaxRequestFrame then Inl ErrFrameHigh
      else Inr (be32_bytes (of_nat total) @ kind # payload))"

text \<open>\<open>io.ReadFull\<close> into a buffer of \<open>n\<close> bytes.\<close>

definition ReadFull :: "nat \<Rightarrow> bytes \<Rightarrow> frame_error + bytes \<times> bytes" where
  "ReadFull n s =
     (if n \<le> length s then Inr (take n s, drop n s)
      else Inl (if s = [] then IoEOF else IoUnexpectedEOF))"

definition Uint32 :: "bytes \<Rightarrow> 32 word" where
  "Uint32 b = be32_word (b ! 0) (b ! 1) (b ! 2) (b ! 3)"

definition ReadFrame :: "bytes \<Rightarrow> (frame_error + (byte \<times> bytes) \<times> bytes) \<times> nat list" where
  "ReadFrame s =
     (case ReadFull 4 s of
        Inl e \<Rightarrow> (Inl e, [4])
      | Inr (lenb, s') \<Rightarrow>
          let total = unat (Uint32 lenb) in
          if total < 1 then (Inl ErrFrameLow, [4])
          else if total > MaxFrame then (Inl ErrFrameHigh, [4])
          else (case ReadFull total s' of
                  Inl e \<Rightarrow> (Inl e, [4, total])
                | Inr (buf, s'') \<Rightarrow> (Inr ((hd buf, tl buf), s''), [4, total])))"

section \<open>The render response (msg.go)\<close>

record log_entry =
  ll_lvl :: string
  ll_msg :: string

record render_err =
  re_kind :: string
  re_msg :: string

record response_meta =
  rm_v :: int
  rm_id :: string
  rm_ok :: bool
  rm_w :: int
  rm_h :: int
  rm_dither :: string
  rm_next_wake_hint :: "int option"
  rm_log :: "log_entry list"
  rm_err :: "render_err option"

datatype resp_error = ErrOkImage | ErrErrImage | ErrMarshal | ErrMetaBig | ErrShort | ErrMetaLen | ErrMetaJSON

definition EncodeResponse :: "(response_meta \<Rightarrow> bytes option) \<Rightarrow> response_meta \<Rightarrow> bytes \<Rightarrow> resp_error + bytes" where
  "EncodeResponse marshal meta raw =
     (if rm_err meta = None \<and> length raw \<noteq> RawFrameSize then Inl ErrOkImage
      else if rm_err meta \<noteq> None \<and> length raw \<noteq> 0 then Inl ErrErrImage
      else
        case marshal meta of
          None \<Rightarrow> Inl ErrMarshal
        | Some mj \<Rightarrow>
            if length mj > MetaMax then Inl ErrMetaBig
            else Inr (be32_bytes (of_nat (length mj)) @ mj @ raw))"

definition DecodeResponse :: "(bytes \<Rightarrow> response_meta option) \<Rightarrow> bytes \<Rightarrow> resp_error + response_meta \<times> bytes" where
  "DecodeResponse unmarshal payload =
     (if length payload < 4 then Inl ErrShort
      else
        let metaLen = unat (Uint32 (take 4 payload)) in
        if metaLen > MetaMax \<or> 4 + metaLen > length payload then Inl ErrMetaLen
        else
          case unmarshal (take metaLen (drop 4 payload)) of
            None \<Rightarrow> Inl ErrMetaJSON
          | Some meta \<Rightarrow>
              let raw = drop (4 + metaLen) payload in
              if rm_err meta = None then
                (if length raw \<noteq> RawFrameSize then Inl ErrOkImage else Inr (meta, raw))
              else if length raw \<noteq> 0 then Inl ErrErrImage
              else Inr (meta, raw))"

section \<open>Lengths\<close>

lemma Uint32_put [simp]: "Uint32 (be32_bytes w) = w"
proof -
  have "be32_word (ucast (drop_bit 24 w)) (ucast (drop_bit 16 w)) (ucast (drop_bit 8 w)) (ucast w) = w"
  proof (rule bit_word_eqI)
    fix n
    assume n: "n < LENGTH(32)"
    consider "n < 8" | "8 \<le> n" "n < 16" | "16 \<le> n" "n < 24" | "24 \<le> n"
      by linarith
    then show "bit (be32_word (ucast (drop_bit 24 w)) (ucast (drop_bit 16 w)) (ucast (drop_bit 8 w)) (ucast w)) n = bit w n"
      using n by cases (auto simp: be32_word_def bit_simps)
  qed
  then show ?thesis
    by (simp add: Uint32_def be32_bytes_def)
qed

lemma ReadFull_append: "length b = n \<Longrightarrow> ReadFull n (b @ s) = Inr (b, s)"
  by (auto simp: ReadFull_def)

lemma ReadFull_Inr: "ReadFull n s = Inr (b, s') \<Longrightarrow> s = b @ s' \<and> length b = n"
  by (auto simp: ReadFull_def split: if_splits)

lemma unat_small32: "n \<le> MaxRequestFrame \<Longrightarrow> unat (of_nat n :: 32 word) = n"
  by (simp add: unat_of_nat frame_sizes)

lemma frame_within_request: "MaxFrame \<le> MaxRequestFrame"
  by (simp add: frame_sizes)

lemma ReadFrame_Write:
  assumes "WriteFrame kind payload = Inr buf"
  shows "ReadFrame (buf @ s) =
    (if 1 + length payload \<le> MaxFrame then (Inr ((kind, payload), s), [4, 1 + length payload])
     else (Inl ErrFrameHigh, [4]))"
proof -
  have buf: "buf = be32_bytes (of_nat (1 + length payload)) @ kind # payload"
    and le: "1 + length payload \<le> MaxRequestFrame"
    using assms by (auto simp: WriteFrame_def Let_def split: if_splits)
  have "unat (of_nat (1 + length payload) :: 32 word) = 1 + length payload"
    using le by (rule unat_small32)
  moreover have "ReadFull (1 + length payload) ((kind # payload) @ s) = Inr (kind # payload, s)"
    by (rule ReadFull_append) simp
  ultimately show ?thesis
    using ReadFull_append [of "be32_bytes (of_nat (1 + length payload))" 4 "kind # payload @ s"]
    by (simp add: ReadFrame_def buf Let_def)
qed

lemma EncodeResponse_Inr:
  assumes "EncodeResponse marshal meta raw = Inr payload"
  obtains mj where "marshal meta = Some mj" "length mj \<le> MetaMax"
    "payload = be32_bytes (of_nat (length mj)) @ mj @ raw"
    "length raw = (if rm_err meta = None then RawFrameSize else 0)"
  using assms by (auto simp: EncodeResponse_def split: if_splits option.splits)

lemma Decode_Encode:
  assumes "EncodeResponse marshal meta raw = Inr payload"
    and "\<And>mj. marshal meta = Some mj \<Longrightarrow> unmarshal mj = Some meta"
  shows "DecodeResponse unmarshal payload = Inr (meta, raw)" and "1 + length payload \<le> MaxFrame"
proof -
  obtain mj where mj: "marshal meta = Some mj" "length mj \<le> MetaMax"
    and p: "payload = be32_bytes (of_nat (length mj)) @ mj @ raw"
    and raw: "length raw = (if rm_err meta = None then RawFrameSize else 0)"
    using assms(1) by (rule EncodeResponse_Inr)
  have "unat (of_nat (length mj) :: 32 word) = length mj"
    by (rule unat_small32) (use mj(2) in \<open>simp add: frame_sizes\<close>)
  moreover have "unmarshal mj = Some meta"
    using assms(2) mj(1) .
  ultimately show "DecodeResponse unmarshal payload = Inr (meta, raw)"
    using mj(2) raw by (auto simp: DecodeResponse_def p Let_def split: if_splits)
  show "1 + length payload \<le> MaxFrame"
    using mj(2) raw by (auto simp: p frame_sizes split: if_splits)
qed

section \<open>Properties\<close>



text \<open>
  Whatever bytes the worker sends, reading a frame allocates at most
  MaxFrame bytes beside the length prefix and never before the declared length was checked; an
  accepted frame is exactly the declared bytes of the stream.  A response decoded from any payload
  carries the raw image of the fixed size when it has no error and no image when it has one.
\<close>

theorem untrusted_frame_bounded:
  "(\<forall>n \<in> set (snd (ReadFrame s)). n \<le> MaxFrame) \<and>
   (case fst (ReadFrame s) of
      Inl e \<Rightarrow> e = ErrFrameHigh \<or> e = ErrFrameLow \<longrightarrow> snd (ReadFrame s) = [4]
    | Inr ((kind, payload), rest) \<Rightarrow>
        \<exists>lenb. s = lenb @ kind # payload @ rest \<and> length lenb = 4 \<and>
               unat (Uint32 lenb) = 1 + length payload \<and> 1 + length payload \<le> MaxFrame) \<and>
   (case DecodeResponse unmarshal p of
      Inl _ \<Rightarrow> True
    | Inr (meta, raw) \<Rightarrow>
        length raw = (if rm_err meta = None then RawFrameSize else 0) \<and>
        (\<exists>lenb mj. p = lenb @ mj @ raw \<and> length lenb = 4 \<and> length mj = unat (Uint32 lenb) \<and>
           length mj \<le> MetaMax \<and> unmarshal mj = Some meta))"
proof (intro conjI)
  show "\<forall>n \<in> set (snd (ReadFrame s)). n \<le> MaxFrame"
    by (auto simp: ReadFrame_def Let_def frame_sizes split: sum.splits prod.splits if_splits)
  have hd_tl: "n = length b \<Longrightarrow> 1 \<le> n \<Longrightarrow> hd b # tl b = b" for n and b :: bytes
    by (cases b) auto
  show "case fst (ReadFrame s) of
      Inl e \<Rightarrow> e = ErrFrameHigh \<or> e = ErrFrameLow \<longrightarrow> snd (ReadFrame s) = [4]
    | Inr ((kind, payload), rest) \<Rightarrow>
        \<exists>lenb. s = lenb @ kind # payload @ rest \<and> length lenb = 4 \<and>
               unat (Uint32 lenb) = 1 + length payload \<and> 1 + length payload \<le> MaxFrame"
  proof (cases "ReadFull 4 s")
    case (Inr ls)
    obtain lenb s' where ls: "ls = (lenb, s')"
      by fastforce
    have s: "s = lenb @ s'" "length lenb = 4"
      using ReadFull_Inr Inr ls by blast+
    show ?thesis
    proof (cases "1 \<le> unat (Uint32 lenb) \<and> unat (Uint32 lenb) \<le> MaxFrame")
      case True
      show ?thesis
      proof (cases "ReadFull (unat (Uint32 lenb)) s'")
        case (Inl e)
        then show ?thesis
          using True \<open>ReadFull 4 s = Inr ls\<close>
          by (auto simp: ReadFrame_def ls Let_def ReadFull_def split: if_splits)
      next
        case (Inr bs)
        obtain buf s'' where bs: "bs = (buf, s'')"
          by fastforce
        have "s' = buf @ s''" "length buf = unat (Uint32 lenb)"
          using ReadFull_Inr Inr bs by blast+
        then show ?thesis
          using True \<open>ReadFull 4 s = Inr ls\<close> Inr s hd_tl [of "unat (Uint32 lenb)" buf]
          by (auto simp: ReadFrame_def ls bs Let_def simp flip: append_Cons intro!: exI [of _ lenb])
      qed
    next
      case False
      then show ?thesis
        using Inr by (auto simp: ReadFrame_def ls Let_def)
    qed
  qed (auto simp: ReadFrame_def ReadFull_def split: if_splits)
  show "case DecodeResponse unmarshal p of
      Inl _ \<Rightarrow> True
    | Inr (meta, raw) \<Rightarrow>
        length raw = (if rm_err meta = None then RawFrameSize else 0) \<and>
        (\<exists>lenb mj. p = lenb @ mj @ raw \<and> length lenb = 4 \<and> length mj = unat (Uint32 lenb) \<and>
           length mj \<le> MetaMax \<and> unmarshal mj = Some meta)"
  proof (cases "DecodeResponse unmarshal p")
    case (Inr mr)
    obtain meta raw where mr: "mr = (meta, raw)"
      by fastforce
    let ?n = "unat (Uint32 (take 4 p))"
    have d: "4 \<le> length p" "?n \<le> MetaMax" "4 + ?n \<le> length p"
      "unmarshal (take ?n (drop 4 p)) = Some meta" "raw = drop (4 + ?n) p"
      "length raw = (if rm_err meta = None then RawFrameSize else 0)"
      using Inr mr by (auto simp: DecodeResponse_def Let_def split: if_splits option.splits)
    have "p = take 4 p @ take ?n (drop 4 p) @ raw"
      unfolding d(5) by (metis append_take_drop_id drop_drop add.commute)
    moreover have "length (take 4 p) = 4" "length (take ?n (drop 4 p)) = ?n"
      using d by auto
    ultimately have "\<exists>lenb mj. p = lenb @ mj @ raw \<and> length lenb = 4 \<and> length mj = unat (Uint32 lenb) \<and>
           length mj \<le> MetaMax \<and> unmarshal mj = Some meta"
      using d(2,4) by metis
    then show ?thesis
      using Inr mr d(6) by simp
  qed simp
qed

theorem untrusted_frame_bounded_witness:
  "snd (ReadFrame [255, 255, 255, 255, 1]) = [4]"
proof -
  have "fst (ReadFrame [255, 255, 255, 255, 1]) = Inl ErrFrameHigh"
    by (simp add: ReadFrame_def ReadFull_def Uint32_def be32_word_def frame_sizes Let_def)
  then show ?thesis
    using untrusted_frame_bounded [where s = "[255, 255, 255, 255, 1]" and unmarshal = "\<lambda>_. None" and p = "[]"] by simp
qed

end
