(* ===== verification/Rate_Limit.thy ===== *)
theory Rate_Limit
  imports Complex_Main Picpak_Base Go_Strings Sha Runs
begin

text \<open>
  The two capped LRU structures of package \<open>adminhttp\<close>: the token-bucket limiter (\<open>ratelimit.go\<close>)
  and the cache of verified Basic credentials (\<open>basicauth.go\<close>).

  Both pair a map with a doubly linked list of its keys, most recent first; the list is a \<^typ>\<open>'k list\<close>
  and \<open>MoveToFront\<close>, \<open>PushFront\<close>, \<open>Back\<close> act on it.  Token amounts are real numbers: the rounding
  of \<open>float64\<close> is not modelled.  One request reads the clock once.
\<close>

section \<open>Keys in order of use\<close>

definition move_front :: "'k \<Rightarrow> 'k list \<Rightarrow> 'k list" where
  "move_front k l = k # remove1 k l"

definition lru_ok :: "nat \<Rightarrow> ('k \<rightharpoonup> 'v) \<Rightarrow> 'k list \<Rightarrow> bool" where
  "lru_ok cap m l \<longleftrightarrow> distinct l \<and> set l = dom m \<and> length l \<le> cap"

lemma lru_ok_card: "lru_ok cap m l \<Longrightarrow> finite (dom m) \<and> card (dom m) \<le> cap"
  unfolding lru_ok_def using distinct_card by (metis List.finite_set)

lemma lru_ok_touch: "lru_ok cap m l \<Longrightarrow> m k \<noteq> None \<Longrightarrow> lru_ok cap (m(k \<mapsto> v)) (move_front k l)"
  using length_pos_if_in_set [of k l] by (auto simp: lru_ok_def move_front_def length_remove1 set_remove1_eq)

lemma lru_ok_move: "lru_ok cap m l \<Longrightarrow> m k \<noteq> None \<Longrightarrow> lru_ok cap m (move_front k l)"
  using lru_ok_touch [of cap m l k "the (m k)"] by (simp add: map_upd_triv)

lemma lru_ok_remove: "lru_ok cap m l \<Longrightarrow> lru_ok cap (m(k := None)) (remove1 k l)"
  by (auto simp: lru_ok_def length_remove1 set_remove1_eq)

lemma lru_ok_update: "lru_ok cap m l \<Longrightarrow> m k \<noteq> None \<Longrightarrow> lru_ok cap (m(k \<mapsto> v)) l"
  by (auto simp: lru_ok_def)

text \<open>A new key at the front: at most the last one goes.\<close>

lemma lru_ok_push:
  assumes "lru_ok cap m l" "m k = None" "1 \<le> cap"
  shows "length l < cap \<Longrightarrow> lru_ok cap (m(k \<mapsto> v)) (k # l)"
    and "cap \<le> length l \<Longrightarrow> length l = cap \<and> l \<noteq> [] \<and> last l \<noteq> k \<and>
           lru_ok cap ((m(k \<mapsto> v))(last l := None)) (k # butlast l)"
proof -
  show "length l < cap \<Longrightarrow> lru_ok cap (m(k \<mapsto> v)) (k # l)"
    using assms by (auto simp: lru_ok_def)
  assume "cap \<le> length l"
  then have len: "length l = cap" and ne: "l \<noteq> []"
    using assms by (auto simp: lru_ok_def)
  obtain l' z where l: "l = l' @ [z]"
    using ne rev_exhaust by blast
  then show "length l = cap \<and> l \<noteq> [] \<and> last l \<noteq> k \<and>
           lru_ok cap ((m(k \<mapsto> v))(last l := None)) (k # butlast l)"
    using assms(1,2) len by (auto simp: lru_ok_def)
qed

lemma remove1_last: "distinct l \<Longrightarrow> l \<noteq> [] \<Longrightarrow> remove1 (last l) l = butlast l"
  by (induction l rule: rev_induct) (auto simp: remove1_append)

section \<open>Token buckets (ratelimit.go)\<close>

definition Seconds :: "time \<Rightarrow> real" where
  "Seconds d = of_int d / 1000000000"

record bucket =
  bk_tokens :: real
  bk_last :: time

record limiter =
  rl_rate :: real
  rl_burst :: real
  rl_window :: time
  rl_max :: int
  rl_buckets :: "string \<rightharpoonup> bucket"
  rl_lru :: "string list"
  rl_evictions :: nat

definition newRateLimiter :: "int \<Rightarrow> time \<Rightarrow> int \<Rightarrow> limiter" where
  "newRateLimiter limit window mx =
     (let limit = (if limit < 1 then 1 else limit);
          window = (if window \<le> 0 then 60 * second else window);
          mx = (if mx < 1 then 1 else mx)
      in \<lparr>rl_rate = of_int limit / Seconds window, rl_burst = of_int limit, rl_window = window, rl_max = mx,
          rl_buckets = Map.empty, rl_lru = [], rl_evictions = 0\<rparr>)"

function evict_over :: "limiter \<Rightarrow> limiter" where
  "evict_over rl =
     (if int (length (rl_lru rl)) > rl_max rl \<and> rl_lru rl \<noteq> [] then
        evict_over (rl\<lparr>rl_lru := butlast (rl_lru rl),
                       rl_buckets := (rl_buckets rl)(last (rl_lru rl) := None),
                       rl_evictions := rl_evictions rl + 1\<rparr>)
      else rl)"
  by auto
termination
  by (relation "measure (\<lambda>rl. length (rl_lru rl))") auto

declare evict_over.simps [simp del]

definition bucketLocked :: "time \<Rightarrow> string \<Rightarrow> limiter \<Rightarrow> bucket \<times> limiter" where
  "bucketLocked now key rl =
     (case rl_buckets rl key of
        Some b \<Rightarrow>
          let t = bk_tokens b + Seconds (now - bk_last b) * rl_rate rl;
              b' = \<lparr>bk_tokens = (if t > rl_burst rl then rl_burst rl else t), bk_last = now\<rparr>
          in (b', rl\<lparr>rl_buckets := (rl_buckets rl)(key \<mapsto> b'), rl_lru := move_front key (rl_lru rl)\<rparr>)
      | None \<Rightarrow>
          let b' = \<lparr>bk_tokens = rl_burst rl, bk_last = now\<rparr>
          in (b', evict_over (rl\<lparr>rl_buckets := (rl_buckets rl)(key \<mapsto> b'), rl_lru := key # rl_lru rl\<rparr>)))"

text \<open>A write through the bucket pointer: seen by the map as long as the bucket is still in it.\<close>

definition set_tokens :: "string \<Rightarrow> real \<Rightarrow> limiter \<Rightarrow> limiter" where
  "set_tokens key t rl =
     (case rl_buckets rl key of
        None \<Rightarrow> rl
      | Some b \<Rightarrow> rl\<lparr>rl_buckets := (rl_buckets rl)(key \<mapsto> b\<lparr>bk_tokens := t\<rparr>)\<rparr>)"

definition allow :: "time \<Rightarrow> string \<Rightarrow> limiter \<Rightarrow> bool \<times> limiter" where
  "allow now key rl =
     (let (b, rl') = bucketLocked now key rl in
      if bk_tokens b \<ge> 1 then (True, set_tokens key (bk_tokens b - 1) rl') else (False, rl'))"

definition peek :: "time \<Rightarrow> string \<Rightarrow> limiter \<Rightarrow> bool \<times> limiter" where
  "peek now key rl = (let (b, rl') = bucketLocked now key rl in (bk_tokens b \<ge> 1, rl'))"

definition consume :: "time \<Rightarrow> string \<Rightarrow> limiter \<Rightarrow> limiter" where
  "consume now key rl =
     (let (b, rl') = bucketLocked now key rl; t = bk_tokens b - 1
      in set_tokens key (if t < 0 then 0 else t) rl')"

definition retryAfter :: "time \<Rightarrow> string \<Rightarrow> limiter \<Rightarrow> int \<times> limiter" where
  "retryAfter now key rl =
     (let (b, rl') = bucketLocked now key rl in
      if bk_tokens b \<ge> 1 then (1, rl')
      else if rl_rate rl \<le> 0 then (\<lfloor>Seconds (rl_window rl)\<rfloor>, rl')
      else
        let secs = (1 - bk_tokens b) / rl_rate rl; n = \<lfloor>secs\<rfloor>;
            n = (if of_int n < secs then n + 1 else n)
        in (if n < 1 then 1 else n, rl'))"

text \<open>The environment of the three limiters: limits per minute and map caps.\<close>

definition envIntOr :: "(string \<Rightarrow> string) \<Rightarrow> string \<Rightarrow> int \<Rightarrow> int" where
  "envIntOr getenv key def =
     (if getenv key \<noteq> [] then (case Atoi (getenv key) of (n, err) \<Rightarrow> if err = None \<and> n > 0 then n else def)
      else def)"

record limiters =
  ipLimiter :: limiter
  principalWrite :: limiter
  principalRead :: limiter

definition ConfigureRateLimitsFromEnv :: "(string \<Rightarrow> string) \<Rightarrow> limiters" where
  "ConfigureRateLimitsFromEnv getenv =
     (let principalMax = envIntOr getenv ''ADMIN_RATELIMIT_PRINCIPAL_MAX'' 16384 in
      \<lparr>ipLimiter = newRateLimiter (envIntOr getenv ''ADMIN_RATELIMIT_IP_PER_MIN'' 10) (60 * second)
                     (envIntOr getenv ''ADMIN_RATELIMIT_IP_MAX'' 65536),
       principalWrite = newRateLimiter (envIntOr getenv ''ADMIN_RATELIMIT_WRITE_PER_MIN'' 60) (60 * second) principalMax,
       principalRead = newRateLimiter (envIntOr getenv ''ADMIN_RATELIMIT_READ_PER_MIN'' 600) (60 * second) principalMax\<rparr>)"

section \<open>Limiter invariant\<close>

definition limiter_ok :: "time \<Rightarrow> limiter \<Rightarrow> bool" where
  "limiter_ok t rl \<longleftrightarrow>
     0 < rl_rate rl \<and> 1 \<le> rl_burst rl \<and> 1 \<le> rl_max rl \<and>
     lru_ok (nat (rl_max rl)) (rl_buckets rl) (rl_lru rl) \<and>
     (\<forall>k b. rl_buckets rl k = Some b \<longrightarrow> 0 \<le> bk_tokens b \<and> bk_tokens b \<le> rl_burst rl \<and> bk_last b \<le> t)"

lemma Seconds_nonneg [simp]: "0 \<le> d \<Longrightarrow> 0 \<le> Seconds d"
  by (simp add: Seconds_def)

lemma Seconds_add: "Seconds (a + b) = Seconds a + Seconds b"
  by (simp add: Seconds_def add_divide_distrib)

lemma newRateLimiter_ok: "limiter_ok t (newRateLimiter limit window mx)"
  by (simp add: limiter_ok_def newRateLimiter_def Let_def lru_ok_def Seconds_def)

text \<open>What a key could spend at \<open>now\<close>.\<close>

definition avail :: "time \<Rightarrow> string \<Rightarrow> limiter \<Rightarrow> real" where
  "avail now key rl =
     (case rl_buckets rl key of
        None \<Rightarrow> rl_burst rl
      | Some b \<Rightarrow> min (rl_burst rl) (bk_tokens b + Seconds (now - bk_last b) * rl_rate rl))"

lemma avail_bounds:
  assumes "limiter_ok t rl" "t \<le> now"
  shows "0 \<le> avail now k rl" "avail now k rl \<le> rl_burst rl"
    and "now \<le> now' \<Longrightarrow> avail now k rl \<le> avail now' k rl"
    and "now \<le> now' \<Longrightarrow> avail now' k rl \<le> avail now k rl + Seconds (now' - now) * rl_rate rl"
proof -
  have pos: "0 < rl_rate rl" "1 \<le> rl_burst rl"
    and b: "\<And>b. rl_buckets rl k = Some b \<Longrightarrow> 0 \<le> bk_tokens b \<and> bk_last b \<le> t"
    using assms(1) by (auto simp: limiter_ok_def)
  show "0 \<le> avail now k rl"
    using pos b assms(2) by (auto simp: avail_def split: option.split)
  show "avail now k rl \<le> rl_burst rl"
    by (auto simp: avail_def split: option.split)
  assume le: "now \<le> now'"
  define D where "D = Seconds (now' - now) * rl_rate rl"
  have D: "Seconds (now' - u) * rl_rate rl = Seconds (now - u) * rl_rate rl + D" for u
    using Seconds_add [of "now - u" "now' - now"] unfolding D_def by (simp flip: distrib_right)
  have "0 \<le> D"
    unfolding D_def using le pos by simp
  then have "avail now k rl \<le> avail now' k rl \<and> avail now' k rl \<le> avail now k rl + D"
    unfolding avail_def D [of "bk_last (the (rl_buckets rl k))"]
    by (cases "rl_buckets rl k") (auto simp: D min_def)
  then show "avail now k rl \<le> avail now' k rl"
    and "avail now' k rl \<le> avail now k rl + Seconds (now' - now) * rl_rate rl"
    by (simp_all add: D_def)
qed

text \<open>
  What getting the bucket of \<open>key\<close> does: it holds exactly the available amount, the invariant is kept,
  and another key keeps its amount unless it was evicted, which the counter shows.
\<close>

lemma bucketLocked_spec:
  assumes "limiter_ok t rl" "t \<le> now" and "bucketLocked now key rl = (b, rl')"
  shows "b = \<lparr>bk_tokens = avail now key rl, bk_last = now\<rparr>"
    and "rl_buckets rl' key = Some b" and "limiter_ok now rl'"
    and "rl_rate rl' = rl_rate rl" "rl_burst rl' = rl_burst rl" "rl_max rl' = rl_max rl" "rl_window rl' = rl_window rl"
    and "rl_evictions rl \<le> rl_evictions rl'"
    and "rl_evictions rl' = rl_evictions rl \<Longrightarrow> rl_buckets rl' = (rl_buckets rl)(key \<mapsto> b)"
    and "\<And>k. k \<noteq> key \<Longrightarrow> rl_buckets rl' k = rl_buckets rl k \<or> rl_buckets rl' k = None"
proof -
  have ok: "0 < rl_rate rl" "1 \<le> rl_burst rl" "1 \<le> rl_max rl" "1 \<le> nat (rl_max rl)"
    and lru: "lru_ok (nat (rl_max rl)) (rl_buckets rl) (rl_lru rl)"
    and bs: "\<And>k b. rl_buckets rl k = Some b \<Longrightarrow> 0 \<le> bk_tokens b \<and> bk_tokens b \<le> rl_burst rl \<and> bk_last b \<le> now"
    using assms(1,2) by (fastforce simp: limiter_ok_def)+
  let ?b = "\<lparr>bk_tokens = avail now key rl, bk_last = now\<rparr>"
  have av: "0 \<le> avail now key rl" "avail now key rl \<le> rl_burst rl"
    using avail_bounds(1,2) [OF assms(1,2)] by auto
  have "b = ?b \<and> rl_buckets rl' key = Some b \<and> limiter_ok now rl' \<and> rl_rate rl' = rl_rate rl \<and>
    rl_burst rl' = rl_burst rl \<and> rl_max rl' = rl_max rl \<and> rl_window rl' = rl_window rl \<and>
    rl_evictions rl \<le> rl_evictions rl' \<and>
    (rl_evictions rl' = rl_evictions rl \<longrightarrow> rl_buckets rl' = (rl_buckets rl)(key \<mapsto> b)) \<and>
    (\<forall>k. k \<noteq> key \<longrightarrow> rl_buckets rl' k = rl_buckets rl k \<or> rl_buckets rl' k = None)"
  proof (cases "rl_buckets rl key")
    case (Some b0)
    then have "(b, rl') = (?b, rl\<lparr>rl_buckets := (rl_buckets rl)(key \<mapsto> ?b), rl_lru := move_front key (rl_lru rl)\<rparr>)"
      using assms(3) by (auto simp: bucketLocked_def avail_def Let_def)
    moreover have "lru_ok (nat (rl_max rl)) ((rl_buckets rl)(key \<mapsto> ?b)) (move_front key (rl_lru rl))"
      using lru_ok_touch [OF lru] Some by simp
    ultimately show ?thesis
      using ok bs av by (auto simp: limiter_ok_def)
  next
    case None
    let ?r = "rl\<lparr>rl_buckets := (rl_buckets rl)(key \<mapsto> ?b), rl_lru := key # rl_lru rl\<rparr>"
    have *: "b = ?b" "rl' = evict_over ?r"
      using assms(3) None by (auto simp: bucketLocked_def avail_def Let_def)
    show ?thesis
    proof (cases "length (rl_lru rl) < nat (rl_max rl)")
      case True
      then have "evict_over ?r = ?r"
        by (subst evict_over.simps) auto
      then show ?thesis
        using * lru_ok_push(1) [OF lru None ok(4) True] ok bs av by (auto simp: limiter_ok_def)
    next
      case False
      then have l: "length (rl_lru rl) = nat (rl_max rl)" "rl_lru rl \<noteq> []" "last (rl_lru rl) \<noteq> key"
        and lru': "lru_ok (nat (rl_max rl)) ((rl_buckets rl)(key \<mapsto> ?b, last (rl_lru rl) := None)) (key # butlast (rl_lru rl))"
        using lru_ok_push(2) [OF lru None ok(4)] by auto
      let ?r' = "?r\<lparr>rl_lru := key # butlast (rl_lru rl), rl_buckets := (rl_buckets ?r)(last (rl_lru rl) := None),
                  rl_evictions := rl_evictions rl + 1\<rparr>"
      have "evict_over ?r = evict_over ?r'"
        by (subst evict_over.simps) (use l ok in auto)
      also have "\<dots> = ?r'"
        by (subst evict_over.simps) (use l ok in auto)
      finally show ?thesis
        using * lru' ok bs av l(3) by (auto simp: limiter_ok_def)
    qed
  qed
  note P = this
  show "b = \<lparr>bk_tokens = avail now key rl, bk_last = now\<rparr>"
    and "rl_buckets rl' key = Some b" and "limiter_ok now rl'"
    and "rl_rate rl' = rl_rate rl" "rl_burst rl' = rl_burst rl" "rl_max rl' = rl_max rl" "rl_window rl' = rl_window rl"
    and "rl_evictions rl \<le> rl_evictions rl'"
    and "rl_evictions rl' = rl_evictions rl \<Longrightarrow> rl_buckets rl' = (rl_buckets rl)(key \<mapsto> b)"
    and "\<And>k. k \<noteq> key \<Longrightarrow> rl_buckets rl' k = rl_buckets rl k \<or> rl_buckets rl' k = None"
    using P by simp_all
qed

section \<open>Sequences of calls\<close>

datatype rl_op = Allow string | Peek string | Consume string | RetryAfter string

fun op_key :: "rl_op \<Rightarrow> string" where
  "op_key (Allow k) = k"
| "op_key (Peek k) = k"
| "op_key (Consume k) = k"
| "op_key (RetryAfter k) = k"

fun rl_step :: "time \<times> rl_op \<Rightarrow> limiter \<Rightarrow> limiter" where
  "rl_step (now, Allow k) rl = snd (allow now k rl)"
| "rl_step (now, Peek k) rl = snd (peek now k rl)"
| "rl_step (now, Consume k) rl = consume now k rl"
| "rl_step (now, RetryAfter k) rl = snd (retryAfter now k rl)"

text \<open>The calls of \<open>allow\<close> that granted a token to \<open>key\<close>.\<close>

fun grants :: "string \<Rightarrow> (time \<times> rl_op) list \<Rightarrow> limiter \<Rightarrow> nat" where
  "grants key [] rl = 0"
| "grants key ((now, op) # ops) rl =
     (if op = Allow key \<and> fst (allow now key rl) then 1 else 0) + grants key ops (rl_step (now, op) rl)"

lemma set_tokens_spec:
  assumes "limiter_ok t rl" and "rl_buckets rl key = Some b" and "0 \<le> v" "v \<le> rl_burst rl"
  shows "limiter_ok t (set_tokens key v rl)"
    and "rl_rate (set_tokens key v rl) = rl_rate rl" "rl_burst (set_tokens key v rl) = rl_burst rl"
    and "rl_evictions (set_tokens key v rl) = rl_evictions rl" "rl_max (set_tokens key v rl) = rl_max rl"
    and "rl_buckets (set_tokens key v rl) = (rl_buckets rl)(key \<mapsto> b\<lparr>bk_tokens := v\<rparr>)"
  using assms lru_ok_update [of "nat (rl_max rl)" "rl_buckets rl" "rl_lru rl" key]
  by (auto simp: set_tokens_def limiter_ok_def)

text \<open>One call, seen from a key: it spends a token exactly when it is a granted \<open>allow\<close> of that key.\<close>

lemma rl_step_spec:
  assumes "limiter_ok t rl" "t \<le> now"
  shows "limiter_ok now (rl_step (now, op) rl)"
    and "rl_rate (rl_step (now, op) rl) = rl_rate rl" "rl_burst (rl_step (now, op) rl) = rl_burst rl"
    and "rl_evictions rl \<le> rl_evictions (rl_step (now, op) rl)"
    and "rl_evictions (rl_step (now, op) rl) = rl_evictions rl \<Longrightarrow>
         avail now k (rl_step (now, op) rl) + (if op = Allow k \<and> fst (allow now k rl) then 1 else 0) \<le> avail now k rl"
    and "rl_evictions (rl_step (now, op) rl) = rl_evictions rl \<Longrightarrow> op_key op \<noteq> k \<Longrightarrow>
         rl_buckets (rl_step (now, op) rl) k = rl_buckets rl k"
    and "rl_max (rl_step (now, op) rl) = rl_max rl"
    and "op_key op \<noteq> k \<Longrightarrow> rl_buckets (rl_step (now, op) rl) k = rl_buckets rl k \<or> rl_buckets (rl_step (now, op) rl) k = None"
proof -
  obtain b rl' where br: "bucketLocked now (op_key op) rl = (b, rl')"
    by fastforce
  note B = bucketLocked_spec [OF assms br]
  have av: "0 \<le> avail now (op_key op) rl" "avail now (op_key op) rl \<le> rl_burst rl"
    using avail_bounds [OF assms] by auto
  have step: "rl_step (now, op) rl = rl' \<or>
      (\<exists>v. 0 \<le> v \<and> v \<le> bk_tokens b \<and> rl_step (now, op) rl = set_tokens (op_key op) v rl')"
  proof (cases op)
    case (Allow k)
    then show ?thesis
      using br B(1) av by (cases "1 \<le> bk_tokens b") (auto simp: allow_def intro!: exI [of _ "bk_tokens b - 1"])
  next
    case (Consume k)
    then show ?thesis
      using br B(1) av by (intro disjI2 exI [of _ "if bk_tokens b - 1 < 0 then 0 else bk_tokens b - 1"]) (simp add: consume_def Let_def)
  qed (use br in \<open>auto simp: peek_def retryAfter_def Let_def\<close>)
  have grant: "rl_step (now, op) rl = set_tokens k (bk_tokens b - 1) rl' \<and> 1 \<le> bk_tokens b"
    if "op = Allow k" "fst (allow now k rl)"
    using br that by (auto simp: allow_def Let_def split: if_splits)
  show "limiter_ok now (rl_step (now, op) rl)"
    and RB: "rl_rate (rl_step (now, op) rl) = rl_rate rl" "rl_burst (rl_step (now, op) rl) = rl_burst rl"
    and ev: "rl_evictions rl \<le> rl_evictions (rl_step (now, op) rl)"
    and "rl_max (rl_step (now, op) rl) = rl_max rl"
    using step set_tokens_spec [OF B(3,2)] B av by auto
  show "op_key op \<noteq> k \<Longrightarrow> rl_buckets (rl_step (now, op) rl) k = rl_buckets rl k \<or> rl_buckets (rl_step (now, op) rl) k = None"
    using step
  proof (elim disjE exE conjE)
    fix v
    assume ne: "op_key op \<noteq> k" and "0 \<le> v" "v \<le> bk_tokens b" and st: "rl_step (now, op) rl = set_tokens (op_key op) v rl'"
    then have "rl_buckets (rl_step (now, op) rl) k = rl_buckets rl' k"
      using set_tokens_spec(6) [OF B(3,2), of v] B(1,5) av by simp
    then show ?thesis
      using B(10) ne by auto
  qed (use B(10) in auto)
  have ev': "rl_evictions (rl_step (now, op) rl) = rl_evictions rl'"
    using step set_tokens_spec [OF B(3,2)] B(1,5) av by auto
  show "rl_buckets (rl_step (now, op) rl) k = rl_buckets rl k"
    if "rl_evictions (rl_step (now, op) rl) = rl_evictions rl" "op_key op \<noteq> k"
    using step set_tokens_spec(6) [OF B(3,2)] B(1,5,9) ev' av that by auto
  show "avail now k (rl_step (now, op) rl) + (if op = Allow k \<and> fst (allow now k rl) then 1 else 0) \<le> avail now k rl"
    if e: "rl_evictions (rl_step (now, op) rl) = rl_evictions rl"
  proof (cases "op_key op = k")
    case False
    then have "rl_buckets (rl_step (now, op) rl) k = rl_buckets rl k"
      using step set_tokens_spec(6) [OF B(3,2)] B(1,5,9) ev' av e by auto
    then have "avail now k (rl_step (now, op) rl) = avail now k rl"
      by (simp add: avail_def RB split: option.split)
    then show ?thesis
      using False by auto
  next
    case True
    have "\<exists>v. 0 \<le> v \<and> v \<le> bk_tokens b \<and> rl_buckets (rl_step (now, op) rl) k = Some \<lparr>bk_tokens = v, bk_last = now\<rparr> \<and>
        (op = Allow k \<and> fst (allow now k rl) \<longrightarrow> v = bk_tokens b - 1)"
    proof (cases "op = Allow k \<and> fst (allow now k rl)")
      case t: True
      then show ?thesis
        using grant set_tokens_spec(6) [OF B(3,2), of "bk_tokens b - 1"] B(1,5) av True by auto
    next
      case False
      then show ?thesis
        using step set_tokens_spec(6) [OF B(3,2)] B(1,2,5) av True by auto
    qed
    then obtain v where v: "v \<le> bk_tokens b" "op = Allow k \<and> fst (allow now k rl) \<longrightarrow> v = bk_tokens b - 1"
        "rl_buckets (rl_step (now, op) rl) k = Some \<lparr>bk_tokens = v, bk_last = now\<rparr>"
      by blast
    have "avail now k (rl_step (now, op) rl) \<le> v"
      by (simp add: avail_def v(3) Seconds_def)
    moreover have "bk_tokens b = avail now k rl"
      using B(1) True by simp
    ultimately show ?thesis
      using v(1,2) by auto
  qed
qed

lemma run_ok:
  assumes "limiter_ok t rl" and "sorted (t # map fst ops)" and "\<forall>(now, op) \<in> set ops. now \<le> T" and "t \<le> T"
  shows "limiter_ok T (run rl_step ops rl) \<and> rl_evictions rl \<le> rl_evictions (run rl_step ops rl) \<and>
    rl_burst (run rl_step ops rl) = rl_burst rl \<and> rl_rate (run rl_step ops rl) = rl_rate rl \<and>
    rl_max (run rl_step ops rl) = rl_max rl"
  using assms
proof (induction ops arbitrary: t rl)
  case Nil
  then show ?case
    by (fastforce simp: limiter_ok_def)
next
  case (Cons a ops)
  obtain now op where a: "a = (now, op)" "t \<le> now" "now \<le> T"
    using Cons.prems(2,3) by (cases a) auto
  note S = rl_step_spec [OF Cons.prems(1) a(2), of op]
  show ?case
    using Cons.IH [OF S(1)] Cons.prems(2,3) S(2-4,7) a by fastforce
qed

lemma grants_bound:
  assumes "limiter_ok t rl" and "sorted (t # map fst ops)" and "\<forall>(now, op) \<in> set ops. now \<le> T" and "t \<le> T"
    and "rl_evictions (run rl_step ops rl) \<le> rl_evictions rl"
  shows "avail T key (run rl_step ops rl) + grants key ops rl \<le> avail t key rl + Seconds (T - t) * rl_rate rl"
  using assms
proof (induction ops arbitrary: t rl)
  case Nil
  then show ?case
    using avail_bounds(4) [OF Nil(1), of t T key] by simp
next
  case (Cons a ops)
  obtain now op where a: "a = (now, op)"
    by fastforce
  have le: "t \<le> now" "now \<le> T" "sorted (now # map fst ops)" "\<forall>(now, op) \<in> set ops. now \<le> T"
    using Cons.prems(2,3) a by auto
  let ?rl = "rl_step (now, op) rl"
  note S = rl_step_spec [OF Cons.prems(1) le(1), of op]
  have ev: "rl_evictions ?rl = rl_evictions rl" "rl_evictions (run rl_step ops ?rl) \<le> rl_evictions ?rl"
    using run_ok [OF S(1) le(3,4,2)] S(4) Cons.prems(5) a by auto
  have "avail T key (run rl_step ops ?rl) + grants key ops ?rl \<le> avail now key ?rl + Seconds (T - now) * rl_rate ?rl"
    by (rule Cons.IH [OF S(1) le(3,4,2) ev(2)])
  moreover have "avail now key ?rl + (if op = Allow key \<and> fst (allow now key rl) then 1 else 0) \<le> avail now key rl"
    by (rule S(5)) (rule ev)
  moreover have "avail now key rl \<le> avail t key rl + Seconds (now - t) * rl_rate rl"
    using avail_bounds(4) [OF Cons.prems(1) order_refl le(1)] .
  moreover have "Seconds (T - t) * rl_rate rl = Seconds (now - t) * rl_rate rl + Seconds (T - now) * rl_rate rl"
    using Seconds_add [of "now - t" "T - now"] by (simp flip: distrib_right)
  ultimately show ?case
    using S(2) by (auto simp: a)
qed



lemma untouched_bucket:
  assumes "limiter_ok t rl" and "sorted (t # map fst ops)" and "\<forall>(now, op) \<in> set ops. op_key op \<noteq> key"
  shows "rl_buckets (run rl_step ops rl) key = rl_buckets rl key \<or> rl_buckets (run rl_step ops rl) key = None"
  using assms
proof (induction ops arbitrary: t rl)
  case (Cons a ops)
  obtain now op where a: "a = (now, op)" "t \<le> now" "op_key op \<noteq> key"
    using Cons.prems(2,3) by (cases a) auto
  note S = rl_step_spec [OF Cons.prems(1) a(2), of op]
  show ?case
    using Cons.IH [OF S(1)] Cons.prems(2,3) S(8) [OF a(3)] a(1) by auto
qed simp

text \<open>
  Waiting as long as the header says is enough: if \<open>retryAfter\<close> at \<open>now\<close> answered
  \<open>n\<close> seconds (never less than one), then from \<open>now + n\<close> seconds on the key has a token, whatever calls for other
  keys, evictions included, came between.
\<close>

theorem retry_after_sufficient:
  assumes "limiter_ok now rl" and "retryAfter now key rl = (n, rl')"
    and "sorted (now # map fst ops)" and "\<forall>(u, op) \<in> set ops. u \<le> T \<and> op_key op \<noteq> key"
    and "now + n * second \<le> T"
  shows "1 \<le> n \<and> fst (peek T key (run rl_step ops rl'))"
proof -
  obtain b where br: "bucketLocked now key rl = (b, rl')"
    using assms(2) by (auto simp: retryAfter_def Let_def split: prod.splits if_splits)
  note B = bucketLocked_spec [OF assms(1) order_refl br]
  have pos: "0 < rl_rate rl" "1 \<le> rl_burst rl"
    using assms(1) by (auto simp: limiter_ok_def)
  have n: "1 \<le> n" "1 \<le> bk_tokens b + of_int n * rl_rate rl"
  proof -
    have "0 \<le> bk_tokens b"
      using avail_bounds(1) [OF assms(1) order_refl] B(1) by simp
    show "1 \<le> n"
      using assms(2) br pos by (auto simp: retryAfter_def Let_def split: if_splits)
    define q where "q = (1 - bk_tokens b) / rl_rate rl"
    have "q \<le> of_int n" if "\<not> 1 \<le> bk_tokens b"
    proof -
      have "n = (let m = if of_int \<lfloor>q\<rfloor> < q then \<lfloor>q\<rfloor> + 1 else \<lfloor>q\<rfloor> in if m < 1 then 1 else m)"
        using assms(2) br pos that unfolding retryAfter_def Let_def q_def by auto
      moreover have "q \<le> of_int (if of_int \<lfloor>q\<rfloor> < q then \<lfloor>q\<rfloor> + 1 else \<lfloor>q\<rfloor>)"
        by simp
      ultimately show ?thesis
        unfolding Let_def by (cases "\<lfloor>q\<rfloor> + 1 < 1"; auto split: if_splits; linarith)
    qed
    moreover have "0 \<le> of_int n * rl_rate rl"
      using pos \<open>1 \<le> n\<close> by simp
    ultimately show "1 \<le> bk_tokens b + of_int n * rl_rate rl"
      using pos by (cases "1 \<le> bk_tokens b") (auto simp: q_def divide_le_eq)
  qed
  let ?r = "run rl_step ops rl'"
  have "now \<le> now + n * second"
    using n(1) by simp
  then have "now \<le> T"
    using assms(5) by linarith
  then have R: "limiter_ok T ?r" "rl_burst ?r = rl_burst rl" "rl_rate ?r = rl_rate rl"
    using run_ok [OF B(3) assms(3)] assms(4) B(4,5) by auto
  have "\<forall>(u, op) \<in> set ops. op_key op \<noteq> key"
    using assms(4) by auto
  note untouched = untouched_bucket [OF B(3) assms(3) this]
  have "n * second \<le> T - now"
    using assms(5) by simp
  then have "of_int (n * second) \<le> (of_int (T - now) :: real)"
    by (rule of_int_le_iff [THEN iffD2])
  then have "of_int n * rl_rate rl \<le> Seconds (T - now) * rl_rate rl"
    using pos by (intro mult_right_mono) (simp_all add: Seconds_def)
  then have "1 \<le> bk_tokens b + Seconds (T - now) * rl_rate rl"
    using n(2) by linarith
  moreover have "bk_last b = now"
    using B(1) by simp
  moreover have "rl_buckets ?r key \<in> {Some b, None}"
    using untouched B(2) by auto
  ultimately have "1 \<le> avail T key ?r"
    using pos R(2,3) by (auto simp: avail_def)
  moreover obtain b' r' where b': "bucketLocked T key ?r = (b', r')"
    by fastforce
  ultimately show ?thesis
    using bucketLocked_spec(1) [OF R(1) order_refl b'] n(1) by (simp add: peek_def)
qed

theorem retry_after_sufficient_witness:
  "fst (peek second ''a'' (run rl_step [(5, Allow ''b'')] (snd (retryAfter 0 ''a'' (newRateLimiter 1 second 1)))))"
proof -
  have "retryAfter 0 ''a'' (newRateLimiter 1 second 1) = (1, snd (retryAfter 0 ''a'' (newRateLimiter 1 second 1)))"
    by (simp add: retryAfter_def newRateLimiter_def bucketLocked_def Let_def)
  then show ?thesis
    using retry_after_sufficient [where now = 0 and T = second and ops = "[(5, Allow ''b'')]", OF newRateLimiter_ok]
    by force
qed

end
