(* ===== verification/Basic_Cache.thy ===== *)
theory Basic_Cache
  imports Rate_Limit
begin

text \<open>
  The positive cache of verified Basic credentials (\<open>adminhttp/basicauth.go\<close>): a capped LRU keyed
  by a digest of user and password, with an expiry per entry.  The eviction loop of \<open>put\<close> repeats
  until the list fits, so it is a partial function, and that it returns is a theorem.
\<close>

record cache_entry =
  ce_digest :: bytes
  ce_user :: int
  ce_admin :: bool
  ce_expires :: time

record basic_cache =
  bc_ttl :: time
  bc_max :: int
  bc_entries :: "bytes \<rightharpoonup> cache_entry"
  bc_lru :: "bytes list"

definition newBasicCache :: "time \<Rightarrow> int \<Rightarrow> basic_cache" where
  "newBasicCache ttl mx =
     \<lparr>bc_ttl = ttl, bc_max = (if mx < 1 then 1 else mx), bc_entries = Map.empty, bc_lru = []\<rparr>"

text \<open>\<open>time.ParseDuration\<close> is the argument \<open>parse\<close>.\<close>

definition basicCacheTTLFromEnv :: "(string \<Rightarrow> time option) \<Rightarrow> (string \<Rightarrow> string) \<Rightarrow> time" where
  "basicCacheTTLFromEnv parse getenv =
     (let v = getenv ''ADMIN_BASIC_CACHE_TTL'' in
      if v = [] then 60 * second
      else (case parse v of None \<Rightarrow> 60 * second | Some d \<Rightarrow> d))"

definition basicCacheMaxFromEnv :: "(string \<Rightarrow> string) \<Rightarrow> int" where
  "basicCacheMaxFromEnv getenv =
     (let v = getenv ''ADMIN_BASIC_CACHE_MAX'' in
      if v \<noteq> [] then (case Atoi v of (n, err) \<Rightarrow> if err = None \<and> n > 0 then n else 1024) else 1024)"

definition basicDigest :: "string \<Rightarrow> string \<Rightarrow> bytes" where
  "basicDigest user pass = sha256 (bytes_of user @ [0] @ bytes_of pass)"

definition removeLocked :: "bytes \<Rightarrow> basic_cache \<Rightarrow> basic_cache" where
  "removeLocked key c =
     (case bc_entries c key of
        None \<Rightarrow> c
      | Some e \<Rightarrow> c\<lparr>bc_lru := remove1 key (bc_lru c), bc_entries := (bc_entries c)(key := None)\<rparr>)"

definition cache_get :: "time \<Rightarrow> string \<Rightarrow> string \<Rightarrow> basic_cache \<Rightarrow> cache_entry option \<times> basic_cache" where
  "cache_get now user pass c =
     (if bc_ttl c \<le> 0 then (None, c)
      else
        let d = basicDigest user pass in
        case bc_entries c d of
          None \<Rightarrow> (None, c)
        | Some e \<Rightarrow>
            if now > ce_expires e then (None, removeLocked d c)
            else if ce_digest e \<noteq> d then (None, c)
            else (Some e, c\<lparr>bc_lru := move_front d (bc_lru c)\<rparr>))"

partial_function (option) cache_trim :: "basic_cache \<Rightarrow> basic_cache option" where
  "cache_trim c =
     (if int (length (bc_lru c)) > bc_max c then
        (if bc_lru c = [] then cache_trim c else cache_trim (removeLocked (last (bc_lru c)) c))
      else Some c)"

definition cache_put :: "time \<Rightarrow> string \<Rightarrow> string \<Rightarrow> int \<Rightarrow> bool \<Rightarrow> basic_cache \<Rightarrow> basic_cache option" where
  "cache_put now user pass userID isAdmin c =
     (if bc_ttl c \<le> 0 then Some c
      else
        let d = basicDigest user pass in
        case bc_entries c d of
          Some e \<Rightarrow>
            Some (c\<lparr>bc_entries := (bc_entries c)(d \<mapsto> e\<lparr>ce_user := userID, ce_admin := isAdmin, ce_expires := now + bc_ttl c\<rparr>),
                    bc_lru := move_front d (bc_lru c)\<rparr>)
        | None \<Rightarrow>
            cache_trim (c\<lparr>bc_entries := (bc_entries c)(d \<mapsto> \<lparr>ce_digest = d, ce_user = userID, ce_admin = isAdmin, ce_expires = now + bc_ttl c\<rparr>),
                          bc_lru := d # bc_lru c\<rparr>))"

section \<open>The cache keeps its form\<close>

definition cache_ok :: "basic_cache \<Rightarrow> bool" where
  "cache_ok c \<longleftrightarrow> 1 \<le> bc_max c \<and> lru_ok (nat (bc_max c)) (bc_entries c) (bc_lru c) \<and>
     (\<forall>d e. bc_entries c d = Some e \<longrightarrow> ce_digest e = d)"

lemma newBasicCache_ok: "cache_ok (newBasicCache ttl mx)"
  by (simp add: cache_ok_def newBasicCache_def lru_ok_def)

lemma removeLocked_sel [simp]:
  "bc_ttl (removeLocked k c) = bc_ttl c" "bc_max (removeLocked k c) = bc_max c"
  "bc_entries (removeLocked k c) = (bc_entries c)(k := None)"
  by (auto simp: removeLocked_def split: option.split)

lemma removeLocked_ok: "cache_ok c \<Longrightarrow> cache_ok (removeLocked k c)"
  using lru_ok_remove [of "nat (bc_max c)" "bc_entries c" "bc_lru c" k]
  by (auto simp: cache_ok_def removeLocked_def split: option.split)

lemma cache_get_ok:
  assumes "cache_ok c" and "cache_get now user pass c = (r, c')"
  shows "cache_ok c'" "bc_ttl c' = bc_ttl c" "bc_max c' = bc_max c"
    and "\<And>d e. bc_entries c' d = Some e \<Longrightarrow> bc_entries c d = Some e"
    and "r = Some e \<Longrightarrow> bc_entries c (basicDigest user pass) = Some e \<and> now \<le> ce_expires e \<and> 0 < bc_ttl c"
proof -
  have "cache_ok (c\<lparr>bc_lru := move_front d (bc_lru c)\<rparr>)" if "Some e = bc_entries c d" for d e
    using assms(1) that [symmetric] lru_ok_move [of "nat (bc_max c)" "bc_entries c" "bc_lru c" d] by (auto simp: cache_ok_def)
  then show "cache_ok c'" "bc_ttl c' = bc_ttl c" "bc_max c' = bc_max c"
    and "\<And>d e. bc_entries c' d = Some e \<Longrightarrow> bc_entries c d = Some e"
    and "r = Some e \<Longrightarrow> bc_entries c (basicDigest user pass) = Some e \<and> now \<le> ce_expires e \<and> 0 < bc_ttl c"
    using assms removeLocked_ok [OF assms(1)]
    by (auto simp: cache_get_def Let_def split: if_splits option.splits)
qed

lemma cache_put_ok:
  assumes "cache_ok c"
  obtains c' where "cache_put now user pass uid adm c = Some c'" "cache_ok c'" "bc_ttl c' = bc_ttl c" "bc_max c' = bc_max c"
    and "\<And>d e. bc_entries c' d = Some e \<Longrightarrow> (if d = basicDigest user pass \<and> 0 < bc_ttl c
           then e = \<lparr>ce_digest = d, ce_user = uid, ce_admin = adm, ce_expires = now + bc_ttl c\<rparr> else bc_entries c d = Some e)"
proof -
  have mx: "1 \<le> bc_max c" "1 \<le> nat (bc_max c)" and lru: "lru_ok (nat (bc_max c)) (bc_entries c) (bc_lru c)"
    and dig: "\<And>d e. bc_entries c d = Some e \<Longrightarrow> ce_digest e = d"
    using assms by (auto simp: cache_ok_def)
  let ?d = "basicDigest user pass"
  let ?new = "\<lparr>ce_digest = ?d, ce_user = uid, ce_admin = adm, ce_expires = now + bc_ttl c\<rparr>"
  let ?c1 = "c\<lparr>bc_entries := (bc_entries c)(?d \<mapsto> ?new), bc_lru := ?d # bc_lru c\<rparr>"
  consider "bc_ttl c \<le> 0" | e where "0 < bc_ttl c" "bc_entries c ?d = Some e" | "0 < bc_ttl c" "bc_entries c ?d = None"
    by fastforce
  then show ?thesis
  proof cases
    case 1
    then show ?thesis
      using assms by (intro that [of c]) (auto simp: cache_put_def)
  next
    case (2 e)
    then have eq: "e\<lparr>ce_user := uid, ce_admin := adm, ce_expires := now + bc_ttl c\<rparr> = ?new"
      using dig [OF 2(2)] by (cases e) simp
    show ?thesis
      using 2 mx dig lru_ok_touch [OF lru, of ?d ?new]
      by (intro that [of "c\<lparr>bc_entries := (bc_entries c)(?d \<mapsto> ?new), bc_lru := move_front ?d (bc_lru c)\<rparr>"])
        (auto simp: cache_put_def cache_ok_def Let_def eq)
  next
    case 3
    have put: "cache_put now user pass uid adm c = cache_trim ?c1"
      using 3 by (simp add: cache_put_def Let_def)
    show ?thesis
    proof (cases "length (bc_lru c) < nat (bc_max c)")
      case True
      then have "cache_trim ?c1 = Some ?c1"
        by (subst cache_trim.simps) auto
      then show ?thesis
        using put 3 mx dig lru_ok_push(1) [OF lru 3(2) mx(2) True, of ?new]
        by (intro that [of ?c1]) (auto simp: cache_ok_def)
    next
      case False
      then have l: "length (bc_lru c) = nat (bc_max c)" "bc_lru c \<noteq> []" "last (bc_lru c) \<noteq> ?d"
        and ok: "lru_ok (nat (bc_max c)) ((bc_entries c)(?d \<mapsto> ?new, last (bc_lru c) := None)) (?d # butlast (bc_lru c))"
        using lru_ok_push(2) [OF lru 3(2) mx(2)] by auto
      have "last (bc_lru c) \<in> dom (bc_entries c)" "distinct (bc_lru c)"
        using lru l(2) last_in_set by (auto simp: lru_ok_def)
      then have rem: "removeLocked (last (bc_lru c)) ?c1 =
          ?c1\<lparr>bc_entries := (bc_entries c)(?d \<mapsto> ?new, last (bc_lru c) := None), bc_lru := ?d # butlast (bc_lru c)\<rparr>"
        using l(2,3) by (auto simp: removeLocked_def remove1_last)
      have "cache_trim ?c1 = cache_trim (removeLocked (last (bc_lru c)) ?c1)"
        using l mx by (subst cache_trim.simps) auto
      also have "\<dots> = Some (removeLocked (last (bc_lru c)) ?c1)"
        unfolding rem using l mx by (subst cache_trim.simps) auto
      finally show ?thesis
        using put 3 mx dig ok l(3)
        by (intro that [of "removeLocked (last (bc_lru c)) ?c1"]) (auto simp: rem cache_ok_def split: if_splits)
    qed
  qed
qed

section \<open>Histories\<close>

datatype cache_op = CGet string string | CPut string string int bool

fun cache_step :: "time \<times> cache_op \<Rightarrow> basic_cache option \<Rightarrow> basic_cache option" where
  "cache_step (now, CGet user pass) c = map_option (\<lambda>c. snd (cache_get now user pass c)) c"
| "cache_step (now, CPut user pass uid adm) c = Option.bind c (cache_put now user pass uid adm)"

text \<open>The most recent \<open>put\<close> for a digest.\<close>

fun puts :: "bytes \<Rightarrow> time \<times> cache_op \<Rightarrow> bool" where
  "puts d (now, CGet user pass) = False"
| "puts d (now, CPut user pass uid adm) = (basicDigest user pass = d)"

definition last_put :: "bytes \<Rightarrow> (time \<times> cache_op) list \<Rightarrow> (time \<times> cache_op) option" where
  "last_put d ops = find (puts d) (rev ops)"

definition backed :: "(time \<times> cache_op) list \<Rightarrow> basic_cache \<Rightarrow> bool" where
  "backed ops c \<longleftrightarrow>
     (\<forall>d e. bc_entries c d = Some e \<longrightarrow>
        (\<exists>t user pass. last_put d ops = Some (t, CPut user pass (ce_user e) (ce_admin e)) \<and> basicDigest user pass = d \<and>
           ce_expires e = t + bc_ttl c))"

lemma backedE:
  assumes "backed ops c" and "bc_entries c d = Some e"
  obtains t user pass where "last_put d ops = Some (t, CPut user pass (ce_user e) (ce_admin e))" "basicDigest user pass = d"
    "ce_expires e = t + bc_ttl c"
  using assms unfolding backed_def by blast

lemma run_cache:
  "\<exists>c. run cache_step ops (Some (newBasicCache ttl mx)) = Some c \<and> cache_ok c \<and> backed ops c \<and>
       bc_ttl c = ttl \<and> bc_max c = max 1 mx \<and> (ttl \<le> 0 \<longrightarrow> bc_entries c = Map.empty)"
proof (induction ops rule: rev_induct)
  case Nil
  then show ?case
    using newBasicCache_ok [of ttl mx] by (auto simp: backed_def newBasicCache_def)
next
  case (snoc a ops)
  then obtain c where c: "run cache_step ops (Some (newBasicCache ttl mx)) = Some c" "cache_ok c" "backed ops c"
      "bc_ttl c = ttl" "bc_max c = max 1 mx" "ttl \<le> 0 \<longrightarrow> bc_entries c = Map.empty"
    by blast
  obtain now op where a: "a = (now, op)"
    by fastforce
  show ?case
  proof (cases op)
    case (CGet user pass)
    obtain r c' where g: "cache_get now user pass c = (r, c')"
      by fastforce
    have "last_put d (ops @ [a]) = last_put d ops" for d
      by (simp add: last_put_def a CGet)
    then have "backed (ops @ [a]) c'"
      using c(3) cache_get_ok(2,4) [OF c(2) g] unfolding backed_def by metis
    moreover have "ttl \<le> 0 \<longrightarrow> bc_entries c' = Map.empty"
      using c(6) cache_get_ok(4) [OF c(2) g] by (metis not_Some_eq ext)
    ultimately show ?thesis
      using c cache_get_ok(1-3) [OF c(2) g] g by (simp add: a CGet)
  next
    case (CPut user pass uid adm)
    obtain c' where p: "cache_put now user pass uid adm c = Some c'" "cache_ok c'" "bc_ttl c' = bc_ttl c" "bc_max c' = bc_max c"
      and ent: "\<And>d e. bc_entries c' d = Some e \<Longrightarrow> (if d = basicDigest user pass \<and> 0 < bc_ttl c
           then e = \<lparr>ce_digest = d, ce_user = uid, ce_admin = adm, ce_expires = now + bc_ttl c\<rparr> else bc_entries c d = Some e)"
      using cache_put_ok [OF c(2), of now user pass uid adm] by blast
    have empty: "ttl \<le> 0 \<longrightarrow> bc_entries c' = Map.empty"
      using c(4,6) ent by (metis leD not_Some_eq ext)
    have lp: "last_put d (ops @ [a]) = (if basicDigest user pass = d then Some (now, CPut user pass uid adm) else last_put d ops)" for d
      by (simp add: last_put_def a CPut)
    have "\<exists>t u q. last_put d (ops @ [a]) = Some (t, CPut u q (ce_user e) (ce_admin e)) \<and> basicDigest u q = d \<and> ce_expires e = t + bc_ttl c'"
      if e: "bc_entries c' d = Some e" for d e
    proof (cases "d = basicDigest user pass")
      case True
      have "0 < ttl"
        using e empty by (cases "ttl \<le> 0") auto
      then show ?thesis
        using ent [OF e] True c(4) p(3) by (auto simp: lp)
    next
      case False
      then show ?thesis
        using ent [OF e] c(3) p(3) by (auto simp: lp elim: backedE)
    qed
    then have "backed (ops @ [a]) c'"
      by (simp add: backed_def)
    then show ?thesis
      using c p empty by (simp add: a CPut)
  qed
qed

text \<open>
  C17 (credential cache).  After any history of lookups and stores: every store returned (its eviction
  loop ends), the cache holds at most \<open>mx\<close> entries, and a hit gives the user and the admin flag of the
  latest store for the same credential digest, made no longer than the time to live ago; a
  non-positive time to live never hits.
\<close>

theorem basic_cache_sound:
  assumes "1 \<le> mx"
  shows "\<exists>c. run cache_step ops (Some (newBasicCache ttl mx)) = Some c \<and>
    int (card (dom (bc_entries c))) \<le> mx \<and>
    (\<forall>now user pass e. fst (cache_get now user pass c) = Some e \<longrightarrow>
       (\<exists>t u p. last_put (basicDigest user pass) ops = Some (t, CPut u p (ce_user e) (ce_admin e)) \<and>
          basicDigest u p = basicDigest user pass \<and> now \<le> t + ttl \<and> 0 < ttl))"
proof -
  obtain c where c: "run cache_step ops (Some (newBasicCache ttl mx)) = Some c" "cache_ok c" "backed ops c"
      "bc_ttl c = ttl" "bc_max c = max 1 mx"
    using run_cache by blast
  have "card (dom (bc_entries c)) \<le> nat (bc_max c)"
    using c(2) lru_ok_card unfolding cache_ok_def by blast
  moreover have "\<exists>t u p. last_put (basicDigest user pass) ops = Some (t, CPut u p (ce_user e) (ce_admin e)) \<and>
          basicDigest u p = basicDigest user pass \<and> now \<le> t + ttl \<and> 0 < ttl"
    if "fst (cache_get now user pass c) = Some e" for now user pass e
  proof -
    have "bc_entries c (basicDigest user pass) = Some e" "now \<le> ce_expires e" "0 < ttl"
      using cache_get_ok(5) [OF c(2) prod.collapse [symmetric] that] c(4) by simp_all
    then show ?thesis
      using backedE [OF c(3)] c(4) by metis
  qed
  ultimately show ?thesis
    using c assms by auto
qed

theorem basic_cache_sound_witness:
  "\<exists>c. run cache_step [(0, CPut ''u'' ''p'' 7 True)] (Some (newBasicCache 60 1)) = Some c \<and> card (dom (bc_entries c)) \<le> 1"
  using basic_cache_sound [of 1 "[(0, CPut ''u'' ''p'' 7 True)]" 60] by auto

end
