(* ===== verification/Admin_Store.thy ===== *)
theory Admin_Store
  imports Picpak_Base Go_Strings Go_Base64 Sha
begin

text \<open>
  The credential stores of the admin control plane: API tokens (\<open>apitoken\<close>), browser sessions
  (\<open>adminsession\<close>), password accounts (\<open>adminuser\<close>) with their argon2id strings (\<open>argon2id\<close>), operator
  keys (\<open>operator\<close>) and the audit trail (\<open>adminaudit\<close>).

  A table is the list of its rows in the order of their identity column.  The argon2 key derivation
  is third-party code, the argument \<open>IDKey\<close>.  Random bytes are arguments, \<open>None\<close> where the reader
  failed.  A predicate \<open>flt\<close> says which database calls fail; a failed one changes nothing.
\<close>

section \<open>Tables\<close>

record token_row =
  tk_id :: int
  tk_token_id :: string
  tk_secret_hash :: bytes
  tk_label :: string
  tk_scopes :: "string list"
  tk_created_at :: time
  tk_expires_at :: "time option"
  tk_last_used_at :: "time option"
  tk_disabled_at :: "time option"
  tk_created_by :: "int option"

record operator_row =
  ok_id :: int
  ok_token_hash :: bytes
  ok_label :: string
  ok_is_admin :: bool
  ok_last_used_at :: "time option"
  ok_disabled_at :: "time option"
  ok_expires_at :: "time option"

record user_row =
  us_id :: int
  us_username :: string
  us_password_hash :: string
  us_is_admin :: bool
  us_created_at :: time
  us_disabled_at :: "time option"

record session_row =
  ss_user_id :: int
  ss_created_at :: time
  ss_expires_at :: time
  ss_last_seen_at :: time

record audit_row =
  au_actor_kind :: string
  au_actor_id :: "string option"
  au_action :: string
  au_target :: "string option"
  au_remote_ip :: "string option"
  au_ok :: bool

record auth_db =
  a_tokens :: "token_row list"
  a_next_token :: int
  a_operators :: "operator_row list"
  a_users :: "user_row list"
  a_next_user :: int
  a_sessions :: "bytes \<rightharpoonup> session_row"
  a_audit :: "audit_row list"

datatype auth_call =
  QToken | XTokenInsert | XTokenRevoke | XTokenTouch | QOperator | XOperatorTouch | QSession | XSessionInsert
  | XSessionDelete | QUserById | QUserByName | XUserInsert | XUserUpdate | XAudit

datatype 'a lookup = DbErr | Absent | Found 'a

definition select :: "bool \<Rightarrow> ('a \<Rightarrow> bool) \<Rightarrow> 'a list \<Rightarrow> 'a lookup" where
  "select failed P rows = (if failed then DbErr else case find P rows of None \<Rightarrow> Absent | Some r \<Rightarrow> Found r)"

lemma select_Found: "select f P rows = Found r \<longleftrightarrow> \<not> f \<and> find P rows = Some r"
  by (auto simp: select_def split: option.splits)

lemma find_SomeD: "find P xs = Some x \<Longrightarrow> x \<in> set xs \<and> P x"
  by (induction xs) (auto split: if_splits)

definition update_rows :: "('a \<Rightarrow> bool) \<Rightarrow> ('a \<Rightarrow> 'a) \<Rightarrow> 'a list \<Rightarrow> 'a list" where
  "update_rows P f rows = map (\<lambda>r. if P r then f r else r) rows"

text \<open>\<open>expires_at\<close> against the clock: \<open>!t.After(now)\<close>.\<close>

definition expired :: "time option \<Rightarrow> time \<Rightarrow> bool" where
  "expired e now = (case e of None \<Rightarrow> False | Some t \<Rightarrow> \<not> now < t)"

section \<open>API tokens\<close>

definition TokenPrefix :: string where "TokenPrefix = ''ppk_''"
definition tokenIDEncLen :: nat where "tokenIDEncLen = 16"

definition KnownScopes :: "string list" where
  "KnownScopes = [''image:read'', ''image:write'']"

datatype token_error = ErrUnknownScope | ErrTokenRand | ErrTokenStore | ErrTokenNotFound

definition CreateToken ::
  "(auth_call \<Rightarrow> bool) \<Rightarrow> time \<Rightarrow> bytes option \<Rightarrow> bytes option \<Rightarrow> auth_db \<Rightarrow> string \<Rightarrow> string list \<Rightarrow> time option \<Rightarrow>
   int option \<Rightarrow> (token_error + string \<times> token_row) \<times> auth_db" where
  "CreateToken flt now rnd_id rnd_secret db label scopes expiresAt createdBy =
     (if \<exists>s \<in> set scopes. s \<notin> set KnownScopes then (Inl ErrUnknownScope, db)
      else case (rnd_id, rnd_secret) of
        (Some rid, Some rsec) \<Rightarrow>
          let tokenID = b64_encode rid; secret = b64_encode rsec;
              row = \<lparr>tk_id = a_next_token db, tk_token_id = tokenID, tk_secret_hash = sha256 (bytes_of secret),
                     tk_label = label, tk_scopes = scopes, tk_created_at = now, tk_expires_at = expiresAt,
                     tk_last_used_at = None, tk_disabled_at = None, tk_created_by = createdBy\<rparr>
          in if flt XTokenInsert \<or> (\<exists>r \<in> set (a_tokens db). tk_token_id r = tokenID) \<or>
                (case createdBy of None \<Rightarrow> False | Some k \<Rightarrow> k \<notin> ok_id ` set (a_operators db))
             then (Inl ErrTokenStore, db)
             else (Inr (TokenPrefix @ tokenID @ ''_'' @ secret, row),
                   db\<lparr>a_tokens := a_tokens db @ [row], a_next_token := a_next_token db + 1\<rparr>)
      | _ \<Rightarrow> (Inl ErrTokenRand, db))"

definition ParseToken :: "string \<Rightarrow> (string \<times> string) option" where
  "ParseToken raw =
     (if take (length TokenPrefix) raw \<noteq> TokenPrefix then None
      else
        let rest = drop (length TokenPrefix) raw in
        if length rest < tokenIDEncLen + 2 \<or> rest ! tokenIDEncLen \<noteq> CHR ''_'' then None
        else
          let tokenID = take tokenIDEncLen rest; secret = drop (tokenIDEncLen + 1) rest
          in if tokenID = [] \<or> secret = [] then None else Some (tokenID, secret))"

definition ResolveToken :: "(auth_call \<Rightarrow> bool) \<Rightarrow> time \<Rightarrow> auth_db \<Rightarrow> string \<Rightarrow> token_row lookup" where
  "ResolveToken flt now db raw =
     (case ParseToken raw of
        None \<Rightarrow> Absent
      | Some (tokenID, secret) \<Rightarrow>
          (case select (flt QToken) (\<lambda>r. tk_token_id r = tokenID \<and> tk_disabled_at r = None) (a_tokens db) of
             DbErr \<Rightarrow> DbErr
           | Absent \<Rightarrow> Absent
           | Found tok \<Rightarrow>
               if sha256 (bytes_of secret) \<noteq> tk_secret_hash tok then Absent
               else if expired (tk_expires_at tok) now then Absent
               else Found tok))"

definition GetToken :: "(auth_call \<Rightarrow> bool) \<Rightarrow> auth_db \<Rightarrow> int \<Rightarrow> token_error + token_row" where
  "GetToken flt db id' =
     (case select (flt QToken) (\<lambda>r. tk_id r = id') (a_tokens db) of
        DbErr \<Rightarrow> Inl ErrTokenStore | Absent \<Rightarrow> Inl ErrTokenNotFound | Found r \<Rightarrow> Inr r)"

definition ListTokens :: "(auth_call \<Rightarrow> bool) \<Rightarrow> auth_db \<Rightarrow> token_row list option" where
  "ListTokens flt db = (if flt QToken then None else Some (sort_key tk_id (a_tokens db)))"

definition RevokeToken :: "(auth_call \<Rightarrow> bool) \<Rightarrow> time \<Rightarrow> auth_db \<Rightarrow> int \<Rightarrow> token_error option \<times> auth_db" where
  "RevokeToken flt now db id' =
     (if flt XTokenRevoke then (Some ErrTokenStore, db)
      else if \<not> (\<exists>r \<in> set (a_tokens db). tk_id r = id') then (Some ErrTokenNotFound, db)
      else (None, db\<lparr>a_tokens := update_rows (\<lambda>r. tk_id r = id') (tk_disabled_at_update (\<lambda>_. Some now)) (a_tokens db)\<rparr>))"

definition TouchToken :: "(auth_call \<Rightarrow> bool) \<Rightarrow> time \<Rightarrow> auth_db \<Rightarrow> int \<Rightarrow> auth_db" where
  "TouchToken flt now db id' =
     (if flt XTokenTouch then db
      else db\<lparr>a_tokens := update_rows (\<lambda>r. tk_id r = id') (tk_last_used_at_update (\<lambda>_. Some now)) (a_tokens db)\<rparr>)"

section \<open>Operator keys\<close>

record AuthResult =
  ar_key_id :: int
  ar_is_admin :: bool
  ar_label :: string

definition Authenticate :: "(auth_call \<Rightarrow> bool) \<Rightarrow> time \<Rightarrow> auth_db \<Rightarrow> string \<Rightarrow> AuthResult lookup" where
  "Authenticate flt now db token =
     (let h = sha256 (bytes_of token) in
      case select (flt QOperator) (\<lambda>r. ok_token_hash r = h \<and> ok_disabled_at r = None) (a_operators db) of
        DbErr \<Rightarrow> DbErr
      | Absent \<Rightarrow> Absent
      | Found r \<Rightarrow>
          if h \<noteq> ok_token_hash r then Absent
          else if expired (ok_expires_at r) now then Absent
          else Found \<lparr>ar_key_id = ok_id r, ar_is_admin = ok_is_admin r, ar_label = ok_label r\<rparr>)"

definition TouchOperator :: "(auth_call \<Rightarrow> bool) \<Rightarrow> time \<Rightarrow> auth_db \<Rightarrow> int \<Rightarrow> auth_db" where
  "TouchOperator flt now db keyID =
     (if flt XOperatorTouch then db
      else db\<lparr>a_operators := update_rows (\<lambda>r. ok_id r = keyID) (ok_last_used_at_update (\<lambda>_. Some now)) (a_operators db)\<rparr>)"

section \<open>Sessions\<close>

definition hashSecret :: "string \<Rightarrow> bytes" where
  "hashSecret secret = sha256 (bytes_of secret)"

definition CreateSession ::
  "(auth_call \<Rightarrow> bool) \<Rightarrow> time \<Rightarrow> bytes option \<Rightarrow> auth_db \<Rightarrow> int \<Rightarrow> time \<Rightarrow> (string \<times> session_row) option \<times> auth_db" where
  "CreateSession flt now rnd db userID ttl =
     (case rnd of
        None \<Rightarrow> (None, db)
      | Some raw \<Rightarrow>
          let secret = b64_encode raw; h = hashSecret secret;
              row = \<lparr>ss_user_id = userID, ss_created_at = now, ss_expires_at = now + ttl, ss_last_seen_at = now\<rparr>
          in if flt XSessionInsert \<or> a_sessions db h \<noteq> None \<or> userID \<notin> us_id ` set (a_users db) then (None, db)
             else (Some (secret, row), db\<lparr>a_sessions := (a_sessions db)(h \<mapsto> row)\<rparr>))"

definition ResolveSession :: "(auth_call \<Rightarrow> bool) \<Rightarrow> time \<Rightarrow> auth_db \<Rightarrow> string \<Rightarrow> session_row lookup" where
  "ResolveSession flt now db secret =
     (if flt QSession then DbErr
      else case a_sessions db (hashSecret secret) of
        None \<Rightarrow> Absent
      | Some s \<Rightarrow> if \<not> now < ss_expires_at s then Absent else Found s)"

definition DeleteSession :: "(auth_call \<Rightarrow> bool) \<Rightarrow> auth_db \<Rightarrow> string \<Rightarrow> bool \<times> auth_db" where
  "DeleteSession flt db secret =
     (if flt XSessionDelete then (False, db)
      else (True, db\<lparr>a_sessions := (a_sessions db)(hashSecret secret := None)\<rparr>))"

definition CleanupSessions :: "(auth_call \<Rightarrow> bool) \<Rightarrow> time \<Rightarrow> auth_db \<Rightarrow> bool \<times> auth_db" where
  "CleanupSessions flt now db =
     (if flt XSessionDelete then (False, db)
      else (True, db\<lparr>a_sessions := (\<lambda>h. case a_sessions db h of
                                      None \<Rightarrow> None
                                    | Some s \<Rightarrow> if ss_expires_at s < now then None else Some s)\<rparr>))"

end
