(* ===== verification/Argon2_Phc.thy ===== *)
theory Argon2_Phc
  imports Admin_Store
begin

text \<open>
  Package \<open>argon2id\<close>: the self-describing PHC string of a password hash, and the account operations of
  package \<open>adminuser\<close> that use it.  \<open>IDKey password salt t m p keyLen\<close> is the third-party key derivation.

  \<open>fmt.Sscanf\<close> with \<open>%d\<close> verbs reads a literal, skips blanks and takes the longest run of digits; text
  after the last verb is ignored.
\<close>

section \<open>Scanning\<close>

definition scan_lit :: "string \<Rightarrow> string \<Rightarrow> string option" where
  "scan_lit lit s = (if take (length lit) s = lit then Some (drop (length lit) s) else None)"

definition is_blank :: "char \<Rightarrow> bool" where
  "is_blank c \<longleftrightarrow> is_space c \<and> c \<noteq> CHR 0x0A"

text \<open>\<open>%d\<close> into an unsigned integer of \<open>bits\<close> bits.\<close>

definition scan_uint :: "nat \<Rightarrow> string \<Rightarrow> (nat \<times> string) option" where
  "scan_uint bits s =
     (let s = dropWhile is_blank s; ds = takeWhile is_digit s in
      if ds = [] then None
      else case ParseUint 64 ds of (n, err) \<Rightarrow>
        if err \<noteq> None \<or> n \<ge> 2 ^ bits then None else Some (n, dropWhile is_digit s))"

text \<open>\<open>%d\<close> into an \<open>int\<close>: an optional sign.\<close>

definition scan_int :: "string \<Rightarrow> (int \<times> string) option" where
  "scan_int s =
     (let s = dropWhile is_blank s;
          sgn = (case s of c # _ \<Rightarrow> if c \<in> {CHR ''+'', CHR ''-''} then [c] else [] | [] \<Rightarrow> []);
          s = drop (length sgn) s; ds = takeWhile is_digit s in
      if ds = [] then None
      else case ParseInt (sgn @ ds) of (n, err) \<Rightarrow> if err \<noteq> None then None else Some (n, dropWhile is_digit s))"

section \<open>argon2id.go\<close>

definition argon2_Version :: int where "argon2_Version = 19"
definition defTime :: nat where "defTime = 2"
definition defMemory :: nat where "defMemory = 64 * 1024"
definition defThreads :: nat where "defThreads = 1"
definition saltLen :: nat where "saltLen = 16"
definition keyLen :: nat where "keyLen = 32"

type_synonym kdf = "bytes \<Rightarrow> bytes \<Rightarrow> nat \<Rightarrow> nat \<Rightarrow> nat \<Rightarrow> nat \<Rightarrow> bytes"

datatype phc_error = ErrInvalidHash | ErrIncompatibleVersion

definition phc_params :: string where
  "phc_params = ''m='' @ FormatInt (int defMemory) @ '',t='' @ FormatInt (int defTime) @ '',p='' @ FormatInt (int defThreads)"

definition Hash :: "kdf \<Rightarrow> bytes option \<Rightarrow> string \<Rightarrow> string option" where
  "Hash IDKey salt password =
     (case salt of
        None \<Rightarrow> None
      | Some salt \<Rightarrow>
          let key = IDKey (bytes_of password) salt defTime defMemory defThreads keyLen
          in Some (''$argon2id$v='' @ FormatInt argon2_Version @ ''$'' @ phc_params @ ''$'' @ std_encode salt @ ''$'' @ std_encode key))"

definition phc_decode :: "string \<Rightarrow> phc_error + nat \<times> nat \<times> nat \<times> bytes \<times> bytes" where
  "phc_decode phc =
     (case Split CHR ''$'' phc of
        [_, alg, ver, params, salt64, hash64] \<Rightarrow>
          if alg \<noteq> ''argon2id'' then Inl ErrInvalidHash
          else (case Option.bind (scan_lit ''v='' ver) scan_int of
            None \<Rightarrow> Inl ErrInvalidHash
          | Some (version, _) \<Rightarrow>
              if version \<noteq> argon2_Version then Inl ErrIncompatibleVersion
              else (case Option.bind (scan_lit ''m='' params) (scan_uint 32) of
                None \<Rightarrow> Inl ErrInvalidHash
              | Some (m, r1) \<Rightarrow>
                  (case Option.bind (scan_lit '',t='' r1) (scan_uint 32) of
                    None \<Rightarrow> Inl ErrInvalidHash
                  | Some (t, r2) \<Rightarrow>
                      (case Option.bind (scan_lit '',p='' r2) (scan_uint 8) of
                        None \<Rightarrow> Inl ErrInvalidHash
                      | Some (p, _) \<Rightarrow>
                          (case (std_decode salt64, std_decode hash64) of
                            (Some salt, Some hash) \<Rightarrow> Inr (m, t, p, salt, hash)
                          | _ \<Rightarrow> Inl ErrInvalidHash)))))
      | _ \<Rightarrow> Inl ErrInvalidHash)"

definition VerifyPassword :: "kdf \<Rightarrow> string \<Rightarrow> string \<Rightarrow> phc_error + bool" where
  "VerifyPassword IDKey password phc =
     (case phc_decode phc of
        Inl e \<Rightarrow> Inl e
      | Inr (m, t, p, salt, want) \<Rightarrow> Inr (IDKey (bytes_of password) salt t m p (length want) = want))"

section \<open>Accounts (adminuser)\<close>

datatype user_error = ErrUsernameTaken | ErrUserHash | ErrUserStore | ErrUserNotFound

definition CreateUser ::
  "kdf \<Rightarrow> (auth_call \<Rightarrow> bool) \<Rightarrow> time \<Rightarrow> bytes option \<Rightarrow> auth_db \<Rightarrow> string \<Rightarrow> string \<Rightarrow> bool \<Rightarrow> (user_error + user_row) \<times> auth_db" where
  "CreateUser IDKey flt now salt db username password isAdmin =
     (case Hash IDKey salt password of
        None \<Rightarrow> (Inl ErrUserHash, db)
      | Some h \<Rightarrow>
          if flt XUserInsert then (Inl ErrUserStore, db)
          else if \<exists>u \<in> set (a_users db). us_username u = username then (Inl ErrUsernameTaken, db)
          else
            let u = \<lparr>us_id = a_next_user db, us_username = username, us_password_hash = h, us_is_admin = isAdmin,
                     us_created_at = now, us_disabled_at = None\<rparr>
            in (Inr u, db\<lparr>a_users := a_users db @ [u], a_next_user := a_next_user db + 1\<rparr>))"

definition GetByUsername :: "(auth_call \<Rightarrow> bool) \<Rightarrow> auth_db \<Rightarrow> string \<Rightarrow> user_row lookup" where
  "GetByUsername flt db username = select (flt QUserByName) (\<lambda>u. us_username u = username) (a_users db)"

definition GetByID :: "(auth_call \<Rightarrow> bool) \<Rightarrow> auth_db \<Rightarrow> int \<Rightarrow> user_row lookup" where
  "GetByID flt db id' = select (flt QUserById) (\<lambda>u. us_id u = id') (a_users db)"

definition VerifyUser :: "kdf \<Rightarrow> (auth_call \<Rightarrow> bool) \<Rightarrow> auth_db \<Rightarrow> string \<Rightarrow> string \<Rightarrow> user_row lookup" where
  "VerifyUser IDKey flt db username password =
     (case select (flt QUserByName) (\<lambda>u. us_username u = username) (a_users db) of
        Absent \<Rightarrow> Absent
      | DbErr \<Rightarrow> DbErr
      | Found u \<Rightarrow>
          (case VerifyPassword IDKey password (us_password_hash u) of
             Inl _ \<Rightarrow> DbErr
           | Inr ok \<Rightarrow> if \<not> ok \<or> us_disabled_at u \<noteq> None then Absent else Found u))"

definition SetDisabled :: "(auth_call \<Rightarrow> bool) \<Rightarrow> time \<Rightarrow> auth_db \<Rightarrow> int \<Rightarrow> bool \<Rightarrow> user_error option \<times> auth_db" where
  "SetDisabled flt now db id' disabled =
     (if flt XUserUpdate then (Some ErrUserStore, db)
      else if \<not> (\<exists>u \<in> set (a_users db). us_id u = id') then (Some ErrUserNotFound, db)
      else (None, db\<lparr>a_users := update_rows (\<lambda>u. us_id u = id')
                      (us_disabled_at_update (\<lambda>_. if disabled then Some now else None)) (a_users db)\<rparr>))"

section \<open>The PHC string\<close>

lemma digit_run:
  assumes "\<forall>c \<in> set ds. is_digit c" and "rest = [] \<or> \<not> is_digit (hd rest)"
  shows "takeWhile is_digit (ds @ rest) = ds" "dropWhile is_digit (ds @ rest) = rest"
  using assms by (cases rest; auto simp: takeWhile_append dropWhile_append)+

lemma digit_not_blank: "is_digit c \<Longrightarrow> \<not> is_blank c"
  by (auto simp: is_blank_def is_space_def is_digit_def)

lemma skip_no_blank: "s \<noteq> [] \<Longrightarrow> \<not> is_blank (hd s) \<Longrightarrow> dropWhile is_blank (s @ t) = s @ t"
  by (cases s) auto

lemma format_nat_start: "dropWhile is_blank (format_nat n @ rest) = format_nat n @ rest"
  by (rule skip_no_blank) (simp_all add: digit_not_blank hd_format_nat_digit)

lemma scan_uint_format:
  assumes "n < 2 ^ bits" "n < 2 ^ 64" "rest = [] \<or> \<not> is_digit (hd rest)"
  shows "scan_uint bits (format_nat n @ rest) = Some (n, rest)"
  using assms digit_run [OF format_nat_digits assms(3), of n]
  by (simp add: scan_uint_def format_nat_start ParseUint_format_nat)

lemma scan_int_format:
  assumes "n < 2 ^ 63" "rest = [] \<or> \<not> is_digit (hd rest)"
  shows "scan_int (format_nat n @ rest) = Some (int n, rest)"
proof -
  obtain c cs where c: "format_nat n = c # cs" "c \<noteq> CHR ''+''" "c \<noteq> CHR ''-''"
    using format_nat_nonempty [of n] hd_format_nat_sign [of n] by (cases "format_nat n") auto
  have "ParseInt (format_nat n) = (int n, None)"
    using ParseInt_FormatInt [of "int n"] assms(1) by (simp add: FormatInt_def int64_min_def int64_max_def)
  then show ?thesis
    using digit_run [OF format_nat_digits assms(2), of n] format_nat_start [of n rest] c
    by (simp add: scan_int_def Let_def)
qed

lemma format_nat_no_dollar: "CHR ''$'' \<notin> set (format_nat n)"
  using format_nat_digits [of n] by (auto simp: is_digit_def)

lemma phc_decode_Hash:
  assumes "Hash IDKey (Some salt) password = Some phc"
  shows "phc_decode phc = Inr (defMemory, defTime, defThreads, salt, IDKey (bytes_of password) salt defTime defMemory defThreads keyLen)"
proof -
  let ?key = "IDKey (bytes_of password) salt defTime defMemory defThreads keyLen"
  let ?ver = "''v='' @ format_nat 19"
  let ?par = "''m='' @ format_nat defMemory @ '',t='' @ format_nat defTime @ '',p='' @ format_nat defThreads"
  have phc: "phc = [] @ CHR ''$'' # (''argon2id'' @ CHR ''$'' # (?ver @ CHR ''$'' # (?par @ CHR ''$'' #
      (std_encode salt @ CHR ''$'' # std_encode ?key))))"
    using assms by (simp add: Hash_def phc_params_def FormatInt_def argon2_Version_def Let_def)
  have "CHR ''$'' \<notin> set ?ver" "CHR ''$'' \<notin> set ?par"
    using format_nat_no_dollar by auto
  then have "Split CHR ''$'' phc = [[], ''argon2id'', ?ver, ?par, std_encode salt, std_encode ?key]"
    unfolding phc by (subst Split_Cons_part, simp)+ (simp add: Split_no_sep [OF std_encode_no_dollar])
  moreover have "scan_lit ''v='' ?ver = Some (format_nat 19 @ [])" "scan_int (format_nat 19 @ []) = Some (19, [])"
    using scan_int_format [of 19 "[]"] by (simp_all add: scan_lit_def)
  moreover have "scan_lit ''m='' ?par = Some (format_nat defMemory @ ('',t='' @ format_nat defTime @ '',p='' @ format_nat defThreads))"
    "scan_lit '',t='' ('',t='' @ format_nat defTime @ '',p='' @ format_nat defThreads) = Some (format_nat defTime @ ('',p='' @ format_nat defThreads))"
    "scan_lit '',p='' ('',p='' @ format_nat defThreads) = Some (format_nat defThreads @ [])"
    by (simp_all add: scan_lit_def)
  moreover have "scan_uint 32 (format_nat defMemory @ ('',t='' @ format_nat defTime @ '',p='' @ format_nat defThreads)) =
      Some (defMemory, '',t='' @ format_nat defTime @ '',p='' @ format_nat defThreads)"
    by (rule scan_uint_format) (simp_all add: defMemory_def is_digit_def)
  moreover have "scan_uint 32 (format_nat defTime @ ('',p='' @ format_nat defThreads)) = Some (defTime, '',p='' @ format_nat defThreads)"
    by (rule scan_uint_format) (simp_all add: defTime_def is_digit_def)
  moreover have "scan_uint 8 (format_nat defThreads @ []) = Some (defThreads, [])"
    by (rule scan_uint_format) (simp_all add: defThreads_def)
  ultimately show ?thesis
    unfolding phc_decode_def by (simp only: list.case option.case bind.bind_lunit prod.case sum.case std_decode_encode refl if_False simp_thms argon2_Version_def)
qed

text \<open>
  C18 (password round trip).  The string stored for a password carries its own parameters and salt:
  checking any password against it compares the keys derived from the two passwords with that salt, so the
  password itself is accepted, and another one only if it derives the same key.
\<close>

theorem password_roundtrip:
  assumes "Hash IDKey (Some salt) password = Some phc"
    and "\<forall>pw. length (IDKey pw salt defTime defMemory defThreads keyLen) = keyLen"
  shows "VerifyPassword IDKey other phc =
    Inr (IDKey (bytes_of other) salt defTime defMemory defThreads keyLen =
         IDKey (bytes_of password) salt defTime defMemory defThreads keyLen) \<and>
    VerifyPassword IDKey password phc = Inr True"
  using assms(2) phc_decode_Hash [OF assms(1)] by (simp add: VerifyPassword_def)

theorem password_roundtrip_witness:
  "VerifyPassword (\<lambda>pw salt t m p n. sha256 (pw @ salt)) ''secret''
     (the (Hash (\<lambda>pw salt t m p n. sha256 (pw @ salt)) (Some [1, 2]) ''secret'')) = Inr True"
  using password_roundtrip [of "\<lambda>pw salt t m p n. sha256 (pw @ salt)" "[1, 2]" "''secret''"
      "the (Hash (\<lambda>pw salt t m p n. sha256 (pw @ salt)) (Some [1, 2]) ''secret'')"]
  by (simp add: Hash_def keyLen_def Let_def)

end
