(* ===== verification/Admin_Auth.thy ===== *)
theory Admin_Auth
  imports Basic_Cache Argon2_Phc
begin

text \<open>
  Authentication of the admin API (\<open>adminhttp\<close>): the client address, the carriers (bearer token,
  operator key, Basic, session cookie), the middleware \<open>Auth\<close> with its rate limits, and the two
  authorization gates.

  The handler behind a middleware is a function of the request, the identity and the state.
  \<open>last_used_at\<close> is written at once where the code starts a goroutine.  A session cookie is looked up in the first
  \<open>Cookie\<close> header.
\<close>

section \<open>Requests\<close>

text \<open>\<open>net.SplitHostPort\<close>: the host, or \<open>None\<close> for an address it rejects.\<close>

definition split_host :: "string \<Rightarrow> string option" where
  "split_host hp =
     (if CHR '':'' \<notin> set hp then None
      else
        let i = length hp - 1 - length (takeWhile (\<lambda>c. c \<noteq> CHR '':'') (rev hp)) in
        if hp ! 0 = CHR ''['' then
          (if CHR '']'' \<notin> set hp then None
           else
             let e = length (takeWhile (\<lambda>c. c \<noteq> CHR '']'') hp) in
             if e + 1 \<noteq> i then None
             else if CHR ''['' \<in> set (drop 1 hp) \<or> CHR '']'' \<in> set (drop (e + 1) hp) then None
             else Some (take (e - 1) (drop 1 hp)))
        else
          let host = take i hp in
          if CHR '':'' \<in> set host then None
          else if CHR ''['' \<in> set hp \<or> CHR '']'' \<in> set hp then None
          else Some host)"

definition RemoteIP :: "http_req \<Rightarrow> string" where
  "RemoteIP r =
     (let xrip = TrimSpace (rq_header r ''X-Real-IP'') in
      if rq_origin r = Some OriginPublic \<and> xrip \<noteq> [] then xrip
      else case split_host (rq_remote_addr r) of None \<Rightarrow> rq_remote_addr r | Some host \<Rightarrow> host)"

definition bearer :: "http_req \<Rightarrow> string option" where
  "bearer r =
     (let h = rq_header r ''Authorization'' in
      if length h \<le> 7 \<or> \<not> EqualFold (take 7 h) ''Bearer '' then None
      else let tok = TrimSpace (drop 7 h) in if tok = [] then None else Some tok)"

definition hasBasicScheme :: "http_req \<Rightarrow> bool" where
  "hasBasicScheme r =
     (let h = rq_header r ''Authorization'' in length h > 6 \<and> EqualFold (take 6 h) ''Basic '')"

text \<open>\<open>Request.BasicAuth\<close>.\<close>

definition BasicAuth :: "http_req \<Rightarrow> (string \<times> string) option" where
  "BasicAuth r =
     (let h = rq_header r ''Authorization'' in
      if length h < 6 \<or> \<not> EqualFold (take 6 h) ''Basic '' then None
      else case pad_decode (drop 6 h) of None \<Rightarrow> None | Some b \<Rightarrow> Cut CHR '':'' (string_of b))"

definition valid_cookie_char :: "char \<Rightarrow> bool" where
  "valid_cookie_char c \<longleftrightarrow>
     0x20 \<le> (of_char c :: nat) \<and> (of_char c :: nat) < 0x7f \<and> c \<notin> {CHR 0x22, CHR '';'', CHR 0x5C}"

text \<open>\<open>Request.Cookie\<close>: the first cookie of that name with a valid value, its quotes removed.\<close>

definition cookie_value :: "string \<Rightarrow> string option" where
  "cookie_value v =
     (let v = (if length v > 1 \<and> hd v = CHR 0x22 \<and> last v = CHR 0x22 then butlast (tl v) else v)
      in if list_all valid_cookie_char v then Some v else None)"

definition trim_ows :: "string \<Rightarrow> string" where
  "trim_ows s = trim_by (\<lambda>c. c \<in> {CHR '' '', CHR 0x09, CHR 0x0A, CHR 0x0D}) s"

definition cookie_part :: "string \<Rightarrow> string \<Rightarrow> string option" where
  "cookie_part name part =
     (case Cut CHR ''='' (trim_ows part) of
        None \<Rightarrow> if trim_ows part = name then cookie_value [] else None
      | Some (n, v) \<Rightarrow> if trim_ows n = name then cookie_value v else None)"

definition Cookie :: "http_req \<Rightarrow> string \<Rightarrow> string option" where
  "Cookie r name =
     (case List.map_filter (cookie_part name) (Split CHR '';'' (rq_header r ''Cookie'')) of
        [] \<Rightarrow> None | v # _ \<Rightarrow> Some v)"

definition csrfSafeMethod :: "string \<Rightarrow> bool" where
  "csrfSafeMethod m \<longleftrightarrow> m = ''GET'' \<or> m = ''HEAD'' \<or> m = ''OPTIONS''"

section \<open>Principals and replies\<close>

datatype principal_kind = KindOperator | KindBearer | KindSession | KindBasic

record principal =
  pr_kind :: principal_kind
  pr_id :: string
  pr_label :: string
  pr_scopes :: "string list"
  pr_is_admin :: bool

definition ScopeImageRead :: string where "ScopeImageRead = ''image:read''"
definition ScopeImageWrite :: string where "ScopeImageWrite = ''image:write''"

definition HasScope :: "principal \<Rightarrow> string \<Rightarrow> bool" where
  "HasScope p scope = (scope \<in> set (pr_scopes p))"

definition implicitFullScopes :: "string list" where
  "implicitFullScopes = [ScopeImageRead, ScopeImageWrite]"

definition kind_name :: "principal_kind \<Rightarrow> string" where
  "kind_name k = (case k of KindOperator \<Rightarrow> ''operator'' | KindBearer \<Rightarrow> ''bearer'' | KindSession \<Rightarrow> ''session'' | KindBasic \<Rightarrow> ''basic'')"

text \<open>The JSON envelope of an error; code and message are constants that need no escaping.\<close>

definition WriteErr :: "nat \<Rightarrow> string \<Rightarrow> string \<Rightarrow> http_resp" where
  "WriteErr status code msg =
     \<lparr>rs_status = status, rs_headers = [(''Content-Type'', ''application/json'')],
      rs_body = ''{\"code\":\"'' @ code @ ''\",\"error\":\"'' @ msg @ ''\",\"success\":false}'' @ [CHR 0x0A]\<rparr>"

definition add_header :: "string \<Rightarrow> string \<Rightarrow> http_resp \<Rightarrow> http_resp" where
  "add_header k v r = r\<lparr>rs_headers := (k, v) # rs_headers r\<rparr>"

definition unauthorized :: http_resp where
  "unauthorized = WriteErr 401 ''unauthorized'' ''invalid or missing credentials''"

definition internal_err :: http_resp where
  "internal_err = WriteErr 500 ''internal'' ''auth lookup failed''"

section \<open>State\<close>

text \<open>\<open>sem_busy\<close> counts the argon2 slots taken by other requests.\<close>

record auth_state =
  as_db :: auth_db
  as_limits :: limiters
  as_cache :: basic_cache
  sem_busy :: nat
  sem_cap :: nat
  argon2Verifies :: nat

definition argon2ParallelFromEnv :: "(string \<Rightarrow> string) \<Rightarrow> int" where
  "argon2ParallelFromEnv getenv =
     (let v = getenv ''ADMIN_ARGON2_PARALLEL'' in
      if v \<noteq> [] then (case Atoi v of (n, err) \<Rightarrow> if err = None \<and> n > 0 then n else 3) else 3)"

definition TryAcquireArgon2 :: "auth_state \<Rightarrow> auth_state option" where
  "TryAcquireArgon2 st = (if sem_busy st < sem_cap st then Some (st\<lparr>sem_busy := sem_busy st + 1\<rparr>) else None)"

definition ReleaseArgon2 :: "auth_state \<Rightarrow> auth_state" where
  "ReleaseArgon2 st = st\<lparr>sem_busy := sem_busy st - 1\<rparr>"

text \<open>Appending an audit row; empty strings become \<open>NULL\<close>.\<close>

definition nullStr :: "string \<Rightarrow> string option" where
  "nullStr s = (if s = [] then None else Some s)"

definition audit_write ::
  "(auth_call \<Rightarrow> bool) \<Rightarrow> auth_db \<Rightarrow> string \<Rightarrow> string \<Rightarrow> string \<Rightarrow> string \<Rightarrow> string \<Rightarrow> bool \<Rightarrow> auth_db" where
  "audit_write flt db kind actor action target ip ok =
     (if flt XAudit then db
      else db\<lparr>a_audit := a_audit db @ [\<lparr>au_actor_kind = kind, au_actor_id = nullStr actor, au_action = action,
                au_target = nullStr target, au_remote_ip = nullStr ip, au_ok = ok\<rparr>]\<rparr>)"

section \<open>Resolving a credential\<close>

definition basicPrincipal :: "string \<Rightarrow> int \<Rightarrow> bool \<Rightarrow> principal" where
  "basicPrincipal user userID isAdmin =
     \<lparr>pr_kind = KindBasic, pr_id = FormatInt userID, pr_label = user, pr_scopes = implicitFullScopes, pr_is_admin = isAdmin\<rparr>"

definition resolveBasic ::
  "kdf \<Rightarrow> (auth_call \<Rightarrow> bool) \<Rightarrow> time \<Rightarrow> auth_state \<Rightarrow> string \<Rightarrow> string \<Rightarrow> string \<Rightarrow> (nat + principal) \<times> auth_state" where
  "resolveBasic IDKey flt now st user pass remoteIP =
     (let (hit, c) = cache_get now user pass (as_cache st); st = st\<lparr>as_cache := c\<rparr> in
      case hit of
        Some e \<Rightarrow> (Inr (basicPrincipal user (ce_user e) (ce_admin e)), st)
      | None \<Rightarrow>
          (case TryAcquireArgon2 st of
             None \<Rightarrow> (Inl 429, st)
           | Some st \<Rightarrow>
               let st = st\<lparr>argon2Verifies := argon2Verifies st + 1\<rparr> in
               (case VerifyUser IDKey flt (as_db st) user pass of
                  DbErr \<Rightarrow> (Inl 500, ReleaseArgon2 st)
                | Absent \<Rightarrow>
                    (Inl 401, ReleaseArgon2 (st\<lparr>as_db := audit_write flt (as_db st) ''basic'' [] ''basic.login_fail'' user remoteIP False\<rparr>))
                | Found u \<Rightarrow>
                    (Inr (basicPrincipal user (us_id u) (us_is_admin u)),
                     ReleaseArgon2 (case cache_put now user pass (us_id u) (us_is_admin u) (as_cache st) of
                                      None \<Rightarrow> st | Some c \<Rightarrow> st\<lparr>as_cache := c\<rparr>)))))"

definition resolveSession :: "(auth_call \<Rightarrow> bool) \<Rightarrow> time \<Rightarrow> auth_db \<Rightarrow> string \<Rightarrow> principal lookup" where
  "resolveSession flt now db secret =
     (case ResolveSession flt now db secret of
        DbErr \<Rightarrow> DbErr
      | Absent \<Rightarrow> Absent
      | Found sess \<Rightarrow>
          (case GetByID flt db (ss_user_id sess) of
             Absent \<Rightarrow> Absent
           | DbErr \<Rightarrow> DbErr
           | Found u \<Rightarrow>
               if us_disabled_at u \<noteq> None then Absent
               else Found \<lparr>pr_kind = KindSession, pr_id = FormatInt (us_id u), pr_label = us_username u,
                           pr_scopes = implicitFullScopes, pr_is_admin = us_is_admin u\<rparr>))"

section \<open>The middleware\<close>

type_synonym 'w handler = "http_req \<Rightarrow> principal \<Rightarrow> AuthResult option \<Rightarrow> auth_state \<times> 'w \<Rightarrow> http_resp \<times> auth_state \<times> 'w"

definition principalLimiterFor :: "string \<Rightarrow> limiters \<Rightarrow> limiter" where
  "principalLimiterFor m l = (if csrfSafeMethod m then principalRead l else principalWrite l)"

definition set_principalLimiter :: "string \<Rightarrow> limiter \<Rightarrow> limiters \<Rightarrow> limiters" where
  "set_principalLimiter m rl l = (if csrfSafeMethod m then l\<lparr>principalRead := rl\<rparr> else l\<lparr>principalWrite := rl\<rparr>)"

definition too_many :: "int \<Rightarrow> string \<Rightarrow> http_resp" where
  "too_many n msg = add_header ''Retry-After'' (FormatInt n) (WriteErr 429 ''rate_limited'' msg)"

definition admitPrincipal ::
  "'w handler \<Rightarrow> time \<Rightarrow> http_req \<Rightarrow> principal \<Rightarrow> AuthResult option \<Rightarrow> auth_state \<times> 'w \<Rightarrow> http_resp \<times> auth_state \<times> 'w" where
  "admitPrincipal next' now r pr op s =
     (let (st, w) = s; key = kind_name (pr_kind pr) @ '':'' @ pr_id pr;
          (ok, rl) = allow now key (principalLimiterFor (rq_method r) (as_limits st)) in
      if \<not> ok then
        let (n, rl) = retryAfter now key rl
        in (too_many n ''request rate exceeded; retry shortly'',
            st\<lparr>as_limits := set_principalLimiter (rq_method r) rl (as_limits st)\<rparr>, w)
      else next' r pr op (st\<lparr>as_limits := set_principalLimiter (rq_method r) rl (as_limits st)\<rparr>, w))"

definition Auth ::
  "kdf \<Rightarrow> (auth_call \<Rightarrow> bool) \<Rightarrow> time \<Rightarrow> 'w handler \<Rightarrow> http_req \<Rightarrow> auth_state \<times> 'w \<Rightarrow> http_resp \<times> auth_state \<times> 'w" where
  "Auth IDKey flt now next' r s =
     (let (st, w) = s in
      case bearer r of
        Some raw \<Rightarrow>
          if take (length TokenPrefix) raw = TokenPrefix then
            (case ResolveToken flt now (as_db st) raw of
               DbErr \<Rightarrow> (internal_err, s)
             | Absent \<Rightarrow> (unauthorized, s)
             | Found tok \<Rightarrow>
                 admitPrincipal next' now r
                   \<lparr>pr_kind = KindBearer, pr_id = tk_token_id tok, pr_label = tk_label tok, pr_scopes = tk_scopes tok, pr_is_admin = False\<rparr>
                   None (st\<lparr>as_db := TouchToken flt now (as_db st) (tk_id tok)\<rparr>, w))
          else if rq_origin r \<noteq> Some OriginLoopback then (unauthorized, s)
          else
            (case Authenticate flt now (as_db st) raw of
               DbErr \<Rightarrow> (internal_err, s)
             | Absent \<Rightarrow> (unauthorized, s)
             | Found op \<Rightarrow>
                 admitPrincipal next' now r
                   \<lparr>pr_kind = KindOperator, pr_id = FormatInt (ar_key_id op), pr_label = ar_label op, pr_scopes = implicitFullScopes, pr_is_admin = ar_is_admin op\<rparr>
                   (Some op) (st\<lparr>as_db := TouchOperator flt now (as_db st) (ar_key_id op)\<rparr>, w))
      | None \<Rightarrow>
          if hasBasicScheme r then
            (case BasicAuth r of
               None \<Rightarrow> (unauthorized, s)
             | Some (user, pass) \<Rightarrow>
                 (case resolveBasic IDKey flt now st user pass (RemoteIP r) of
                    (Inr pr, st) \<Rightarrow> admitPrincipal next' now r pr None (st, w)
                  | (Inl status, st) \<Rightarrow>
                      if status = 429 then (too_many 1 ''authentication capacity exceeded; retry shortly'', st, w)
                      else if status = 500 then (internal_err, st, w)
                      else (unauthorized, st, w)))
          else
            (case Cookie r ''ppk_sid'' of
               Some secret \<Rightarrow>
                 if secret \<noteq> [] then
                   (case resolveSession flt now (as_db st) secret of
                      DbErr \<Rightarrow> (internal_err, s)
                    | Absent \<Rightarrow> (unauthorized, s)
                    | Found pr \<Rightarrow>
                        if \<not> csrfSafeMethod (rq_method r) \<and> rq_header r ''X-Requested-With'' \<noteq> ''picpak''
                        then (WriteErr 403 ''csrf_required'' ''mutating session requests must send X-Requested-With: picpak'', s)
                        else admitPrincipal next' now r pr None s)
                 else (unauthorized, s)
             | None \<Rightarrow> (unauthorized, s)))"

definition RequireAdmin :: "'w handler \<Rightarrow> 'w handler" where
  "RequireAdmin next' r pr op s =
     (if \<not> pr_is_admin pr then (WriteErr 403 ''forbidden'' ''admin privilege required'', s) else next' r pr op s)"

definition RequireScope :: "string \<Rightarrow> 'w handler \<Rightarrow> 'w handler" where
  "RequireScope scope next' r pr op s =
     (if \<not> HasScope pr scope then (WriteErr 403 ''forbidden'' (''missing required scope: '' @ scope), s) else next' r pr op s)"

definition IPRateLimit ::
  "time \<Rightarrow> (http_req \<Rightarrow> auth_state \<times> 'w \<Rightarrow> http_resp \<times> auth_state \<times> 'w) \<Rightarrow> http_req \<Rightarrow> auth_state \<times> 'w \<Rightarrow> http_resp \<times> auth_state \<times> 'w" where
  "IPRateLimit now next' r s =
     (let (st, w) = s; ip = RemoteIP r; (ok, rl) = peek now ip (ipLimiter (as_limits st)) in
      if \<not> ok then
        let (n, rl) = retryAfter now ip rl
        in (too_many n ''too many attempts; retry shortly'', st\<lparr>as_limits := (as_limits st)\<lparr>ipLimiter := rl\<rparr>\<rparr>, w)
      else
        let (resp, st, w) = next' r (st\<lparr>as_limits := (as_limits st)\<lparr>ipLimiter := rl\<rparr>\<rparr>, w) in
        if rs_status resp = 401
        then (resp, st\<lparr>as_limits := (as_limits st)\<lparr>ipLimiter := consume now ip (ipLimiter (as_limits st))\<rparr>\<rparr>, w)
        else (resp, st, w))"

section \<open>Who is let through\<close>

text \<open>
  What a request must carry to act as a principal, by carrier: a live API token (never an
  administrator), an operator key on the loopback listener, a Basic credential that verifies or was
  verified within the time to live, or a session cookie, with the CSRF header where the method changes state.
\<close>

inductive authentic_as :: "kdf \<Rightarrow> time \<Rightarrow> auth_state \<Rightarrow> http_req \<Rightarrow> principal \<Rightarrow> bool" for IDKey now st r where
  token: "bearer r = Some (TokenPrefix @ tk_token_id tok @ ''_'' @ secret) \<Longrightarrow> tok \<in> set (a_tokens (as_db st)) \<Longrightarrow>
    sha256 (bytes_of secret) = tk_secret_hash tok \<Longrightarrow> tk_disabled_at tok = None \<Longrightarrow> \<not> expired (tk_expires_at tok) now \<Longrightarrow>
    authentic_as IDKey now st r
      \<lparr>pr_kind = KindBearer, pr_id = tk_token_id tok, pr_label = tk_label tok, pr_scopes = tk_scopes tok, pr_is_admin = False\<rparr>"
| operator: "rq_origin r = Some OriginLoopback \<Longrightarrow> bearer r = Some raw \<Longrightarrow> op \<in> set (a_operators (as_db st)) \<Longrightarrow>
    sha256 (bytes_of raw) = ok_token_hash op \<Longrightarrow> ok_disabled_at op = None \<Longrightarrow> \<not> expired (ok_expires_at op) now \<Longrightarrow>
    authentic_as IDKey now st r
      \<lparr>pr_kind = KindOperator, pr_id = FormatInt (ok_id op), pr_label = ok_label op, pr_scopes = implicitFullScopes, pr_is_admin = ok_is_admin op\<rparr>"
| basic: "bearer r = None \<Longrightarrow> BasicAuth r = Some (us_username u, pass) \<Longrightarrow> u \<in> set (a_users (as_db st)) \<Longrightarrow>
    VerifyPassword IDKey pass (us_password_hash u) = Inr True \<Longrightarrow> us_disabled_at u = None \<Longrightarrow>
    authentic_as IDKey now st r (basicPrincipal (us_username u) (us_id u) (us_is_admin u))"
| cached: "bearer r = None \<Longrightarrow> BasicAuth r = Some (user, pass) \<Longrightarrow> fst (cache_get now user pass (as_cache st)) = Some e \<Longrightarrow>
    authentic_as IDKey now st r (basicPrincipal user (ce_user e) (ce_admin e))"
| session: "bearer r = None \<Longrightarrow> Cookie r ''ppk_sid'' = Some secret \<Longrightarrow> a_sessions (as_db st) (hashSecret secret) = Some s \<Longrightarrow>
    now < ss_expires_at s \<Longrightarrow> u \<in> set (a_users (as_db st)) \<Longrightarrow> us_id u = ss_user_id s \<Longrightarrow> us_disabled_at u = None \<Longrightarrow>
    csrfSafeMethod (rq_method r) \<or> rq_header r ''X-Requested-With'' = ''picpak'' \<Longrightarrow>
    authentic_as IDKey now st r
      \<lparr>pr_kind = KindSession, pr_id = FormatInt (us_id u), pr_label = us_username u, pr_scopes = implicitFullScopes, pr_is_admin = us_is_admin u\<rparr>"

lemma ParseToken_Some:
  assumes "ParseToken raw = Some (tid, secret)"
  shows "raw = TokenPrefix @ tid @ ''_'' @ secret" and "length tid = tokenIDEncLen"
proof -
  let ?rest = "drop (length TokenPrefix) raw"
  have P: "take (length TokenPrefix) raw = TokenPrefix" "tokenIDEncLen + 2 \<le> length ?rest" "?rest ! tokenIDEncLen = CHR ''_''"
    "tid = take tokenIDEncLen ?rest" "secret = drop (tokenIDEncLen + 1) ?rest"
    using assms by (auto simp: ParseToken_def Let_def split: if_splits)
  have "tokenIDEncLen < length ?rest"
    using P(2) by linarith
  then have "?rest = take tokenIDEncLen ?rest @ ?rest ! tokenIDEncLen # drop (tokenIDEncLen + 1) ?rest"
    unfolding Suc_eq_plus1 [symmetric] by (rule id_take_nth_drop)
  then show "raw = TokenPrefix @ tid @ ''_'' @ secret"
    using P by (metis append_Cons append_Nil append_take_drop_id)
  show "length tid = tokenIDEncLen"
    using P(2,4) by simp
qed

lemma ResolveToken_Found:
  assumes "ResolveToken flt now db raw = Found tok"
  obtains secret where "raw = TokenPrefix @ tk_token_id tok @ ''_'' @ secret" "tok \<in> set (a_tokens db)"
    "sha256 (bytes_of secret) = tk_secret_hash tok" "tk_disabled_at tok = None" "\<not> expired (tk_expires_at tok) now"
proof -
  obtain tid secret where p: "ParseToken raw = Some (tid, secret)"
    and f: "find (\<lambda>r. tk_token_id r = tid \<and> tk_disabled_at r = None) (a_tokens db) = Some tok"
    and h: "sha256 (bytes_of secret) = tk_secret_hash tok" "\<not> expired (tk_expires_at tok) now"
    using assms by (auto simp: ResolveToken_def select_Found split: option.splits lookup.splits if_splits)
  then show thesis
    using that ParseToken_Some(1) [OF p] find_SomeD [OF f] by blast
qed

lemma Authenticate_Found:
  assumes "Authenticate flt now db raw = Found a"
  obtains op where "op \<in> set (a_operators db)" "sha256 (bytes_of raw) = ok_token_hash op" "ok_disabled_at op = None"
    "\<not> expired (ok_expires_at op) now" "a = \<lparr>ar_key_id = ok_id op, ar_is_admin = ok_is_admin op, ar_label = ok_label op\<rparr>"
proof -
  obtain op where f: "find (\<lambda>r. ok_token_hash r = sha256 (bytes_of raw) \<and> ok_disabled_at r = None) (a_operators db) = Some op"
    and a: "\<not> expired (ok_expires_at op) now" "a = \<lparr>ar_key_id = ok_id op, ar_is_admin = ok_is_admin op, ar_label = ok_label op\<rparr>"
    using assms by (auto simp: Authenticate_def Let_def select_Found split: lookup.splits if_splits)
  then show thesis
    using that find_SomeD [OF f] by auto
qed

lemma VerifyUser_Found:
  assumes "VerifyUser IDKey flt db user pass = Found u"
  shows "u \<in> set (a_users db)" "us_username u = user" "VerifyPassword IDKey pass (us_password_hash u) = Inr True" "us_disabled_at u = None"
  using assms find_SomeD [of _ "a_users db" u]
  by (auto simp: VerifyUser_def select_Found split: lookup.splits sum.splits if_splits)

lemma resolveSession_Found:
  assumes "resolveSession flt now db secret = Found pr"
  obtains s u where "a_sessions db (hashSecret secret) = Some s" "now < ss_expires_at s" "u \<in> set (a_users db)"
    "us_id u = ss_user_id s" "us_disabled_at u = None"
    "pr = \<lparr>pr_kind = KindSession, pr_id = FormatInt (us_id u), pr_label = us_username u, pr_scopes = implicitFullScopes, pr_is_admin = us_is_admin u\<rparr>"
proof -
  obtain s u where s: "a_sessions db (hashSecret secret) = Some s" "now < ss_expires_at s"
    and f: "find (\<lambda>u. us_id u = ss_user_id s) (a_users db) = Some u" and u: "us_disabled_at u = None"
    "pr = \<lparr>pr_kind = KindSession, pr_id = FormatInt (us_id u), pr_label = us_username u, pr_scopes = implicitFullScopes, pr_is_admin = us_is_admin u\<rparr>"
    using assms by (auto simp: resolveSession_def ResolveSession_def GetByID_def select_Found split: lookup.splits option.splits if_splits)
  then show thesis
    using that find_SomeD [OF f] by auto
qed

text \<open>The replies that refuse a request before its handler.\<close>

definition refusal :: "http_resp \<Rightarrow> bool" where
  "refusal resp \<longleftrightarrow> resp = unauthorized \<or> (\<exists>status code msg. status \<in> {403, 500} \<and> resp = WriteErr status code msg) \<or>
     (\<exists>n msg. resp = too_many n msg)"

definition handled :: "'w handler \<Rightarrow> http_req \<Rightarrow> principal \<Rightarrow> 'w \<Rightarrow> http_resp \<times> auth_state \<times> 'w \<Rightarrow> bool" where
  "handled next' r pr w out \<longleftrightarrow> (\<exists>op st'. fst out = fst (next' r pr op (st', w)) \<and> snd (snd out) = snd (snd (next' r pr op (st', w))))"

definition guarded :: "kdf \<Rightarrow> time \<Rightarrow> 'w handler \<Rightarrow> http_req \<Rightarrow> auth_state \<Rightarrow> 'w \<Rightarrow> (principal \<Rightarrow> bool) \<Rightarrow> http_resp \<times> auth_state \<times> 'w \<Rightarrow> bool" where
  "guarded IDKey now h r st w P out \<longleftrightarrow>
     (refusal (fst out) \<and> snd (snd out) = w) \<or> (\<exists>pr. authentic_as IDKey now st r pr \<and> P pr \<and> handled h r pr w out)"

lemma admitPrincipal_guarded:
  assumes "authentic_as IDKey now st r pr"
  shows "guarded IDKey now next' r st w (\<lambda>_. True) (admitPrincipal next' now r pr op (st', w))"
proof -
  obtain ok rl where a: "allow now (kind_name (pr_kind pr) @ '':'' @ pr_id pr) (principalLimiterFor (rq_method r) (as_limits st')) = (ok, rl)"
    by fastforce
  show ?thesis
  proof (cases ok)
    case True
    then have "handled next' r pr w (admitPrincipal next' now r pr op (st', w))"
      using a by (auto simp: admitPrincipal_def handled_def Let_def)
    then show ?thesis
      using assms unfolding guarded_def by blast
  next
    case False
    then show ?thesis
      using a by (auto simp: admitPrincipal_def guarded_def refusal_def Let_def split: prod.split)
  qed
qed

lemma refusal_simps [simp]: "refusal unauthorized" "refusal internal_err" "refusal (too_many n msg)" "refusal (WriteErr 403 c m)"
  by (auto simp: refusal_def internal_err_def)

lemma guarded_refusal: "refusal (fst out) \<Longrightarrow> snd (snd out) = w \<Longrightarrow> guarded IDKey now h r st w P out"
  by (simp add: guarded_def)

lemma resolveBasic_authentic:
  assumes "bearer r = None" "BasicAuth r = Some (user, pass)" "resolveBasic IDKey flt now st user pass ip = (Inr pr, st')"
  shows "authentic_as IDKey now st r pr"
proof (cases "fst (cache_get now user pass (as_cache st))")
  case (Some e)
  then show ?thesis
    using assms by (auto simp: resolveBasic_def Let_def case_prod_beta intro!: cached)
next
  case None
  then obtain u where u: "VerifyUser IDKey flt (as_db st) user pass = Found u" "pr = basicPrincipal user (us_id u) (us_is_admin u)"
    using assms(3) by (auto simp: resolveBasic_def Let_def case_prod_beta TryAcquireArgon2_def split: lookup.splits if_splits)
  show ?thesis
    using assms(1,2) VerifyUser_Found [OF u(1)] unfolding u(2) by (auto intro: basic)
qed

lemma Auth_guarded: "guarded IDKey now next' r st w (\<lambda>_. True) (Auth IDKey flt now next' r (st, w))"
proof (cases "bearer r")
  case (Some raw)
  show ?thesis
  proof (cases "take (length TokenPrefix) raw = TokenPrefix")
    case True
    show ?thesis
    proof (cases "ResolveToken flt now (as_db st) raw")
      case (Found tok)
      then have "authentic_as IDKey now st r
          \<lparr>pr_kind = KindBearer, pr_id = tk_token_id tok, pr_label = tk_label tok, pr_scopes = tk_scopes tok, pr_is_admin = False\<rparr>"
        using Some by (auto elim!: ResolveToken_Found intro: token)
      then show ?thesis
        using Some True Found by (simp add: Auth_def admitPrincipal_guarded)
    qed (use Some True in \<open>simp_all add: Auth_def guarded_refusal\<close>)
  next
    case False
    show ?thesis
    proof (cases "rq_origin r = Some OriginLoopback")
      case origin: True
      show ?thesis
      proof (cases "Authenticate flt now (as_db st) raw")
        case (Found op)
        then have "authentic_as IDKey now st r
            \<lparr>pr_kind = KindOperator, pr_id = FormatInt (ar_key_id op), pr_label = ar_label op, pr_scopes = implicitFullScopes, pr_is_admin = ar_is_admin op\<rparr>"
          using Some origin by (auto elim!: Authenticate_Found intro: operator)
        then show ?thesis
          using Some False origin Found by (simp add: Auth_def admitPrincipal_guarded)
      qed (use Some False origin in \<open>simp_all add: Auth_def guarded_refusal\<close>)
    qed (use Some False in \<open>simp add: Auth_def guarded_refusal\<close>)
  qed
next
  case None
  show ?thesis
  proof (cases "hasBasicScheme r")
    case True
    show ?thesis
    proof (cases "BasicAuth r")
      case (Some up)
      obtain user pass where up: "up = (user, pass)"
        by fastforce
      obtain res st' where res: "resolveBasic IDKey flt now st user pass (RemoteIP r) = (res, st')"
        by fastforce
      show ?thesis
      proof (cases res)
        case (Inl status)
        then show ?thesis
          using None True Some res by (simp add: Auth_def up guarded_refusal)
      next
        case (Inr pr)
        then show ?thesis
          using None True Some res resolveBasic_authentic [OF None] by (simp add: Auth_def up admitPrincipal_guarded)
      qed
    qed (use None True in \<open>simp add: Auth_def guarded_refusal\<close>)
  next
    case False
    show ?thesis
    proof (cases "Cookie r ''ppk_sid''")
      case (Some secret)
      show ?thesis
      proof (cases "resolveSession flt now (as_db st) secret")
        case (Found pr)
        show ?thesis
        proof (cases "csrfSafeMethod (rq_method r) \<or> rq_header r ''X-Requested-With'' = ''picpak''")
          case True
          obtain s u where "a_sessions (as_db st) (hashSecret secret) = Some s" "now < ss_expires_at s" "u \<in> set (a_users (as_db st))"
            "us_id u = ss_user_id s" "us_disabled_at u = None"
            and pr: "pr = \<lparr>pr_kind = KindSession, pr_id = FormatInt (us_id u), pr_label = us_username u,
              pr_scopes = implicitFullScopes, pr_is_admin = us_is_admin u\<rparr>"
            using resolveSession_Found [OF Found] by blast
          then have "authentic_as IDKey now st r pr"
            unfolding pr using session [OF None Some] True by blast
          then show ?thesis
            using None False Some Found True by (auto simp: Auth_def admitPrincipal_guarded guarded_refusal)
        qed (use None False Some Found in \<open>auto simp: Auth_def guarded_refusal\<close>)
      qed (use None False Some in \<open>auto simp: Auth_def guarded_refusal\<close>)
    qed (use None False in \<open>simp add: Auth_def guarded_refusal\<close>)
  qed
qed

lemma guarded_RequireAdmin:
  assumes "guarded IDKey now (RequireAdmin h) r st w (\<lambda>_. True) out"
  shows "guarded IDKey now h r st w pr_is_admin out"
proof -
  have "refusal (fst out) \<and> snd (snd out) = w \<or> pr_is_admin pr \<and> handled h r pr w out" if "handled (RequireAdmin h) r pr w out" for pr
    using that by (cases "pr_is_admin pr") (auto simp: handled_def RequireAdmin_def)
  then show ?thesis
    using assms unfolding guarded_def by blast
qed

lemma guarded_RequireScope:
  assumes "guarded IDKey now (RequireScope scope h) r st w (\<lambda>_. True) out"
  shows "guarded IDKey now h r st w (\<lambda>pr. HasScope pr scope) out"
proof -
  have "refusal (fst out) \<and> snd (snd out) = w \<or> HasScope pr scope \<and> handled h r pr w out" if "handled (RequireScope scope h) r pr w out" for pr
    using that by (cases "HasScope pr scope") (auto simp: handled_def RequireScope_def)
  then show ?thesis
    using assms unfolding guarded_def by blast
qed

lemma authentic_as_limits: "authentic_as IDKey now (st\<lparr>as_limits := l\<rparr>) r pr \<Longrightarrow> authentic_as IDKey now st r pr"
proof (induction rule: authentic_as.cases)
  case (session secret s u)
  then show ?case
    using authentic_as.session [of r secret st s now u] by simp
qed (auto intro: authentic_as.intros)

lemma IPRateLimit_guarded:
  assumes "\<And>l. guarded IDKey now h r (st\<lparr>as_limits := l\<rparr>) w P (next' r (st\<lparr>as_limits := l\<rparr>, w))"
  shows "guarded IDKey now h r st w P (IPRateLimit now next' r (st, w))"
proof -
  obtain ok rl where p: "peek now (RemoteIP r) (ipLimiter (as_limits st)) = (ok, rl)"
    by fastforce
  show ?thesis
  proof (cases ok)
    case False
    then show ?thesis
      using p by (auto simp: IPRateLimit_def Let_def split: prod.split intro!: guarded_refusal)
  next
    case True
    let ?l = "(as_limits st)\<lparr>ipLimiter := rl\<rparr>"
    let ?out = "next' r (st\<lparr>as_limits := ?l\<rparr>, w)"
    have "fst (IPRateLimit now next' r (st, w)) = fst ?out" "snd (snd (IPRateLimit now next' r (st, w))) = snd (snd ?out)"
      using p True by (auto simp: IPRateLimit_def Let_def split: prod.split)
    then show ?thesis
      using assms [of ?l] authentic_as_limits unfolding guarded_def handled_def by metis
  qed
qed

text \<open>
  C15 (admin routes).  A request to an administrator route, behind the address brake, the authentication and the
  admin gate, either is refused with the world untouched or is handled for an authentic principal
  with the admin flag; that is never an API token, and off the loopback listener it is a session or
  Basic account.
\<close>

theorem admin_route_guarded:
  "guarded IDKey now h r st w
     (\<lambda>pr. pr_is_admin pr \<and> pr_kind pr \<noteq> KindBearer \<and>
       (rq_origin r = Some OriginLoopback \<or> pr_kind pr \<in> {KindSession, KindBasic}))
     (IPRateLimit now (Auth IDKey flt now (RequireAdmin h)) r (st, w))"
proof -
  have "guarded IDKey now h r st w pr_is_admin (IPRateLimit now (Auth IDKey flt now (RequireAdmin h)) r (st, w))"
    by (intro IPRateLimit_guarded guarded_RequireAdmin Auth_guarded)
  moreover have "pr_kind pr \<noteq> KindBearer \<and> (rq_origin r = Some OriginLoopback \<or> pr_kind pr \<in> {KindSession, KindBasic})"
    if "authentic_as IDKey now st r pr" "pr_is_admin pr" for pr
    using that by cases (auto simp: basicPrincipal_def)
  ultimately show ?thesis
    unfolding guarded_def by blast
qed

text \<open>
  The same for a route that needs a scope: it is handled only for an authentic
  principal holding that scope.
\<close>

theorem scope_route_guarded:
  "guarded IDKey now h r st w (\<lambda>pr. HasScope pr scope)
     (IPRateLimit now (Auth IDKey flt now (RequireScope scope h)) r (st, w))"
  by (intro IPRateLimit_guarded guarded_RequireScope Auth_guarded)

section \<open>The life of an API token\<close>

datatype token_op =
  OpCreate time "bytes option" "bytes option" string "string list" "time option" "int option"
| OpRevoke time int
| OpTouch time int

fun token_step :: "token_op \<Rightarrow> auth_db \<Rightarrow> auth_db" where
  "token_step (OpCreate now rid rsec label scopes expiry by') db = snd (CreateToken (\<lambda>_. False) now rid rsec db label scopes expiry by')"
| "token_step (OpRevoke now i) db = snd (RevokeToken (\<lambda>_. False) now db i)"
| "token_step (OpTouch now i) db = TouchToken (\<lambda>_. False) now db i"

text \<open>A token handle that is taken and dead stays so: its handle is not given out again.\<close>

definition dead :: "string \<Rightarrow> auth_db \<Rightarrow> bool" where
  "dead tid db \<longleftrightarrow> tid \<in> tk_token_id ` set (a_tokens db) \<and>
     (\<forall>r \<in> set (a_tokens db). tk_token_id r = tid \<longrightarrow> tk_disabled_at r \<noteq> None)"

lemma update_rows_set: "set (update_rows P f rows) = (\<lambda>r. if P r then f r else r) ` set rows"
  by (simp add: update_rows_def)

lemma dead_update:
  assumes "dead tid db" and "\<And>r. tk_token_id (f r) = tk_token_id r" and "\<And>r. tk_disabled_at r \<noteq> None \<Longrightarrow> tk_disabled_at (f r) \<noteq> None"
  shows "dead tid (db\<lparr>a_tokens := update_rows P f (a_tokens db)\<rparr>)"
proof -
  have "tk_token_id ` set (update_rows P f (a_tokens db)) = tk_token_id ` set (a_tokens db)"
    unfolding update_rows_set image_image by (intro image_cong) (simp_all add: assms(2))
  then show ?thesis
    using assms unfolding dead_def by (auto simp: update_rows_set)
qed

lemma CreateToken_cases:
  obtains e where "CreateToken flt now rid rsec db label scopes expiry by' = (Inl e, db)"
  | i sec row where "rid = Some i" "rsec = Some sec" "\<forall>r \<in> set (a_tokens db). tk_token_id r \<noteq> tk_token_id row" "set scopes \<subseteq> set KnownScopes"
      "row = \<lparr>tk_id = a_next_token db, tk_token_id = b64_encode i, tk_secret_hash = sha256 (bytes_of (b64_encode sec)),
              tk_label = label, tk_scopes = scopes, tk_created_at = now, tk_expires_at = expiry,
              tk_last_used_at = None, tk_disabled_at = None, tk_created_by = by'\<rparr>"
      "CreateToken flt now rid rsec db label scopes expiry by' =
         (Inr (TokenPrefix @ b64_encode i @ ''_'' @ b64_encode sec, row), db\<lparr>a_tokens := a_tokens db @ [row], a_next_token := a_next_token db + 1\<rparr>)"
proof (cases "(\<exists>s \<in> set scopes. s \<notin> set KnownScopes) \<or> rid = None \<or> rsec = None")
  case True
  then have "\<exists>e. CreateToken flt now rid rsec db label scopes expiry by' = (Inl e, db)"
    unfolding CreateToken_def by (cases rid; cases rsec) auto
  then show thesis
    using that by blast
next
  case False
  then obtain i sec where rs: "rid = Some i" "rsec = Some sec" "set scopes \<subseteq> set KnownScopes"
    by auto
  show thesis
  proof (cases "flt XTokenInsert \<or> (\<exists>r \<in> set (a_tokens db). tk_token_id r = b64_encode i) \<or>
                (case by' of None \<Rightarrow> False | Some k \<Rightarrow> k \<notin> ok_id ` set (a_operators db))")
    case True
    then have "CreateToken flt now rid rsec db label scopes expiry by' = (Inl ErrTokenStore, db)"
      using rs by (auto simp: CreateToken_def Let_def)
    then show thesis
      using that by blast
  next
    case c: False
    show thesis
      by (rule that(2) [OF rs(1,2) _ rs(3) refl]) (use c False rs in \<open>auto simp: CreateToken_def Let_def\<close>)
  qed
qed

lemma token_step_dead: "dead tid db \<Longrightarrow> dead tid (token_step a db)"
proof (cases a)
  case (OpCreate now rid rsec label scopes expiry by')
  assume d: "dead tid db"
  consider "token_step a db = db" | row n where "token_step a db = db\<lparr>a_tokens := a_tokens db @ [row], a_next_token := n\<rparr>"
      "\<forall>r \<in> set (a_tokens db). tk_token_id r \<noteq> tk_token_id row"
    using CreateToken_cases [of "\<lambda>_. False" now rid rsec db label scopes expiry by'] unfolding OpCreate token_step.simps
    by (metis snd_conv)
  then show ?thesis
    using d by cases (auto simp: dead_def)
next
  case (OpRevoke now i)
  assume "dead tid db"
  then show ?thesis
    unfolding OpRevoke by (simp add: RevokeToken_def dead_update)
next
  case (OpTouch now i)
  assume "dead tid db"
  then show ?thesis
    unfolding OpTouch by (simp add: TouchToken_def dead_update)
qed

interpretation dead_token: invariant_run token_step "\<lambda>_. True" "dead tid"
  by unfold_locales (rule token_step_dead)

lemma length_b64: "3 dvd length b \<Longrightarrow> length (b64_encode b) = length b div 3 * 4"
proof (induction b rule: b64_encode.induct)
  case (4 a b c rest)
  have "3 dvd length rest"
    using 4(2) by (simp add: numeral_eq_Suc) presburger
  then show ?case
    using 4(1) by simp
next
  case (3 a b)
  then have "3 dvd (2 :: nat)"
    by (simp add: numeral_2_eq_2)
  then show ?case
    by presburger
qed simp_all

lemma find_skip: "find P xs = None \<Longrightarrow> find P (xs @ ys) = find P ys"
  by (induction xs) (auto split: if_splits)

lemma b64_nonempty: "b \<noteq> [] \<Longrightarrow> b64_encode b \<noteq> []"
  by (cases b rule: b64_encode.cases) auto

lemma ParseToken_plain:
  assumes "length tid = tokenIDEncLen" "secret \<noteq> []"
  shows "ParseToken (TokenPrefix @ tid @ ''_'' @ secret) = Some (tid, secret)"
proof -
  have "tid \<noteq> []" "Suc tokenIDEncLen \<le> length tid + length secret"
    using assms by (auto simp: tokenIDEncLen_def Suc_le_eq)
  then show ?thesis
    using assms by (simp add: ParseToken_def nth_append)
qed

lemma dead_Resolve:
  assumes "dead tid db" and "ParseToken plain = Some (tid, secret)"
  shows "ResolveToken f u db plain \<in> {Absent, DbErr}"
proof -
  have "find (\<lambda>r. tk_token_id r = tid \<and> tk_disabled_at r = None) (a_tokens db) = None"
    using assms(1) by (auto simp: dead_def find_None_iff)
  then show ?thesis
    using assms(2) by (simp add: ResolveToken_def select_def)
qed

text \<open>
  A minted token (12 and 32 random bytes) carries known scopes only, its secret is stored as a hash, and
  the plain text resolves to the stored row exactly until it expires, although its handle and secret may contain the separator.  Once it is revoked it resolves to nothing
  ever again, whatever tokens are minted, revoked or used afterwards.
\<close>

theorem token_life:
  assumes "CreateToken flt now (Some rid) (Some rsec) db label scopes expiry by' = (Inr (plain, tok), db')"
    and "length rid = 12" and "length rsec = 32"
  shows "(\<forall>t. ResolveToken (\<lambda>_. False) t db' plain = (if expired expiry t then Absent else Found tok)) \<and>
    tk_scopes tok = scopes \<and> set scopes \<subseteq> set KnownScopes \<and> tk_secret_hash tok = sha256 (bytes_of (b64_encode rsec)) \<and>
    (\<forall>t f u ops. ResolveToken f u (run token_step (OpRevoke t (tk_id tok) # ops) db') plain \<in> {Absent, DbErr})"
proof -
  have tok: "tk_token_id tok = b64_encode rid" "tk_secret_hash tok = sha256 (bytes_of (b64_encode rsec))"
    "plain = TokenPrefix @ tk_token_id tok @ ''_'' @ b64_encode rsec" "a_tokens db' = a_tokens db @ [tok]"
    "tk_expires_at tok = expiry" "tk_disabled_at tok = None" "tk_scopes tok = scopes"
    "\<forall>r \<in> set (a_tokens db). tk_token_id r \<noteq> tk_token_id tok" "set scopes \<subseteq> set KnownScopes"
    by (rule CreateToken_cases [of flt now "Some rid" "Some rsec" db label scopes expiry by']; use assms(1) in force)+
  have "b64_encode rsec \<noteq> []"
    using assms(3) by (intro b64_nonempty) auto
  then have parse: "ParseToken plain = Some (tk_token_id tok, b64_encode rsec)"
    unfolding tok(3) using assms(2) by (intro ParseToken_plain) (simp_all add: tok(1) length_b64 tokenIDEncLen_def)
  have "find (\<lambda>r. tk_token_id r = tk_token_id tok \<and> tk_disabled_at r = None) (a_tokens db') = Some tok"
  proof -
    have "find (\<lambda>r. tk_token_id r = tk_token_id tok \<and> tk_disabled_at r = None) (a_tokens db) = None"
      using tok(8) by (auto simp: find_None_iff)
    then show ?thesis
      using tok(4,6) by (simp add: find_skip)
  qed
  then have live: "ResolveToken (\<lambda>_. False) t db' plain = (if expired expiry t then Absent else Found tok)" for t
    using parse tok(2,5) by (simp add: ResolveToken_def select_def)
  have "dead (tk_token_id tok) (token_step (OpRevoke t (tk_id tok)) db')" for t
    using tok(4,8) by (auto simp: dead_def RevokeToken_def update_rows_set image_iff)
  then have "dead (tk_token_id tok) (run token_step (OpRevoke t (tk_id tok) # ops) db')" for t ops
    using dead_token.run_I [of ops] by simp
  then have "ResolveToken f u (run token_step (OpRevoke t (tk_id tok) # ops) db') plain \<in> {Absent, DbErr}" for f u t ops
    using parse dead_Resolve by blast
  then show ?thesis
    using live tok by blast
qed

definition empty_auth_db :: auth_db where
  "empty_auth_db = \<lparr>a_tokens = [], a_next_token = 1, a_operators = [], a_users = [], a_next_user = 1, a_sessions = Map.empty, a_audit = []\<rparr>"

theorem token_life_witness:
  "let (res, db) = CreateToken (\<lambda>_. False) 0 (Some (replicate 12 255)) (Some (replicate 32 7)) empty_auth_db ''cam'' [''image:write''] (Some 9) None
   in (case res of
         Inl _ \<Rightarrow> False
       | Inr (plain, tok) \<Rightarrow> ResolveToken (\<lambda>_. False) 5 db plain = Found tok \<and> ResolveToken (\<lambda>_. False) 9 db plain = Absent)"
proof -
  obtain plain tok db where c: "CreateToken (\<lambda>_. False) 0 (Some (replicate 12 255)) (Some (replicate 32 7)) empty_auth_db ''cam'' [''image:write''] (Some 9) None
      = (Inr (plain, tok), db)"
    by (simp add: CreateToken_def empty_auth_db_def KnownScopes_def Let_def)
  then show ?thesis
    using token_life [OF c] by (simp add: expired_def)
qed

end
