(* ===== verification/Display_Store.thy ===== *)
theory Display_Store
  imports Picpak_Base Go_Strings Sha Runs "HOL-Library.Multiset"
begin

text \<open>
  The tables that say what a panel shows, and the playlist store (\<open>playliststore\<close>).  The operations on
  the bindings, the rotation cursor and the render functions are in \<open>Display_Binding\<close>.

  A table is the list of its rows in their physical order, or a map from its primary key.  The
  argument \<open>flt\<close> says that a statement of the operation failed; a transaction then leaves the state
  as it was.  \<open>INT\<close> columns do not overflow here, identities have no gaps, and the advisory lock makes every binding
  operation one step.
\<close>

section \<open>Tables\<close>

record playlist =
  pl_id :: int
  pl_operator_key_id :: "int option"
  pl_name :: string
  pl_interval_s :: int
  pl_order_mode :: string
  pl_shuffle_epoch :: int
  pl_version :: int
  pl_managed_serial :: "string option"
  pl_created_at :: time
  pl_updated_at :: time

record playlist_item =
  it_id :: int
  it_playlist_id :: int
  it_image_id :: int
  it_position :: int
  it_fit :: string
  it_dither :: string

type_synonym trigger_type = string

definition TriggerRender :: trigger_type where "TriggerRender = ''render''"
definition TriggerSchedule :: trigger_type where "TriggerSchedule = ''schedule''"
definition TriggerWebhook :: trigger_type where "TriggerWebhook = ''webhook''"

record faas_function =
  fn_id :: int
  fn_name :: string
  fn_source :: string
  fn_version :: int
  fn_trigger_type :: trigger_type
  fn_trigger_config :: string
  fn_secret_bindings :: "string list"
  fn_egress_allow :: "string list"
  fn_enabled :: bool
  fn_created_at :: time
  fn_updated_at :: time
  fn_webhook_sha :: "bytes option"
  fn_template_id :: "int option"

record playlist_cursor =
  pc_playlist_id :: int
  pc_position :: int
  pc_advanced_at :: time

record last_good =
  lg_packed :: bytes
  lg_status :: string
  lg_rendered_at :: time

record display_db =
  d_operators :: "int set"
  d_images :: "int \<rightharpoonup> string"
  d_templates :: "int set"
  d_playlists :: "playlist list"
  d_next_playlist :: int
  d_items :: "playlist_item list"
  d_next_item :: int
  d_functions :: "faas_function list"
  d_next_function :: int
  d_playlist_of :: "serial \<rightharpoonup> int"
  d_function_of :: "serial \<rightharpoonup> int"
  d_cursors :: "serial \<rightharpoonup> playlist_cursor"
  d_variants :: "string \<times> string \<times> string \<rightharpoonup> bytes"
  d_last_good :: "serial \<times> int \<rightharpoonup> last_good"

datatype store_error =
  NotFound | NameInvalid | PolicyInvalid | ReorderIncomplete | NoWebhookToken | UniqueViolation | ForeignKeyViolation
  | CheckViolation | StoreFailed

definition find_playlist :: "display_db \<Rightarrow> int \<Rightarrow> playlist option" where
  "find_playlist db i = find (\<lambda>p. pl_id p = i) (d_playlists db)"

definition find_function :: "display_db \<Rightarrow> int \<Rightarrow> faas_function option" where
  "find_function db i = find (\<lambda>f. fn_id f = i) (d_functions db)"

definition map_playlist :: "int \<Rightarrow> (playlist \<Rightarrow> playlist) \<Rightarrow> display_db \<Rightarrow> display_db" where
  "map_playlist i f db = db\<lparr>d_playlists := map (\<lambda>p. if pl_id p = i then f p else p) (d_playlists db)\<rparr>"

definition map_function :: "int \<Rightarrow> (faas_function \<Rightarrow> faas_function) \<Rightarrow> display_db \<Rightarrow> display_db" where
  "map_function i g db = db\<lparr>d_functions := map (\<lambda>f. if fn_id f = i then g f else f) (d_functions db)\<rparr>"

definition bump :: "time \<Rightarrow> playlist \<Rightarrow> playlist" where
  "bump now p = p\<lparr>pl_version := pl_version p + 1, pl_updated_at := now\<rparr>"

text \<open>Deleting playlists, with the cascade to their items and bindings.\<close>

definition delete_playlists :: "(playlist \<Rightarrow> bool) \<Rightarrow> display_db \<Rightarrow> display_db" where
  "delete_playlists P db =
     (let gone = pl_id ` {p \<in> set (d_playlists db). P p} in
      db\<lparr>d_playlists := filter (\<lambda>p. \<not> P p) (d_playlists db),
         d_items := filter (\<lambda>it. it_playlist_id it \<notin> gone) (d_items db),
         d_playlist_of := (\<lambda>s. case d_playlist_of db s of None \<Rightarrow> None | Some i \<Rightarrow> if i \<in> gone then None else Some i)\<rparr>)"

section \<open>Playlists (playliststore)\<close>

definition lower_or_digit :: "char \<Rightarrow> bool" where
  "lower_or_digit c \<longleftrightarrow> is_digit c \<or> (97 \<le> (of_char c :: nat) \<and> (of_char c :: nat) \<le> 122)"

definition ValidName :: "string \<Rightarrow> bool" where
  "ValidName name \<longleftrightarrow>
     (case name of
        [] \<Rightarrow> False
      | c # cs \<Rightarrow> lower_or_digit c \<and> length cs \<le> 127 \<and>
          list_all (\<lambda>c. lower_or_digit c \<or> c = CHR ''.'' \<or> c = CHR ''_'' \<or> c = CHR ''-'') cs)"

definition ValidOrderMode :: "string \<Rightarrow> bool" where
  "ValidOrderMode m \<longleftrightarrow> m = ''sequential'' \<or> m = ''shuffle''"

definition fits :: "string list" where "fits = [''cover'', ''contain'', ''fill'']"

definition dithers :: "string list" where
  "dithers = [''none'', ''floyd-steinberg'', ''atkinson'', ''ordered'']"

definition ValidFit :: "string \<Rightarrow> bool" where "ValidFit f \<longleftrightarrow> f = [] \<or> f \<in> set fits"

definition ValidDither :: "string \<Rightarrow> bool" where "ValidDither d \<longleftrightarrow> d = [] \<or> d \<in> set dithers"

definition insert_playlist ::
  "time \<Rightarrow> int option \<Rightarrow> string \<Rightarrow> int \<Rightarrow> string \<Rightarrow> string option \<Rightarrow> display_db \<Rightarrow> (store_error + playlist) \<times> display_db" where
  "insert_playlist now op name interval mode managed db =
     (let p = \<lparr>pl_id = d_next_playlist db, pl_operator_key_id = op, pl_name = name, pl_interval_s = interval,
              pl_order_mode = mode, pl_shuffle_epoch = 1, pl_version = 1, pl_managed_serial = managed,
              pl_created_at = now, pl_updated_at = now\<rparr>
      in if (\<exists>q \<in> set (d_playlists db). pl_name q = name \<or> managed \<noteq> None \<and> pl_managed_serial q = managed)
         then (Inl UniqueViolation, db)
         else if op \<noteq> None \<and> the op \<notin> d_operators db then (Inl ForeignKeyViolation, db)
         else (Inr p, db\<lparr>d_playlists := d_playlists db @ [p], d_next_playlist := d_next_playlist db + 1\<rparr>))"

definition CreatePlaylist ::
  "bool \<Rightarrow> time \<Rightarrow> int option \<Rightarrow> string \<Rightarrow> int \<Rightarrow> string \<Rightarrow> string option \<Rightarrow> display_db \<Rightarrow> (store_error + playlist) \<times> display_db" where
  "CreatePlaylist flt now op name intervalS orderMode managed db =
     (if \<not> ValidName name then (Inl NameInvalid, db)
      else
        let interval = (if intervalS \<le> 0 then 900 else intervalS);
            mode = (if orderMode = [] then ''sequential'' else orderMode)
        in if \<not> ValidOrderMode mode then (Inl PolicyInvalid, db)
           else if flt then (Inl StoreFailed, db)
           else insert_playlist now op name interval mode managed db)"

definition GetPlaylist :: "bool \<Rightarrow> int \<Rightarrow> display_db \<Rightarrow> store_error + playlist" where
  "GetPlaylist flt i db =
     (if flt then Inl StoreFailed else case find_playlist db i of None \<Rightarrow> Inl NotFound | Some p \<Rightarrow> Inr p)"

definition coalesce :: "'a option \<Rightarrow> 'a \<Rightarrow> 'a" where
  "coalesce v d = (case v of None \<Rightarrow> d | Some x \<Rightarrow> x)"

definition UpdatePlaylist ::
  "bool \<Rightarrow> time \<Rightarrow> int \<Rightarrow> string option \<Rightarrow> int option \<Rightarrow> string option \<Rightarrow> display_db \<Rightarrow> (store_error + playlist) \<times> display_db" where
  "UpdatePlaylist flt now i name intervalS orderMode db =
     (if (case name of None \<Rightarrow> False | Some n \<Rightarrow> \<not> ValidName n) then (Inl NameInvalid, db)
      else if (case intervalS of None \<Rightarrow> False | Some s \<Rightarrow> s \<le> 0) then (Inl PolicyInvalid, db)
      else if (case orderMode of None \<Rightarrow> False | Some m \<Rightarrow> \<not> ValidOrderMode m) then (Inl PolicyInvalid, db)
      else if flt then (Inl StoreFailed, db)
      else case find_playlist db i of
        None \<Rightarrow> (Inl NotFound, db)
      | Some p \<Rightarrow>
          if name \<noteq> None \<and> (\<exists>q \<in> set (d_playlists db). pl_id q \<noteq> i \<and> pl_name q = the name) then (Inl UniqueViolation, db)
          else
            let upd = (\<lambda>p. bump now (p\<lparr>pl_name := coalesce name (pl_name p), pl_interval_s := coalesce intervalS (pl_interval_s p),
                                     pl_order_mode := coalesce orderMode (pl_order_mode p)\<rparr>))
            in (Inr (upd p), map_playlist i upd db))"

definition DeletePlaylist :: "bool \<Rightarrow> int \<Rightarrow> display_db \<Rightarrow> store_error option \<times> display_db" where
  "DeletePlaylist flt i db =
     (if flt then (Some StoreFailed, db)
      else if find_playlist db i = None then (Some NotFound, db)
      else (None, delete_playlists (\<lambda>p. pl_id p = i) db))"

record playlist_summary =
  ps_id :: int
  ps_name :: string
  ps_interval_s :: int
  ps_order_mode :: string
  ps_version :: int

definition summarize :: "playlist \<Rightarrow> playlist_summary" where
  "summarize p = \<lparr>ps_id = pl_id p, ps_name = pl_name p, ps_interval_s = pl_interval_s p, ps_order_mode = pl_order_mode p, ps_version = pl_version p\<rparr>"

definition ListPlaylists :: "bool \<Rightarrow> int \<Rightarrow> int \<Rightarrow> bool \<Rightarrow> display_db \<Rightarrow> playlist_summary list option" where
  "ListPlaylists flt limit cursor includeManaged db =
     (let limit = (if limit \<le> 0 then 50 else limit) in
      if flt then None
      else Some (map summarize (take (nat limit) (sort_key pl_id
             (filter (\<lambda>p. pl_id p > cursor \<and> (includeManaged \<or> pl_managed_serial p = None)) (d_playlists db))))))"

definition items_of :: "display_db \<Rightarrow> int \<Rightarrow> playlist_item list" where
  "items_of db i = filter (\<lambda>it. it_playlist_id it = i) (d_items db)"

text \<open>The \<open>CHECK\<close>s and foreign keys of an item row.\<close>

definition AddItem ::
  "bool \<Rightarrow> time \<Rightarrow> int \<Rightarrow> int \<Rightarrow> string \<Rightarrow> string \<Rightarrow> display_db \<Rightarrow> (store_error + playlist_item) \<times> display_db" where
  "AddItem flt now i imageID fit dither db =
     (let fit = (if fit = [] then ''cover'' else fit); dither = (if dither = [] then ''none'' else dither);
          pos = (if items_of db i = [] then 0 else Max (it_position ` set (items_of db i)) + 1);
          it = \<lparr>it_id = d_next_item db, it_playlist_id = i, it_image_id = imageID, it_position = pos, it_fit = fit, it_dither = dither\<rparr>
      in if flt then (Inl StoreFailed, db)
         else if fit \<notin> set fits \<or> dither \<notin> set dithers then (Inl CheckViolation, db)
         else if find_playlist db i = None \<or> d_images db imageID = None then (Inl ForeignKeyViolation, db)
         else (Inr it, map_playlist i (bump now) (db\<lparr>d_items := d_items db @ [it], d_next_item := d_next_item db + 1\<rparr>)))"

definition RemoveItem :: "bool \<Rightarrow> time \<Rightarrow> int \<Rightarrow> display_db \<Rightarrow> store_error option \<times> display_db" where
  "RemoveItem flt now item db =
     (if flt then (Some StoreFailed, db)
      else case find (\<lambda>it. it_id it = item) (d_items db) of
        None \<Rightarrow> (Some NotFound, db)
      | Some it \<Rightarrow>
          (None, map_playlist (it_playlist_id it) (bump now)
                   (db\<lparr>d_items := filter (\<lambda>it. it_id it \<noteq> item) (d_items db)\<rparr>)))"

definition SetPolicy :: "bool \<Rightarrow> time \<Rightarrow> int \<Rightarrow> int \<Rightarrow> string \<Rightarrow> display_db \<Rightarrow> store_error option \<times> display_db" where
  "SetPolicy flt now i intervalS orderMode db =
     (if intervalS \<le> 0 \<or> \<not> ValidOrderMode orderMode then (Some PolicyInvalid, db)
      else if flt then (Some StoreFailed, db)
      else if find_playlist db i = None then (Some NotFound, db)
      else (None, map_playlist i (\<lambda>p. bump now (p\<lparr>pl_interval_s := intervalS, pl_order_mode := orderMode\<rparr>)) db))"

definition Reshuffle :: "bool \<Rightarrow> time \<Rightarrow> int \<Rightarrow> display_db \<Rightarrow> store_error option \<times> display_db" where
  "Reshuffle flt now i db =
     (if flt then (Some StoreFailed, db)
      else if find_playlist db i = None then (Some NotFound, db)
      else (None, map_playlist i (\<lambda>p. bump now (p\<lparr>pl_shuffle_epoch := pl_shuffle_epoch p + 1\<rparr>)) db))"

definition ListItems :: "bool \<Rightarrow> int \<Rightarrow> int \<Rightarrow> int \<Rightarrow> display_db \<Rightarrow> playlist_item list option" where
  "ListItems flt i limit cursor db =
     (let limit = (if limit \<le> 0 then 50 else limit) in
      if flt then None
      else Some (take (nat limit) (sort_key it_position (filter (\<lambda>it. it_position it > cursor) (items_of db i)))))"

definition RotationItems :: "bool \<Rightarrow> int \<Rightarrow> display_db \<Rightarrow> playlist_item list option" where
  "RotationItems flt i db = (if flt then None else Some (sort_key it_position (items_of db i)))"

text \<open>
  An \<open>UPDATE\<close> of the item positions.  \<open>UNIQUE (playlist_id, position)\<close> is not deferrable, so it is checked after each
  row, against the rows already written and those still to come, in the physical order of the table.
\<close>

fun update_positions ::
  "(playlist_item \<Rightarrow> int option) \<Rightarrow> playlist_item list \<Rightarrow> playlist_item list \<Rightarrow> (nat \<times> playlist_item list) option" where
  "update_positions f done [] = Some (0, done)"
| "update_positions f done (it # rest) =
     (case f it of
        None \<Rightarrow> update_positions f (done @ [it]) rest
      | Some pos \<Rightarrow>
          if \<exists>x \<in> set (done @ rest). it_playlist_id x = it_playlist_id it \<and> it_position x = pos then None
          else
            (case update_positions f (done @ [it\<lparr>it_position := pos\<rparr>]) rest of
               None \<Rightarrow> None | Some (n, its) \<Rightarrow> Some (n + 1, its)))"

definition Reorder :: "bool \<Rightarrow> time \<Rightarrow> int \<Rightarrow> int list \<Rightarrow> display_db \<Rightarrow> store_error option \<times> display_db" where
  "Reorder flt now i ids db =
     (if flt then (Some StoreFailed, db)
      else
        case update_positions (\<lambda>it. if it_playlist_id it = i then Some (- 1 - it_position it) else None) [] (d_items db) of
          None \<Rightarrow> (Some UniqueViolation, db)
        | Some (n1, its) \<Rightarrow>
            if n1 \<noteq> length ids then (Some ReorderIncomplete, db)
            else
              case update_positions (\<lambda>it. if it_playlist_id it = i then map_of (zip ids (map int [0..<length ids])) (it_id it) else None) [] its of
                None \<Rightarrow> (Some UniqueViolation, db)
              | Some (n2, its) \<Rightarrow>
                  if n2 \<noteq> length ids then (Some ReorderIncomplete, db)
                  else (None, map_playlist i (bump now) (db\<lparr>d_items := its\<rparr>)))"

section \<open>Item tables\<close>

definition items_ok :: "playlist_item list \<Rightarrow> bool" where
  "items_ok its \<longleftrightarrow> distinct (map it_id its) \<and> (\<forall>it \<in> set its. 0 \<le> it_position it) \<and>
     distinct (map (\<lambda>it. (it_playlist_id it, it_position it)) its)"

lemma items_okD:
  assumes "items_ok its" "a \<in> set its" "b \<in> set its"
  shows "it_id a = it_id b \<Longrightarrow> a = b" "0 \<le> it_position a"
    "it_playlist_id a = it_playlist_id b \<Longrightarrow> it_position a = it_position b \<Longrightarrow> a = b"
  using assms unfolding items_ok_def distinct_map inj_on_def by blast+

definition place :: "(playlist_item \<Rightarrow> int option) \<Rightarrow> playlist_item \<Rightarrow> playlist_item" where
  "place f it = (case f it of None \<Rightarrow> it | Some pos \<Rightarrow> it\<lparr>it_position := pos\<rparr>)"

lemma place_sel [simp]: "it_id (place f it) = it_id it" "it_playlist_id (place f it) = it_playlist_id it"
  by (simp_all add: place_def split: option.split)

text \<open>
  No row order makes the update fail, if every new position is unused in its playlist beforehand and no two
  rows of a playlist get the same one.
\<close>

lemma update_positions_ok:
  assumes "\<And>it pos x. it \<in> set rest \<Longrightarrow> f it = Some pos \<Longrightarrow> x \<in> set done \<union> set rest \<Longrightarrow>
             it_playlist_id x = it_playlist_id it \<Longrightarrow> it_position x \<noteq> pos"
    and "sorted_wrt (\<lambda>a b. it_playlist_id a = it_playlist_id b \<longrightarrow> f a = None \<or> f a \<noteq> f b) rest"
  shows "update_positions f done rest = Some (length (filter (\<lambda>it. f it \<noteq> None) rest), done @ map (place f) rest)"
  using assms
proof (induction rest arbitrary: "done")
  case (Cons it rest)
  have IH: "update_positions f (done @ [place f it]) rest =
      Some (length (filter (\<lambda>it. f it \<noteq> None) rest), (done @ [place f it]) @ map (place f) rest)"
  proof (rule Cons.IH)
    fix it' pos x
    assume *: "it' \<in> set rest" "f it' = Some pos" "x \<in> set (done @ [place f it]) \<union> set rest" "it_playlist_id x = it_playlist_id it'"
    show "it_position x \<noteq> pos"
    proof (cases "x = place f it")
      case True
      then have "f it = None \<or> f it \<noteq> Some pos"
        using Cons.prems(2) *(1,2,4) by fastforce
      moreover have "it_position it \<noteq> pos"
        using Cons.prems(1) [of it' pos it] * True by simp
      ultimately show ?thesis
        using True by (auto simp: place_def split: option.split)
    next
      case False
      then show ?thesis
        using Cons.prems(1) [of it' pos x] * by auto
    qed
  qed (use Cons.prems(2) in simp)
  show ?case
  proof (cases "f it")
    case None
    then show ?thesis
      using IH by (simp add: place_def)
  next
    case (Some pos)
    have "\<not> (\<exists>x \<in> set (done @ rest). it_playlist_id x = it_playlist_id it \<and> it_position x = pos)"
      using Cons.prems(1) [of it pos] Some by auto
    then show ?thesis
      using IH Some by (simp add: place_def)
  qed
qed simp

lemma sorted_wrt_of_set:
  "distinct its \<Longrightarrow> (\<And>a b. a \<in> set its \<Longrightarrow> b \<in> set its \<Longrightarrow> a \<noteq> b \<Longrightarrow> P a b) \<Longrightarrow> sorted_wrt P its"
  by (induction its) auto

definition stage1 :: "int \<Rightarrow> playlist_item \<Rightarrow> int option" where
  "stage1 i it = (if it_playlist_id it = i then Some (- 1 - it_position it) else None)"

definition stage2 :: "int \<Rightarrow> int list \<Rightarrow> playlist_item \<Rightarrow> int option" where
  "stage2 i ids it = (if it_playlist_id it = i then map_of (zip ids (map int [0..<length ids])) (it_id it) else None)"

lemma map_of_index:
  assumes "map_of (zip ids (map int [0..<length ids])) x = Some k"
  shows "0 \<le> k \<and> nat k < length ids \<and> ids ! nat k = x"
  using map_of_SomeD [OF assms] by (auto simp: in_set_zip)

lemma map_of_index_distinct:
  assumes "distinct ids" "k < length ids"
  shows "map_of (zip ids (map int [0..<length ids])) (ids ! k) = Some (int k)"
  using assms map_of_zip_nth [of ids "map int [0..<length ids]" k] by simp

lemma stages:
  assumes "items_ok its"
  shows "update_positions (stage1 i) [] its = Some (length (filter (\<lambda>it. it_playlist_id it = i) its), map (place (stage1 i)) its)"
    and "update_positions (stage2 i ids) [] (map (place (stage1 i)) its) =
      Some (length (filter (\<lambda>it. it_playlist_id it = i \<and> it_id it \<in> set ids) its), map (place (stage2 i ids)) (map (place (stage1 i)) its))"
proof -
  have d: "distinct its"
    using assms by (auto simp: items_ok_def distinct_map)
  have "update_positions (stage1 i) [] its = Some (length (filter (\<lambda>it. stage1 i it \<noteq> None) its), [] @ map (place (stage1 i)) its)"
  proof (rule update_positions_ok)
    fix it pos x
    assume "it \<in> set its" "stage1 i it = Some pos" "x \<in> set [] \<union> set its"
    then have "pos < 0" "0 \<le> it_position x"
      using items_okD(2) [OF assms] by (auto simp: stage1_def split: if_splits) fastforce
    then show "it_position x \<noteq> pos"
      by linarith
  next
    show "sorted_wrt (\<lambda>a b. it_playlist_id a = it_playlist_id b \<longrightarrow> stage1 i a = None \<or> stage1 i a \<noteq> stage1 i b) its"
      using items_okD(3) [OF assms] by (intro sorted_wrt_of_set d) (auto simp: stage1_def)
  qed
  moreover have "(\<lambda>it. stage1 i it \<noteq> None) = (\<lambda>it. it_playlist_id it = i)"
    by (auto simp: stage1_def)
  ultimately show "update_positions (stage1 i) [] its = Some (length (filter (\<lambda>it. it_playlist_id it = i) its), map (place (stage1 i)) its)"
    by simp
  let ?its = "map (place (stage1 i)) its"
  have neg: "it_position x < 0" if x: "x \<in> set ?its" "it_playlist_id x = i" for x
  proof -
    obtain y where y: "y \<in> set its" "x = place (stage1 i) y"
      using x(1) by auto
    then have "stage1 i y = Some (- 1 - it_position y)"
      using x(2) by (simp add: stage1_def)
    then show ?thesis
      using y items_okD(2) [OF assms, of y y] by (simp add: place_def)
  qed
  have "update_positions (stage2 i ids) [] ?its = Some (length (filter (\<lambda>it. stage2 i ids it \<noteq> None) ?its), [] @ map (place (stage2 i ids)) ?its)"
  proof (rule update_positions_ok)
    fix it pos x
    assume *: "it \<in> set ?its" "stage2 i ids it = Some pos" "x \<in> set [] \<union> set ?its" "it_playlist_id x = it_playlist_id it"
    then have "it_playlist_id it = i" "0 \<le> pos"
      using map_of_index [of ids "it_id it" pos] by (simp_all add: stage2_def split: if_splits)
    then show "it_position x \<noteq> pos"
      using neg [of x] * by auto
  next
    have "inj_on it_id (set ?its)"
      using items_okD(1) [OF assms] by (auto simp: inj_on_def)
    moreover have "distinct ?its"
      using assms by (simp add: items_ok_def distinct_map inj_on_def) (metis place_sel(1))
    moreover have "it_id a = it_id b" if "stage2 i ids a = Some k" "stage2 i ids b = Some k" for a b k
      using that map_of_index [of ids "it_id a" k] map_of_index [of ids "it_id b" k] by (simp add: stage2_def split: if_splits)
    ultimately show "sorted_wrt (\<lambda>a b. it_playlist_id a = it_playlist_id b \<longrightarrow> stage2 i ids a = None \<or> stage2 i ids a \<noteq> stage2 i ids b) ?its"
      by (intro sorted_wrt_of_set) (metis inj_onD option.exhaust)+
  qed
  moreover have "length (filter (\<lambda>it. stage2 i ids it \<noteq> None) ?its) = length (filter (\<lambda>it. it_playlist_id it = i \<and> it_id it \<in> set ids) its)"
    unfolding filter_map length_map
    by (intro arg_cong [where f = length] filter_cong refl) (auto simp: stage2_def simp flip: not_None_eq)
  ultimately show "update_positions (stage2 i ids) [] ?its =
      Some (length (filter (\<lambda>it. it_playlist_id it = i \<and> it_id it \<in> set ids) its), map (place (stage2 i ids)) ?its)"
    by simp
qed

text \<open>What the two stages do to the rows of the playlist.\<close>

lemma reordered_rows:
  assumes rows: "distinct (map it_id rows)" "mset ids = mset (map it_id rows)" "\<forall>it \<in> set rows. it_playlist_id it = i"
  shows "map it_id (sort_key it_position (map (place (stage2 i ids) \<circ> place (stage1 i)) rows)) = ids"
    and "map it_position (sort_key it_position (map (place (stage2 i ids) \<circ> place (stage1 i)) rows)) = map int [0..<length ids]"
proof -
  let ?rows = "map (place (stage2 i ids) \<circ> place (stage1 i)) rows"
  let ?S = "sort_key it_position ?rows"
  have ids: "distinct ids" "set ids = it_id ` set rows" "length ids = length rows"
    using rows(1,2) by (metis mset_eq_imp_distinct_iff, metis mset_eq_setD list.set_map, metis mset_eq_length length_map)
  have pos: "0 \<le> it_position r \<and> nat (it_position r) < length ids \<and> ids ! nat (it_position r) = it_id r" if "r \<in> set ?rows" for r
  proof -
    have "r \<in> (place (stage2 i ids) \<circ> place (stage1 i)) ` set rows"
      using that by (simp only: set_map)
    then obtain r0 where r0: "r0 \<in> set rows" "r = place (stage2 i ids) (place (stage1 i) r0)"
      by auto
    then obtain k where "k < length ids" "ids ! k = it_id r0"
      using ids(2) by (metis imageI in_set_conv_nth)
    then have "stage2 i ids (place (stage1 i) r0) = Some (int k)"
      using map_of_index_distinct [OF ids(1), of k] rows(3) r0(1) by (simp add: stage2_def)
    then show ?thesis
      using r0 \<open>k < length ids\<close> \<open>ids ! k = it_id r0\<close> by (simp add: place_def [of "stage2 i ids"])
  qed
  have idset: "it_id ` set ?rows = set ids"
    using ids(2) by (auto simp: image_image)
  have range: "it_position ` set ?rows = set (map int [0..<length ids])"
  proof
    show "it_position ` set ?rows \<subseteq> set (map int [0..<length ids])"
      using pos by force
    show "set (map int [0..<length ids]) \<subseteq> it_position ` set ?rows"
    proof
      fix p
      assume "p \<in> set (map int [0..<length ids])"
      then have p: "0 \<le> p" "nat p < length ids"
        by auto
      then obtain r where r: "r \<in> set ?rows" "it_id r = ids ! nat p"
        using idset by (metis imageE nth_mem)
      then have "nat (it_position r) = nat p"
        using pos [OF r(1)] p ids(1) by (metis nth_eq_iff_index_eq)
      then have "it_position r = p"
        using pos [OF r(1)] p by linarith
      then show "p \<in> it_position ` set ?rows"
        using r(1) by blast
    qed
  qed
  have "card (set (map it_position ?rows)) = length (map it_position ?rows)"
    unfolding set_map range [unfolded set_map] using ids(3) by (simp add: card_image inj_on_def)
  then have "distinct (map it_position ?rows)"
    by (rule card_distinct)
  then have "distinct (map it_position ?S)"
    by (metis distinct_sort mset_eq_imp_distinct_iff mset_map mset_sort)
  moreover have "sorted (map int [0..<length ids])"
    by (simp add: sorted_wrt_map)
  ultimately show *: "map it_position ?S = map int [0..<length ids]"
    using range by (intro sorted_distinct_set_unique) (simp_all add: sorted_sort_key distinct_map)
  have "map it_id ?S = map (\<lambda>r. ids ! nat (it_position r)) ?S"
    using pos by (intro map_cong) simp_all
  also have "\<dots> = map (\<lambda>p. ids ! nat p) (map it_position ?S)"
    by simp
  also have "\<dots> = ids"
    unfolding * by (simp add: comp_def map_nth)
  finally show "map it_id ?S = ids" .
qed

lemma exact_ids:
  assumes "distinct R" "length R = length ids"
  shows "length (filter (\<lambda>x. x \<in> set ids) R) = length ids \<longleftrightarrow> mset ids = mset R"
proof
  assume "length (filter (\<lambda>x. x \<in> set ids) R) = length ids"
  then have "filter (\<lambda>x. x \<in> set ids) R = R"
    using assms(2) by (metis filter_id_conv length_filter_less nat_neq_iff)
  then have sub: "set R \<subseteq> set ids"
    by (metis (mono_tags, lifting) filter_id_conv subsetI)
  have "card (set ids) \<le> card (set R)"
    using assms card_length [of ids] by (simp add: distinct_card)
  then have eq: "set R = set ids"
    using sub by (meson card_seteq List.finite_set)
  then have "distinct ids"
    using assms by (metis card_distinct distinct_card)
  then show "mset ids = mset R"
    using eq assms(1) by (simp add: set_eq_iff_mset_eq_distinct)
next
  assume "mset ids = mset R"
  then have "set R = set ids"
    by (metis set_mset_mset)
  then have "filter (\<lambda>x. x \<in> set ids) R = R"
    by (simp add: filter_id_conv)
  then show "length (filter (\<lambda>x. x \<in> set ids) R) = length ids"
    using assms(2) by simp
qed

lemma distinct_items_of: "items_ok (d_items db) \<Longrightarrow> distinct (map it_id (items_of db i))"
  by (simp add: items_ok_def items_of_def distinct_map_filter)

lemma Reorder_eq:
  assumes "items_ok (d_items db)"
  shows "Reorder False now i ids db =
      (if mset ids = mset (map it_id (items_of db i))
       then (None, map_playlist i (bump now) (db\<lparr>d_items := map (place (stage2 i ids) \<circ> place (stage1 i)) (d_items db)\<rparr>))
       else (Some ReorderIncomplete, db))"
proof -
  let ?R = "map it_id (items_of db i)"
  note st = stages [OF assms]
  have n1: "length (filter (\<lambda>it. it_playlist_id it = i) (d_items db)) = length ?R"
    by (simp add: items_of_def)
  have n2: "length (filter (\<lambda>it. it_playlist_id it = i \<and> it_id it \<in> set ids) (d_items db)) = length (filter (\<lambda>x. x \<in> set ids) ?R)"
    by (simp add: items_of_def filter_map comp_def conj_commute)
  have "Reorder False now i ids db =
      (if length ?R \<noteq> length ids then (Some ReorderIncomplete, db)
       else if length (filter (\<lambda>x. x \<in> set ids) ?R) \<noteq> length ids then (Some ReorderIncomplete, db)
       else (None, map_playlist i (bump now) (db\<lparr>d_items := map (place (stage2 i ids)) (map (place (stage1 i)) (d_items db))\<rparr>)))"
    using st(1) st(2) [of i ids] n1 n2 unfolding Reorder_def stage1_def [abs_def] stage2_def [abs_def] by simp
  moreover have "mset ids = mset ?R \<longleftrightarrow> length ?R = length ids \<and> length (filter (\<lambda>x. x \<in> set ids) ?R) = length ids"
    using exact_ids [OF distinct_items_of [OF assms], of i ids] mset_eq_length [of ids ?R] by metis
  ultimately show ?thesis
    by (simp del: mset_map length_map)
qed

lemma items_of_reordered:
  "items_of (map_playlist i (bump now) (db\<lparr>d_items := map (place (stage2 i ids) \<circ> place (stage1 i)) (d_items db)\<rparr>)) j =
    map (place (stage2 i ids) \<circ> place (stage1 i)) (items_of db j)"
  by (simp add: items_of_def map_playlist_def filter_map comp_def)

lemma reordered_elsewhere:
  "it_playlist_id it \<noteq> i \<Longrightarrow> (place (stage2 i ids) \<circ> place (stage1 i)) it = it"
  by (simp add: place_def stage1_def stage2_def)

lemma items_ok_reordered:
  assumes ok: "items_ok its" and ids: "mset ids = mset (map it_id (filter (\<lambda>it. it_playlist_id it = i) its))"
  shows "items_ok (map (place (stage2 i ids) \<circ> place (stage1 i)) its)"
proof -
  let ?g = "place (stage2 i ids) \<circ> place (stage1 i)"
  let ?rows = "filter (\<lambda>it. it_playlist_id it = i) its"
  have "distinct (map it_id ?rows)"
    using ok by (simp add: items_ok_def distinct_map_filter)
  then have "map it_position (sort_key it_position (map ?g ?rows)) = map int [0..<length ids]"
    by (rule reordered_rows(2) [OF _ ids]) simp
  then have ms: "mset (map it_position (map ?g ?rows)) = mset (map int [0..<length ids])"
    by (metis mset_map mset_sort)
  then have "distinct (map it_position (map ?g ?rows))"
    by (metis distinct_map distinct_upt inj_on_of_nat mset_eq_imp_distinct_iff)
  then have inj: "inj_on (\<lambda>it. it_position (?g it)) (set ?rows)"
    by (simp add: distinct_map comp_inj_on_iff comp_def)
  have nonneg: "0 \<le> it_position (?g it)" if "it \<in> set its" for it
  proof (cases "it_playlist_id it = i")
    case True
    then have "it_position (?g it) \<in> set (map it_position (map ?g ?rows))"
      using that by simp
    then show ?thesis
      unfolding mset_eq_setD [OF ms] by auto
  next
    case False
    then show ?thesis
      using reordered_elsewhere [OF False] items_okD(2) [OF ok that that] by metis
  qed
  have "inj_on (\<lambda>it. (it_playlist_id it, it_position (?g it))) (set its)"
  proof (rule inj_onI)
    fix a b
    assume ab: "a \<in> set its" "b \<in> set its" "(it_playlist_id a, it_position (?g a)) = (it_playlist_id b, it_position (?g b))"
    show "a = b"
    proof (cases "it_playlist_id a = i")
      case True
      then have "a \<in> set ?rows" "b \<in> set ?rows" "it_position (?g a) = it_position (?g b)"
        using ab(1,2) ab(3) [unfolded prod.inject] by (simp, simp, blast)
      then show ?thesis
        by (intro inj_onD [OF inj])
    next
      case False
      then have "?g a = a" "?g b = b"
        using ab(3) reordered_elsewhere [of a i ids] reordered_elsewhere [of b i ids] by simp_all
      then show ?thesis
        using ab items_okD(3) [OF ok ab(1,2)] by (metis prod.inject)
    qed
  qed
  moreover have "distinct its"
    using ok by (simp add: items_ok_def distinct_map)
  ultimately have "distinct (map (\<lambda>it. (it_playlist_id it, it_position (?g it))) its)"
    by (simp add: distinct_map)
  then show ?thesis
    using ok nonneg by (simp add: items_ok_def comp_def)
qed

text \<open>
  C20 (reorder).  In a table with distinct ids and distinct non-negative positions per playlist, in any
  physical row order: reordering by a permutation of the items of the playlist succeeds without a transient
  collision, the rotation then reads them in that order at positions 0, 1, 2, ..., the version is bumped and
  other playlists keep their items; any other id list is refused and changes nothing.
\<close>

theorem Reorder_correct:
  assumes "items_ok (d_items db)"
  shows "case Reorder False now i ids db of
      (None, db') \<Rightarrow>
        mset ids = mset (map it_id (items_of db i)) \<and>
        map it_id (the (RotationItems False i db')) = ids \<and>
        map it_position (the (RotationItems False i db')) = map int [0..<length ids] \<and>
        (\<forall>j. j = i \<or> items_of db' j = items_of db j) \<and>
        d_playlists db' = map (\<lambda>p. if pl_id p = i then bump now p else p) (d_playlists db)
    | (Some e, db') \<Rightarrow> e = ReorderIncomplete \<and> db' = db \<and> mset ids \<noteq> mset (map it_id (items_of db i))"
proof (cases "mset ids = mset (map it_id (items_of db i))")
  case False
  then show ?thesis
    by (simp only: Reorder_eq [OF assms] if_False prod.case option.case simp_thms)
next
  case True
  have "\<forall>it \<in> set (items_of db i). it_playlist_id it = i"
    by (simp add: items_of_def)
  note rows = reordered_rows [OF distinct_items_of [OF assms] True this]
  have "map (place (stage2 i ids) \<circ> place (stage1 i)) (items_of db j) = items_of db j" if "j \<noteq> i" for j
    using that by (intro map_idI reordered_elsewhere) (auto simp: items_of_def)
  then show ?thesis
    using True rows unfolding Reorder_eq [OF assms] RotationItems_def if_P [OF True] prod.case option.case items_of_reordered
    by (simp add: map_playlist_def) blast
qed

theorem Reorder_correct_witness:
  "\<exists>db'. Reorder False 0 1 [8, 7] \<lparr>d_operators = {}, d_images = [3 \<mapsto> ''aa''], d_templates = {}, d_playlists = [], d_next_playlist = 2,
      d_items = [\<lparr>it_id = 7, it_playlist_id = 1, it_image_id = 3, it_position = 0, it_fit = ''cover'', it_dither = ''none''\<rparr>,
                 \<lparr>it_id = 8, it_playlist_id = 1, it_image_id = 3, it_position = 1, it_fit = ''cover'', it_dither = ''none''\<rparr>],
      d_next_item = 9, d_functions = [], d_next_function = 1, d_playlist_of = Map.empty, d_function_of = Map.empty,
      d_cursors = Map.empty, d_variants = Map.empty, d_last_good = Map.empty\<rparr> = (None, db') \<and>
    map it_id (the (RotationItems False 1 db')) = [8, 7]"
proof -
  let ?db = "\<lparr>d_operators = {}, d_images = [3 \<mapsto> ''aa''], d_templates = {}, d_playlists = [], d_next_playlist = 2,
      d_items = [\<lparr>it_id = 7, it_playlist_id = 1, it_image_id = 3, it_position = 0, it_fit = ''cover'', it_dither = ''none''\<rparr>,
                 \<lparr>it_id = 8, it_playlist_id = 1, it_image_id = 3, it_position = 1, it_fit = ''cover'', it_dither = ''none''\<rparr>],
      d_next_item = 9, d_functions = [], d_next_function = 1, d_playlist_of = Map.empty, d_function_of = Map.empty,
      d_cursors = Map.empty, d_variants = Map.empty, d_last_good = Map.empty\<rparr>"
  have "items_ok (d_items ?db)" "mset [8, 7] = mset (map it_id (items_of ?db 1))"
    by (simp_all add: items_ok_def items_of_def)
  then show ?thesis
    using Reorder_correct [where db = ?db and now = 0 and i = 1 and ids = "[8, 7]"] by (auto split: prod.splits option.splits)
qed

end
