(* ===== verification/Display_Binding.thy ===== *)
theory Display_Binding
  imports Display_Store "HOL-Library.Product_Lexorder" "HOL-Library.Signed_Division"
begin

text \<open>
  What a device shows: the binding of its serial to a playlist or to a render function, the rotation
  cursor, the shared packed-frame cache (\<open>plrender\<close>), and the function store with the last good frames
  (\<open>faasstore\<close>).  The advisory lock on the serial makes each binding transaction one step.  Times
  are integers of one unit, which is also the unit of an interval.
\<close>

unbundle bit_operations_syntax

section \<open>Playlist bindings (plrender)\<close>

record binding =
  PlaylistID :: int
  FunctionID :: int

definition ResolveBinding :: "bool \<Rightarrow> serial \<Rightarrow> display_db \<Rightarrow> binding option" where
  "ResolveBinding flt sn db =
     (if flt then None
      else Some \<lparr>PlaylistID = coalesce (d_playlist_of db sn) 0, FunctionID = coalesce (d_function_of db sn) 0\<rparr>)"

definition BindPlaylist :: "bool \<Rightarrow> serial \<Rightarrow> int \<Rightarrow> display_db \<Rightarrow> store_error option \<times> display_db" where
  "BindPlaylist flt sn i db =
     (if flt then (Some StoreFailed, db)
      else if find_playlist db i = None then (Some ForeignKeyViolation, db)
      else
        let db = db\<lparr>d_function_of := (d_function_of db)(sn := None)\<rparr>;
            db = db\<lparr>d_playlist_of := (d_playlist_of db)(sn \<mapsto> i)\<rparr>;
            db = db\<lparr>d_cursors := (d_cursors db)(sn := None)\<rparr>
        in (None, delete_playlists (\<lambda>p. pl_managed_serial p = Some sn \<and> pl_id p \<noteq> i) db))"

text \<open>FNV-1a on 64 bits, as \<open>hash/fnv\<close> has it.\<close>

definition fnv_write :: "64 word \<Rightarrow> bytes \<Rightarrow> 64 word" where
  "fnv_write h bs = foldl (\<lambda>h b. (h XOR ucast b) * 1099511628211) h bs"

definition fnv_offset :: "64 word" where "fnv_offset = 14695981039346656037"

definition putU64 :: "64 word \<Rightarrow> bytes" where
  "putU64 v = map (\<lambda>i. ucast (drop_bit (8 * (7 - i)) v)) [0..<8]"

text \<open>\<open>%016x\<close> of a 64-bit value is the hexadecimal text of its eight big-endian bytes.\<close>

definition managedName :: "serial \<Rightarrow> string" where
  "managedName sn = ''managed.'' @ EncodeToString (putU64 (fnv_write fnv_offset (bytes_of sn)))"

text \<open>\<open>INSERT ... ON CONFLICT (managed_serial) DO UPDATE\<close>: a duplicate name is not covered by the conflict clause.\<close>

definition upsert_managed :: "time \<Rightarrow> serial \<Rightarrow> display_db \<Rightarrow> (store_error + int) \<times> display_db" where
  "upsert_managed now sn db =
     (case find (\<lambda>p. pl_managed_serial p = Some sn) (d_playlists db) of
        Some p \<Rightarrow> (Inr (pl_id p), map_playlist (pl_id p) (bump now) db)
      | None \<Rightarrow>
          (case insert_playlist now None (managedName sn) 900 ''sequential'' (Some sn) db of
             (Inl e, db) \<Rightarrow> (Inl e, db)
           | (Inr p, db) \<Rightarrow> (Inr (pl_id p), db)))"

definition SetManagedImage :: "bool \<Rightarrow> time \<Rightarrow> serial \<Rightarrow> int \<Rightarrow> display_db \<Rightarrow> (store_error + int) \<times> display_db" where
  "SetManagedImage flt now sn imageID db0 =
     (if flt then (Inl StoreFailed, db0)
      else
        let db = db0\<lparr>d_function_of := (d_function_of db0)(sn := None)\<rparr> in
        case upsert_managed now sn db of
          (Inl e, _) \<Rightarrow> (Inl e, db0)
        | (Inr plID, db) \<Rightarrow>
            let db = db\<lparr>d_items := filter (\<lambda>it. it_playlist_id it \<noteq> plID) (d_items db)\<rparr> in
            if d_images db imageID = None then (Inl ForeignKeyViolation, db0)
            else
              let it = \<lparr>it_id = d_next_item db, it_playlist_id = plID, it_image_id = imageID, it_position = 0,
                       it_fit = ''cover'', it_dither = ''none''\<rparr>;
                  db = db\<lparr>d_items := d_items db @ [it], d_next_item := d_next_item db + 1\<rparr>;
                  db = db\<lparr>d_playlist_of := (d_playlist_of db)(sn \<mapsto> plID)\<rparr>;
                  db = db\<lparr>d_cursors := (d_cursors db)(sn := None)\<rparr>
              in (Inr plID, db))"

definition CountBindings :: "bool \<Rightarrow> int \<Rightarrow> display_db \<Rightarrow> nat option" where
  "CountBindings flt i db = (if flt then None else Some (card {sn. d_playlist_of db sn = Some i}))"

definition UnbindPlaylist :: "bool \<Rightarrow> bool \<Rightarrow> serial \<Rightarrow> display_db \<Rightarrow> bool option \<times> display_db" where
  "UnbindPlaylist flt1 flt2 sn db =
     (if flt1 then (None, db)
      else
        let had = d_playlist_of db sn \<noteq> None; db = db\<lparr>d_playlist_of := (d_playlist_of db)(sn := None)\<rparr> in
        if flt2 then (None, db)
        else (Some had, db\<lparr>d_cursors := (d_cursors db)(sn := None)\<rparr>))"

record cursor =
  Index :: int
  Advanced :: bool
  AdvancedAt :: time

definition ResolveCursor ::
  "bool \<Rightarrow> serial \<Rightarrow> int \<Rightarrow> int \<Rightarrow> int \<Rightarrow> time \<Rightarrow> display_db \<Rightarrow> cursor option \<times> display_db" where
  "ResolveCursor flt sn i interval n now db =
     (if n \<le> 0 then (None, db)
      else if flt then (None, db)
      else
        let cur = d_cursors db sn;
            put = (\<lambda>c. db\<lparr>d_cursors := (d_cursors db)(sn \<mapsto> c)\<rparr>) in
        case cur of
          None \<Rightarrow> (Some \<lparr>Index = 0, Advanced = True, AdvancedAt = now\<rparr>, put \<lparr>pc_playlist_id = i, pc_position = 0, pc_advanced_at = now\<rparr>)
        | Some c \<Rightarrow>
            if pc_playlist_id c \<noteq> i
            then (Some \<lparr>Index = 0, Advanced = True, AdvancedAt = now\<rparr>, put \<lparr>pc_playlist_id = i, pc_position = 0, pc_advanced_at = now\<rparr>)
            else
              let pos = pc_position c smod n; pos = (if pos < 0 then pos + n else pos) in
              if now - pc_advanced_at c \<ge> interval
              then let nxt = (pos + 1) smod n in
                (Some \<lparr>Index = nxt, Advanced = True, AdvancedAt = now\<rparr>, put (c\<lparr>pc_position := nxt, pc_advanced_at := now\<rparr>))
              else
                (Some \<lparr>Index = pos, Advanced = False, AdvancedAt = pc_advanced_at c\<rparr>,
                 if pos \<noteq> pc_position c then put (c\<lparr>pc_position := pos\<rparr>) else db))"

definition VariantGet :: "bool \<Rightarrow> string \<Rightarrow> string \<Rightarrow> string \<Rightarrow> display_db \<Rightarrow> store_error + bytes" where
  "VariantGet flt sha fit dither db =
     (if flt then Inl StoreFailed
      else case d_variants db (sha, fit, dither) of None \<Rightarrow> Inl NotFound | Some packed \<Rightarrow> Inr packed)"

definition packed_len :: nat where "packed_len = 30000"

definition VariantPut :: "bool \<Rightarrow> string \<Rightarrow> string \<Rightarrow> string \<Rightarrow> bytes \<Rightarrow> display_db \<Rightarrow> store_error option \<times> display_db" where
  "VariantPut flt sha fit dither packed db =
     (if flt then (Some StoreFailed, db)
      else if length packed \<noteq> packed_len then (Some CheckViolation, db)
      else if d_variants db (sha, fit, dither) \<noteq> None then (None, db)
      else (None, db\<lparr>d_variants := (d_variants db)((sha, fit, dither) \<mapsto> packed)\<rparr>))"

definition referenced :: "display_db \<Rightarrow> string \<times> string \<times> string \<Rightarrow> bool" where
  "referenced db k \<longleftrightarrow> (\<exists>it \<in> set (d_items db). d_images db (it_image_id it) = Some (fst k) \<and> it_fit it = fst (snd k) \<and> it_dither it = snd (snd k))"

definition GCVariantCache :: "bool \<Rightarrow> display_db \<Rightarrow> nat option \<times> display_db" where
  "GCVariantCache flt db =
     (if flt then (None, db)
      else (Some (card {k \<in> dom (d_variants db). \<not> referenced db k}),
            db\<lparr>d_variants := (\<lambda>k. if referenced db k then d_variants db k else None)\<rparr>))"

text \<open>\<open>uint64(v)\<close> of a signed value is its word; \<open>sort.SliceStable\<close> is the stable sort by the pair of key and id.\<close>

definition shuffleKey :: "serial \<Rightarrow> int \<Rightarrow> int \<Rightarrow> int \<Rightarrow> 64 word" where
  "shuffleKey sn i epoch item =
     (let h = fnv_write fnv_offset (bytes_of sn);
          h = fnv_write h (putU64 (word_of_int i));
          h = fnv_write h (putU64 (word_of_int epoch))
      in fnv_write h (putU64 (word_of_int item)))"

definition RotationOrder :: "string \<Rightarrow> int \<Rightarrow> serial \<Rightarrow> int \<Rightarrow> int list \<Rightarrow> nat list" where
  "RotationOrder mode epoch sn i ids =
     (let order = [0..<length ids] in
      if mode \<noteq> ''shuffle'' \<or> length ids < 2 then order
      else
        let keys = map (shuffleKey sn i epoch) ids
        in sort_key (\<lambda>j. (uint (keys ! j), ids ! j)) order)"

section \<open>Functions and their bindings (faasstore)\<close>

record create_params =
  cp_name :: string
  cp_source :: string
  cp_trigger_type :: trigger_type
  cp_trigger_config :: string
  cp_secret_bindings :: "string list option"
  cp_egress_allow :: "string list option"
  cp_webhook_sha :: "bytes option"
  cp_template_id :: "int option"

record update_params =
  up_source :: string
  up_trigger_config :: string
  up_secret_bindings :: "string list option"
  up_egress_allow :: "string list option"

definition triggerOrDefault :: "trigger_type \<Rightarrow> trigger_type" where
  "triggerOrDefault t = (if t = [] then TriggerRender else t)"

definition coalesceJSON :: "string \<Rightarrow> string" where
  "coalesceJSON j = (if j = [] then ''{}'' else j)"

definition coalesceSlice :: "string list option \<Rightarrow> string list" where
  "coalesceSlice s = coalesce s []"

definition CreateFunction :: "bool \<Rightarrow> time \<Rightarrow> create_params \<Rightarrow> display_db \<Rightarrow> (store_error + int) \<times> display_db" where
  "CreateFunction flt now p db =
     (let tt = triggerOrDefault (cp_trigger_type p);
          f = \<lparr>fn_id = d_next_function db, fn_name = cp_name p, fn_source = cp_source p, fn_version = 1, fn_trigger_type = tt,
              fn_trigger_config = coalesceJSON (cp_trigger_config p), fn_secret_bindings = coalesceSlice (cp_secret_bindings p),
              fn_egress_allow = coalesceSlice (cp_egress_allow p), fn_enabled = False, fn_created_at = now, fn_updated_at = now,
              fn_webhook_sha = cp_webhook_sha p, fn_template_id = cp_template_id p\<rparr>
      in if flt then (Inl StoreFailed, db)
         else if tt \<notin> {TriggerRender, TriggerSchedule, TriggerWebhook} \<or> (\<exists>sha. cp_webhook_sha p = Some sha \<and> length sha \<noteq> 32)
         then (Inl CheckViolation, db)
         else if \<exists>g \<in> set (d_functions db). fn_name g = cp_name p then (Inl UniqueViolation, db)
         else if \<exists>t. cp_template_id p = Some t \<and> t \<notin> d_templates db then (Inl ForeignKeyViolation, db)
         else (Inr (fn_id f), db\<lparr>d_functions := d_functions db @ [f], d_next_function := d_next_function db + 1\<rparr>))"

definition exec_function :: "bool \<Rightarrow> int \<Rightarrow> (faas_function \<Rightarrow> faas_function) \<Rightarrow> display_db \<Rightarrow> bool option \<times> display_db" where
  "exec_function flt i g db =
     (if flt then (None, db) else (Some (find_function db i \<noteq> None), map_function i g db))"

definition UpdateFunction :: "bool \<Rightarrow> time \<Rightarrow> int \<Rightarrow> update_params \<Rightarrow> display_db \<Rightarrow> bool option \<times> display_db" where
  "UpdateFunction flt now i p db =
     exec_function flt i
       (\<lambda>f. f\<lparr>fn_source := up_source p, fn_trigger_config := coalesceJSON (up_trigger_config p),
             fn_secret_bindings := coalesceSlice (up_secret_bindings p), fn_egress_allow := coalesceSlice (up_egress_allow p),
             fn_version := fn_version f + 1, fn_updated_at := now\<rparr>) db"

definition SetEnabled :: "bool \<Rightarrow> time \<Rightarrow> int \<Rightarrow> bool \<Rightarrow> display_db \<Rightarrow> bool option \<times> display_db" where
  "SetEnabled flt now i enabled db = exec_function flt i (\<lambda>f. f\<lparr>fn_enabled := enabled, fn_updated_at := now\<rparr>) db"

text \<open>A hash of another length violates the \<open>CHECK\<close> when a row matches.\<close>

definition SetWebhookToken :: "bool \<Rightarrow> time \<Rightarrow> int \<Rightarrow> bytes option \<Rightarrow> display_db \<Rightarrow> bool option \<times> display_db" where
  "SetWebhookToken flt now i sha db =
     exec_function (flt \<or> find_function db i \<noteq> None \<and> (\<exists>b. sha = Some b \<and> length b \<noteq> 32)) i
       (\<lambda>f. f\<lparr>fn_webhook_sha := sha, fn_updated_at := now\<rparr>) db"

definition DeleteFunction :: "bool \<Rightarrow> int \<Rightarrow> display_db \<Rightarrow> bool option \<times> display_db" where
  "DeleteFunction flt i db =
     (if flt then (None, db)
      else (Some (find_function db i \<noteq> None),
            db\<lparr>d_functions := filter (\<lambda>f. fn_id f \<noteq> i) (d_functions db),
               d_function_of := (\<lambda>sn. if d_function_of db sn = Some i then None else d_function_of db sn),
               d_last_good := (\<lambda>k. if snd k = i then None else d_last_good db k)\<rparr>))"

definition LoadFunction :: "bool \<Rightarrow> int \<Rightarrow> display_db \<Rightarrow> store_error + faas_function" where
  "LoadFunction flt i db =
     (if flt then Inl StoreFailed else case find_function db i of None \<Rightarrow> Inl NotFound | Some f \<Rightarrow> Inr f)"

definition LoadFunctionByName :: "bool \<Rightarrow> string \<Rightarrow> display_db \<Rightarrow> store_error + faas_function" where
  "LoadFunctionByName flt name db =
     (if flt then Inl StoreFailed
      else case find (\<lambda>f. fn_name f = name) (d_functions db) of None \<Rightarrow> Inl NotFound | Some f \<Rightarrow> Inr f)"

definition FunctionVersion :: "bool \<Rightarrow> int \<Rightarrow> display_db \<Rightarrow> store_error + int" where
  "FunctionVersion flt i db =
     (if flt then Inl StoreFailed else case find_function db i of None \<Rightarrow> Inl NotFound | Some f \<Rightarrow> Inr (fn_version f))"

definition WebhookTokenSHA :: "bool \<Rightarrow> int \<Rightarrow> display_db \<Rightarrow> store_error + bytes" where
  "WebhookTokenSHA flt i db =
     (if flt then Inl StoreFailed
      else case find_function db i of
        None \<Rightarrow> Inl NotFound
      | Some f \<Rightarrow>
          (case fn_webhook_sha f of None \<Rightarrow> Inl NoWebhookToken | Some sha \<Rightarrow> if sha = [] then Inl NoWebhookToken else Inr sha))"

definition BindDevice :: "bool \<Rightarrow> serial \<Rightarrow> int \<Rightarrow> display_db \<Rightarrow> store_error option \<times> display_db" where
  "BindDevice flt sn i db0 =
     (if flt then (Some StoreFailed, db0)
      else
        let db = db0\<lparr>d_playlist_of := (d_playlist_of db0)(sn := None)\<rparr>;
            db = db\<lparr>d_cursors := (d_cursors db)(sn := None)\<rparr>;
            db = delete_playlists (\<lambda>p. pl_managed_serial p = Some sn) db
        in if find_function db i = None then (Some ForeignKeyViolation, db0)
           else (None, db\<lparr>d_function_of := (d_function_of db)(sn \<mapsto> i)\<rparr>))"

definition BoundFunctionID :: "bool \<Rightarrow> serial \<Rightarrow> display_db \<Rightarrow> int option option" where
  "BoundFunctionID flt sn db = (if flt then None else Some (d_function_of db sn))"

definition BoundFunction :: "bool \<Rightarrow> serial \<Rightarrow> display_db \<Rightarrow> (int \<times> string) option option" where
  "BoundFunction flt sn db =
     (if flt then None
      else Some (case d_function_of db sn of None \<Rightarrow> None | Some i \<Rightarrow> map_option (\<lambda>f. (fn_id f, fn_name f)) (find_function db i)))"

definition Unbind :: "bool \<Rightarrow> serial \<Rightarrow> display_db \<Rightarrow> bool option \<times> display_db" where
  "Unbind flt sn db =
     (if flt then (None, db) else (Some (d_function_of db sn \<noteq> None), db\<lparr>d_function_of := (d_function_of db)(sn := None)\<rparr>))"

definition DeleteDeviceBindings :: "bool \<Rightarrow> bool \<Rightarrow> serial \<Rightarrow> display_db \<Rightarrow> store_error option \<times> display_db" where
  "DeleteDeviceBindings flt1 flt2 sn db =
     (if flt1 then (Some StoreFailed, db)
      else
        let db = db\<lparr>d_function_of := (d_function_of db)(sn := None)\<rparr> in
        if flt2 then (Some StoreFailed, db)
        else (None, db\<lparr>d_last_good := (\<lambda>k. if fst k = sn then None else d_last_good db k)\<rparr>))"

definition LastGoodGet :: "bool \<Rightarrow> serial \<Rightarrow> int \<Rightarrow> display_db \<Rightarrow> store_error + last_good" where
  "LastGoodGet flt sn i db =
     (if flt then Inl StoreFailed else case d_last_good db (sn, i) of None \<Rightarrow> Inl NotFound | Some lg \<Rightarrow> Inr lg)"

definition LastGoodPut :: "bool \<Rightarrow> time \<Rightarrow> serial \<Rightarrow> int \<Rightarrow> bytes \<Rightarrow> string \<Rightarrow> display_db \<Rightarrow> store_error option \<times> display_db" where
  "LastGoodPut flt now sn i packed status db =
     (if flt then (Some StoreFailed, db)
      else if length packed \<noteq> packed_len then (Some CheckViolation, db)
      else if find_function db i = None then (Some ForeignKeyViolation, db)
      else (None, db\<lparr>d_last_good := (d_last_good db)((sn, i) \<mapsto> \<lparr>lg_packed = packed, lg_status = status, lg_rendered_at = now\<rparr>)\<rparr>))"

end
