(* ===== verification/Display_Invariant.thy ===== *)
theory Display_Invariant
  imports Display_Binding
begin

text \<open>
  The well-formedness of the display tables, kept by every operation of the three stores in every order:
  keys and names are unique, references lead to rows, positions are distinct, cached frames have the
  frame size, and a device has one binding at most.
\<close>

section \<open>The invariant\<close>

definition keyed :: "('a \<Rightarrow> int) \<Rightarrow> 'a list \<Rightarrow> int \<Rightarrow> bool" where
  "keyed key xs nxt \<longleftrightarrow> distinct (map key xs) \<and> (\<forall>x \<in> set xs. 0 < key x \<and> key x < nxt) \<and> 0 < nxt"

lemma keyed_filter [intro]: "keyed key xs nxt \<Longrightarrow> keyed key (filter P xs) nxt"
  by (auto simp: keyed_def distinct_map_filter)

lemma keyed_append: "keyed key xs nxt \<Longrightarrow> key x = nxt \<Longrightarrow> keyed key (xs @ [x]) (nxt + 1)"
  by (auto simp: keyed_def)

lemma keyed_map: "keyed key xs nxt \<Longrightarrow> (\<And>x. key (f x) = key x) \<Longrightarrow> keyed key (map f xs) nxt"
  by (simp add: keyed_def comp_def)

lemma keyed_find: "keyed key xs nxt \<Longrightarrow> x \<in> set xs \<Longrightarrow> find (\<lambda>y. key y = key x) xs = Some x"
  by (induction xs) (auto simp: keyed_def)

definition playlists_ok :: "playlist list \<Rightarrow> int \<Rightarrow> bool" where
  "playlists_ok ps nxt \<longleftrightarrow> keyed pl_id ps nxt \<and> distinct (map pl_name ps) \<and>
     (\<forall>p \<in> set ps. 0 < pl_interval_s p \<and> ValidOrderMode (pl_order_mode p)) \<and>
     (\<forall>p \<in> set ps. \<forall>q \<in> set ps. pl_managed_serial p = pl_managed_serial q \<longrightarrow> pl_managed_serial p \<noteq> None \<longrightarrow> p = q)"

definition item_rows_ok :: "playlist_item list \<Rightarrow> int \<Rightarrow> (int \<rightharpoonup> string) \<Rightarrow> int set \<Rightarrow> bool" where
  "item_rows_ok its nxt images pls \<longleftrightarrow> keyed it_id its nxt \<and> items_ok its \<and>
     (\<forall>it \<in> set its. it_playlist_id it \<in> pls \<and> images (it_image_id it) \<noteq> None \<and> it_fit it \<in> set fits \<and> it_dither it \<in> set dithers)"

definition functions_ok :: "faas_function list \<Rightarrow> int \<Rightarrow> bool" where
  "functions_ok fs nxt \<longleftrightarrow> keyed fn_id fs nxt \<and> distinct (map fn_name fs) \<and>
     (\<forall>f \<in> set fs. fn_trigger_type f \<in> {TriggerRender, TriggerSchedule, TriggerWebhook} \<and> (\<forall>sha. fn_webhook_sha f = Some sha \<longrightarrow> length sha = 32))"

definition bindings_ok :: "(serial \<rightharpoonup> int) \<Rightarrow> (serial \<rightharpoonup> int) \<Rightarrow> int set \<Rightarrow> int set \<Rightarrow> bool" where
  "bindings_ok pb fb pls fns \<longleftrightarrow> ran pb \<subseteq> pls \<and> ran fb \<subseteq> fns \<and> dom pb \<inter> dom fb = {}"

definition frames_ok :: "(string \<times> string \<times> string \<rightharpoonup> bytes) \<Rightarrow> (serial \<times> int \<rightharpoonup> last_good) \<Rightarrow> int set \<Rightarrow> bool" where
  "frames_ok vs lgs fns \<longleftrightarrow> (\<forall>k b. vs k = Some b \<longrightarrow> length b = packed_len) \<and>
     (\<forall>k lg. lgs k = Some lg \<longrightarrow> length (lg_packed lg) = packed_len \<and> snd k \<in> fns)"

abbreviation playlist_ids :: "display_db \<Rightarrow> int set" where
  "playlist_ids db \<equiv> pl_id ` set (d_playlists db)"

abbreviation function_ids :: "display_db \<Rightarrow> int set" where
  "function_ids db \<equiv> fn_id ` set (d_functions db)"

definition display_ok :: "display_db \<Rightarrow> bool" where
  "display_ok db \<longleftrightarrow> playlists_ok (d_playlists db) (d_next_playlist db) \<and>
     item_rows_ok (d_items db) (d_next_item db) (d_images db) (playlist_ids db) \<and>
     functions_ok (d_functions db) (d_next_function db) \<and>
     bindings_ok (d_playlist_of db) (d_function_of db) (playlist_ids db) (function_ids db) \<and>
     frames_ok (d_variants db) (d_last_good db) (function_ids db)"

section \<open>Table updates\<close>

lemma find_playlist_iff: "find_playlist db i = None \<longleftrightarrow> i \<notin> playlist_ids db"
  by (auto simp: find_playlist_def find_None_iff)

lemma find_function_iff: "find_function db i = None \<longleftrightarrow> i \<notin> function_ids db"
  by (auto simp: find_function_def find_None_iff)

lemma find_playlistD: "find_playlist db i = Some p \<Longrightarrow> p \<in> set (d_playlists db) \<and> pl_id p = i"
  by (auto simp: find_playlist_def find_Some_iff)

text \<open>A row update that keeps the key, and gives no row the name or the managed serial of another.\<close>

lemma playlists_ok_map:
  assumes "playlists_ok ps nxt"
    and "\<And>p. pl_id (f p) = pl_id p" "\<And>p. pl_managed_serial (f p) = pl_managed_serial p"
    and "\<And>p. p \<in> set ps \<Longrightarrow> 0 < pl_interval_s (f p) \<and> ValidOrderMode (pl_order_mode (f p))"
    and "distinct (map (pl_name \<circ> f) ps)"
  shows "playlists_ok (map f ps) nxt"
  using assms unfolding playlists_ok_def by (auto intro: keyed_map)

lemma playlists_ok_insert:
  assumes "playlists_ok ps nxt" "pl_id p = nxt" "0 < pl_interval_s p" "ValidOrderMode (pl_order_mode p)"
    and "\<forall>q \<in> set ps. pl_name q \<noteq> pl_name p \<and> (pl_managed_serial p = None \<or> pl_managed_serial q \<noteq> pl_managed_serial p)"
  shows "playlists_ok (ps @ [p]) (nxt + 1)"
  using assms keyed_append [of pl_id ps nxt p] unfolding playlists_ok_def by (auto simp: image_iff)

lemma playlists_ok_filter: "playlists_ok ps nxt \<Longrightarrow> playlists_ok (filter P ps) nxt"
  by (auto simp: playlists_ok_def distinct_map_filter)

lemma item_rows_ok_filter: "item_rows_ok its nxt img pls \<Longrightarrow> item_rows_ok (filter P its) nxt img pls"
  by (auto simp: item_rows_ok_def items_ok_def distinct_map_filter)

lemma item_rows_ok_append:
  assumes "item_rows_ok its nxt img pls" "it_id it = nxt" "0 \<le> it_position it" "it_playlist_id it \<in> pls"
    and "img (it_image_id it) \<noteq> None" "it_fit it \<in> set fits" "it_dither it \<in> set dithers"
    and "\<forall>x \<in> set its. it_playlist_id x = it_playlist_id it \<longrightarrow> it_position x \<noteq> it_position it"
  shows "item_rows_ok (its @ [it]) (nxt + 1) img pls"
  using assms keyed_append [of it_id its nxt it] unfolding item_rows_ok_def items_ok_def
  by (auto simp: keyed_def)

lemma item_rows_ok_mono: "item_rows_ok its nxt img pls \<Longrightarrow> pls \<subseteq> pls' \<Longrightarrow> item_rows_ok its nxt img pls'"
  by (auto simp: item_rows_ok_def)

lemma functions_ok_map:
  assumes "functions_ok fs nxt" "\<And>f. fn_id (g f) = fn_id f" "\<And>f. fn_name (g f) = fn_name f" "\<And>f. fn_trigger_type (g f) = fn_trigger_type f"
    and "\<And>f sha. f \<in> set fs \<Longrightarrow> fn_webhook_sha (g f) = Some sha \<Longrightarrow> length sha = 32"
  shows "functions_ok (map g fs) nxt"
  using assms unfolding functions_ok_def by (auto intro: keyed_map simp: comp_def)

lemma bindings_ok_mono: "bindings_ok pb fb pls fns \<Longrightarrow> pls \<subseteq> pls' \<Longrightarrow> fns \<subseteq> fns' \<Longrightarrow> bindings_ok pb fb pls' fns'"
  by (auto simp: bindings_ok_def)

lemma bindings_ok_bind_playlist:
  "bindings_ok pb fb pls fns \<Longrightarrow> i \<in> pls \<Longrightarrow> bindings_ok (pb(sn \<mapsto> i)) (fb(sn := None)) pls fns"
  by (auto simp: bindings_ok_def ran_def)

lemma bindings_ok_bind_function:
  "bindings_ok pb fb pls fns \<Longrightarrow> i \<in> fns \<Longrightarrow> bindings_ok (pb(sn := None)) (fb(sn \<mapsto> i)) pls fns"
  by (auto simp: bindings_ok_def ran_def)

lemma bindings_ok_sub:
  "bindings_ok pb fb pls fns \<Longrightarrow> pb' \<subseteq>\<^sub>m pb \<Longrightarrow> fb' \<subseteq>\<^sub>m fb \<Longrightarrow> ran pb' \<subseteq> pls' \<Longrightarrow> ran fb' \<subseteq> fns' \<Longrightarrow> bindings_ok pb' fb' pls' fns'"
  unfolding bindings_ok_def by (meson disjoint_iff map_le_implies_dom_le subset_iff)

lemma map_playlist_sel [simp]:
  "d_playlists (map_playlist i f db) = map (\<lambda>p. if pl_id p = i then f p else p) (d_playlists db)"
  "d_next_playlist (map_playlist i f db) = d_next_playlist db" "d_items (map_playlist i f db) = d_items db"
  "d_next_item (map_playlist i f db) = d_next_item db" "d_functions (map_playlist i f db) = d_functions db"
  "d_next_function (map_playlist i f db) = d_next_function db" "d_images (map_playlist i f db) = d_images db"
  "d_playlist_of (map_playlist i f db) = d_playlist_of db" "d_function_of (map_playlist i f db) = d_function_of db"
  "d_cursors (map_playlist i f db) = d_cursors db" "d_variants (map_playlist i f db) = d_variants db"
  "d_last_good (map_playlist i f db) = d_last_good db"
  by (simp_all add: map_playlist_def)

lemma map_playlist_ids:
  assumes "\<And>p. pl_id (f p) = pl_id p"
  shows "playlist_ids (map_playlist i f db) = playlist_ids db"
  unfolding map_playlist_sel set_map image_image by (intro image_cong) (simp_all add: assms)

lemma bump_sel [simp]:
  "pl_id (bump now p) = pl_id p" "pl_name (bump now p) = pl_name p" "pl_interval_s (bump now p) = pl_interval_s p"
  "pl_order_mode (bump now p) = pl_order_mode p" "pl_managed_serial (bump now p) = pl_managed_serial p"
  "pl_version (bump now p) = pl_version p + 1" "pl_shuffle_epoch (bump now p) = pl_shuffle_epoch p"
  by (simp_all add: bump_def)

text \<open>An update of one playlist row keeps the invariant, if the name it gives is its own or new.\<close>

lemma display_ok_map_playlist:
  assumes ok: "display_ok db"
    and f: "\<And>p. pl_id (f p) = pl_id p" "\<And>p. pl_managed_serial (f p) = pl_managed_serial p"
    and pol: "\<And>p. p \<in> set (d_playlists db) \<Longrightarrow> pl_id p = i \<Longrightarrow> 0 < pl_interval_s (f p) \<and> ValidOrderMode (pl_order_mode (f p))"
    and name: "\<And>p q. p \<in> set (d_playlists db) \<Longrightarrow> q \<in> set (d_playlists db) \<Longrightarrow> pl_id p = i \<Longrightarrow> pl_id q \<noteq> i \<Longrightarrow> pl_name (f p) \<noteq> pl_name q"
  shows "display_ok (map_playlist i f db)"
proof -
  let ?g = "\<lambda>p. if pl_id p = i then f p else p"
  have pls: "playlists_ok (d_playlists db) (d_next_playlist db)"
    using ok by (simp add: display_ok_def)
  then have d: "distinct (d_playlists db)" "inj_on pl_id (set (d_playlists db))" "inj_on pl_name (set (d_playlists db))"
    by (simp_all add: playlists_ok_def keyed_def distinct_map)
  have "inj_on (pl_name \<circ> ?g) (set (d_playlists db))"
  proof (rule inj_onI)
    fix p q
    assume pq: "p \<in> set (d_playlists db)" "q \<in> set (d_playlists db)" "(pl_name \<circ> ?g) p = (pl_name \<circ> ?g) q"
    consider "pl_id p = pl_id q" | "pl_id p = i" "pl_id q \<noteq> i" | "pl_id p \<noteq> i" "pl_id q = i" | "pl_id p \<noteq> i" "pl_id q \<noteq> i"
      by metis
    then show "p = q"
    proof cases
      case 1
      then show ?thesis
        using inj_onD [OF d(2)] pq by blast
    next
      case 2
      then show ?thesis
        using name [OF pq(1,2)] pq(3) by simp
    next
      case 3
      then show ?thesis
        using name [OF pq(2,1)] pq(3) by simp
    next
      case 4
      then show ?thesis
        using inj_onD [OF d(3)] pq by simp
    qed
  qed
  then have "distinct (map (pl_name \<circ> ?g) (d_playlists db))"
    using d(1) by (simp add: distinct_map)
  then have "playlists_ok (map ?g (d_playlists db)) (d_next_playlist db)"
    using pls f pol by (intro playlists_ok_map) (auto simp: playlists_ok_def)
  then show ?thesis
    using ok map_playlist_ids [OF f(1), of i db] by (simp add: display_ok_def)
qed

lemma display_ok_name: "display_ok db \<Longrightarrow> p \<in> set (d_playlists db) \<Longrightarrow> q \<in> set (d_playlists db) \<Longrightarrow> pl_id p \<noteq> pl_id q \<Longrightarrow> pl_name p \<noteq> pl_name q"
  unfolding display_ok_def playlists_ok_def distinct_map inj_on_def by metis

lemma display_ok_policy: "display_ok db \<Longrightarrow> p \<in> set (d_playlists db) \<Longrightarrow> 0 < pl_interval_s p \<and> ValidOrderMode (pl_order_mode p)"
  unfolding display_ok_def playlists_ok_def by metis

lemma display_ok_map_named:
  assumes "display_ok db" "\<And>p. pl_id (f p) = pl_id p" "\<And>p. pl_managed_serial (f p) = pl_managed_serial p" "\<And>p. pl_name (f p) = pl_name p"
    and "\<And>p. p \<in> set (d_playlists db) \<Longrightarrow> 0 < pl_interval_s (f p) \<and> ValidOrderMode (pl_order_mode (f p))"
  shows "display_ok (map_playlist i f db)"
  using assms(2-) display_ok_name [OF assms(1)] by (intro display_ok_map_playlist [OF assms(1)]) metis+

lemma display_ok_bump [intro]: "display_ok db \<Longrightarrow> display_ok (map_playlist i (bump now) db)"
  by (rule display_ok_map_named) (simp_all add: display_ok_policy)

lemma delete_playlists_sel [simp]:
  "d_playlists (delete_playlists P db) = filter (\<lambda>p. \<not> P p) (d_playlists db)"
  "d_next_playlist (delete_playlists P db) = d_next_playlist db"
  "d_next_item (delete_playlists P db) = d_next_item db" "d_functions (delete_playlists P db) = d_functions db"
  "d_next_function (delete_playlists P db) = d_next_function db" "d_images (delete_playlists P db) = d_images db"
  "d_function_of (delete_playlists P db) = d_function_of db" "d_cursors (delete_playlists P db) = d_cursors db"
  "d_variants (delete_playlists P db) = d_variants db" "d_last_good (delete_playlists P db) = d_last_good db"
  by (simp_all add: delete_playlists_def Let_def)

lemma display_ok_delete_playlists [intro]:
  assumes ok: "display_ok db"
  shows "display_ok (delete_playlists P db)"
proof -
  let ?db = "delete_playlists P db" and ?gone = "pl_id ` {p \<in> set (d_playlists db). P p}"
  have inj: "inj_on pl_id (set (d_playlists db))"
    using ok by (simp add: display_ok_def playlists_ok_def keyed_def distinct_map)
  then have ids: "playlist_ids ?db = playlist_ids db - ?gone"
    by (auto simp: inj_on_def)
  have rows: "item_rows_ok (d_items ?db) (d_next_item db) (d_images db) (playlist_ids ?db)"
    using ok item_rows_ok_filter [of "d_items db" "d_next_item db" "d_images db" "playlist_ids db"] unfolding ids
    by (auto simp: display_ok_def item_rows_ok_def delete_playlists_def Let_def)
  have of: "d_playlist_of ?db sn = Some j \<longleftrightarrow> d_playlist_of db sn = Some j \<and> j \<notin> ?gone" for sn j
    by (auto simp: delete_playlists_def Let_def split: option.splits)
  have "ran (d_playlist_of db) \<subseteq> playlist_ids db"
    using ok by (simp add: display_ok_def bindings_ok_def)
  then have "ran (d_playlist_of ?db) \<subseteq> playlist_ids ?db" "d_playlist_of ?db \<subseteq>\<^sub>m d_playlist_of db"
    unfolding ids using of by (auto simp: ran_def map_le_def dom_def)
  moreover have "bindings_ok (d_playlist_of db) (d_function_of db) (playlist_ids db) (function_ids db)"
    using ok by (simp add: display_ok_def)
  ultimately have "bindings_ok (d_playlist_of ?db) (d_function_of db) (playlist_ids ?db) (function_ids db)"
    using bindings_ok_sub bindings_ok_def map_le_refl by metis
  with rows show ?thesis
    using ok by (simp add: display_ok_def playlists_ok_filter)
qed

section \<open>Every operation keeps it\<close>

named_theorems display_ops \<open>the operations keep the invariant of the display tables\<close>

lemma ok_insert_playlist:
  assumes "display_ok db" "0 < interval" "ValidOrderMode mode"
  shows "display_ok (snd (insert_playlist now op name interval mode managed db))"
proof -
  have "playlists_ok (d_playlists db @ [p]) (d_next_playlist db + 1)"
    if "pl_id p = d_next_playlist db" "pl_interval_s p = interval" "pl_order_mode p = mode"
      "\<forall>q \<in> set (d_playlists db). pl_name q \<noteq> pl_name p \<and> (pl_managed_serial p = None \<or> pl_managed_serial q \<noteq> pl_managed_serial p)" for p
    using assms that by (intro playlists_ok_insert) (auto simp: display_ok_def)
  moreover have "item_rows_ok (d_items db) (d_next_item db) (d_images db) (insert x (playlist_ids db))"
    "bindings_ok (d_playlist_of db) (d_function_of db) (insert x (playlist_ids db)) (function_ids db)" for x
    using assms(1) by (auto simp: display_ok_def intro: item_rows_ok_mono bindings_ok_mono)
  ultimately show ?thesis
    using assms(1) by (auto simp: insert_playlist_def Let_def display_ok_def)
qed

lemma ok_CreatePlaylist [display_ops]:
  "display_ok db \<Longrightarrow> display_ok (snd (CreatePlaylist flt now op name interval mode managed db))"
  by (auto simp: CreatePlaylist_def Let_def intro!: ok_insert_playlist)

lemma ok_UpdatePlaylist [display_ops]:
  assumes ok: "display_ok db"
  shows "display_ok (snd (UpdatePlaylist flt now i name interval mode db))"
proof -
  let ?upd = "\<lambda>p. bump now (p\<lparr>pl_name := coalesce name (pl_name p), pl_interval_s := coalesce interval (pl_interval_s p),
                                 pl_order_mode := coalesce mode (pl_order_mode p)\<rparr>)"
  have "display_ok (map_playlist i ?upd db)"
    if "case interval of None \<Rightarrow> True | Some s \<Rightarrow> 0 < s" "case mode of None \<Rightarrow> True | Some m \<Rightarrow> ValidOrderMode m"
      "name = None \<or> (\<forall>q \<in> set (d_playlists db). pl_id q = i \<or> pl_name q \<noteq> the name)"
  proof (rule display_ok_map_playlist [OF ok])
    fix p
    assume "p \<in> set (d_playlists db)" "pl_id p = i"
    then show "0 < pl_interval_s (?upd p) \<and> ValidOrderMode (pl_order_mode (?upd p))"
      using ok that by (auto simp: display_ok_def playlists_ok_def coalesce_def split: option.splits)
  next
    fix p q
    assume *: "p \<in> set (d_playlists db)" "q \<in> set (d_playlists db)" "pl_id p = i" "pl_id q \<noteq> i"
    have "inj_on pl_name (set (d_playlists db))"
      using ok by (simp add: display_ok_def playlists_ok_def distinct_map)
    then show "pl_name (?upd p) \<noteq> pl_name q"
      using * that(3) by (cases name) (auto simp: coalesce_def inj_on_def)
  qed simp_all
  then show ?thesis
    using ok by (auto simp: UpdatePlaylist_def Let_def split: option.splits)
qed

lemma ok_DeletePlaylist [display_ops]: "display_ok db \<Longrightarrow> display_ok (snd (DeletePlaylist flt i db))"
  by (auto simp: DeletePlaylist_def)

lemma ok_SetPolicy [display_ops]: "display_ok db \<Longrightarrow> display_ok (snd (SetPolicy flt now i interval mode db))"
  using display_ok_map_named [of db] display_ok_policy [of db] by (simp add: SetPolicy_def)

lemma ok_Reshuffle [display_ops]: "display_ok db \<Longrightarrow> display_ok (snd (Reshuffle flt now i db))"
  using display_ok_map_named [of db] display_ok_policy [of db] by (simp add: Reshuffle_def)

lemma display_ok_items:
  "display_ok db \<Longrightarrow> item_rows_ok its nxt (d_images db) (playlist_ids db) \<Longrightarrow> display_ok (db\<lparr>d_items := its, d_next_item := nxt\<rparr>)"
  by (simp add: display_ok_def)

lemma ok_AddItem [display_ops]:
  assumes ok: "display_ok db"
  shows "display_ok (snd (AddItem flt now i img fit dither db))"
proof -
  let ?pos = "if items_of db i = [] then 0 else Max (it_position ` set (items_of db i)) + 1"
  have above: "it_position x < ?pos" if "x \<in> set (d_items db)" "it_playlist_id x = i" for x
  proof -
    have "x \<in> set (items_of db i)"
      using that by (simp add: items_of_def)
    then have "it_position x \<le> Max (it_position ` set (items_of db i))" "items_of db i \<noteq> []"
      by (auto intro: Max_ge)
    then show ?thesis
      by simp
  qed
  have "0 \<le> ?pos"
  proof (cases "items_of db i")
    case (Cons x xs)
    then have "x \<in> set (d_items db)" "it_playlist_id x = i"
      by (auto simp: items_of_def filter_eq_Cons_iff)
    then show ?thesis
      using above [of x] ok by (force simp: display_ok_def item_rows_ok_def items_ok_def)
  qed simp
  then have "item_rows_ok (d_items db @ [it]) (d_next_item db + 1) (d_images db) (playlist_ids db)"
    if "it_id it = d_next_item db" "it_playlist_id it = i" "it_position it = ?pos" "i \<in> playlist_ids db" "d_images db (it_image_id it) \<noteq> None"
      "it_fit it \<in> set fits" "it_dither it \<in> set dithers" for it
    using that ok above by (intro item_rows_ok_append) (force simp: display_ok_def)+
  then show ?thesis
    using ok find_playlist_iff [of db i]
    by (auto simp: AddItem_def Let_def intro!: display_ok_bump display_ok_items split: option.splits)
qed

lemma ok_RemoveItem [display_ops]:
  assumes "display_ok db"
  shows "display_ok (snd (RemoveItem flt now item db))"
proof -
  have "display_ok (db\<lparr>d_items := filter P (d_items db)\<rparr>)" for P
    using assms by (simp add: display_ok_def item_rows_ok_filter)
  then show ?thesis
    using assms by (auto simp: RemoveItem_def split: option.splits)
qed

lemma ok_Reorder [display_ops]:
  assumes ok: "display_ok db"
  shows "display_ok (snd (Reorder flt now i ids db))"
proof (cases flt)
  case False
  have its: "items_ok (d_items db)" and rows: "item_rows_ok (d_items db) (d_next_item db) (d_images db) (playlist_ids db)"
    using ok by (simp_all add: display_ok_def item_rows_ok_def)
  let ?g = "place (stage2 i ids) \<circ> place (stage1 i)"
  have sel: "it_id (?g it) = it_id it" "it_playlist_id (?g it) = it_playlist_id it" "it_image_id (?g it) = it_image_id it"
    "it_fit (?g it) = it_fit it" "it_dither (?g it) = it_dither it" for it
    by (simp_all add: place_def split: option.split)
  have "display_ok (db\<lparr>d_items := map ?g (d_items db)\<rparr>)" if "mset ids = mset (map it_id (items_of db i))"
  proof -
    have "items_ok (map ?g (d_items db))"
      by (rule items_ok_reordered [OF its that [unfolded items_of_def]])
    then have "item_rows_ok (map ?g (d_items db)) (d_next_item db) (d_images db) (playlist_ids db)"
      using rows keyed_map [of it_id "d_items db" "d_next_item db" ?g, OF _ sel(1)] sel unfolding item_rows_ok_def by auto
    then show ?thesis
      using ok by (simp add: display_ok_def)
  qed
  then show ?thesis
    using ok False by (auto simp: Reorder_eq [OF its] simp del: mset_map)
qed (use ok in \<open>simp add: Reorder_def\<close>)

lemma display_ok_clear_function: "display_ok db \<Longrightarrow> display_ok (db\<lparr>d_function_of := (d_function_of db)(sn := None)\<rparr>)"
  by (auto simp: display_ok_def bindings_ok_def ran_def)

lemma display_ok_clear_playlist: "display_ok db \<Longrightarrow> display_ok (db\<lparr>d_playlist_of := (d_playlist_of db)(sn := None)\<rparr>)"
  by (auto simp: display_ok_def bindings_ok_def ran_def)

lemma display_ok_cursors [simp]: "display_ok (db\<lparr>d_cursors := c\<rparr>) = display_ok db"
  by (simp add: display_ok_def)

lemma display_ok_bind_playlist:
  "display_ok db \<Longrightarrow> d_function_of db sn = None \<Longrightarrow> i \<in> playlist_ids db \<Longrightarrow> display_ok (db\<lparr>d_playlist_of := (d_playlist_of db)(sn \<mapsto> i)\<rparr>)"
  by (auto simp: display_ok_def bindings_ok_def ran_def)

lemma display_ok_bind_function:
  "display_ok db \<Longrightarrow> d_playlist_of db sn = None \<Longrightarrow> i \<in> function_ids db \<Longrightarrow> display_ok (db\<lparr>d_function_of := (d_function_of db)(sn \<mapsto> i)\<rparr>)"
  by (auto simp: display_ok_def bindings_ok_def ran_def)

lemma ok_BindPlaylist [display_ops]:
  assumes "display_ok db"
  shows "display_ok (snd (BindPlaylist flt sn i db))"
proof -
  have "display_ok (db\<lparr>d_function_of := (d_function_of db)(sn := None), d_playlist_of := (d_playlist_of db)(sn \<mapsto> i)\<rparr>)" if "i \<in> playlist_ids db"
    using display_ok_bind_playlist [OF display_ok_clear_function [OF assms], of sn sn i] that by simp
  then show ?thesis
    using assms find_playlist_iff [of db i] by (auto simp: BindPlaylist_def Let_def)
qed

lemma upsert_managed_cases:
  assumes ok: "display_ok db" and up: "upsert_managed now sn db = (r, db')"
  obtains (err) e where "r = Inl e" "db' = db"
  | (new) p where "r = Inr (pl_id p)" "display_ok db'" "p \<in> set (d_playlists db')" "pl_managed_serial p = Some sn"
      "find (\<lambda>p. pl_managed_serial p = Some sn) (d_playlists db) = None" "p \<notin> set (d_playlists db)"
      "db' = db\<lparr>d_playlists := d_playlists db @ [p], d_next_playlist := d_next_playlist db + 1\<rparr>" "pl_version p = 1" "pl_id p = d_next_playlist db"
  | (old) p where "r = Inr (pl_id p)" "display_ok db'" "p \<in> set (d_playlists db)" "pl_managed_serial p = Some sn"
      "find (\<lambda>p. pl_managed_serial p = Some sn) (d_playlists db) = Some p" "db' = map_playlist (pl_id p) (bump now) db"
proof (cases "find (\<lambda>p. pl_managed_serial p = Some sn) (d_playlists db)")
  case None
  let ?p = "\<lparr>pl_id = d_next_playlist db, pl_operator_key_id = None, pl_name = managedName sn, pl_interval_s = 900,
      pl_order_mode = ''sequential'', pl_shuffle_epoch = 1, pl_version = 1, pl_managed_serial = Some sn, pl_created_at = now, pl_updated_at = now\<rparr>"
  have fresh: "?p \<notin> set (d_playlists db)"
    using None by (auto simp: find_None_iff)
  show ?thesis
  proof (cases "insert_playlist now None (managedName sn) 900 ''sequential'' (Some sn) db = (Inl UniqueViolation, db)")
    case True
    then show ?thesis
      using None up err [of UniqueViolation] by (simp add: upsert_managed_def)
  next
    case False
    then have ins: "insert_playlist now None (managedName sn) 900 ''sequential'' (Some sn) db =
        (Inr ?p, db\<lparr>d_playlists := d_playlists db @ [?p], d_next_playlist := d_next_playlist db + 1\<rparr>)"
      by (simp add: insert_playlist_def Let_def split: if_splits)
    moreover have "display_ok (snd (insert_playlist now None (managedName sn) 900 ''sequential'' (Some sn) db))"
      by (rule ok_insert_playlist [OF ok]) (simp_all add: ValidOrderMode_def)
    ultimately show ?thesis
      using None up by (intro new [OF _ _ _ _ None fresh]) (auto simp: upsert_managed_def)
  qed
next
  case (Some p)
  then have "p \<in> set (d_playlists db)" "pl_managed_serial p = Some sn"
    by (auto simp: find_Some_iff)
  moreover have "r = Inr (pl_id p)" "db' = map_playlist (pl_id p) (bump now) db"
    using Some up by (simp_all add: upsert_managed_def)
  ultimately show ?thesis
    using display_ok_bump [OF ok] Some by (intro old) simp_all
qed

lemma ok_SetManagedImage [display_ops]:
  assumes ok: "display_ok db"
  shows "display_ok (snd (SetManagedImage flt now sn img db))"
proof -
  let ?db = "db\<lparr>d_function_of := (d_function_of db)(sn := None)\<rparr>"
  have ok1: "display_ok ?db"
    by (rule display_ok_clear_function [OF ok])
  obtain r db' where up: "upsert_managed now sn ?db = (r, db')"
    by fastforce
  have fill: "display_ok (db''\<lparr>d_items := filter (\<lambda>it. it_playlist_id it \<noteq> i) (d_items db'') @ [it], d_next_item := d_next_item db'' + 1,
      d_playlist_of := (d_playlist_of db'')(sn \<mapsto> i)\<rparr>)"
    if ok'': "display_ok db''" "i \<in> playlist_ids db''" "d_function_of db'' sn = None" "d_images db'' img \<noteq> None"
      and it: "it = \<lparr>it_id = d_next_item db'', it_playlist_id = i, it_image_id = img, it_position = 0, it_fit = ''cover'', it_dither = ''none''\<rparr>" for db'' i it
  proof -
    have "item_rows_ok (filter (\<lambda>it. it_playlist_id it \<noteq> i) (d_items db'') @ [it]) (d_next_item db'' + 1) (d_images db'') (playlist_ids db'')"
      using ok'' by (intro item_rows_ok_append item_rows_ok_filter) (auto simp: it display_ok_def fits_def dithers_def)
    from display_ok_items [OF ok''(1) this] show ?thesis
      using display_ok_bind_playlist ok'' by fastforce
  qed
  from ok1 up show ?thesis
  proof (cases rule: upsert_managed_cases)
    case (err e)
    then show ?thesis
      using ok up by (simp add: SetManagedImage_def Let_def)
  next
    case (new p)
    then show ?thesis
      using ok up fill [of db' "pl_id p"] by (auto simp: SetManagedImage_def Let_def)
  next
    case (old p)
    then have "pl_id p \<in> playlist_ids db'"
      using map_playlist_ids [of "bump now"] by force
    then show ?thesis
      using ok up old fill [of db' "pl_id p"] by (auto simp: SetManagedImage_def Let_def)
  qed
qed

lemma ok_UnbindPlaylist [display_ops]: "display_ok db \<Longrightarrow> display_ok (snd (UnbindPlaylist f1 f2 sn db))"
  using display_ok_clear_playlist [of db sn] by (simp add: UnbindPlaylist_def Let_def)

lemma ok_ResolveCursor [display_ops]: "display_ok db \<Longrightarrow> display_ok (snd (ResolveCursor flt sn i interval n now db))"
  by (simp add: ResolveCursor_def Let_def split: option.split)

lemma ok_VariantPut [display_ops]: "display_ok db \<Longrightarrow> display_ok (snd (VariantPut flt sha fit dither packed db))"
  by (auto simp: VariantPut_def display_ok_def frames_ok_def)

lemma ok_GCVariantCache [display_ops]: "display_ok db \<Longrightarrow> display_ok (snd (GCVariantCache flt db))"
  by (auto simp: GCVariantCache_def display_ok_def frames_ok_def split: if_splits)

lemma ok_CreateFunction [display_ops]:
  assumes ok: "display_ok db"
  shows "display_ok (snd (CreateFunction flt now p db))"
proof -
  have "display_ok (db\<lparr>d_functions := d_functions db @ [f], d_next_function := d_next_function db + 1\<rparr>)"
    if "fn_id f = d_next_function db" "\<forall>g \<in> set (d_functions db). fn_name g \<noteq> fn_name f" "fn_trigger_type f \<in> {TriggerRender, TriggerSchedule, TriggerWebhook}"
      "\<forall>sha. fn_webhook_sha f = Some sha \<longrightarrow> length sha = 32" for f
  proof -
    have "functions_ok (d_functions db @ [f]) (d_next_function db + 1)"
      using ok that keyed_append [of fn_id "d_functions db" "d_next_function db" f] by (auto simp: display_ok_def functions_ok_def)
    moreover have "bindings_ok (d_playlist_of db) (d_function_of db) (playlist_ids db) (insert (fn_id f) (function_ids db))"
      using ok by (auto simp: display_ok_def intro: bindings_ok_mono)
    ultimately show ?thesis
      using ok by (auto simp: display_ok_def frames_ok_def)
  qed
  then show ?thesis
    using ok by (auto simp: CreateFunction_def Let_def)
qed

lemma display_ok_map_function:
  assumes "display_ok db" "\<And>f. fn_id (g f) = fn_id f" "\<And>f. fn_name (g f) = fn_name f" "\<And>f. fn_trigger_type (g f) = fn_trigger_type f"
    and "\<And>f sha. f \<in> set (d_functions db) \<Longrightarrow> fn_id f = i \<Longrightarrow> fn_webhook_sha (g f) = Some sha \<Longrightarrow> length sha = 32"
  shows "display_ok (map_function i g db)"
proof -
  have "functions_ok (map (\<lambda>f. if fn_id f = i then g f else f) (d_functions db)) (d_next_function db)"
    using assms by (intro functions_ok_map) (auto simp: display_ok_def functions_ok_def split: if_splits)
  moreover have "fn_id ` (\<lambda>f. if fn_id f = i then g f else f) ` set (d_functions db) = function_ids db"
    unfolding image_image by (intro image_cong) (simp_all add: assms(2))
  ultimately show ?thesis
    using assms(1) unfolding display_ok_def map_function_def by simp
qed

lemma display_ok_webhook: "display_ok db \<Longrightarrow> f \<in> set (d_functions db) \<Longrightarrow> fn_webhook_sha f = Some sha \<Longrightarrow> length sha = 32"
  unfolding display_ok_def functions_ok_def by metis

lemma ok_UpdateFunction [display_ops]: "display_ok db \<Longrightarrow> display_ok (snd (UpdateFunction flt now i up db))"
  by (auto simp: UpdateFunction_def exec_function_def intro!: display_ok_map_function dest: display_ok_webhook)

lemma ok_SetEnabled [display_ops]: "display_ok db \<Longrightarrow> display_ok (snd (SetEnabled flt now i e db))"
  by (auto simp: SetEnabled_def exec_function_def intro!: display_ok_map_function dest: display_ok_webhook)

lemma ok_SetWebhookToken [display_ops]: "display_ok db \<Longrightarrow> display_ok (snd (SetWebhookToken flt now i sha db))"
  by (auto simp: SetWebhookToken_def exec_function_def find_function_iff intro!: display_ok_map_function)

lemma ok_DeleteFunction [display_ops]:
  assumes ok: "display_ok db"
  shows "display_ok (snd (DeleteFunction flt i db))"
proof -
  let ?fs = "filter (\<lambda>f. fn_id f \<noteq> i) (d_functions db)"
  have ids: "fn_id ` set ?fs = function_ids db - {i}"
    by auto
  have "functions_ok ?fs (d_next_function db)"
    using ok by (auto simp: display_ok_def functions_ok_def distinct_map_filter)
  moreover have "bindings_ok (d_playlist_of db) (\<lambda>sn. if d_function_of db sn = Some i then None else d_function_of db sn) (playlist_ids db) (function_ids db - {i})"
    using ok by (auto simp: display_ok_def bindings_ok_def ran_def split: if_splits)
  moreover have "frames_ok (d_variants db) (\<lambda>k. if snd k = i then None else d_last_good db k) (function_ids db - {i})"
    using ok by (auto simp: display_ok_def frames_ok_def split: if_splits)
  ultimately show ?thesis
    using ok unfolding DeleteFunction_def display_ok_def by (simp add: ids del: set_filter)
qed

lemma ok_BindDevice [display_ops]:
  assumes "display_ok db"
  shows "display_ok (snd (BindDevice flt sn i db))"
proof -
  let ?db = "delete_playlists (\<lambda>p. pl_managed_serial p = Some sn) (db\<lparr>d_playlist_of := (d_playlist_of db)(sn := None), d_cursors := (d_cursors db)(sn := None)\<rparr>)"
  have "display_ok ?db"
    using display_ok_clear_playlist [OF assms] by (intro display_ok_delete_playlists) simp
  moreover have "d_playlist_of ?db sn = None"
    by (simp add: delete_playlists_def Let_def)
  ultimately have "display_ok (?db\<lparr>d_function_of := (d_function_of ?db)(sn \<mapsto> i)\<rparr>)" if "i \<in> function_ids ?db"
    using display_ok_bind_function that by blast
  then show ?thesis
    using assms find_function_iff [of ?db i] by (auto simp: BindDevice_def Let_def)
qed

lemma ok_Unbind [display_ops]: "display_ok db \<Longrightarrow> display_ok (snd (Unbind flt sn db))"
  using display_ok_clear_function by (simp add: Unbind_def)

lemma ok_DeleteDeviceBindings [display_ops]:
  assumes "display_ok db"
  shows "display_ok (snd (DeleteDeviceBindings f1 f2 sn db))"
proof -
  have "display_ok (db'\<lparr>d_last_good := (\<lambda>k. if fst k = sn then None else d_last_good db' k)\<rparr>)" if "display_ok db'" for db'
    using that by (auto simp: display_ok_def frames_ok_def split: if_splits)
  from this [OF display_ok_clear_function [OF assms, of sn]] show ?thesis
    using display_ok_clear_function [OF assms, of sn] assms by (simp add: DeleteDeviceBindings_def Let_def)
qed

lemma ok_LastGoodPut [display_ops]: "display_ok db \<Longrightarrow> display_ok (snd (LastGoodPut flt now sn i packed status db))"
  by (auto simp: LastGoodPut_def display_ok_def frames_ok_def find_function_iff)

section \<open>Runs\<close>

datatype display_op =
    OpCreatePlaylist bool time "int option" string int string "string option"
  | OpUpdatePlaylist bool time int "string option" "int option" "string option"
  | OpDeletePlaylist bool int
  | OpAddItem bool time int int string string
  | OpRemoveItem bool time int
  | OpSetPolicy bool time int int string
  | OpReshuffle bool time int
  | OpReorder bool time int "int list"
  | OpBindPlaylist bool serial int
  | OpSetManagedImage bool time serial int
  | OpUnbindPlaylist bool bool serial
  | OpResolveCursor bool serial int int int time
  | OpVariantPut bool string string string bytes
  | OpGCVariantCache bool
  | OpCreateFunction bool time create_params
  | OpUpdateFunction bool time int update_params
  | OpSetEnabled bool time int bool
  | OpSetWebhookToken bool time int "bytes option"
  | OpDeleteFunction bool int
  | OpBindDevice bool serial int
  | OpUnbind bool serial
  | OpDeleteDeviceBindings bool bool serial
  | OpLastGoodPut bool time serial int bytes string

primrec display_step :: "display_op \<Rightarrow> display_db \<Rightarrow> display_db" where
  "display_step (OpCreatePlaylist flt now op name interval mode managed) db = snd (CreatePlaylist flt now op name interval mode managed db)"
| "display_step (OpUpdatePlaylist flt now i name interval mode) db = snd (UpdatePlaylist flt now i name interval mode db)"
| "display_step (OpDeletePlaylist flt i) db = snd (DeletePlaylist flt i db)"
| "display_step (OpAddItem flt now i img fit dither) db = snd (AddItem flt now i img fit dither db)"
| "display_step (OpRemoveItem flt now item) db = snd (RemoveItem flt now item db)"
| "display_step (OpSetPolicy flt now i interval mode) db = snd (SetPolicy flt now i interval mode db)"
| "display_step (OpReshuffle flt now i) db = snd (Reshuffle flt now i db)"
| "display_step (OpReorder flt now i ids) db = snd (Reorder flt now i ids db)"
| "display_step (OpBindPlaylist flt sn i) db = snd (BindPlaylist flt sn i db)"
| "display_step (OpSetManagedImage flt now sn img) db = snd (SetManagedImage flt now sn img db)"
| "display_step (OpUnbindPlaylist f1 f2 sn) db = snd (UnbindPlaylist f1 f2 sn db)"
| "display_step (OpResolveCursor flt sn i interval n now) db = snd (ResolveCursor flt sn i interval n now db)"
| "display_step (OpVariantPut flt sha fit dither packed) db = snd (VariantPut flt sha fit dither packed db)"
| "display_step (OpGCVariantCache flt) db = snd (GCVariantCache flt db)"
| "display_step (OpCreateFunction flt now p) db = snd (CreateFunction flt now p db)"
| "display_step (OpUpdateFunction flt now i p) db = snd (UpdateFunction flt now i p db)"
| "display_step (OpSetEnabled flt now i e) db = snd (SetEnabled flt now i e db)"
| "display_step (OpSetWebhookToken flt now i sha) db = snd (SetWebhookToken flt now i sha db)"
| "display_step (OpDeleteFunction flt i) db = snd (DeleteFunction flt i db)"
| "display_step (OpBindDevice flt sn i) db = snd (BindDevice flt sn i db)"
| "display_step (OpUnbind flt sn) db = snd (Unbind flt sn db)"
| "display_step (OpDeleteDeviceBindings f1 f2 sn) db = snd (DeleteDeviceBindings f1 f2 sn db)"
| "display_step (OpLastGoodPut flt now sn i packed status) db = snd (LastGoodPut flt now sn i packed status db)"

interpretation display: invariant_run display_step "\<lambda>_. True" display_ok
proof
  show "display_ok (display_step a db)" if "display_ok db" for a db
    using that by (cases a) (simp_all add: display_ops)
qed

text \<open>The tables of a new installation, for given operator keys, stored images and templates.\<close>

definition display_init :: "int set \<Rightarrow> (int \<rightharpoonup> string) \<Rightarrow> int set \<Rightarrow> display_db" where
  "display_init ops images templates =
     \<lparr>d_operators = ops, d_images = images, d_templates = templates, d_playlists = [], d_next_playlist = 1, d_items = [], d_next_item = 1,
      d_functions = [], d_next_function = 1, d_playlist_of = Map.empty, d_function_of = Map.empty, d_cursors = Map.empty,
      d_variants = Map.empty, d_last_good = Map.empty\<rparr>"

lemma display_ok_init: "display_ok (display_init ops images templates)"
  by (simp add: display_ok_def display_init_def playlists_ok_def item_rows_ok_def items_ok_def functions_ok_def bindings_ok_def frames_ok_def keyed_def)

lemma resolved_binding:
  assumes "display_ok db" "ResolveBinding False sn db = Some b"
  shows "(PlaylistID b = 0 \<and> FunctionID b = 0) \<or> (FunctionID b = 0 \<and> (\<exists>p. GetPlaylist False (PlaylistID b) db = Inr p)) \<or>
    (PlaylistID b = 0 \<and> (\<exists>f. LoadFunction False (FunctionID b) db = Inr f))"
proof -
  have r: "ran (d_playlist_of db) \<subseteq> playlist_ids db" "ran (d_function_of db) \<subseteq> function_ids db" "dom (d_playlist_of db) \<inter> dom (d_function_of db) = {}"
    using assms(1) by (simp_all add: display_ok_def bindings_ok_def)
  have "GetPlaylist False i db = Inr (the (find_playlist db i))" if "d_playlist_of db sn = Some i" for i
    using r(1) that find_playlist_iff [of db i] by (auto simp: GetPlaylist_def ran_def split: option.split)
  moreover have "LoadFunction False i db = Inr (the (find_function db i))" if "d_function_of db sn = Some i" for i
    using r(2) that find_function_iff [of db i] by (auto simp: LoadFunction_def ran_def split: option.split)
  moreover have "d_playlist_of db sn = None \<or> d_function_of db sn = None"
    using r(3) by blast
  ultimately show ?thesis
    using assms(2) by (auto simp: ResolveBinding_def coalesce_def split: option.splits)
qed

text \<open>
  C19 (display tables).  After any sequence of playlist, binding, cursor, cache and function operations,
  failing or not, the tables are well formed (unique keys and names, no dangling reference, distinct positions,
  full-size frames), and a device resolves to nothing, to one existing playlist, or to one existing function,
  never to both.
\<close>

theorem display_invariant:
  "\<exists>db. db = run display_step ops (display_init operators images templates) \<and> display_ok db \<and>
    (\<exists>b. ResolveBinding False sn db = Some b \<and>
      ((PlaylistID b = 0 \<and> FunctionID b = 0) \<or>
       (FunctionID b = 0 \<and> (\<exists>p. GetPlaylist False (PlaylistID b) db = Inr p)) \<or>
       (PlaylistID b = 0 \<and> (\<exists>f. LoadFunction False (FunctionID b) db = Inr f))))"
proof -
  let ?db = "run display_step ops (display_init operators images templates)"
  have ok: "display_ok ?db"
    by (rule display.run_I) (simp_all add: display_ok_init)
  obtain b where b: "ResolveBinding False sn ?db = Some b"
    by (simp add: ResolveBinding_def)
  show ?thesis
    by (rule exI [of _ ?db], intro conjI refl ok, rule exI [of _ b], intro conjI b resolved_binding [OF ok b])
qed

end
