(* ===== verification/Display_Rotation.thy ===== *)
theory Display_Rotation
  imports Display_Invariant
begin

text \<open>
  What a bound device shows: the order in which a playlist is visited, the cursor that walks it, and the
  single image put on a panel.
\<close>

section \<open>The visit order\<close>

definition visited :: "string \<Rightarrow> int \<Rightarrow> serial \<Rightarrow> int \<Rightarrow> int list \<Rightarrow> int list" where
  "visited mode epoch sn i ids = map (\<lambda>j. ids ! j) (RotationOrder mode epoch sn i ids)"

lemma map_insort_key: "map g (insort_key (\<lambda>x. f (g x)) x xs) = insort_key f (g x) (map g xs)"
  by (induction xs) simp_all

lemma map_sort_key: "map g (sort_key (\<lambda>x. f (g x)) xs) = sort_key f (map g xs)"
  by (induction xs) (simp_all add: map_insort_key)

lemma sort_key_short: "length xs < 2 \<Longrightarrow> sort_key f xs = xs"
  by (cases xs) (auto simp: numeral_2_eq_2 length_Suc_conv less_Suc_eq)

lemma sort_key_cong': "(\<And>x. x \<in> set xs \<Longrightarrow> f x = g x) \<Longrightarrow> sort_key f xs = sort_key g xs"
proof (induction xs)
  case (Cons x xs)
  have "insort_key f x ys = insort_key g x ys" if "set ys \<subseteq> set xs" for ys
    using that Cons.prems by (induction ys) auto
  then show ?case
    using Cons by simp
qed simp

lemma visited_eq:
  "visited mode epoch sn i ids =
    (if mode = ''shuffle'' then sort_key (\<lambda>x. (uint (shuffleKey sn i epoch x), x)) ids else ids)"
proof -
  let ?f = "\<lambda>x. (uint (shuffleKey sn i epoch x), x)"
  have "sort_key (\<lambda>j. (uint (map (shuffleKey sn i epoch) ids ! j), ids ! j)) [0..<length ids] = sort_key (\<lambda>j. ?f (ids ! j)) [0..<length ids]"
    by (rule sort_key_cong') simp
  then show ?thesis
    using map_sort_key [of "\<lambda>j. ids ! j" ?f "[0..<length ids]"]
    by (auto simp: visited_def RotationOrder_def Let_def map_nth sort_key_short)
qed

text \<open>
  The visit order of a playlist is a permutation of its item indices.  In sequential mode it is
  the stored order; in shuffle mode it is the stable sort by the hash key of each item, so adding or
  removing items never changes the order in which the remaining ones are visited.
\<close>

theorem rotation_order:
  "mset (RotationOrder mode epoch sn i ids) = mset [0..<length ids] \<and>
   visited ''sequential'' epoch sn i ids = ids \<and>
   visited ''shuffle'' epoch sn i ids = sort_key (\<lambda>x. (uint (shuffleKey sn i epoch x), x)) ids \<and>
   filter P (visited mode epoch sn i ids) = visited mode epoch sn i (filter P ids)"
proof (intro conjI)
  show "mset (RotationOrder mode epoch sn i ids) = mset [0..<length ids]"
    by (simp add: RotationOrder_def Let_def)
qed (simp_all add: visited_eq filter_sort)

section \<open>The cursor\<close>

text \<open>The slide show a device is promised: the step count, and the time of its last step.\<close>

fun slides :: "int \<Rightarrow> (nat \<times> time) option \<Rightarrow> time list \<Rightarrow> (nat \<times> time \<times> bool) list" where
  "slides interval s [] = []"
| "slides interval None (t # ts) = (0, t, True) # slides interval (Some (0, t)) ts"
| "slides interval (Some (k, u)) (t # ts) =
     (if t - u \<ge> interval then (k + 1, t, True) # slides interval (Some (k + 1, t)) ts
      else (k, u, False) # slides interval (Some (k, u)) ts)"

text \<open>The frame requests of one device at the given times, for a playlist of \<open>n\<close> items.\<close>

fun cursor_run :: "serial \<Rightarrow> int \<Rightarrow> int \<Rightarrow> int \<Rightarrow> time list \<Rightarrow> display_db \<Rightarrow> cursor option list \<times> display_db" where
  "cursor_run sn i interval n [] db = ([], db)"
| "cursor_run sn i interval n (t # ts) db =
     (let (c, db) = ResolveCursor False sn i interval n t db; (cs, db) = cursor_run sn i interval n ts db in (c # cs, db))"

definition slide_cursor :: "int \<Rightarrow> nat \<times> time \<times> bool \<Rightarrow> cursor" where
  "slide_cursor n = (\<lambda>(k, t, adv). \<lparr>Index = int k mod n, Advanced = adv, AdvancedAt = t\<rparr>)"

definition cursor_abs :: "display_db \<Rightarrow> serial \<Rightarrow> int \<Rightarrow> int \<Rightarrow> (nat \<times> time) option \<Rightarrow> bool" where
  "cursor_abs db sn i n s \<longleftrightarrow>
     (case s of
        None \<Rightarrow> (case d_cursors db sn of None \<Rightarrow> True | Some c \<Rightarrow> pc_playlist_id c \<noteq> i)
      | Some (k, u) \<Rightarrow> d_cursors db sn = Some \<lparr>pc_playlist_id = i, pc_position = int k mod n, pc_advanced_at = u\<rparr>)"

lemma smod_nonneg: "0 \<le> (a::int) \<Longrightarrow> 0 < n \<Longrightarrow> a smod n = a mod n"
  by (simp add: signed_modulo_int_def sgn_if)

lemma cursor_step:
  assumes "0 < n" "cursor_abs db sn i n s"
  obtains x s' db' where "slides interval s (t # ts) = x # slides interval s' ts" "cursor_abs db' sn i n s'"
    "ResolveCursor False sn i interval n t db = (Some (slide_cursor n x), db')" "(d_cursors db')(sn := None) = (d_cursors db)(sn := None)"
proof (cases s)
  case None
  let ?c = "\<lparr>pc_playlist_id = i, pc_position = 0, pc_advanced_at = t\<rparr>"
  have "ResolveCursor False sn i interval n t db = (Some \<lparr>Index = 0, Advanced = True, AdvancedAt = t\<rparr>, db\<lparr>d_cursors := (d_cursors db)(sn \<mapsto> ?c)\<rparr>)"
  proof (cases "d_cursors db sn")
    case None
    then show ?thesis
      using assms(1) by (simp add: ResolveCursor_def)
  next
    case (Some c)
    then have "pc_playlist_id c \<noteq> i"
      using assms(2) \<open>s = None\<close> by (simp add: cursor_abs_def)
    then show ?thesis
      using assms(1) Some by (simp add: ResolveCursor_def)
  qed
  then show ?thesis
    by (intro that [of "(0, t, True)" "Some (0, t)" "db\<lparr>d_cursors := (d_cursors db)(sn \<mapsto> ?c)\<rparr>"])
      (simp_all add: None cursor_abs_def slide_cursor_def)
next
  case (Some s0)
  obtain k u where s: "s = Some (k, u)"
    using Some by (cases s0) auto
  have cur: "d_cursors db sn = Some \<lparr>pc_playlist_id = i, pc_position = int k mod n, pc_advanced_at = u\<rparr>"
    using assms(2) s by (simp add: cursor_abs_def)
  have m: "int k mod n smod n = int k mod n" "(int k mod n + 1) smod n = int (k + 1) mod n" "\<not> int k mod n < 0"
    using assms(1) by (simp_all add: smod_nonneg mod_simps add.commute not_less)
  show ?thesis
  proof (cases "t - u \<ge> interval")
    case True
    then show ?thesis
      using cur m assms(1) by (intro that [of "(k + 1, t, True)" "Some (k + 1, t)"
          "db\<lparr>d_cursors := (d_cursors db)(sn \<mapsto> \<lparr>pc_playlist_id = i, pc_position = int (k + 1) mod n, pc_advanced_at = t\<rparr>)\<rparr>"]) (simp_all add: s ResolveCursor_def Let_def slide_cursor_def cursor_abs_def)
  next
    case False
    then show ?thesis
      using cur m assms(1) by (intro that [of "(k, u, False)" "Some (k, u)" db]) (simp_all add: s ResolveCursor_def Let_def slide_cursor_def cursor_abs_def)
  qed
qed

lemma cursor_refines:
  assumes "0 < n" "cursor_abs db sn i n s"
  shows "fst (cursor_run sn i interval n ts db) = map (\<lambda>x. Some (slide_cursor n x)) (slides interval s ts) \<and>
    (d_cursors (snd (cursor_run sn i interval n ts db)))(sn := None) = (d_cursors db)(sn := None)"
  using assms(2)
proof (induction ts arbitrary: db s)
  case (Cons t ts)
  from cursor_step [OF assms(1) Cons.prems, of interval t ts]
  obtain x s' db' where st: "slides interval s (t # ts) = x # slides interval s' ts" "cursor_abs db' sn i n s'"
    "ResolveCursor False sn i interval n t db = (Some (slide_cursor n x), db')" "(d_cursors db')(sn := None) = (d_cursors db)(sn := None)"
    by metis
  then show ?case
    using Cons.IH [OF st(2)] by (cases "cursor_run sn i interval n ts db'") (simp add: Let_def)
qed simp

lemma slides_spaced:
  "successively (\<lambda>a b. fst (snd a) + interval \<le> fst (snd b)) ((case s of None \<Rightarrow> [] | Some (k, u) \<Rightarrow> [(k, u, True)]) @ filter (\<lambda>x. snd (snd x)) (slides interval s ts))"
  by (induction interval s ts rule: slides.induct) (auto simp: successively_Cons split: option.split list.split if_splits)

lemma slides_count:
  "map fst (filter (\<lambda>x. snd (snd x)) (slides interval s ts)) =
    (let k0 = (case s of None \<Rightarrow> 0 | Some (k, u) \<Rightarrow> k + 1) in [k0 ..< k0 + length (filter (\<lambda>x. snd (snd x)) (slides interval s ts))])"
  by (induction interval s ts rule: slides.induct) (auto simp: Let_def upt_rec)

text \<open>
  C21 (slide show).  The requests of a device that is new to a playlist of \<open>n\<close> items are answered as
  the slide show prescribes: its steps are the indices 0, 1, 2, ... modulo \<open>n\<close>, a request advances exactly when
  the interval has elapsed since the last advance and holds the index otherwise, and two consecutive
  advances are at least one interval apart.  Other devices keep their cursors.
\<close>

theorem cursor_refines_slides:
  assumes "0 < n" "d_cursors db sn = None"
  shows "fst (cursor_run sn i interval n ts db) = map (\<lambda>x. Some (slide_cursor n x)) (slides interval None ts) \<and>
    successively (\<lambda>a b. AdvancedAt a + interval \<le> AdvancedAt b) (filter Advanced (map the (fst (cursor_run sn i interval n ts db)))) \<and>
    map Index (filter Advanced (map the (fst (cursor_run sn i interval n ts db)))) =
      map (\<lambda>k. int k mod n) [0..<length (filter Advanced (map the (fst (cursor_run sn i interval n ts db))))] \<and>
    (d_cursors (snd (cursor_run sn i interval n ts db)))(sn := None) = (d_cursors db)(sn := None)"
proof -
  have "cursor_abs db sn i n None"
    using assms(2) by (simp add: cursor_abs_def)
  note ref = cursor_refines [OF assms(1) this, of interval ts]
  let ?adv = "filter (\<lambda>x. snd (snd x)) (slides interval None ts)"
  have out: "filter Advanced (map the (fst (cursor_run sn i interval n ts db))) = map (slide_cursor n) ?adv"
    using ref by (simp add: filter_map comp_def slide_cursor_def case_prod_beta)
  have "successively (\<lambda>a b. AdvancedAt a + interval \<le> AdvancedAt b) (map (slide_cursor n) ?adv)"
    using slides_spaced [of interval None ts] by (simp add: successively_map slide_cursor_def case_prod_beta)
  moreover have "map Index (map (slide_cursor n) ?adv) = map (\<lambda>k. int k mod n) (map fst ?adv)"
    by (simp add: slide_cursor_def case_prod_beta)
  ultimately show ?thesis
    using ref slides_count [of interval None ts] unfolding out by simp
qed

theorem cursor_refines_slides_witness:
  "map (map_option Index) (fst (cursor_run ''PP01'' 4 900 3 [0, 100, 900, 1000, 1800, 2700] (display_init {} Map.empty {}))) =
    map Some [0, 0, 1, 1, 2, 0]"
  using cursor_refines_slides [of 3 "display_init {} Map.empty {}" "''PP01''" 4 900 "[0, 100, 900, 1000, 1800, 2700]"]
  by (simp add: display_init_def slide_cursor_def)

section \<open>A single image on a panel\<close>

lemma filter_unique:
  "find P xs = Some x \<Longrightarrow> distinct xs \<Longrightarrow> (\<And>y. y \<in> set xs \<Longrightarrow> P y \<Longrightarrow> y = x) \<Longrightarrow> filter P xs = [x]"
proof (induction xs)
  case (Cons y ys)
  show ?case
  proof (cases "P y")
    case True
    then have "y = x"
      using Cons.prems(1) by simp
    moreover have "\<not> P z" if "z \<in> set ys" for z
      using that Cons.prems(2) Cons.prems(3) [of z] \<open>y = x\<close> by auto
    ultimately show ?thesis
      using True by (simp add: filter_empty_conv)
  next
    case False
    then show ?thesis
      using Cons by simp
  qed
qed simp

lemma find_map_same: "(\<And>x. P (f x) = P x) \<Longrightarrow> find P (map f xs) = map_option f (find P xs)"
  by (induction xs) simp_all

lemma find_append: "find P (xs @ ys) = (case find P xs of None \<Rightarrow> find P ys | Some x \<Rightarrow> Some x)"
  by (induction xs) simp_all

lemma managed_row:
  assumes "display_ok db" "find (\<lambda>p. pl_managed_serial p = Some sn) (d_playlists db) = Some p"
  shows "filter (\<lambda>p. pl_managed_serial p = Some sn) (d_playlists db) = [p]"
proof (rule filter_unique [OF assms(2)])
  have "playlists_ok (d_playlists db) (d_next_playlist db)"
    using assms(1) by (simp add: display_ok_def)
  then show "distinct (d_playlists db)" "q \<in> set (d_playlists db) \<Longrightarrow> pl_managed_serial q = Some sn \<Longrightarrow> q = p" for q
    using assms(2) by (auto simp: playlists_ok_def keyed_def distinct_map find_Some_iff)
qed

text \<open>
  Putting a stored image on a panel makes the device resolve to a playlist with exactly that
  image and an unset cursor, and leaves exactly one managed playlist for it; other devices, and the items of other playlists,
  are not touched.  Putting another image there succeeds and reuses the same playlist.
\<close>

theorem managed_image:
  assumes "display_ok db" "SetManagedImage False now sn img db = (Inr i, db')" "d_images db img' \<noteq> None"
  shows "ResolveBinding False sn db' = Some \<lparr>PlaylistID = i, FunctionID = 0\<rparr> \<and>
    map it_image_id (the (RotationItems False i db')) = [img] \<and> d_cursors db' sn = None \<and>
    (\<exists>p. filter (\<lambda>p. pl_managed_serial p = Some sn) (d_playlists db') = [p] \<and> pl_id p = i) \<and>
    (d_playlist_of db')(sn := None) = (d_playlist_of db)(sn := None) \<and>
    (d_function_of db')(sn := None) = (d_function_of db)(sn := None) \<and>
    (\<forall>j. j = i \<or> items_of db' j = items_of db j) \<and>
    (\<exists>db''. SetManagedImage False now' sn img' db' = (Inr i, db''))"
proof -
  let ?db = "db\<lparr>d_function_of := (d_function_of db)(sn := None)\<rparr>"
  obtain r db1 where up: "upsert_managed now sn ?db = (r, db1)"
    by fastforce
  have ok1: "display_ok ?db"
    by (rule display_ok_clear_function [OF assms(1)])
  have res: "r = Inr i \<and> d_images db1 img \<noteq> None \<and>
      db' = db1\<lparr>d_items := filter (\<lambda>it. it_playlist_id it \<noteq> i) (d_items db1) @
          [\<lparr>it_id = d_next_item db1, it_playlist_id = i, it_image_id = img, it_position = 0, it_fit = ''cover'', it_dither = ''none''\<rparr>],
        d_next_item := d_next_item db1 + 1, d_playlist_of := (d_playlist_of db1)(sn \<mapsto> i), d_cursors := (d_cursors db1)(sn := None)\<rparr>"
    using assms(2) up by (auto simp: SetManagedImage_def Let_def split: sum.splits if_splits)
  have keep: "d_playlist_of db1 = d_playlist_of db \<and> d_function_of db1 = (d_function_of db)(sn := None) \<and> d_items db1 = d_items db \<and>
      d_images db1 = d_images db \<and> (\<exists>p. find (\<lambda>p. pl_managed_serial p = Some sn) (d_playlists db1) = Some p \<and> pl_id p = i) \<and> display_ok db1"
    using ok1 up
  proof (cases rule: upsert_managed_cases)
    case (new p)
    then show ?thesis
      using res by (auto simp: find_append)
  next
    case (old p)
    then show ?thesis
      using res by (auto simp: find_map_same)
  qed (use res in simp)
  then obtain p where p: "find (\<lambda>p. pl_managed_serial p = Some sn) (d_playlists db1) = Some p" "pl_id p = i"
    by blast
  have "filter (\<lambda>p. pl_managed_serial p = Some sn) (d_playlists db') = [p]"
    using managed_row [OF _ p(1)] keep res by simp
  moreover have "\<exists>db''. SetManagedImage False now' sn img' db' = (Inr i, db'')"
    using p res keep assms(3) by (simp add: SetManagedImage_def Let_def upsert_managed_def)
  moreover have "items_of db' j = items_of db j" if "j \<noteq> i" for j
    using res keep that by (auto simp: items_of_def intro!: filter_cong)
  moreover have "items_of db' i = [\<lparr>it_id = d_next_item db1, it_playlist_id = i, it_image_id = img, it_position = 0, it_fit = ''cover'', it_dither = ''none''\<rparr>]"
    using res by (simp add: items_of_def)
  ultimately show ?thesis
    using res keep p(2) by (auto simp: ResolveBinding_def coalesce_def RotationItems_def)
qed

theorem managed_image_witness:
  "\<exists>db'. SetManagedImage False 5 ''PP01'' 7 (display_init {} [7 \<mapsto> ''aa''] {}) = (Inr 1, db') \<and>
    ResolveBinding False ''PP01'' db' = Some \<lparr>PlaylistID = 1, FunctionID = 0\<rparr> \<and>
    map it_image_id (the (RotationItems False 1 db')) = [7]"
proof -
  obtain db' where "SetManagedImage False 5 ''PP01'' 7 (display_init {} [7 \<mapsto> ''aa''] {}) = (Inr 1, db')"
    by (simp add: SetManagedImage_def upsert_managed_def insert_playlist_def display_init_def Let_def)
  with managed_image [OF display_ok_init this, where img' = 7 and now' = 6] show ?thesis
    by (simp add: display_init_def)
qed

end
