(* ===== verification/Aes_Gcm.thy ===== *)
theory Aes_Gcm
  imports Picpak_Base
begin

text \<open>
  AES-256 (FIPS 197) and Galois/Counter Mode (NIST SP 800-38D) with a 96-bit nonce and a 128-bit tag, as
  \<open>crypto/aes\<close> and \<open>crypto/cipher\<close> of the Go library provide them.  A state is the list of its
  16 bytes, column after column.
\<close>

unbundle bit_operations_syntax

section \<open>AES-256\<close>

definition xtime :: "byte \<Rightarrow> byte" where
  "xtime b = (if bit b 7 then push_bit 1 b XOR 0x1B else push_bit 1 b)"

fun gf_mul_bits :: "nat \<Rightarrow> byte \<Rightarrow> byte \<Rightarrow> byte" where
  "gf_mul_bits 0 a b = 0"
| "gf_mul_bits (Suc n) a b = (if bit b 0 then a else 0) XOR gf_mul_bits n (xtime a) (drop_bit 1 b)"

definition gf_mul :: "byte \<Rightarrow> byte \<Rightarrow> byte" where
  "gf_mul a b = gf_mul_bits 8 a b"

text \<open>The multiplicative inverse is the power 254, computed by squaring.\<close>

definition gf_inv :: "byte \<Rightarrow> byte" where
  "gf_inv b =
     (let sq = (\<lambda>x. gf_mul x x); b2 = sq b; b4 = sq b2; b8 = sq b4; b16 = sq b8; b32 = sq b16; b64 = sq b32; b128 = sq b64
      in gf_mul b2 (gf_mul b4 (gf_mul b8 (gf_mul b16 (gf_mul b32 (gf_mul b64 b128))))))"

definition rotl8 :: "nat \<Rightarrow> byte \<Rightarrow> byte" where
  "rotl8 n b = push_bit n b OR drop_bit (8 - n) b"

definition sub_byte :: "byte \<Rightarrow> byte" where
  "sub_byte b = (let s = gf_inv b in s XOR rotl8 1 s XOR rotl8 2 s XOR rotl8 3 s XOR rotl8 4 s XOR 0x63)"

definition xor_bytes :: "bytes \<Rightarrow> bytes \<Rightarrow> bytes" where
  "xor_bytes xs ys = map2 (XOR) xs ys"

definition shift_rows :: "bytes \<Rightarrow> bytes" where
  "shift_rows s = map (\<lambda>i. s ! (i mod 4 + 4 * ((i div 4 + i mod 4) mod 4))) [0..<16]"

definition mix_columns :: "bytes \<Rightarrow> bytes" where
  "mix_columns s =
     map (\<lambda>i. let c = 4 * (i div 4); at = (\<lambda>k. s ! (c + (i + k) mod 4))
              in gf_mul 2 (at 0) XOR gf_mul 3 (at 1) XOR at 2 XOR at 3) [0..<16]"

text \<open>The 60 words of the key schedule, each four bytes.\<close>

fun expand_key :: "nat \<Rightarrow> byte \<Rightarrow> bytes list \<Rightarrow> bytes list" where
  "expand_key 0 rcon ws = ws"
| "expand_key (Suc n) rcon ws =
     (let i = length ws; t = last ws;
          t' = (if i mod 8 = 0 then xor_bytes (map sub_byte (rotate1 t)) [rcon, 0, 0, 0]
                else if i mod 8 = 4 then map sub_byte t else t)
      in expand_key n (if i mod 8 = 0 then xtime rcon else rcon) (ws @ [xor_bytes (ws ! (i - 8)) t']))"

definition round_keys :: "bytes \<Rightarrow> bytes list" where
  "round_keys key =
     (let ws = expand_key 52 1 (map (\<lambda>i. take 4 (drop (4 * i) key)) [0..<8])
      in map (\<lambda>r. concat (take 4 (drop (4 * r) ws))) [0..<15])"

definition add_round_key :: "bytes \<Rightarrow> bytes \<Rightarrow> bytes" where
  "add_round_key k s = map (\<lambda>i. s ! i XOR k ! i) [0..<16]"

definition aes_encrypt :: "bytes \<Rightarrow> bytes \<Rightarrow> bytes" where
  "aes_encrypt key block =
     (let rks = round_keys key;
          s = fold (\<lambda>r s. add_round_key (rks ! r) (mix_columns (shift_rows (map sub_byte s)))) [1..<14]
                (add_round_key (rks ! 0) block)
      in add_round_key (rks ! 14) (shift_rows (map sub_byte s)))"

lemma length_aes_encrypt [simp]: "length (aes_encrypt key block) = 16"
  by (simp add: aes_encrypt_def add_round_key_def Let_def)

section \<open>Galois/Counter Mode\<close>

definition block_word :: "bytes \<Rightarrow> 128 word" where
  "block_word bs = foldl (\<lambda>w b. push_bit 8 w OR ucast b) 0 bs"

definition word_block :: "128 word \<Rightarrow> bytes" where
  "word_block w = map (\<lambda>i. ucast (drop_bit (8 * (15 - i)) w)) [0..<16]"

fun ghash_mul_bits :: "nat \<Rightarrow> 128 word \<Rightarrow> 128 word \<Rightarrow> 128 word \<Rightarrow> 128 word" where
  "ghash_mul_bits 0 x v z = z"
| "ghash_mul_bits (Suc n) x v z =
     ghash_mul_bits n x (if bit v 0 then drop_bit 1 v XOR 0xE1000000000000000000000000000000 else drop_bit 1 v)
       (if bit x n then z XOR v else z)"

definition ghash_mul :: "128 word \<Rightarrow> 128 word \<Rightarrow> 128 word" where
  "ghash_mul x y = ghash_mul_bits 128 x y 0"

definition pad16 :: "bytes \<Rightarrow> bytes" where
  "pad16 bs = bs @ replicate ((16 - length bs mod 16) mod 16) 0"

fun ghash :: "nat \<Rightarrow> 128 word \<Rightarrow> 128 word \<Rightarrow> bytes \<Rightarrow> 128 word" where
  "ghash 0 h y bs = y"
| "ghash (Suc n) h y bs = ghash n h (ghash_mul (y XOR block_word (take 16 bs)) h) (drop 16 bs)"

definition len64 :: "nat \<Rightarrow> bytes" where
  "len64 n = map (\<lambda>i. ucast (drop_bit (8 * (7 - i)) (of_nat (8 * n) :: 64 word))) [0..<8]"

text \<open>The counter block \<open>i\<close> of a nonce: \<open>i = 1\<close> masks the tag, the text starts at 2.\<close>

definition counter_block :: "bytes \<Rightarrow> nat \<Rightarrow> bytes" where
  "counter_block nonce i = nonce @ map (\<lambda>j. ucast (drop_bit (8 * (3 - j)) (of_nat i :: 32 word))) [0..<4]"

definition gctr :: "bytes \<Rightarrow> bytes \<Rightarrow> bytes \<Rightarrow> bytes" where
  "gctr key nonce xs =
     xor_bytes xs (concat (map (\<lambda>i. aes_encrypt key (counter_block nonce (i + 2))) [0..<(length xs + 15) div 16]))"

definition gcm_tag :: "bytes \<Rightarrow> bytes \<Rightarrow> bytes \<Rightarrow> bytes \<Rightarrow> bytes" where
  "gcm_tag key nonce ad ct =
     (let h = block_word (aes_encrypt key (replicate 16 0));
          m = pad16 ad @ pad16 ct @ len64 (length ad) @ len64 (length ct)
      in xor_bytes (word_block (ghash (length m div 16) h 0 m)) (aes_encrypt key (counter_block nonce 1)))"

definition gcm_seal :: "bytes \<Rightarrow> bytes \<Rightarrow> bytes \<Rightarrow> bytes \<Rightarrow> bytes" where
  "gcm_seal key nonce plaintext ad = (let ct = gctr key nonce plaintext in ct @ gcm_tag key nonce ad ct)"

definition gcm_open :: "bytes \<Rightarrow> bytes \<Rightarrow> bytes \<Rightarrow> bytes \<Rightarrow> bytes option" where
  "gcm_open key nonce ciphertext ad =
     (if length ciphertext < 16 then None
      else
        let n = length ciphertext - 16; ct = take n ciphertext
        in if gcm_tag key nonce ad ct \<noteq> drop n ciphertext then None else Some (gctr key nonce ct))"

lemma length_gcm_tag [simp]: "length (gcm_tag key nonce ad ct) = 16"
  by (simp add: gcm_tag_def xor_bytes_def word_block_def Let_def)

lemma xor_bytes_twice: "length xs \<le> length ks \<Longrightarrow> xor_bytes (xor_bytes xs ks) ks = xs"
  by (rule nth_equalityI) (simp_all add: xor_bytes_def xor.assoc)

lemma length_concat_16: "(\<And>x. x \<in> set xs \<Longrightarrow> length (f x) = 16) \<Longrightarrow> length (concat (map f xs)) = 16 * length xs"
  by (induction xs) simp_all

lemma length_gctr [simp]: "length (gctr key nonce xs) = length xs"
proof -
  have "length xs \<le> 16 * ((length xs + 15) div 16)"
    by linarith
  then show ?thesis
    by (simp add: gctr_def xor_bytes_def length_concat_16)
qed

lemma gctr_gctr [simp]: "gctr key nonce (gctr key nonce xs) = xs"
proof -
  have "length xs \<le> 16 * ((length xs + 15) div 16)"
    by linarith
  then have "xor_bytes (gctr key nonce xs) (concat (map (\<lambda>i. aes_encrypt key (counter_block nonce (i + 2))) [0..<(length xs + 15) div 16])) = xs"
    unfolding gctr_def by (intro xor_bytes_twice) (simp add: length_concat_16)
  then show ?thesis
    by (subst gctr_def) simp
qed

lemma gcm_open_seal: "gcm_open key nonce (gcm_seal key nonce plaintext ad) ad = Some plaintext"
  by (simp add: gcm_open_def gcm_seal_def Let_def)

text \<open>What opens was sealed: an accepted ciphertext is the sealing of the plaintext it opens to.\<close>

lemma gcm_open_Some: "gcm_open key nonce ciphertext ad = Some p \<Longrightarrow> ciphertext = gcm_seal key nonce p ad"
  by (auto simp: gcm_open_def gcm_seal_def Let_def split: if_splits)

end
