(* ===== verification/Secrets.thy ===== *)
theory Secrets
  imports Aes_Gcm Go_Base64 Runs Display_Store
begin

text \<open>
  The sealed secrets: package \<open>sealbox\<close> (AES-256-GCM under a current and an optional previous master
  key, with the secret's name as associated data), the table of package \<open>secrets\<close> with the rotation sweep, and the
  decryption of a dumped row from standard input.

  \<open>rnd\<close> is the random source of one call, \<open>None\<close> when it fails.  Opening with a nonce that is not 12 bytes long panics
  in \<open>crypto/cipher\<close>; the table's \<open>CHECK\<close> keeps such a row out.
\<close>

section \<open>The sealing box (sealbox)\<close>

definition KeySize :: nat where "KeySize = 32"

definition NonceSize :: nat where "NonceSize = 12"

definition aadPrefix :: string where "aadPrefix = ''picpak:secret:v1:''"

definition EnvKey :: string where "EnvKey = ''SECRETS_KEY''"

definition EnvKeyPrev :: string where "EnvKeyPrev = ''SECRETS_KEY_PREV''"

datatype box_error =
    NotHex string | WrongKeyLen string nat | KeyEmpty | NameRequired | PlaintextEmpty | NonceFailed | AuthFailed | CipherPanic
  | EmptyInput | Malformed | NonceNotB64 | CiphertextNotB64

record box =
  bx_current :: bytes
  bx_prev :: "bytes option"

definition parseKey :: "string \<Rightarrow> string \<Rightarrow> box_error + bytes" where
  "parseKey label hexKey =
     (case DecodeString (TrimSpace hexKey) of
        None \<Rightarrow> Inl (NotHex label)
      | Some raw \<Rightarrow> if length raw \<noteq> KeySize then Inl (WrongKeyLen label (length raw)) else Inr raw)"

definition NewBox :: "string \<Rightarrow> string \<Rightarrow> box_error + box" where
  "NewBox currentHex prevHex =
     (if TrimSpace currentHex = [] then Inl KeyEmpty
      else case parseKey EnvKey currentHex of
        Inl e \<Rightarrow> Inl e
      | Inr current \<Rightarrow>
          if TrimSpace prevHex = [] then Inr \<lparr>bx_current = current, bx_prev = None\<rparr>
          else case parseKey EnvKeyPrev prevHex of
            Inl e \<Rightarrow> Inl e
          | Inr prev \<Rightarrow> Inr \<lparr>bx_current = current, bx_prev = Some prev\<rparr>)"

definition HasPrev :: "box \<Rightarrow> bool" where "HasPrev b \<longleftrightarrow> bx_prev b \<noteq> None"

definition aad :: "string \<Rightarrow> bytes" where "aad name = bytes_of (aadPrefix @ name)"

type_synonym rand_source = "(nat \<Rightarrow> byte) option"

definition Seal :: "rand_source \<Rightarrow> box \<Rightarrow> string \<Rightarrow> bytes \<Rightarrow> box_error + bytes \<times> bytes" where
  "Seal rnd b name plaintext =
     (if name = [] then Inl NameRequired
      else if plaintext = [] then Inl PlaintextEmpty
      else case rnd of
        None \<Rightarrow> Inl NonceFailed
      | Some f \<Rightarrow> let nonce = map f [0..<NonceSize] in Inr (nonce, gcm_seal (bx_current b) nonce plaintext (aad name)))"

definition OpenBox :: "box \<Rightarrow> string \<Rightarrow> bytes \<Rightarrow> bytes \<Rightarrow> box_error + bytes \<times> bool" where
  "OpenBox b name nonce ciphertext =
     (if name = [] then Inl NameRequired
      else if length nonce \<noteq> NonceSize then Inl CipherPanic
      else case gcm_open (bx_current b) nonce ciphertext (aad name) of
        Some plaintext \<Rightarrow> Inr (plaintext, False)
      | None \<Rightarrow>
          (case bx_prev b of
             None \<Rightarrow> Inl AuthFailed
           | Some prev \<Rightarrow>
               (case gcm_open prev nonce ciphertext (aad name) of
                  Some plaintext \<Rightarrow> Inr (plaintext, True)
                | None \<Rightarrow> Inl AuthFailed)))"

definition DecodeLine :: "string \<Rightarrow> box_error + bytes \<times> bytes \<times> string" where
  "DecodeLine inp =
     (let clean = filter (\<lambda>c. \<not> is_crlf c) (TrimSpace inp) in
      if clean = [] then Inl EmptyInput
      else case SplitN 2 CHR '':'' clean of
        [p0, p1, p2] \<Rightarrow>
          (if p0 = [] \<or> p1 = [] \<or> p2 = [] then Inl Malformed
           else case pad_decode p0 of
             None \<Rightarrow> Inl NonceNotB64
           | Some nonce \<Rightarrow>
               (case pad_decode p1 of None \<Rightarrow> Inl CiphertextNotB64 | Some ct \<Rightarrow> Inr (nonce, ct, p2)))
      | _ \<Rightarrow> Inl Malformed)"

definition decryptStdin :: "box \<Rightarrow> string \<Rightarrow> box_error + bytes" where
  "decryptStdin b inp =
     (case DecodeLine inp of
        Inl e \<Rightarrow> Inl e
      | Inr (nonce, ct, name) \<Rightarrow> (case OpenBox b name nonce ct of Inl e \<Rightarrow> Inl e | Inr (p, _) \<Rightarrow> Inr p))"

section \<open>The table (secrets)\<close>

definition ValidSecretName :: "string \<Rightarrow> bool" where
  "ValidSecretName name \<longleftrightarrow>
     (case name of
        [] \<Rightarrow> False
      | c # cs \<Rightarrow> lower_or_digit c \<and> length cs \<le> 127 \<and>
          list_all (\<lambda>c. lower_or_digit c \<or> c = CHR ''.'' \<or> c = CHR ''_'' \<or> c = CHR ''-'') cs)"

record secret_row =
  sc_name :: string
  sc_ciphertext :: bytes
  sc_nonce :: bytes
  sc_key_version :: int
  sc_created_at :: time
  sc_rotated_at :: "time option"

record secret_meta =
  sm_name :: string
  sm_key_version :: int
  sm_created_at :: time
  sm_rotated_at :: "time option"

datatype secret_error = SecretNotFound | SecretStore | SecretBox box_error

definition find_secret :: "string \<Rightarrow> secret_row list \<Rightarrow> secret_row option" where
  "find_secret name db = find (\<lambda>r. sc_name r = name) db"

definition PutSecret ::
  "bool \<Rightarrow> rand_source \<Rightarrow> time \<Rightarrow> box \<Rightarrow> string \<Rightarrow> bytes \<Rightarrow> secret_row list \<Rightarrow> (secret_error + bool) \<times> secret_row list" where
  "PutSecret flt rnd now b name val db =
     (case Seal rnd b name val of
        Inl e \<Rightarrow> (Inl (SecretBox e), db)
      | Inr (nonce, ct) \<Rightarrow>
          if flt then (Inl SecretStore, db)
          else if find_secret name db = None
          then (Inr True, db @ [\<lparr>sc_name = name, sc_ciphertext = ct, sc_nonce = nonce, sc_key_version = 1,
                               sc_created_at = now, sc_rotated_at = None\<rparr>])
          else (Inr False, map (\<lambda>r. if sc_name r = name
                  then r\<lparr>sc_ciphertext := ct, sc_nonce := nonce, sc_rotated_at := Some now\<rparr> else r) db))"

definition meta_of :: "secret_row \<Rightarrow> secret_meta" where
  "meta_of r = \<lparr>sm_name = sc_name r, sm_key_version = sc_key_version r, sm_created_at = sc_created_at r, sm_rotated_at = sc_rotated_at r\<rparr>"

definition GetMeta :: "bool \<Rightarrow> string \<Rightarrow> secret_row list \<Rightarrow> secret_error + secret_meta" where
  "GetMeta flt name db =
     (if flt then Inl SecretStore
      else case find_secret name db of None \<Rightarrow> Inl SecretNotFound | Some r \<Rightarrow> Inr (meta_of r))"

definition DeleteSecret :: "bool \<Rightarrow> string \<Rightarrow> secret_row list \<Rightarrow> (secret_error + bool) \<times> secret_row list" where
  "DeleteSecret flt name db =
     (if flt then (Inl SecretStore, db) else (Inr (find_secret name db \<noteq> None), filter (\<lambda>r. sc_name r \<noteq> name) db))"

definition ResolveSecret :: "bool \<Rightarrow> box \<Rightarrow> string \<Rightarrow> secret_row list \<Rightarrow> secret_error + bytes" where
  "ResolveSecret flt b name db =
     (if flt then Inl SecretStore
      else case find_secret name db of
        None \<Rightarrow> Inl SecretNotFound
      | Some r \<Rightarrow>
          (case OpenBox b name (sc_nonce r) (sc_ciphertext r) of Inl e \<Rightarrow> Inl (SecretBox e) | Inr (p, _) \<Rightarrow> Inr p))"

text \<open>
  The sweep.  The rows are read first; before the update of each one, other requests may have changed the
  table, which \<open>sw_others\<close> says, along with the random source and the failure of that row's update.  A row on
  which the cipher panics counts as one that does not open.
\<close>

datatype secret_op =
    SecPut bool rand_source time string bytes
  | SecDelete bool string

primrec secret_step :: "box \<Rightarrow> secret_op \<Rightarrow> secret_row list \<Rightarrow> secret_row list" where
  "secret_step b (SecPut flt rnd now name val) db = snd (PutSecret flt rnd now b name val db)"
| "secret_step b (SecDelete flt name) db = snd (DeleteSecret flt name db)"

record sweep_turn =
  sw_others :: "secret_op list"
  sw_rand :: rand_source
  sw_flt :: bool

fun sweep_rows ::
  "box \<Rightarrow> (secret_row \<times> sweep_turn) list \<Rightarrow> nat \<times> string list \<times> secret_row list \<Rightarrow> nat \<times> string list \<times> secret_row list" where
  "sweep_rows b [] acc = acc"
| "sweep_rows b ((r, t) # rs) (n, stranded, db0) =
     (let db = run (secret_step b) (sw_others t) db0 in
      sweep_rows b rs
        (case OpenBox b (sc_name r) (sc_nonce r) (sc_ciphertext r) of
           Inl _ \<Rightarrow> (n, stranded @ [sc_name r], db)
         | Inr (plaintext, usedPrev) \<Rightarrow>
             if \<not> usedPrev then (n, stranded, db)
             else case Seal (sw_rand t) b (sc_name r) plaintext of
               Inl _ \<Rightarrow> (n, stranded @ [sc_name r], db)
             | Inr (nn, nct) \<Rightarrow>
                 if sw_flt t then (n, stranded @ [sc_name r], db)
                 else
                   let hit = (\<lambda>x. sc_name x = sc_name r \<and> sc_ciphertext x = sc_ciphertext r)
                   in (if \<exists>x \<in> set db. hit x then n + 1 else n, stranded,
                       map (\<lambda>x. if hit x
                          then x\<lparr>sc_ciphertext := nct, sc_nonce := nn, sc_key_version := sc_key_version x + 1\<rparr> else x) db)))"

datatype sweep_error = SweepStore | SweepStranded "string list"

definition Sweep ::
  "bool \<Rightarrow> box \<Rightarrow> sweep_turn list \<Rightarrow> secret_row list \<Rightarrow> (nat \<times> string list \<times> sweep_error option) \<times> secret_row list" where
  "Sweep flt b turns db =
     (if \<not> HasPrev b then ((0, [], None), db)
      else if flt then ((0, [], Some SweepStore), db)
      else
        let (n, stranded, db') = sweep_rows b (zip db turns) (0, [], db)
        in ((n, stranded, if stranded \<noteq> [] then Some (SweepStranded stranded) else None), db'))"

section \<open>Sealing and opening\<close>

lemma OpenBox_Seal:
  assumes "Seal rnd b name p = Inr (nonce, ct)"
  shows "OpenBox b name nonce ct = Inr (p, False)" "length nonce = NonceSize" "name \<noteq> []" "p \<noteq> []"
  using assms by (auto simp: Seal_def OpenBox_def Let_def gcm_open_seal split: if_splits option.splits)

text \<open>What a table shows of a name: its nonce and ciphertext.\<close>

definition view :: "secret_row list \<Rightarrow> string \<Rightarrow> (bytes \<times> bytes) option" where
  "view db name = map_option (\<lambda>r. (sc_nonce r, sc_ciphertext r)) (find_secret name db)"

definition value_of :: "box \<Rightarrow> string \<Rightarrow> bytes \<times> bytes \<Rightarrow> secret_error + bytes" where
  "value_of b name x = (case OpenBox b name (fst x) (snd x) of Inl e \<Rightarrow> Inl (SecretBox e) | Inr (p, _) \<Rightarrow> Inr p)"

lemma ResolveSecret_view:
  "ResolveSecret False b name db = (case view db name of None \<Rightarrow> Inl SecretNotFound | Some x \<Rightarrow> value_of b name x)"
  by (simp add: ResolveSecret_def view_def value_of_def split: option.split)

lemma find_secret_map: "(\<And>r. sc_name (f r) = sc_name r) \<Longrightarrow> find_secret name (map f db) = map_option f (find_secret name db)"
  unfolding find_secret_def by (induction db) simp_all

lemma find_secret_append: "find_secret name (xs @ ys) = (case find_secret name xs of None \<Rightarrow> find_secret name ys | Some r \<Rightarrow> Some r)"
  unfolding find_secret_def by (induction xs) simp_all

lemma find_secret_filter: "find_secret name (filter (\<lambda>r. sc_name r \<noteq> n) db) = (if name = n then None else find_secret name db)"
  unfolding find_secret_def by (induction db) auto

lemma find_secret_name: "find_secret name db = Some r \<Longrightarrow> sc_name r = name"
  unfolding find_secret_def by (auto simp: find_Some_iff)

lemma find_secret_one: "find_secret n [r] = (if sc_name r = n then Some r else None)"
  by (simp add: find_secret_def)

lemma view_PutSecret:
  "view (snd (PutSecret flt rnd now b name val db)) =
    (case Seal rnd b name val of Inl _ \<Rightarrow> view db | Inr x \<Rightarrow> if flt then view db else (view db)(name \<mapsto> x))"
proof (rule ext)
  fix n
  let ?f = "\<lambda>ct nonce r. if sc_name r = name then r\<lparr>sc_ciphertext := ct, sc_nonce := nonce, sc_rotated_at := Some now\<rparr> else r"
  have "find_secret n (map (?f ct nonce) db) = map_option (?f ct nonce) (find_secret n db)" for ct nonce
    by (rule find_secret_map) simp
  then show "view (snd (PutSecret flt rnd now b name val db)) n =
      (case Seal rnd b name val of Inl _ \<Rightarrow> view db | Inr x \<Rightarrow> if flt then view db else (view db)(name \<mapsto> x)) n"
    by (auto simp: PutSecret_def view_def find_secret_append find_secret_one dest: find_secret_name split: sum.split option.split)
qed

lemma view_DeleteSecret:
  "view (snd (DeleteSecret flt name db)) = (if flt then view db else (view db)(name := None))"
  by (rule ext) (simp add: DeleteSecret_def view_def find_secret_filter)

text \<open>
  A stored secret resolves to exactly the value put last under its name, other names are not
  affected, and only a missing row is reported as not found: a resolved value was sealed under that very name by one of
  the two master keys.
\<close>

theorem secret_put_resolve:
  assumes "PutSecret flt rnd now b name val db = (Inr created, db')"
  shows "ResolveSecret False b name db' = Inr val \<and>
    (\<forall>n. n = name \<or> ResolveSecret False b n db' = ResolveSecret False b n db) \<and>
    (created \<longleftrightarrow> ResolveSecret False b name db = Inl SecretNotFound) \<and>
    (case ResolveSecret False b n db of
       Inl SecretNotFound \<Rightarrow> find_secret n db = None
     | Inl _ \<Rightarrow> find_secret n db \<noteq> None
     | Inr p \<Rightarrow> \<exists>r key. find_secret n db = Some r \<and> (key = bx_current b \<or> bx_prev b = Some key) \<and>
                sc_ciphertext r = gcm_seal key (sc_nonce r) p (aad n))"
proof -
  obtain x where x: "Seal rnd b name val = Inr x" "\<not> flt"
    using assms by (auto simp: PutSecret_def split: sum.splits if_splits)
  have "view db' = (view db)(name \<mapsto> x)"
    using view_PutSecret [of flt rnd now b name val db] assms x by simp
  moreover have "value_of b name x = Inr val"
    using OpenBox_Seal(1) [of rnd b name val "fst x" "snd x"] x(1) by (simp add: value_of_def)
  moreover have "created \<longleftrightarrow> find_secret name db = None"
    using assms x by (auto simp: PutSecret_def split: prod.splits if_splits)
  moreover have "case ResolveSecret False b n db of
       Inl SecretNotFound \<Rightarrow> find_secret n db = None
     | Inl _ \<Rightarrow> find_secret n db \<noteq> None
     | Inr p \<Rightarrow> \<exists>r key. find_secret n db = Some r \<and> (key = bx_current b \<or> bx_prev b = Some key) \<and>
                sc_ciphertext r = gcm_seal key (sc_nonce r) p (aad n)" for n
    by (auto simp: ResolveSecret_def OpenBox_def dest: gcm_open_Some split: option.splits sum.splits if_splits secret_error.splits)
  moreover have "find_secret name db = None \<longleftrightarrow> ResolveSecret False b name db = Inl SecretNotFound"
    by (auto simp: ResolveSecret_def split: option.splits sum.splits)
  ultimately show ?thesis
    by (simp add: ResolveSecret_view)
qed

definition example_box :: box where
  "example_box = \<lparr>bx_current = replicate 32 0, bx_prev = Some (replicate 32 1)\<rparr>"

definition example_secrets :: "secret_row list" where
  "example_secrets = snd (PutSecret False (Some (\<lambda>_. 7)) 5 example_box ''ha_token'' [1, 2] [])"

lemma example_put:
  "PutSecret False (Some (\<lambda>_. 7)) 5 example_box ''ha_token'' [1, 2] [] = (Inr True, example_secrets)"
  by (simp add: example_secrets_def PutSecret_def Seal_def find_secret_def Let_def)

theorem secret_put_resolve_witness:
  "ResolveSecret False example_box ''ha_token'' example_secrets = Inr [1, 2]"
  using secret_put_resolve [OF example_put] by blast

section \<open>Break glass\<close>

lemma filter_trim_by: "(\<And>c. c \<in> set s \<Longrightarrow> Q c \<Longrightarrow> \<not> P c) \<Longrightarrow> filter P (trim_by Q s) = filter P s"
proof -
  have drop: "filter P (dropWhile Q t) = filter P t" if "\<And>c. c \<in> set t \<Longrightarrow> Q c \<Longrightarrow> \<not> P c" for t
    using that by (induction t) auto
  assume s: "\<And>c. c \<in> set s \<Longrightarrow> Q c \<Longrightarrow> \<not> P c"
  have "filter P (dropWhile Q (rev (dropWhile Q s))) = filter P (rev (dropWhile Q s))"
    by (rule drop) (metis s set_dropWhileD set_rev)
  moreover have "filter P (dropWhile Q s) = filter P s"
    by (rule drop) (rule s)
  ultimately show ?thesis
    by (simp add: trim_by_def flip: rev_filter)
qed

lemma valid_name_chars: "ValidSecretName name \<Longrightarrow> c \<in> set name \<Longrightarrow> \<not> is_space c \<and> c \<noteq> CHR '':''"
  by (cases name) (auto simp: ValidSecretName_def lower_or_digit_def is_digit_def is_space_def list_all_iff)

lemma SplitN_record:
  assumes "CHR '':'' \<notin> set p" "CHR '':'' \<notin> set q"
  shows "SplitN 2 CHR '':'' (p @ CHR '':'' # q @ CHR '':'' # name) = [p, q, name]"
proof -
  have "Cut CHR '':'' (p @ CHR '':'' # q @ CHR '':'' # name) = Some (p, q @ CHR '':'' # name)" "Cut CHR '':'' (q @ CHR '':'' # name) = Some (q, name)"
    using assms by (simp_all add: Cut_Some)
  then show ?thesis
    by (simp add: numeral_2_eq_2)
qed

lemma pad_encode_Nil [simp]: "pad_encode b = [] \<longleftrightarrow> b = []"
proof
  assume "pad_encode b = []"
  then show "b = []"
    using pad_decode_encode [of b] by (simp add: pad_decode_def std_decode_def b64_decode_def)
qed (simp add: pad_encode_def std_encode_def)

text \<open>
  Decrypting a dumped row from standard input gives what resolving the secret gives, errors included,
  wherever line breaks were inserted into the record \<open>nonce:ciphertext:name\<close> (as PostgreSQL does every 76 characters).
\<close>

theorem break_glass_agrees:
  assumes "find_secret name db = Some r" "ValidSecretName name" "sc_nonce r \<noteq> []" "sc_ciphertext r \<noteq> []"
    and "filter (\<lambda>c. \<not> is_crlf c) inp = pad_encode (sc_nonce r) @ CHR '':'' # pad_encode (sc_ciphertext r) @ CHR '':'' # name"
  shows "ResolveSecret False b name db = (case decryptStdin b inp of Inl e \<Rightarrow> Inl (SecretBox e) | Inr p \<Rightarrow> Inr p)"
proof -
  let ?rec = "pad_encode (sc_nonce r) @ CHR '':'' # pad_encode (sc_ciphertext r) @ CHR '':'' # name"
  have "is_crlf c" if "c \<in> set inp" "is_space c" for c
  proof (rule ccontr)
    assume "\<not> is_crlf c"
    then have "c \<in> set ?rec"
      using that(1) unfolding assms(5) [symmetric] by simp
    then show False
      using that(2) pad_encode_chars valid_name_chars [OF assms(2)] by (auto simp: is_space_def)
  qed
  then have "filter (\<lambda>c. \<not> is_crlf c) (TrimSpace inp) = ?rec"
    unfolding TrimSpace_def assms(5) [symmetric] by (intro filter_trim_by) blast
  moreover have "name \<noteq> []"
    using assms(2) by (auto simp: ValidSecretName_def)
  moreover have "SplitN 2 CHR '':'' ?rec = [pad_encode (sc_nonce r), pad_encode (sc_ciphertext r), name]"
    using pad_encode_chars by (intro SplitN_record) blast+
  ultimately have "DecodeLine inp = Inr (sc_nonce r, sc_ciphertext r, name)"
    using assms(3,4) by (simp add: DecodeLine_def Let_def pad_decode_encode)
  then show ?thesis
    using assms(1) by (auto simp: ResolveSecret_def decryptStdin_def split: sum.split)
qed

theorem break_glass_agrees_witness:
  "\<exists>inp. decryptStdin example_box inp = Inr [1, 2]"
proof -
  let ?n = "map (\<lambda>_. 7) [0..<12]" and ?r = "hd example_secrets"
  let ?inp = "pad_encode (sc_nonce ?r) @ CHR '':'' # pad_encode (sc_ciphertext ?r) @ CHR '':'' # ''ha_token''"
  have row: "find_secret ''ha_token'' example_secrets = Some ?r" "sc_nonce ?r \<noteq> []" "sc_ciphertext ?r \<noteq> []"
    by (simp_all add: example_secrets_def PutSecret_def Seal_def find_secret_def Let_def NonceSize_def gcm_seal_def upt_rec flip: length_0_conv)
  have name: "ValidSecretName ''ha_token''"
    by (simp add: ValidSecretName_def lower_or_digit_def is_digit_def)
  have "\<not> is_crlf c" if "c \<in> set ?inp" for c
    using that pad_encode_chars valid_name_chars [OF name] by (auto simp: is_crlf_def is_space_def)
  then have "filter (\<lambda>c. \<not> is_crlf c) ?inp = ?inp"
    by (meson filter_True)
  from break_glass_agrees [OF row(1) name row(2,3) this, of example_box]
  have "ResolveSecret False example_box ''ha_token'' example_secrets =
      (case decryptStdin example_box ?inp of Inl e \<Rightarrow> Inl (SecretBox e) | Inr p \<Rightarrow> Inr p)" .
  moreover have "ResolveSecret False example_box ''ha_token'' example_secrets = Inr [1, 2]"
    using view_PutSecret [of False "Some (\<lambda>_. 7)" 5 example_box "''ha_token''" "[1, 2]" "[]"]
      OpenBox_Seal(1) [of "Some (\<lambda>_. 7)" example_box "''ha_token''" "[1, 2]"]
    by (simp add: example_secrets_def ResolveSecret_view value_of_def Seal_def Let_def)
  ultimately show ?thesis
    by (auto split: sum.splits)
qed

section \<open>The rotation sweep\<close>

lemma view_secret_step:
  "view (secret_step b op db) =
    (case op of
       SecPut flt rnd now name val \<Rightarrow> (case Seal rnd b name val of Inl _ \<Rightarrow> view db | Inr x \<Rightarrow> if flt then view db else (view db)(name \<mapsto> x))
     | SecDelete flt name \<Rightarrow> if flt then view db else (view db)(name := None))"
  by (cases op) (simp_all add: view_PutSecret view_DeleteSecret)

definition opens_current :: "box \<Rightarrow> string \<Rightarrow> bytes \<times> bytes \<Rightarrow> bool" where
  "opens_current b name x \<longleftrightarrow> (\<exists>p. OpenBox b name (fst x) (snd x) = Inr (p, False))"

text \<open>
  \<open>orig\<close> is what the sweep read and has still to process.  The table of the sweep and the table without it show the same
  names and values; a row of the former opens under the current key, or is one still to be processed.
\<close>

definition sweep_at :: "box \<Rightarrow> string \<Rightarrow> (bytes \<times> bytes) option \<Rightarrow> (bytes \<times> bytes) option \<Rightarrow> (bytes \<times> bytes) option \<Rightarrow> bool" where
  "sweep_at b name orig v g \<longleftrightarrow>
     (v = None \<and> g = None) \<or>
     (\<exists>x y. v = Some x \<and> g = Some y \<and> value_of b name x = value_of b name y \<and>
        (orig = Some x \<or> opens_current b name x \<and> (\<forall>z. orig = Some z \<longrightarrow> snd z \<noteq> snd x)))"

definition sweep_inv :: "box \<Rightarrow> (string \<rightharpoonup> bytes \<times> bytes) \<Rightarrow> (string \<rightharpoonup> bytes \<times> bytes) \<Rightarrow> (string \<rightharpoonup> bytes \<times> bytes) \<Rightarrow> bool" where
  "sweep_inv b orig v g \<longleftrightarrow> (\<forall>name. sweep_at b name (orig name) (v name) (g name))"

text \<open>No concurrent write reproduces a ciphertext that the sweep has read under its name.\<close>

definition fresh_ops :: "box \<Rightarrow> (string \<rightharpoonup> bytes \<times> bytes) \<Rightarrow> secret_op list \<Rightarrow> bool" where
  "fresh_ops b orig ops \<longleftrightarrow>
     (\<forall>op \<in> set ops. case op of
        SecPut flt rnd now name val \<Rightarrow> (\<forall>x z. Seal rnd b name val = Inr x \<longrightarrow> orig name = Some z \<longrightarrow> snd z \<noteq> snd x)
      | SecDelete flt name \<Rightarrow> True)"

lemma opens_current_Seal: "Seal rnd b name p = Inr x \<Longrightarrow> opens_current b name x"
  using OpenBox_Seal(1) [of rnd b name p "fst x" "snd x"] by (auto simp: opens_current_def)

lemma sweep_inv_upd:
  "sweep_inv b orig v g \<Longrightarrow> sweep_at b name (orig name) x y \<Longrightarrow> sweep_inv b orig (v(name := x)) (g(name := y))"
  by (simp add: sweep_inv_def)

lemma sweep_inv_step:
  assumes "sweep_inv b orig (view db) (view db')" "fresh_ops b orig [op]"
  shows "sweep_inv b orig (view (secret_step b op db)) (view (secret_step b op db'))"
proof (cases op)
  case (SecPut flt rnd now name val)
  show ?thesis
  proof (cases "Seal rnd b name val")
    case (Inr x)
    then have "\<forall>z. orig name = Some z \<longrightarrow> snd z \<noteq> snd x"
      using assms(2) by (simp add: SecPut fresh_ops_def del: split_paired_All)
    then have "sweep_at b name (orig name) (Some x) (Some x)"
      using opens_current_Seal [OF Inr] unfolding sweep_at_def by blast
    then show ?thesis
      using assms(1) Inr sweep_inv_upd by (simp add: SecPut view_PutSecret)
  qed (use assms(1) in \<open>simp add: SecPut view_PutSecret\<close>)
next
  case (SecDelete flt name)
  then show ?thesis
    using assms(1) sweep_inv_upd [of b orig "view db" "view db'" name None None] by (simp add: view_DeleteSecret sweep_at_def)
qed

lemma sweep_inv_run:
  "sweep_inv b orig (view db) (view db') \<Longrightarrow> fresh_ops b orig ops \<Longrightarrow>
    sweep_inv b orig (view (run (secret_step b) ops db)) (view (run (secret_step b) ops db'))"
proof (induction ops arbitrary: db db')
  case (Cons op ops)
  then show ?case
    using sweep_inv_step [OF Cons.prems(1), of op] by (simp add: fresh_ops_def)
qed simp

definition reseal :: "secret_row \<Rightarrow> bytes \<times> bytes \<Rightarrow> secret_row list \<Rightarrow> secret_row list" where
  "reseal r x db =
     (case x of (nn, nct) \<Rightarrow>
        map (\<lambda>y. if sc_name y = sc_name r \<and> sc_ciphertext y = sc_ciphertext r
                 then y\<lparr>sc_ciphertext := nct, sc_nonce := nn, sc_key_version := sc_key_version y + 1\<rparr> else y) db)"

lemma view_reseal:
  "view (reseal r x db) n =
    (if n = sc_name r \<and> (\<exists>nonce. view db n = Some (nonce, sc_ciphertext r)) then Some x else view db n)"
proof (cases x)
  case (Pair nn nct)
  let ?f = "\<lambda>y. if sc_name y = sc_name r \<and> sc_ciphertext y = sc_ciphertext r
              then y\<lparr>sc_ciphertext := nct, sc_nonce := nn, sc_key_version := sc_key_version y + 1\<rparr> else y"
  have "find_secret n (map ?f db) = map_option ?f (find_secret n db)"
    by (rule find_secret_map) simp
  then show ?thesis
    by (cases "find_secret n db") (auto simp: view_def reseal_def Pair dest: find_secret_name)
qed

text \<open>One row is processed: it opens under the current key, or it is sealed anew.\<close>

lemma sweep_inv_skip:
  assumes "sweep_inv b orig v g" "orig (sc_name r) = Some (sc_nonce r, sc_ciphertext r)"
    and "OpenBox b (sc_name r) (sc_nonce r) (sc_ciphertext r) = Inr (p, False)"
  shows "sweep_inv b (orig(sc_name r := None)) v g"
proof -
  have "opens_current b (sc_name r) (sc_nonce r, sc_ciphertext r)"
    using assms(3) by (simp add: opens_current_def)
  moreover have "sweep_at b (sc_name r) (Some (sc_nonce r, sc_ciphertext r)) (v (sc_name r)) (g (sc_name r))"
    using assms(1,2) by (metis sweep_inv_def)
  ultimately have "sweep_at b (sc_name r) None (v (sc_name r)) (g (sc_name r))"
    unfolding sweep_at_def by (elim disjE exE conjE) simp_all
  then show ?thesis
    using assms(1) by (simp add: sweep_inv_def)
qed

lemma sweep_inv_reseal:
  assumes inv: "sweep_inv b orig (view db) g" and r: "orig (sc_name r) = Some (sc_nonce r, sc_ciphertext r)"
    and open': "OpenBox b (sc_name r) (sc_nonce r) (sc_ciphertext r) = Inr (p, True)"
    and seal: "Seal rnd b (sc_name r) p = Inr x"
  shows "sweep_inv b (orig(sc_name r := None)) (view (reseal r x db)) g"
proof -
  have x: "opens_current b (sc_name r) x" "value_of b (sc_name r) x = Inr p"
    using opens_current_Seal [OF seal] OpenBox_Seal(1) [of rnd b "sc_name r" p "fst x" "snd x"] seal by (simp_all add: value_of_def)
  have p: "value_of b (sc_name r) (sc_nonce r, sc_ciphertext r) = Inr p"
    using open' by (simp add: value_of_def)
  have at: "sweep_at b (sc_name r) (Some (sc_nonce r, sc_ciphertext r)) (view db (sc_name r)) (g (sc_name r))"
    using inv r by (metis sweep_inv_def)
  have "sweep_at b (sc_name r) None (view (reseal r x db) (sc_name r)) (g (sc_name r))"
  proof (cases "view db (sc_name r)")
    case None
    then show ?thesis
      using at by (simp add: view_reseal sweep_at_def)
  next
    case (Some y)
    then obtain z where z: "g (sc_name r) = Some z" "value_of b (sc_name r) y = value_of b (sc_name r) z"
      "y = (sc_nonce r, sc_ciphertext r) \<or> opens_current b (sc_name r) y \<and> sc_ciphertext r \<noteq> snd y"
      using at by (auto simp: sweep_at_def)
    then show ?thesis
    proof (cases "y = (sc_nonce r, sc_ciphertext r)")
      case True
      then show ?thesis
        using Some z x p by (simp add: view_reseal sweep_at_def)
    next
      case False
      then have "view (reseal r x db) (sc_name r) = Some y"
        using Some z by (auto simp: view_reseal)
      then show ?thesis
        using z False by (simp add: sweep_at_def)
    qed
  qed
  moreover have "sweep_at b n (orig n) (view (reseal r x db) n) (g n)" if "n \<noteq> sc_name r" for n
    using inv that by (simp add: sweep_inv_def view_reseal)
  ultimately show ?thesis
    by (simp add: sweep_inv_def)
qed

definition orig_of :: "(secret_row \<times> sweep_turn) list \<Rightarrow> string \<rightharpoonup> bytes \<times> bytes" where
  "orig_of rs = map_of (map (\<lambda>rt. (sc_name (fst rt), sc_nonce (fst rt), sc_ciphertext (fst rt))) rs)"

lemma orig_of_Cons: "orig_of (rt # rs) = (orig_of rs)(sc_name (fst rt) \<mapsto> (sc_nonce (fst rt), sc_ciphertext (fst rt)))"
  by (simp add: orig_of_def)

lemma orig_of_None: "sc_name r \<notin> sc_name ` fst ` set rs \<Longrightarrow> orig_of rs (sc_name r) = None"
  by (auto simp: orig_of_def map_of_eq_None_iff image_iff)

lemma fresh_ops_mono: "fresh_ops b orig ops \<Longrightarrow> orig' \<subseteq>\<^sub>m orig \<Longrightarrow> fresh_ops b orig' ops"
  unfolding fresh_ops_def
proof (rule ballI)
  fix op
  assume *: "\<forall>op \<in> set ops. case op of
      SecPut flt rnd now name val \<Rightarrow> (\<forall>x z. Seal rnd b name val = Inr x \<longrightarrow> orig name = Some z \<longrightarrow> snd z \<noteq> snd x)
    | SecDelete flt name \<Rightarrow> True" "orig' \<subseteq>\<^sub>m orig" "op \<in> set ops"
  have "orig' n = Some z \<Longrightarrow> orig n = Some z" for n z
    using *(2) by (metis domI map_le_def)
  then show "case op of
      SecPut flt rnd now name val \<Rightarrow> (\<forall>x z. Seal rnd b name val = Inr x \<longrightarrow> orig' name = Some z \<longrightarrow> snd z \<noteq> snd x)
    | SecDelete flt name \<Rightarrow> True"
    using bspec [OF *(1,3)] by (cases op) (simp_all del: split_paired_All)
qed

lemma sweep_rows_stranded:
  "sweep_rows b rs (n, st, db) = (n', [], db') \<Longrightarrow> st = []"
proof (induction rs arbitrary: n st db)
  case (Cons rt rs)
  obtain r t where rt: "rt = (r, t)"
    by fastforce
  have "\<exists>n1 st1 db1. sweep_rows b rs (n1, st1, db1) = (n', [], db') \<and> (st1 = st \<or> st1 = st @ [sc_name r])"
    using Cons.prems unfolding rt by (simp add: Let_def split: sum.splits prod.splits if_splits) blast+
  then show ?case
    using Cons.IH by auto
qed simp

lemma sweep_row:
  assumes "sweep_rows b ((r, t) # rs) (n, [], db) = (n', [], db')"
  obtains n1 db1 where "sweep_rows b rs (n1, [], db1) = (n', [], db')"
    "(\<exists>p. OpenBox b (sc_name r) (sc_nonce r) (sc_ciphertext r) = Inr (p, False) \<and> db1 = run (secret_step b) (sw_others t) db) \<or>
     (\<exists>p x. OpenBox b (sc_name r) (sc_nonce r) (sc_ciphertext r) = Inr (p, True) \<and> Seal (sw_rand t) b (sc_name r) p = Inr x \<and>
        db1 = reseal r x (run (secret_step b) (sw_others t) db))"
proof (cases "OpenBox b (sc_name r) (sc_nonce r) (sc_ciphertext r)")
  case (Inl e)
  then have "sweep_rows b rs (n, [sc_name r], run (secret_step b) (sw_others t) db) = (n', [], db')"
    using assms by (simp add: Let_def)
  from sweep_rows_stranded [OF this] show ?thesis
    by simp
next
  case (Inr pu)
  obtain p u where pu: "pu = (p, u)"
    by fastforce
  show ?thesis
  proof (cases u)
    case False
    then show ?thesis
      using assms that [of n "run (secret_step b) (sw_others t) db"] Inr pu by (simp add: Let_def)
  next
    case True
    show ?thesis
    proof (cases "Seal (sw_rand t) b (sc_name r) p")
      case (Inl e)
      then have "sweep_rows b rs (n, [sc_name r], run (secret_step b) (sw_others t) db) = (n', [], db')"
        using assms Inr pu True by (simp add: Let_def)
      from sweep_rows_stranded [OF this] show ?thesis
        by simp
    next
      case sealed: (Inr x)
      obtain nn nct where x: "x = (nn, nct)"
        by fastforce
      show ?thesis
      proof (cases "sw_flt t")
        case True
        then have "sweep_rows b rs (n, [sc_name r], run (secret_step b) (sw_others t) db) = (n', [], db')"
          using assms Inr pu \<open>u\<close> sealed x by (simp add: Let_def)
        from sweep_rows_stranded [OF this] show ?thesis
          by simp
      next
        case False
        have "sweep_rows b rs (if \<exists>y \<in> set (run (secret_step b) (sw_others t) db). sc_name y = sc_name r \<and> sc_ciphertext y = sc_ciphertext r then n + 1 else n,
            [], reseal r x (run (secret_step b) (sw_others t) db)) = (n', [], db')"
          using assms Inr pu True False sealed by (simp add: Let_def reseal_def x)
        then show ?thesis
          by (rule that) (intro disjI2 exI [of _ p] exI [of _ x] conjI; use Inr pu True sealed in simp)
      qed
    qed
  qed
qed

lemma sweep_rows_inv:
  assumes "sweep_inv b (orig_of rs) (view db) (view g)" and "distinct (map (\<lambda>rt. sc_name (fst rt)) rs)"
    and "\<forall>rt \<in> set rs. fresh_ops b (orig_of rs) (sw_others (snd rt))" and "sweep_rows b rs (n, [], db) = (n', [], db')"
  shows "sweep_inv b Map.empty (view db') (view (run (secret_step b) (concat (map (\<lambda>rt. sw_others (snd rt)) rs)) g))"
  using assms
proof (induction rs arbitrary: n db g)
  case Nil
  then show ?case
    by (simp add: orig_of_def)
next
  case (Cons rt rs)
  obtain r t where rt: "rt = (r, t)"
    by fastforce
  let ?db = "run (secret_step b) (sw_others t) db" and ?g = "run (secret_step b) (sw_others t) g"
  let ?orig = "orig_of (rt # rs)"
  have "orig_of rs (sc_name r) = None"
    using Cons.prems(2) by (intro orig_of_None) (simp add: rt image_image)
  then have name: "?orig (sc_name r) = Some (sc_nonce r, sc_ciphertext r)" and rest: "?orig(sc_name r := None) = orig_of rs"
    by (simp_all add: orig_of_Cons rt fun_upd_idem)
  have inv: "sweep_inv b ?orig (view ?db) (view ?g)"
    using Cons.prems(1,3) by (intro sweep_inv_run) (simp_all add: rt)
  obtain n1 db1 where next': "sweep_rows b rs (n1, [], db1) = (n', [], db')" and
    st: "(\<exists>p. OpenBox b (sc_name r) (sc_nonce r) (sc_ciphertext r) = Inr (p, False) \<and> db1 = ?db) \<or>
     (\<exists>p x. OpenBox b (sc_name r) (sc_nonce r) (sc_ciphertext r) = Inr (p, True) \<and> Seal (sw_rand t) b (sc_name r) p = Inr x \<and> db1 = reseal r x ?db)"
    using Cons.prems(4) unfolding rt by (rule sweep_row)
  have "sweep_inv b (orig_of rs) (view db1) (view ?g)"
    using st
  proof (elim disjE exE conjE)
    fix p
    assume "OpenBox b (sc_name r) (sc_nonce r) (sc_ciphertext r) = Inr (p, False)" "db1 = ?db"
    then show ?thesis
      using sweep_inv_skip [OF inv name] rest by simp
  next
    fix p x
    assume "OpenBox b (sc_name r) (sc_nonce r) (sc_ciphertext r) = Inr (p, True)" "Seal (sw_rand t) b (sc_name r) p = Inr x" "db1 = reseal r x ?db"
    then show ?thesis
      using sweep_inv_reseal [OF inv name] rest by simp
  qed
  moreover have "orig_of rs \<subseteq>\<^sub>m ?orig"
    unfolding rest [symmetric] by (simp add: map_le_def)
  then have "\<forall>rt \<in> set rs. fresh_ops b (orig_of rs) (sw_others (snd rt))"
    using Cons.prems(3) fresh_ops_mono by fastforce
  ultimately show ?case
    using Cons.IH [OF _ _ _ next'] Cons.prems(2) by (simp add: rt)
qed

text \<open>
  C25 (rotation sweep).  If the sweep reports no stranded secret, the previous master key can be dropped: whatever writes and deletions ran
  between its rows, under the current key alone every name resolves to what it would have resolved to with both keys and
  without the sweep.  (Hypotheses: names are unique, and no concurrent write reproduced a ciphertext read by the sweep.)
\<close>

theorem sweep_complete:
  assumes "Sweep False b turns db = ((n, [], None), db')" and "HasPrev b" "length turns = length db"
    and "distinct (map sc_name db)" and "\<forall>t \<in> set turns. fresh_ops b (view db) (sw_others t)"
  shows "ResolveSecret False (b\<lparr>bx_prev := None\<rparr>) name db' =
    ResolveSecret False b name (run (secret_step b) (concat (map sw_others turns)) db)"
proof -
  have view: "view db = orig_of (zip db turns)"
    using assms(3,4)
  proof (intro ext)
    fix n
    have "map_of (map (\<lambda>r. (sc_name r, sc_nonce r, sc_ciphertext r)) rs) n = view rs n" for rs
      by (induction rs) (simp_all add: view_def find_secret_def)
    moreover have "map (\<lambda>rt. (sc_name (fst rt), sc_nonce (fst rt), sc_ciphertext (fst rt))) (zip db turns) =
        map (\<lambda>r. (sc_name r, sc_nonce r, sc_ciphertext r)) (map fst (zip db turns))"
      by simp
    ultimately show "view db n = orig_of (zip db turns) n"
      using assms(3) by (simp add: orig_of_def)
  qed
  have rows: "sweep_rows b (zip db turns) (0, [], db) = (n, [], db')"
    using assms(1,2) by (simp add: Sweep_def split: prod.splits if_splits)
  have "sweep_inv b (orig_of (zip db turns)) (view db) (view db)"
    unfolding view sweep_inv_def sweep_at_def using not_None_eq by metis
  moreover have "map (\<lambda>rt. sc_name (fst rt)) (zip db turns) = map sc_name (map fst (zip db turns))"
    "map (\<lambda>rt. sw_others (snd rt)) (zip db turns) = map sw_others (map snd (zip db turns))"
    by simp_all
  moreover have "\<forall>rt \<in> set (zip db turns). fresh_ops b (orig_of (zip db turns)) (sw_others (snd rt))"
    using assms(5) unfolding view by (auto dest: set_zip_rightD)
  ultimately have inv: "sweep_inv b Map.empty (view db') (view (run (secret_step b) (concat (map sw_others turns)) db))"
    using sweep_rows_inv [OF _ _ _ rows, of db] assms(3,4) by simp
  have cur: "value_of (b\<lparr>bx_prev := None\<rparr>) name x = value_of b name x" if "opens_current b name x" for x
    using that by (auto simp: opens_current_def value_of_def OpenBox_def split: if_splits option.splits)
  have "sweep_at b name None (view db' name) (view (run (secret_step b) (concat (map sw_others turns)) db) name)"
    using inv by (simp add: sweep_inv_def)
  then show ?thesis
    using cur by (auto simp: ResolveSecret_view sweep_at_def)
qed

theorem sweep_complete_witness:
  "\<exists>n db'. Sweep False example_box [\<lparr>sw_others = [SecPut False (Some (\<lambda>_. 9)) 6 ''wx_key'' [3]], sw_rand = None, sw_flt = False\<rparr>] example_secrets =
      ((n, [], None), db') \<and> ResolveSecret False (example_box\<lparr>bx_prev := None\<rparr>) ''wx_key'' db' = Inr [3]"
proof -
  let ?t = "\<lparr>sw_others = [SecPut False (Some (\<lambda>_. 9)) 6 ''wx_key'' [3]], sw_rand = None, sw_flt = False\<rparr>"
  obtain r where r: "example_secrets = [r]" "sc_name r = ''ha_token''" "OpenBox example_box ''ha_token'' (sc_nonce r) (sc_ciphertext r) = Inr ([1, 2], False)"
    by (simp add: example_secrets_def PutSecret_def Seal_def find_secret_def Let_def OpenBox_def gcm_open_seal)
  let ?db = "run (secret_step example_box) (sw_others ?t) example_secrets"
  have rows: "sweep_rows example_box (zip example_secrets [?t]) (0, [], example_secrets) = (0, [], ?db)"
    unfolding r(1) using r(2,3) by simp
  have sweep: "Sweep False example_box [?t] example_secrets = ((0, [], None), ?db)"
    unfolding Sweep_def rows by (simp add: HasPrev_def example_box_def)
  have "view example_secrets ''wx_key'' = None"
    unfolding r(1) using r(2) by (simp add: view_def find_secret_def)
  then have "\<forall>t \<in> set [?t]. fresh_ops example_box (view example_secrets) (sw_others t)"
    by (simp add: fresh_ops_def)
  from sweep_complete [OF sweep _ _ _ this, of "''wx_key''"]
  have "ResolveSecret False (example_box\<lparr>bx_prev := None\<rparr>) ''wx_key'' ?db = ResolveSecret False example_box ''wx_key'' ?db"
    unfolding r(1) by (simp add: HasPrev_def example_box_def)
  moreover have "ResolveSecret False example_box ''wx_key'' ?db = Inr [3]"
    using OpenBox_Seal(1) [of "Some (\<lambda>_. 9)" example_box "''wx_key''" "[3]"]
    by (simp add: ResolveSecret_view view_PutSecret value_of_def Seal_def Let_def)
  ultimately show ?thesis
    using sweep by auto
qed

end
