(* ===== verification/Faas_Render.thy ===== *)
theory Faas_Render
  imports Secrets Faas_Proto Bwry Display_Binding
begin

text \<open>
  The one render primitive of the supervisor (\<open>faascore/render.go\<close>): resolve the bound secrets, grant the
  call its egress list, exchange one request and one response with the worker, and pack the picture.

  Parameters: \<open>worker\<close> is what the worker process sends back on the connection for the bytes it is sent (\<open>None\<close>
  when the connection fails), \<open>marshal\<close> and \<open>unmarshal\<close> are the JSON of the request and of the response's meta,
  \<open>egress\<close> is the answer of the egress proxy to a registration, \<open>f32\<close> and \<open>f64\<close> are the float roundings of the
  dithering.  The texts of error messages are left out.
\<close>

section \<open>Requests\<close>

record trigger =
  tg_type :: string
  tg_payload :: "string option"

record request_ctx =
  rc_serial :: serial
  rc_channel :: string
  rc_trigger :: trigger
  rc_now :: string

record limits =
  lm_timeout_ms :: int
  lm_mem_mb :: int

record request_fn =
  rf_id :: int
  rf_ver :: int
  rf_source :: string

record render_request =
  rq_v :: int
  rq_id :: string
  rq_fn :: request_fn
  rq_ctx :: request_ctx
  rq_force :: bool
  rq_dither_default :: string
  rq_secrets :: "string \<rightharpoonup> bytes"
  rq_egress_allow :: "string list"
  rq_egress_cred :: string
  rq_limits :: limits
  rq_input :: bytes

datatype secret_mode = SecretsReal | SecretsStub

record render_opts =
  ro_secrets :: secret_mode
  ro_limits :: limits
  ro_want_raw :: bool
  ro_force :: bool
  ro_dither :: string
  ro_dither_default :: string
  ro_egress :: bool
  ro_input :: bytes

record render_result =
  rr_packed :: bytes
  rr_raw :: bytes
  rr_meta :: response_meta
  rr_err :: "render_err option"

definition render_fault :: "string \<Rightarrow> render_err" where
  "render_fault kind = \<lparr>re_kind = kind, re_msg = []\<rparr>"

definition bare_meta :: "string \<Rightarrow> render_err \<Rightarrow> response_meta" where
  "bare_meta id' e = \<lparr>rm_v = 1, rm_id = id', rm_ok = False, rm_w = 0, rm_h = 0, rm_dither = [], rm_next_wake_hint = None, rm_log = [], rm_err = Some e\<rparr>"

definition failed_result :: "response_meta \<Rightarrow> render_err \<Rightarrow> render_result" where
  "failed_result meta e = \<lparr>rr_packed = [], rr_raw = [], rr_meta = meta, rr_err = Some e\<rparr>"

section \<open>Secrets, dither and the worker exchange\<close>

fun resolveSecrets ::
  "(string \<Rightarrow> bool) \<Rightarrow> box \<Rightarrow> secret_row list \<Rightarrow> secret_mode \<Rightarrow> string list \<Rightarrow> (string \<rightharpoonup> bytes) \<Rightarrow> render_err + (string \<rightharpoonup> bytes)" where
  "resolveSecrets flt b db mode [] out = Inr out"
| "resolveSecrets flt b db mode (name # names) out =
     (case mode of
        SecretsStub \<Rightarrow> resolveSecrets flt b db mode names (out(name \<mapsto> bytes_of (''<secret:'' @ name @ ''>'')))
      | SecretsReal \<Rightarrow>
          (case ResolveSecret (flt name) b name db of
             Inl SecretNotFound \<Rightarrow> resolveSecrets flt b db mode names out
           | Inl _ \<Rightarrow> Inl (render_fault ''secret'')
           | Inr val \<Rightarrow> resolveSecrets flt b db mode names (out(name \<mapsto> val))))"

definition resolveDitherStr :: "string \<Rightarrow> string \<Rightarrow> string \<Rightarrow> string" where
  "resolveDitherStr trusted ret def =
     (case find (\<lambda>s. ParseDither s \<noteq> None) [trusted, ret, def] of Some s \<Rightarrow> s | None \<Rightarrow> ''none'')"

definition driveWorker ::
  "(bytes \<Rightarrow> bytes option) \<Rightarrow> (render_request \<Rightarrow> bytes option) \<Rightarrow> (bytes \<Rightarrow> response_meta option) \<Rightarrow> render_request \<Rightarrow> (response_meta \<times> bytes) option" where
  "driveWorker worker marshal unmarshal req =
     (case marshal req of
        None \<Rightarrow> None
      | Some body \<Rightarrow>
          (case WriteFrame KindRenderRequest body of
             Inl _ \<Rightarrow> None
           | Inr sent \<Rightarrow>
               (case worker sent of
                  None \<Rightarrow> None
                | Some stream \<Rightarrow>
                    (case fst (ReadFrame stream) of
                       Inl _ \<Rightarrow> None
                     | Inr ((kind, payload), _) \<Rightarrow>
                         if kind \<noteq> KindRenderResponse then None
                         else case DecodeResponse unmarshal payload of Inl _ \<Rightarrow> None | Inr mr \<Rightarrow> Some mr))))"

datatype egress_event = EgRegister string "string list" | EgUnregister string

record render_env =
  re_flt :: "string \<Rightarrow> bool"
  re_box :: box
  re_table :: "secret_row list"
  re_worker :: "bytes \<Rightarrow> bytes option"
  re_marshal :: "render_request \<Rightarrow> bytes option"
  re_unmarshal :: "bytes \<Rightarrow> response_meta option"
  re_egress :: "string \<Rightarrow> string list \<Rightarrow> bool"
  re_cred :: string
  re_call_id :: string
  re_f32 :: "real \<Rightarrow> real"
  re_f64 :: "real \<Rightarrow> real"

text \<open>The exchange and the packing, between the registration and the deferred removal of the credential.\<close>

definition render_call :: "render_env \<Rightarrow> faas_function \<Rightarrow> request_ctx \<Rightarrow> render_opts \<Rightarrow> (string \<rightharpoonup> bytes) \<Rightarrow> render_result" where
  "render_call env fn rctx opts vals =
     (let req = \<lparr>rq_v = 1, rq_id = re_call_id env, rq_fn = \<lparr>rf_id = fn_id fn, rf_ver = fn_version fn, rf_source = fn_source fn\<rparr>,
                rq_ctx = rctx, rq_force = ro_force opts, rq_dither_default = ro_dither_default opts, rq_secrets = vals,
                rq_egress_allow = fn_egress_allow fn, rq_egress_cred = re_cred env, rq_limits = ro_limits opts, rq_input = ro_input opts\<rparr>
      in case driveWorker (re_worker env) (re_marshal env) (re_unmarshal env) req of
        None \<Rightarrow> let e = render_fault ''timeout'' in failed_result (bare_meta (rq_id req) e) e
      | Some (meta, raw) \<Rightarrow>
          (case rm_err meta of
             Some e \<Rightarrow> failed_result meta e
           | None \<Rightarrow>
               (case FromRGB raw of
                  None \<Rightarrow> failed_result meta (render_fault ''pack'')
                | Some img \<Rightarrow>
                    let dith = resolveDitherStr (ro_dither opts) (rm_dither meta) (ro_dither_default opts);
                        dmode = (case ParseDither dith of None \<Rightarrow> DitherNone | Some d \<Rightarrow> d)
                    in case PackWithDither (re_f32 env) (re_f64 env) img dmode of
                      Inl _ \<Rightarrow> failed_result meta (render_fault ''pack'')
                    | Inr packed \<Rightarrow>
                        \<lparr>rr_packed = packed, rr_raw = (if ro_want_raw opts then raw else []),
                         rr_meta = meta\<lparr>rm_dither := dith\<rparr>, rr_err = None\<rparr>)))"

definition renderOnce :: "render_env \<Rightarrow> faas_function \<Rightarrow> request_ctx \<Rightarrow> render_opts \<Rightarrow> render_result \<times> egress_event list" where
  "renderOnce env fn rctx opts =
     (case resolveSecrets (re_flt env) (re_box env) (re_table env) (ro_secrets opts) (fn_secret_bindings fn) Map.empty of
        Inl e \<Rightarrow> (failed_result (bare_meta [] e) e, [])
      | Inr vals \<Rightarrow>
          let cred = re_cred env in
          if ro_egress opts \<and> fn_egress_allow fn \<noteq> [] then
            (if \<not> re_egress env cred (fn_egress_allow fn)
             then (let e = render_fault ''egress'' in failed_result (bare_meta [] e) e, [EgRegister cred (fn_egress_allow fn)])
             else (render_call env fn rctx opts vals, [EgRegister cred (fn_egress_allow fn), EgUnregister cred]))
          else (render_call env fn rctx opts vals, []))"

section \<open>What a render returns\<close>

lemma ParseDither_cases: "ParseDither s = Some d \<Longrightarrow> d \<in> {DitherNone, DitherAtkinson}"
  by (auto simp: ParseDither_def split: if_splits)

lemma resolveDitherStr_parses: "ParseDither (resolveDitherStr a b c) \<noteq> None"
  by (auto simp: resolveDitherStr_def ParseDither_def)

lemma resolveDitherStr_trusted: "ParseDither a \<noteq> None \<Longrightarrow> resolveDitherStr a b c = a"
  by (simp add: resolveDitherStr_def)

lemma PackWithDither_length: "PackWithDither f32 f64 img d = Inr out \<Longrightarrow> length out = PackedSize"
  by (auto simp: PackWithDither_def Let_def split: if_splits option.splits)

lemma render_call_ok:
  "rr_err (render_call env fn rctx opts vals) = None \<Longrightarrow> length (rr_packed (render_call env fn rctx opts vals)) = PackedSize"
  by (auto simp: render_call_def Let_def failed_result_def PackWithDither_length split: option.splits sum.splits)

lemma renderOnce_cases:
  "(\<exists>meta e. fst (renderOnce env fn rctx opts) = failed_result meta e) \<or>
   (\<exists>vals. fst (renderOnce env fn rctx opts) = render_call env fn rctx opts vals \<and>
      resolveSecrets (re_flt env) (re_box env) (re_table env) (ro_secrets opts) (fn_secret_bindings fn) Map.empty = Inr vals)"
  by (auto simp: renderOnce_def Let_def split: sum.split)

lemma renderOnce_ok:
  assumes "rr_err (fst (renderOnce env fn rctx opts)) = None"
  shows "length (rr_packed (fst (renderOnce env fn rctx opts))) = PackedSize"
  using renderOnce_cases [of env fn rctx opts] assms render_call_ok [of env fn rctx opts]
  by (auto simp: failed_result_def)

text \<open>The worker gets the bound secrets that exist, and no call is made when one of them fails to open.\<close>

lemma resolveSecrets_Inl:
  "resolveSecrets flt b db SecretsReal names out = Inl e \<Longrightarrow>
    re_kind e = ''secret'' \<and> (\<exists>n \<in> set names. \<exists>e'. ResolveSecret (flt n) b n db = Inl e' \<and> e' \<noteq> SecretNotFound)"
proof (induction names arbitrary: out)
  case (Cons n names)
  show ?case
  proof (cases "ResolveSecret (flt n) b n db")
    case (Inl e')
    then show ?thesis
      using Cons by (cases e') (auto simp: render_fault_def)
  next
    case (Inr v)
    then have "resolveSecrets flt b db SecretsReal names (out(n \<mapsto> v)) = Inl e"
      using Cons.prems by simp
    from Cons.IH [OF this] show ?thesis
      by (metis list.set_intros(2))
  qed
qed simp

lemma resolveSecrets_Inr:
  "resolveSecrets flt b db SecretsReal names out = Inr vals \<Longrightarrow>
    vals m = (if m \<in> set names then (case ResolveSecret (flt m) b m db of Inr v \<Rightarrow> Some v | Inl _ \<Rightarrow> out m) else out m) \<and>
    (\<forall>n \<in> set names. \<forall>e. ResolveSecret (flt n) b n db = Inl e \<longrightarrow> e = SecretNotFound)"
proof (induction names arbitrary: out)
  case (Cons n names)
  show ?case
  proof (cases "ResolveSecret (flt n) b n db")
    case (Inl e')
    then have "e' = SecretNotFound" "resolveSecrets flt b db SecretsReal names out = Inr vals"
      using Cons.prems by (cases e'; simp)+
    then show ?thesis
      using Cons.IH [of out] Inl by auto
  next
    case (Inr v)
    then have "resolveSecrets flt b db SecretsReal names (out(n \<mapsto> v)) = Inr vals"
      using Cons.prems by simp
    from Cons.IH [OF this] show ?thesis
      using Inr by (cases "m = n"; cases "ResolveSecret (flt m) b m db"; simp)
  qed
qed simp

end
