(* ===== verification/Faas_Core.thy ===== *)
theory Faas_Core
  imports Faas_Render Display_Invariant "HOL-Library.List_Lexorder" "HOL-Library.Char_ord"
begin

text \<open>
  The supervisor (\<open>faascore\<close>): the wake-up policy, the in-memory frame caches, the frame a device is served, the
  fan-out of triggered functions and the scheduler.

  Times are nanoseconds on a local clock without daylight-saving changes, counted from a local midnight.  A call has a
  clock with the time it starts and the time at which the worker has answered.  \<open>fs_renders\<close> records the calls of the render
  primitive; nothing reads it.  \<open>JSON\<close> of a trigger configuration is the parameter \<open>cf_parse\<close>, the text orders of the
  database are \<open>cf_collate\<close> and the order of strings.
\<close>

section \<open>Waking (wake.go)\<close>

record wake_config =
  NightStartHour :: int
  NightEndHour :: int
  DayInterval :: int
  MaxWake :: int

definition morningBuffer :: int where "morningBuffer = 120"

definition hour_ns :: int where "hour_ns = 3600 * second"

definition Hour :: "time \<Rightarrow> int" where "Hour t = (t div hour_ns) mod 24"

definition midnight :: "time \<Rightarrow> time" where "midnight t = t - t mod (24 * hour_ns)"

text \<open>\<open>int(d.Seconds())\<close> truncates toward zero.\<close>

definition dur_seconds :: "int \<Rightarrow> int" where "dur_seconds d = d sdiv second"

definition isNight :: "wake_config \<Rightarrow> int \<Rightarrow> bool" where
  "isNight c hour =
     (let s = NightStartHour c; e = NightEndHour c in
      if s = e then False else if s < e then s \<le> hour \<and> hour < e else hour \<ge> s \<or> hour < e)"

definition clampWake :: "int \<Rightarrow> int \<Rightarrow> int" where
  "clampWake secs maxWake =
     (let secs = (if maxWake > 0 \<and> secs > maxWake then maxWake else secs) in if secs < 60 then 60 else secs)"

definition NextWakeSeconds :: "wake_config \<Rightarrow> time \<Rightarrow> int" where
  "NextWakeSeconds c now =
     clampWake
       (if isNight c (Hour now)
        then let target = midnight now + NightEndHour c * hour_ns;
                 target = (if Hour now \<ge> NightEndHour c then target + 24 * hour_ns else target)
             in dur_seconds (target - now) + morningBuffer
        else DayInterval c) (MaxWake c)"

definition ClampHint :: "wake_config \<Rightarrow> int \<Rightarrow> int" where "ClampHint c hint = clampWake hint (MaxWake c)"

section \<open>Configuration and state\<close>

record trigger_config =
  tc_mode :: string
  tc_ttl_s :: int
  tc_interval_s :: int
  tc_dither :: string
  tc_cron :: string
  tc_serial_invariant :: bool

record faas_config =
  cf_wake :: wake_config
  cf_retry_wake :: int
  cf_render_ttl :: time
  cf_dither_default :: string
  cf_limits :: limits
  cf_jitter_frac :: real
  cf_parse :: "string \<Rightarrow> trigger_config"
  cf_collate :: "string \<Rightarrow> nat"
  errorFrame :: bytes

record frame_entry =
  fe_version :: int
  fe_packed :: bytes
  fe_rendered_at :: time

record invariant_entry =
  ie_packed :: bytes
  ie_rendered_at :: time

record render_record =
  dr_function :: faas_function
  dr_at :: time
  dr_packed :: "bytes option"

record faas_state =
  fs_db :: display_db
  fs_cache :: "serial \<times> int \<rightharpoonup> frame_entry"
  fs_inv :: "int \<times> int \<rightharpoonup> invariant_entry"
  fs_last_run :: "int \<rightharpoonup> time"
  fs_renders :: "render_record list"
  fs_pl_renders :: "(string \<times> string \<times> string) list"

record clock =
  ck_now :: time
  ck_fin :: time
  ck_text :: string

record served =
  sv_packed :: bytes
  sv_status :: string
  sv_stale :: bool
  sv_wake :: int

datatype faas_call =
    FBind | FLoad | FLastGoodPut | FLastGoodGet | FPlaylist | FItems | FCursor | FImage | FVariant1 | FVariant2 | FBlob | FVariantPut
  | FList | FSerials

definition config_of :: "faas_config \<Rightarrow> faas_function \<Rightarrow> trigger_config" where
  "config_of cf fn = cf_parse cf (fn_trigger_config fn)"

definition cache_put_frame :: "serial \<Rightarrow> int \<Rightarrow> int \<Rightarrow> bytes \<Rightarrow> time \<Rightarrow> faas_state \<Rightarrow> faas_state" where
  "cache_put_frame sn i v packed now s =
     s\<lparr>fs_cache := (fs_cache s)((sn, i) \<mapsto> \<lparr>fe_version = v, fe_packed = packed, fe_rendered_at = now\<rparr>)\<rparr>"

definition putInvariant :: "int \<Rightarrow> int \<Rightarrow> bytes \<Rightarrow> time \<Rightarrow> faas_state \<Rightarrow> faas_state" where
  "putInvariant i v packed now s = s\<lparr>fs_inv := (fs_inv s)((i, v) \<mapsto> \<lparr>ie_packed = packed, ie_rendered_at = now\<rparr>)\<rparr>"

definition ttlFor :: "faas_config \<Rightarrow> faas_function \<Rightarrow> time" where
  "ttlFor cf fn = (if tc_ttl_s (config_of cf fn) > 0 then tc_ttl_s (config_of cf fn) * second else cf_render_ttl cf)"

definition syncInline :: "faas_config \<Rightarrow> faas_function \<Rightarrow> bool" where
  "syncInline cf fn \<longleftrightarrow> fn_trigger_type fn = TriggerRender \<and> tc_mode (config_of cf fn) \<noteq> ''prerender''"

definition wakeDefault :: "faas_config \<Rightarrow> time \<Rightarrow> int" where "wakeDefault cf now = NextWakeSeconds (cf_wake cf) now"

definition wakeFor :: "faas_config \<Rightarrow> time \<Rightarrow> response_meta \<Rightarrow> int" where
  "wakeFor cf now meta =
     (case rm_next_wake_hint meta of Some h \<Rightarrow> ClampHint (cf_wake cf) h | None \<Rightarrow> NextWakeSeconds (cf_wake cf) now)"

definition doRender :: "faas_config \<Rightarrow> render_env \<Rightarrow> faas_function \<Rightarrow> request_ctx \<Rightarrow> bool \<Rightarrow> render_result" where
  "doRender cf env fn rctx force =
     fst (renderOnce env fn rctx
       \<lparr>ro_secrets = SecretsReal, ro_limits = cf_limits cf, ro_want_raw = False, ro_force = force,
        ro_dither = tc_dither (config_of cf fn), ro_dither_default = cf_dither_default cf, ro_egress = True, ro_input = []\<rparr>)"

definition record_render :: "faas_function \<Rightarrow> time \<Rightarrow> render_result \<Rightarrow> faas_state \<Rightarrow> faas_state" where
  "record_render fn now res s =
     s\<lparr>fs_renders := fs_renders s @ [\<lparr>dr_function = fn, dr_at = now,
                                    dr_packed = (if rr_err res = None then Some (rr_packed res) else None)\<rparr>]\<rparr>"

section \<open>Functions (buildframe.go)\<close>

definition error_served :: "faas_config \<Rightarrow> served" where
  "error_served cf = \<lparr>sv_packed = errorFrame cf, sv_status = ''error'', sv_stale = True, sv_wake = cf_retry_wake cf\<rparr>"

definition last_good_put :: "(faas_call \<Rightarrow> bool) \<Rightarrow> time \<Rightarrow> serial \<Rightarrow> int \<Rightarrow> bytes \<Rightarrow> faas_state \<Rightarrow> bool \<times> faas_state" where
  "last_good_put flt now sn i packed s =
     (let (e, db) = LastGoodPut (flt FLastGoodPut) now sn i packed ''ok'' (fs_db s) in (e = None, s\<lparr>fs_db := db\<rparr>))"

definition fallback :: "faas_config \<Rightarrow> (faas_call \<Rightarrow> bool) \<Rightarrow> faas_function \<Rightarrow> serial \<Rightarrow> faas_state \<Rightarrow> served" where
  "fallback cf flt fn sn s =
     (case fs_cache s (sn, fn_id fn) of
        Some e \<Rightarrow> \<lparr>sv_packed = fe_packed e, sv_status = ''stale'', sv_stale = True, sv_wake = cf_retry_wake cf\<rparr>
      | None \<Rightarrow>
          (case LastGoodGet (flt FLastGoodGet) sn (fn_id fn) (fs_db s) of
             Inr lg \<Rightarrow> \<lparr>sv_packed = lg_packed lg, sv_status = ''stale'', sv_stale = True, sv_wake = cf_retry_wake cf\<rparr>
           | Inl _ \<Rightarrow> error_served cf))"

definition fresh_hit :: "faas_config \<Rightarrow> faas_function \<Rightarrow> serial \<Rightarrow> time \<Rightarrow> faas_state \<Rightarrow> bytes option" where
  "fresh_hit cf fn sn now s =
     (case fs_cache s (sn, fn_id fn) of
        Some e \<Rightarrow> if fe_version e = fn_version fn \<and> now - fe_rendered_at e < ttlFor cf fn then Some (fe_packed e) else None
      | None \<Rightarrow> None)"

definition invariant_hit :: "faas_config \<Rightarrow> faas_function \<Rightarrow> time \<Rightarrow> faas_state \<Rightarrow> bytes option" where
  "invariant_hit cf fn now s =
     (if \<not> tc_serial_invariant (config_of cf fn) then None
      else case fs_inv s (fn_id fn, fn_version fn) of
        Some e \<Rightarrow> if now - ie_rendered_at e < ttlFor cf fn then Some (ie_packed e) else None
      | None \<Rightarrow> None)"

text \<open>The part of \<open>buildFrame\<close> that calls the render primitive.\<close>

definition drive_frame ::
  "faas_config \<Rightarrow> (faas_call \<Rightarrow> bool) \<Rightarrow> render_env \<Rightarrow> clock \<Rightarrow> faas_function \<Rightarrow> request_ctx \<Rightarrow> bool \<Rightarrow> faas_state \<Rightarrow> served \<times> faas_state" where
  "drive_frame cf flt env ck fn rctx force s =
     (let sn = rc_serial rctx; res = doRender cf env fn rctx force; fin = ck_fin ck; s = record_render fn fin res s in
      if rr_err res = None then
        let s = cache_put_frame sn (fn_id fn) (fn_version fn) (rr_packed res) fin s;
            s = (if tc_serial_invariant (config_of cf fn) then putInvariant (fn_id fn) (fn_version fn) (rr_packed res) fin s else s);
            s = snd (last_good_put flt fin sn (fn_id fn) (rr_packed res) s)
        in (\<lparr>sv_packed = rr_packed res, sv_status = ''ok'', sv_stale = False, sv_wake = wakeFor cf fin (rr_meta res)\<rparr>, s)
      else (fallback cf flt fn sn s, s))"

definition buildFrame ::
  "faas_config \<Rightarrow> (faas_call \<Rightarrow> bool) \<Rightarrow> render_env \<Rightarrow> clock \<Rightarrow> faas_function \<Rightarrow> request_ctx \<Rightarrow> bool \<Rightarrow> faas_state \<Rightarrow> served \<times> faas_state" where
  "buildFrame cf flt env ck fn rctx force s =
     (let sn = rc_serial rctx; now = ck_now ck;
          hit = (\<lambda>packed. \<lparr>sv_packed = packed, sv_status = ''ok'', sv_stale = False, sv_wake = wakeDefault cf now\<rparr>)
      in if force then drive_frame cf flt env ck fn rctx force s
         else case fresh_hit cf fn sn now s of
           Some packed \<Rightarrow> (hit packed, s)
         | None \<Rightarrow>
             (case invariant_hit cf fn now s of
                Some packed \<Rightarrow> (hit packed, cache_put_frame sn (fn_id fn) (fn_version fn) packed now s)
              | None \<Rightarrow> drive_frame cf flt env ck fn rctx force s))"

definition serveFrozen :: "faas_config \<Rightarrow> (faas_call \<Rightarrow> bool) \<Rightarrow> faas_function \<Rightarrow> request_ctx \<Rightarrow> faas_state \<Rightarrow> served" where
  "serveFrozen cf flt fn rctx s =
     (case LastGoodGet (flt FLastGoodGet) (rc_serial rctx) (fn_id fn) (fs_db s) of
        Inr lg \<Rightarrow> \<lparr>sv_packed = lg_packed lg, sv_status = ''stale'', sv_stale = True, sv_wake = cf_retry_wake cf\<rparr>
      | Inl _ \<Rightarrow> error_served cf)"

definition serveLastGood :: "faas_config \<Rightarrow> (faas_call \<Rightarrow> bool) \<Rightarrow> clock \<Rightarrow> faas_function \<Rightarrow> request_ctx \<Rightarrow> faas_state \<Rightarrow> served" where
  "serveLastGood cf flt ck fn rctx s =
     (case LastGoodGet (flt FLastGoodGet) (rc_serial rctx) (fn_id fn) (fs_db s) of
        Inr lg \<Rightarrow> \<lparr>sv_packed = lg_packed lg, sv_status = lg_status lg, sv_stale = lg_status lg \<noteq> ''ok'', sv_wake = wakeDefault cf (ck_now ck)\<rparr>
      | Inl _ \<Rightarrow> error_served cf)"

text \<open>What differs between the serials of one fan-out.\<close>

record fan_turn =
  ft_flt :: "faas_call \<Rightarrow> bool"
  ft_env :: render_env
  ft_clock :: clock
  ft_channel :: string

definition fan_one ::
  "faas_config \<Rightarrow> (serial \<Rightarrow> fan_turn) \<Rightarrow> faas_function \<Rightarrow> trigger \<Rightarrow> serial \<Rightarrow> (nat \<times> nat) \<times> faas_state \<Rightarrow> (nat \<times> nat) \<times> faas_state" where
  "fan_one cf turn fn tg sn acc =
     (let ((ok, failed), s) = acc; t = turn sn; now = ck_now (ft_clock t);
          rctx = \<lparr>rc_serial = sn, rc_channel = ft_channel t, rc_trigger = tg, rc_now = ck_text (ft_clock t)\<rparr>
      in case invariant_hit cf fn now s of
           Some packed \<Rightarrow>
             (case last_good_put (ft_flt t) now sn (fn_id fn) packed s of
                (False, s) \<Rightarrow> ((ok, failed + 1), s)
              | (True, s) \<Rightarrow> ((ok + 1, failed), cache_put_frame sn (fn_id fn) (fn_version fn) packed now s))
         | None \<Rightarrow>
             let res = doRender cf (ft_env t) fn rctx False; fin = ck_fin (ft_clock t); s = record_render fn fin res s in
             if rr_err res \<noteq> None then ((ok, failed + 1), s)
             else (case last_good_put (ft_flt t) fin sn (fn_id fn) (rr_packed res) s of
                (False, s) \<Rightarrow> ((ok, failed + 1), s)
              | (True, s) \<Rightarrow>
                  let s = cache_put_frame sn (fn_id fn) (fn_version fn) (rr_packed res) fin s
                  in ((ok + 1, failed),
                      if tc_serial_invariant (config_of cf fn) then putInvariant (fn_id fn) (fn_version fn) (rr_packed res) fin s else s)))"

definition BoundSerials :: "bool \<Rightarrow> int \<Rightarrow> display_db \<Rightarrow> serial list option" where
  "BoundSerials flt i db = (if flt then None else Some (sorted_list_of_set {sn. d_function_of db sn = Some i}))"

definition fanOut ::
  "faas_config \<Rightarrow> bool \<Rightarrow> (serial \<Rightarrow> fan_turn) \<Rightarrow> faas_function \<Rightarrow> trigger \<Rightarrow> faas_state \<Rightarrow> (nat \<times> nat) \<times> faas_state" where
  "fanOut cf flt turn fn tg s =
     (case BoundSerials flt (fn_id fn) (fs_db s) of
        None \<Rightarrow> ((0, 0), s)
      | Some serials \<Rightarrow> fold (fan_one cf turn fn tg) serials ((0, 0), s))"

section \<open>Playlists (playlistframe.go)\<close>

definition playlistSource :: "string \<Rightarrow> string" where
  "playlistSource fit =
     (let fit = (if fit \<notin> {''cover'', ''contain'', ''fill''} then ''cover'' else fit)
      in ''export default async (ctx, cap) => {'' @ [CHR 0x0A] @
         ''  const b = await cap.sharp(ctx.input).resize(400, 300, { fit: '' @ [CHR 0x22] @ fit @ [CHR 0x22] @
         '' }).removeAlpha().raw().toBuffer();'' @ [CHR 0x0A] @
         ''  return { image: cap.sharp(b, { raw: { width: 400, height: 300, channels: 3 } }) };'' @ [CHR 0x0A] @ ''}'')"

definition blank_function :: "string \<Rightarrow> faas_function" where
  "blank_function source =
     \<lparr>fn_id = 0, fn_name = [], fn_source = source, fn_version = 0, fn_trigger_type = [], fn_trigger_config = [], fn_secret_bindings = [],
      fn_egress_allow = [], fn_enabled = False, fn_created_at = 0, fn_updated_at = 0, fn_webhook_sha = None, fn_template_id = None\<rparr>"

definition doRenderPlaylist :: "faas_config \<Rightarrow> render_env \<Rightarrow> clock \<Rightarrow> string \<Rightarrow> bytes \<Rightarrow> string \<Rightarrow> render_result" where
  "doRenderPlaylist cf env ck source input dither =
     fst (renderOnce env (blank_function source)
       \<lparr>rc_serial = [], rc_channel = [], rc_trigger = \<lparr>tg_type = ''render'', tg_payload = None\<rparr>, rc_now = ck_text ck\<rparr>
       \<lparr>ro_secrets = SecretsReal, ro_limits = cf_limits cf, ro_want_raw = False, ro_force = False,
        ro_dither = dither, ro_dither_default = [], ro_egress = False, ro_input = input\<rparr>)"

text \<open>\<open>blob\<close> is the content of the image files; the flight is entered alone here.\<close>

definition packedVariant ::
  "faas_config \<Rightarrow> (faas_call \<Rightarrow> bool) \<Rightarrow> render_env \<Rightarrow> clock \<Rightarrow> (string \<Rightarrow> bytes option) \<Rightarrow> string \<Rightarrow> playlist_item \<Rightarrow> faas_state \<Rightarrow> bytes option \<times> faas_state" where
  "packedVariant cf flt env ck blob sha it s =
     (case VariantGet (flt FVariant1) sha (it_fit it) (it_dither it) (fs_db s) of
        Inr packed \<Rightarrow> (Some packed, s)
      | Inl _ \<Rightarrow>
          (case VariantGet (flt FVariant2) sha (it_fit it) (it_dither it) (fs_db s) of
             Inr packed \<Rightarrow> (Some packed, s)
           | Inl _ \<Rightarrow>
               (case (if flt FBlob then None else blob sha) of
                  None \<Rightarrow> (None, s)
                | Some b \<Rightarrow>
                    let res = doRenderPlaylist cf env ck (playlistSource (it_fit it)) b (it_dither it);
                        s = s\<lparr>fs_pl_renders := fs_pl_renders s @ [(sha, it_fit it, it_dither it)]\<rparr>
                    in if rr_err res \<noteq> None then (None, s)
                       else case VariantPut (flt FVariantPut) sha (it_fit it) (it_dither it) (rr_packed res) (fs_db s) of
                         (Some _, db) \<Rightarrow> (None, s\<lparr>fs_db := db\<rparr>)
                       | (None, db) \<Rightarrow> (Some (rr_packed res), s\<lparr>fs_db := db\<rparr>))))"

definition jitter :: "faas_config \<Rightarrow> real \<Rightarrow> int \<Rightarrow> int" where
  "jitter cf rng secs =
     (let frac = (if cf_jitter_frac cf \<le> 0 then 15 / 100 else cf_jitter_frac cf); x = rng * frac * of_int secs
      in secs - (if x < 0 then \<lceil>x\<rceil> else \<lfloor>x\<rfloor>))"

definition playlistWake :: "faas_config \<Rightarrow> real \<Rightarrow> time \<Rightarrow> int \<Rightarrow> cursor \<Rightarrow> int" where
  "playlistWake cf rng now interval cur =
     (let base = NextWakeSeconds (cf_wake cf) now; toNext = dur_seconds (interval - (now - AdvancedAt cur));
          base = (if toNext > 0 \<and> toNext < base then toNext else base)
      in clampWake (jitter cf rng base) (MaxWake (cf_wake cf)))"

definition buildPlaylistFrame ::
  "faas_config \<Rightarrow> (faas_call \<Rightarrow> bool) \<Rightarrow> render_env \<Rightarrow> clock \<Rightarrow> (string \<Rightarrow> bytes option) \<Rightarrow> real \<Rightarrow> serial \<Rightarrow> int \<Rightarrow> faas_state \<Rightarrow> served \<times> faas_state" where
  "buildPlaylistFrame cf flt env ck blob rng sn i s =
     (case GetPlaylist (flt FPlaylist) i (fs_db s) of
        Inl _ \<Rightarrow> (error_served cf, s)
      | Inr pl \<Rightarrow>
          (case RotationItems (flt FItems) i (fs_db s) of
             None \<Rightarrow> (error_served cf, s)
           | Some items \<Rightarrow>
               if items = [] then (error_served cf, s)
               else
                 let order = RotationOrder (pl_order_mode pl) (pl_shuffle_epoch pl) sn i (map it_id items);
                     interval = pl_interval_s pl * second
                 in case ResolveCursor (flt FCursor) sn i interval (int (length items)) (ck_now ck) (fs_db s) of
                   (None, db) \<Rightarrow> (error_served cf, s\<lparr>fs_db := db\<rparr>)
                 | (Some cur, db) \<Rightarrow>
                     let s = s\<lparr>fs_db := db\<rparr>; it = items ! (order ! nat (Index cur));
                         wake = playlistWake cf rng (ck_now ck) interval cur
                     in case (if flt FImage then None else d_images db (it_image_id it)) of
                       None \<Rightarrow> ((error_served cf)\<lparr>sv_wake := wake\<rparr>, s)
                     | Some sha \<Rightarrow>
                         (case packedVariant cf flt env ck blob sha it s of
                            (None, s) \<Rightarrow> (error_served cf, s)
                          | (Some packed, s) \<Rightarrow> (\<lparr>sv_packed = packed, sv_status = ''ok'', sv_stale = False, sv_wake = wake\<rparr>, s))))"

section \<open>Requests and the scheduler (supervisor.go)\<close>

definition triggerOrRender :: "string \<Rightarrow> string" where "triggerOrRender t = (if t = [] then ''render'' else t)"

definition nowOrDefault :: "clock \<Rightarrow> string \<Rightarrow> string" where "nowOrDefault ck t = (if t = [] then ck_text ck else t)"

record frame_request =
  fq_serial :: serial
  fq_channel :: string
  fq_trigger :: string
  fq_now :: string
  fq_force :: bool

definition Render ::
  "faas_config \<Rightarrow> (faas_call \<Rightarrow> bool) \<Rightarrow> render_env \<Rightarrow> clock \<Rightarrow> (string \<Rightarrow> bytes option) \<Rightarrow> real \<Rightarrow> frame_request \<Rightarrow> faas_state \<Rightarrow> served \<times> faas_state" where
  "Render cf flt env ck blob rng r s =
     (let sn = fq_serial r in
      case ResolveBinding (flt FBind) sn (fs_db s) of
        None \<Rightarrow> (error_served cf, s)
      | Some bind \<Rightarrow>
          if PlaylistID bind \<noteq> 0 then buildPlaylistFrame cf flt env ck blob rng sn (PlaylistID bind) s
          else if FunctionID bind = 0 then (error_served cf, s)
          else case LoadFunction (flt FLoad) (FunctionID bind) (fs_db s) of
            Inl _ \<Rightarrow> (error_served cf, s)
          | Inr fn \<Rightarrow>
              let rctx = \<lparr>rc_serial = sn, rc_channel = fq_channel r,
                         rc_trigger = \<lparr>tg_type = triggerOrRender (fq_trigger r), tg_payload = None\<rparr>, rc_now = nowOrDefault ck (fq_now r)\<rparr>
              in if \<not> fn_enabled fn then (serveFrozen cf flt fn rctx s, s)
                 else if syncInline cf fn then buildFrame cf flt env ck fn rctx (fq_force r) s
                 else (serveLastGood cf flt ck fn rctx s, s))"

datatype fanout_error = ErrWebhookNotFound | ErrWebhookNotEnabled

text \<open>The fan-out runs after the answer; here it is part of the step.\<close>

definition Fanout ::
  "faas_config \<Rightarrow> (faas_call \<Rightarrow> bool) \<Rightarrow> (serial \<Rightarrow> fan_turn) \<Rightarrow> string \<Rightarrow> string \<Rightarrow> faas_state \<Rightarrow> fanout_error option \<times> faas_state" where
  "Fanout cf flt turn name payload s =
     (case LoadFunctionByName (flt FLoad) name (fs_db s) of
        Inl _ \<Rightarrow> (Some ErrWebhookNotFound, s)
      | Inr fn \<Rightarrow>
          if fn_trigger_type fn \<noteq> TriggerWebhook \<or> \<not> fn_enabled fn then (Some ErrWebhookNotEnabled, s)
          else (None, snd (fanOut cf (flt FSerials) turn fn \<lparr>tg_type = ''webhook'', tg_payload = Some payload\<rparr> s)))"

definition scheduled_type :: "faas_config \<Rightarrow> faas_function \<Rightarrow> string option" where
  "scheduled_type cf fn =
     (if fn_trigger_type fn = TriggerRender \<and> tc_mode (config_of cf fn) = ''prerender'' then Some ''prerender''
      else if fn_trigger_type fn = TriggerSchedule then Some ''schedule'' else None)"

definition due_interval :: "faas_config \<Rightarrow> faas_function \<Rightarrow> int" where
  "due_interval cf fn = (let i = tc_interval_s (config_of cf fn) in if i \<le> 0 then 900 else i)"

record sched_turn =
  st_load_flt :: bool
  st_serials_flt :: bool
  st_turn :: "serial \<Rightarrow> fan_turn"

definition tick_one :: "faas_config \<Rightarrow> (int \<Rightarrow> sched_turn) \<Rightarrow> time \<Rightarrow> faas_function \<Rightarrow> faas_state \<Rightarrow> faas_state" where
  "tick_one cf turn now f s =
     (let t = turn (fn_id f) in
      if \<not> fn_enabled f then s
      else case LoadFunction (st_load_flt t) (fn_id f) (fs_db s) of
        Inl _ \<Rightarrow> s
      | Inr fn \<Rightarrow>
          (case scheduled_type cf fn of
             None \<Rightarrow> s
           | Some tt \<Rightarrow>
               if (case fs_last_run s (fn_id fn) of None \<Rightarrow> False | Some t0 \<Rightarrow> now - t0 < due_interval cf fn * second) then s
               else snd (fanOut cf (st_serials_flt t) (st_turn t) fn \<lparr>tg_type = tt, tg_payload = None\<rparr>
                           (s\<lparr>fs_last_run := (fs_last_run s)(fn_id fn \<mapsto> now)\<rparr>))))"

definition ListFunctions :: "faas_config \<Rightarrow> bool \<Rightarrow> display_db \<Rightarrow> faas_function list option" where
  "ListFunctions cf flt db = (if flt then None else Some (sort_key (\<lambda>f. cf_collate cf (fn_name f)) (d_functions db)))"

definition tickSchedule :: "faas_config \<Rightarrow> bool \<Rightarrow> (int \<Rightarrow> sched_turn) \<Rightarrow> time \<Rightarrow> faas_state \<Rightarrow> faas_state" where
  "tickSchedule cf flt turn now s =
     (case ListFunctions cf flt (fs_db s) of None \<Rightarrow> s | Some fns \<Rightarrow> fold (tick_one cf turn now) fns s)"

section \<open>Every answer is a frame\<close>

definition faas_ok :: "faas_config \<Rightarrow> faas_state \<Rightarrow> bool" where
  "faas_ok cf s \<longleftrightarrow> length (errorFrame cf) = packed_len \<and> display_ok (fs_db s) \<and>
     (\<forall>k e. fs_cache s k = Some e \<longrightarrow> length (fe_packed e) = packed_len) \<and>
     (\<forall>k e. fs_inv s k = Some e \<longrightarrow> length (ie_packed e) = packed_len)"

named_theorems faas_intros \<open>the elementary steps keep the supervisor's state well formed\<close>

lemma PackedSize_packed_len: "PackedSize = packed_len"
  by (simp add: packed_len_def frame_dims)

lemma doRender_ok: "rr_err (doRender cf env fn rctx force) = None \<Longrightarrow> length (rr_packed (doRender cf env fn rctx force)) = packed_len"
  unfolding doRender_def using renderOnce_ok PackedSize_packed_len by metis

lemma doRenderPlaylist_ok:
  "rr_err (doRenderPlaylist cf env ck src inp d) = None \<Longrightarrow> length (rr_packed (doRenderPlaylist cf env ck src inp d)) = packed_len"
  unfolding doRenderPlaylist_def using renderOnce_ok PackedSize_packed_len by metis

lemma faas_ok_record [faas_intros]: "faas_ok cf s \<Longrightarrow> faas_ok cf (record_render fn now res s)"
  by (simp add: faas_ok_def record_render_def)

lemma faas_ok_cache [faas_intros]: "faas_ok cf s \<Longrightarrow> length packed = packed_len \<Longrightarrow> faas_ok cf (cache_put_frame sn i v packed now s)"
  by (auto simp: faas_ok_def cache_put_frame_def)

lemma faas_ok_inv [faas_intros]: "faas_ok cf s \<Longrightarrow> length packed = packed_len \<Longrightarrow> faas_ok cf (putInvariant i v packed now s)"
  by (auto simp: faas_ok_def putInvariant_def)

lemma faas_ok_db [faas_intros]: "faas_ok cf s \<Longrightarrow> display_ok db \<Longrightarrow> faas_ok cf (s\<lparr>fs_db := db\<rparr>)"
  by (simp add: faas_ok_def)

lemma faas_ok_last_run [simp]: "faas_ok cf (s\<lparr>fs_last_run := l\<rparr>) = faas_ok cf s"
  by (simp add: faas_ok_def)

lemma faas_ok_last_good_put [faas_intros]: "faas_ok cf s \<Longrightarrow> faas_ok cf (snd (last_good_put flt now sn i packed s))"
  using ok_LastGoodPut by (auto simp: last_good_put_def faas_ok_def split: prod.split) (metis snd_conv)

lemma fresh_hit_length: "faas_ok cf s \<Longrightarrow> fresh_hit cf fn sn now s = Some b \<Longrightarrow> length b = packed_len"
  by (auto simp: fresh_hit_def faas_ok_def split: option.splits if_splits)

lemma invariant_hit_length: "faas_ok cf s \<Longrightarrow> invariant_hit cf fn now s = Some b \<Longrightarrow> length b = packed_len"
  by (auto simp: invariant_hit_def faas_ok_def split: option.splits if_splits)

lemma last_good_length: "faas_ok cf s \<Longrightarrow> LastGoodGet flt sn i (fs_db s) = Inr lg \<Longrightarrow> length (lg_packed lg) = packed_len"
  by (auto simp: LastGoodGet_def faas_ok_def display_ok_def frames_ok_def split: option.splits if_splits)

lemma error_served_length: "faas_ok cf s \<Longrightarrow> length (sv_packed (error_served cf)) = packed_len"
  by (simp add: error_served_def faas_ok_def)

lemma fallback_length: "faas_ok cf s \<Longrightarrow> length (sv_packed (fallback cf flt fn sn s)) = packed_len"
  using last_good_length error_served_length by (auto simp: fallback_def faas_ok_def split: option.split sum.split)

lemma serveFrozen_length: "faas_ok cf s \<Longrightarrow> length (sv_packed (serveFrozen cf flt fn rctx s)) = packed_len"
  using last_good_length error_served_length by (auto simp: serveFrozen_def split: sum.split)

lemma serveLastGood_length: "faas_ok cf s \<Longrightarrow> length (sv_packed (serveLastGood cf flt ck fn rctx s)) = packed_len"
  using last_good_length error_served_length by (auto simp: serveLastGood_def split: sum.split)

lemma buildFrame_cases:
  "buildFrame cf flt env ck fn rctx force s =
    (case (if force then None else fresh_hit cf fn (rc_serial rctx) (ck_now ck) s) of
       Some packed \<Rightarrow> (\<lparr>sv_packed = packed, sv_status = ''ok'', sv_stale = False, sv_wake = wakeDefault cf (ck_now ck)\<rparr>, s)
     | None \<Rightarrow>
         (case (if force then None else invariant_hit cf fn (ck_now ck) s) of
            Some packed \<Rightarrow> (\<lparr>sv_packed = packed, sv_status = ''ok'', sv_stale = False, sv_wake = wakeDefault cf (ck_now ck)\<rparr>,
                cache_put_frame (rc_serial rctx) (fn_id fn) (fn_version fn) packed (ck_now ck) s)
          | None \<Rightarrow> drive_frame cf flt env ck fn rctx force s))"
  by (simp add: buildFrame_def Let_def split: option.split)

lemma drive_frame_ok:
  assumes "faas_ok cf s"
  shows "length (sv_packed (fst (drive_frame cf flt env ck fn rctx force s))) = packed_len \<and> faas_ok cf (snd (drive_frame cf flt env ck fn rctx force s))"
  using assms doRender_ok by (auto simp: drive_frame_def Let_def intro!: faas_intros fallback_length)

lemma buildFrame_ok:
  assumes "faas_ok cf s"
  shows "length (sv_packed (fst (buildFrame cf flt env ck fn rctx force s))) = packed_len \<and> faas_ok cf (snd (buildFrame cf flt env ck fn rctx force s))"
  using assms drive_frame_ok fresh_hit_length invariant_hit_length
  by (auto simp: buildFrame_cases intro!: faas_intros split: option.split if_splits)

lemma fold_keeps: "I x \<Longrightarrow> (\<And>a x. I x \<Longrightarrow> I (f a x)) \<Longrightarrow> I (fold f as x)"
  by (induction "as" arbitrary: x) simp_all

lemma fan_one_ok:
  assumes "faas_ok cf (snd acc)"
  shows "faas_ok cf (snd (fan_one cf turn fn tg sn acc))"
proof -
  obtain ok failed s where acc: "acc = ((ok, failed), s)"
    by (metis prod.exhaust)
  then have s: "faas_ok cf s"
    using assms by simp
  have put: "faas_ok cf s'" if "last_good_put flt now sn i packed s0 = (b, s')" "faas_ok cf s0" for flt now i packed s0 b s'
    using faas_ok_last_good_put [OF that(2), of flt now sn i packed] that(1) by simp
  show ?thesis
    using s doRender_ok invariant_hit_length [OF s]
    by (auto simp: acc fan_one_def Let_def split: option.split prod.split bool.split dest!: put intro!: faas_intros)
qed

lemma fanOut_ok: "faas_ok cf s \<Longrightarrow> faas_ok cf (snd (fanOut cf flt turn fn tg s))"
  unfolding fanOut_def by (auto split: option.split intro: fold_keeps [where I = "\<lambda>acc. faas_ok cf (snd acc)"] fan_one_ok)

lemma Fanout_ok: "faas_ok cf s \<Longrightarrow> faas_ok cf (snd (Fanout cf flt turn name payload s))"
  by (auto simp: Fanout_def split: sum.split intro: fanOut_ok)

lemma tick_one_ok: "faas_ok cf s \<Longrightarrow> faas_ok cf (tick_one cf turn now f s)"
  by (auto simp: tick_one_def Let_def split: sum.split option.split intro!: fanOut_ok)

lemma tickSchedule_ok: "faas_ok cf s \<Longrightarrow> faas_ok cf (tickSchedule cf flt turn now s)"
  unfolding tickSchedule_def by (auto split: option.split intro: fold_keeps [where I = "faas_ok cf"] tick_one_ok)

lemma packedVariant_ok:
  assumes ok: "faas_ok cf s"
  shows "faas_ok cf (snd (packedVariant cf flt env ck blob sha it s)) \<and>
    (\<forall>b. fst (packedVariant cf flt env ck blob sha it s) = Some b \<longrightarrow> length b = packed_len)"
proof -
  have get: "length b = packed_len" if "VariantGet f sha (it_fit it) (it_dither it) (fs_db s) = Inr b" for f b
    using that ok by (auto simp: VariantGet_def faas_ok_def display_ok_def frames_ok_def split: if_splits option.splits)
  have put: "display_ok db" if "VariantPut f sha fit d p (fs_db s) = (e, db)" for f fit d p e db
    using ok_VariantPut [of "fs_db s" f sha fit d p] ok that by (simp add: faas_ok_def)
  have "faas_ok cf (s\<lparr>fs_pl_renders := l\<rparr>)" "faas_ok cf (s\<lparr>fs_pl_renders := l, fs_db := db\<rparr>) = display_ok db" for l db
    using ok by (simp_all add: faas_ok_def)
  then show ?thesis
    using ok get put doRenderPlaylist_ok
    by (auto simp: packedVariant_def Let_def split: sum.splits option.splits prod.splits if_splits)
qed

lemma buildPlaylistFrame_ok:
  assumes ok: "faas_ok cf s"
  shows "length (sv_packed (fst (buildPlaylistFrame cf flt env ck blob rng sn i s))) = packed_len \<and>
    faas_ok cf (snd (buildPlaylistFrame cf flt env ck blob rng sn i s))"
proof -
  have cur: "faas_ok cf (s\<lparr>fs_db := db\<rparr>)" if "ResolveCursor f sn i iv n now (fs_db s) = (c, db)" for f iv n now c db
    using ok_ResolveCursor [of "fs_db s" f sn i iv n now] that ok by (simp add: faas_ok_def)
  have var: "faas_ok cf s2" "r = Some b \<Longrightarrow> length b = packed_len" if "packedVariant cf flt env ck blob sha it s1 = (r, s2)" "faas_ok cf s1" for sha it s1 r s2 b
    using packedVariant_ok [OF that(2), of flt env ck blob sha it] that(1) by simp_all
  show ?thesis
    using ok error_served_length [OF ok] cur var
    by (auto simp: buildPlaylistFrame_def Let_def split: sum.split option.split prod.split)
qed

lemma Render_ok:
  assumes ok: "faas_ok cf s"
  shows "length (sv_packed (fst (Render cf flt env ck blob rng r s))) = packed_len \<and> faas_ok cf (snd (Render cf flt env ck blob rng r s))"
  using ok error_served_length [OF ok] buildPlaylistFrame_ok [OF ok] buildFrame_ok [OF ok] serveFrozen_length [OF ok] serveLastGood_length [OF ok]
  by (auto simp: Render_def Let_def split: option.split sum.split)

end
