(* ===== verification/Faas_Serving.thy ===== *)
theory Faas_Serving
  imports Faas_Core
begin

text \<open>
  What the supervisor promises over any sequence of frame requests, webhooks, scheduler ticks and store operations: every
  answer is a full frame, a frame served as fresh was rendered from the current version within its time to live, and the
  scheduler runs each function once per interval.
\<close>

section \<open>Runs\<close>

datatype faas_op =
    OpFrame "faas_call \<Rightarrow> bool" render_env clock "string \<Rightarrow> bytes option" real frame_request
  | OpWebhook "faas_call \<Rightarrow> bool" "serial \<Rightarrow> fan_turn" string string
  | OpTick bool "int \<Rightarrow> sched_turn" time
  | OpStore display_op

primrec faas_step :: "faas_config \<Rightarrow> faas_op \<Rightarrow> faas_state \<Rightarrow> faas_state" where
  "faas_step cf (OpFrame flt env ck blob rng r) s = snd (Render cf flt env ck blob rng r s)"
| "faas_step cf (OpWebhook flt turn name payload) s = snd (Fanout cf flt turn name payload s)"
| "faas_step cf (OpTick flt turn now) s = tickSchedule cf flt turn now s"
| "faas_step cf (OpStore op) s = s\<lparr>fs_db := display_step op (fs_db s)\<rparr>"

definition faas_init :: "int set \<Rightarrow> (int \<rightharpoonup> string) \<Rightarrow> int set \<Rightarrow> faas_state" where
  "faas_init ops images templates =
     \<lparr>fs_db = display_init ops images templates, fs_cache = Map.empty, fs_inv = Map.empty, fs_last_run = Map.empty,
      fs_renders = [], fs_pl_renders = []\<rparr>"

lemma display_step_ok: "display_ok db \<Longrightarrow> display_ok (display_step op db)"
  using display.step_I by blast

interpretation frames: invariant_run "faas_step cf" "\<lambda>_. True" "faas_ok cf" for cf
proof
  show "faas_ok cf (faas_step cf a s)" if "faas_ok cf s" for a s
    using that Render_ok Fanout_ok tickSchedule_ok display_step_ok
    by (cases a) (auto intro: faas_ok_db simp: faas_ok_def [of cf s])
qed

lemma faas_ok_init: "length (errorFrame cf) = packed_len \<Longrightarrow> faas_ok cf (faas_init ops images templates)"
  by (simp add: faas_ok_def faas_init_def display_ok_init)

section \<open>Every answer is a frame\<close>

lemma clampWake_ge: "60 \<le> clampWake secs m"
  by (simp add: clampWake_def)

lemma clampWake_le: "0 < m \<Longrightarrow> clampWake secs m \<le> max 60 m"
  by (simp add: clampWake_def Let_def)

definition answer_ok :: "faas_config \<Rightarrow> served \<Rightarrow> bool" where
  "answer_ok cf sv \<longleftrightarrow> (sv_stale sv \<longleftrightarrow> sv_status sv \<noteq> ''ok'') \<and> (sv_wake sv = cf_retry_wake cf \<or> 60 \<le> sv_wake sv)"

lemma wake_ge: "60 \<le> NextWakeSeconds c now" "60 \<le> ClampHint c h" "60 \<le> wakeFor cf now meta" "60 \<le> playlistWake cf rng now iv cur" "60 \<le> wakeDefault cf now"
  by (simp_all add: NextWakeSeconds_def ClampHint_def wakeFor_def playlistWake_def wakeDefault_def Let_def clampWake_ge split: option.split)

lemma answer_ok_error: "answer_ok cf (error_served cf)"
  by (simp add: answer_ok_def error_served_def)

lemma answer_ok_buildFrame: "answer_ok cf (fst (buildFrame cf flt env ck fn rctx force s))"
  by (auto simp: buildFrame_cases drive_frame_def fallback_def answer_ok_def wake_ge error_served_def Let_def split: option.split sum.split)

lemma answer_ok_playlist: "answer_ok cf (fst (buildPlaylistFrame cf flt env ck blob rng sn i s))"
  by (auto simp: buildPlaylistFrame_def answer_ok_def wake_ge error_served_def Let_def split: option.split sum.split prod.split)

lemma answer_ok_Render: "answer_ok cf (fst (Render cf flt env ck blob rng r s))"
  using answer_ok_error [of cf] answer_ok_buildFrame [of cf] answer_ok_playlist [of cf]
  by (auto simp: Render_def Let_def serveFrozen_def serveLastGood_def answer_ok_def wake_ge error_served_def split: option.split sum.split)

text \<open>
  C22 (every frame).  After any sequence of frame requests, webhooks, scheduler ticks and store operations, with any
  failures and whatever the worker returned, a device's request is answered with a frame of 30000 bytes, flagged stale exactly if its status is not
  \<open>ok\<close>, and a wake time that is the retry interval or at least a minute.
\<close>

theorem render_always_frame:
  assumes "length (errorFrame cf) = 30000" and "s = run (faas_step cf) ops (faas_init operators images templates)"
    and "Render cf flt env ck blob rng r s = (sv, s')"
  shows "length (sv_packed sv) = 30000 \<and> (sv_stale sv \<longleftrightarrow> sv_status sv \<noteq> ''ok'') \<and> (sv_wake sv = cf_retry_wake cf \<or> 60 \<le> sv_wake sv)"
proof -
  have "faas_ok cf s"
    unfolding assms(2) using assms(1) by (intro frames.run_I faas_ok_init) (simp_all add: packed_len_def)
  then show ?thesis
    using Render_ok [of cf s flt env ck blob rng r] answer_ok_Render [of cf flt env ck blob rng r s] assms(3)
    by (simp add: answer_ok_def packed_len_def)
qed

definition example_faas_config :: faas_config where
  "example_faas_config =
     \<lparr>cf_wake = \<lparr>NightStartHour = 23, NightEndHour = 6, DayInterval = 3600, MaxWake = 28800\<rparr>, cf_retry_wake = 600,
      cf_render_ttl = 120 * second, cf_dither_default = ''none'', cf_limits = \<lparr>lm_timeout_ms = 8000, lm_mem_mb = 256\<rparr>,
      cf_jitter_frac = 0, cf_parse = (\<lambda>_. \<lparr>tc_mode = [], tc_ttl_s = 0, tc_interval_s = 0, tc_dither = [], tc_cron = [], tc_serial_invariant = False\<rparr>),
      cf_collate = (\<lambda>_. 0), errorFrame = replicate 30000 0\<rparr>"

definition example_request :: frame_request where
  "example_request = \<lparr>fq_serial = ''PP01'', fq_channel = ''stable'', fq_trigger = [], fq_now = [], fq_force = False\<rparr>"

definition example_meta :: response_meta where
  "example_meta = \<lparr>rm_v = 1, rm_id = [], rm_ok = True, rm_w = 400, rm_h = 300, rm_dither = [], rm_next_wake_hint = None, rm_log = [], rm_err = None\<rparr>"

definition black_picture :: bytes where "black_picture = replicate RawFrameSize 0"

definition example_payload :: bytes where "example_payload = be32_bytes 2 @ [123, 125] @ black_picture"

definition example_stream :: bytes where
  "example_stream = be32_bytes (of_nat (1 + length example_payload)) @ KindRenderResponse # example_payload"

definition example_env :: render_env where
  "example_env =
     \<lparr>re_flt = (\<lambda>_. False), re_box = \<lparr>bx_current = [], bx_prev = None\<rparr>, re_table = [],
      re_worker = (\<lambda>_. Some example_stream), re_marshal = (\<lambda>_. Some []), re_unmarshal = (\<lambda>_. Some example_meta),
      re_egress = (\<lambda>_ _. True), re_cred = [], re_call_id = [], re_f32 = id, re_f64 = id\<rparr>"

definition example_clock :: clock where "example_clock = \<lparr>ck_now = 0, ck_fin = 1, ck_text = ''2026-01-01T00:00:00Z''\<rparr>"

theorem render_always_frame_witness:
  "\<exists>sv s'. Render example_faas_config (\<lambda>_. False) example_env example_clock Map.empty 0 example_request
      (run (faas_step example_faas_config) [OpStore (OpBindDevice False ''PP01'' 3)] (faas_init {} Map.empty {})) = (sv, s') \<and> length (sv_packed sv) = 30000"
proof -
  obtain sv s' where "Render example_faas_config (\<lambda>_. False) example_env example_clock Map.empty 0 example_request
      (run (faas_step example_faas_config) [OpStore (OpBindDevice False ''PP01'' 3)] (faas_init {} Map.empty {})) = (sv, s')"
    by fastforce
  from render_always_frame [OF _ refl this] this show ?thesis
    by (simp add: example_faas_config_def)
qed

section \<open>Freshness\<close>

text \<open>A function row is replaced only by one with a larger version, or by one with the same trigger configuration.\<close>

definition row_moves :: "faas_function list \<Rightarrow> int \<Rightarrow> faas_function list \<Rightarrow> int \<Rightarrow> bool" where
  "row_moves fs n gs m \<longleftrightarrow> n \<le> m \<and>
     (\<forall>g \<in> set gs. n \<le> fn_id g \<or>
        (\<exists>f \<in> set fs. fn_id f = fn_id g \<and> (fn_version f < fn_version g \<or> fn_version f = fn_version g \<and> fn_trigger_config f = fn_trigger_config g)))"

abbreviation db_moves :: "display_db \<Rightarrow> display_db \<Rightarrow> bool" where
  "db_moves db db' \<equiv> row_moves (d_functions db) (d_next_function db) (d_functions db') (d_next_function db')"

lemma row_moves_refl [simp]: "row_moves fs n fs n"
  by (auto simp: row_moves_def)

lemma row_moves_map:
  "(\<And>f. fn_id (g f) = fn_id f \<and> (fn_version f < fn_version (g f) \<or> fn_version (g f) = fn_version f \<and> fn_trigger_config (g f) = fn_trigger_config f)) \<Longrightarrow>
    row_moves fs n (map g fs) n"
  by (force simp: row_moves_def)

lemma row_moves_exec:
  assumes "\<And>f. fn_id (g f) = fn_id f \<and> (fn_version f < fn_version (g f) \<or> fn_version (g f) = fn_version f \<and> fn_trigger_config (g f) = fn_trigger_config f)"
  shows "db_moves db (snd (exec_function flt i g db))"
proof -
  have "row_moves (d_functions db) (d_next_function db) (map (\<lambda>f. if fn_id f = i then g f else f) (d_functions db)) (d_next_function db)"
    by (rule row_moves_map) (simp add: assms)
  then show ?thesis
    by (simp add: exec_function_def map_function_def)
qed

lemma functions_delete [simp]:
  "d_functions (delete_playlists P db) = d_functions db" "d_next_function (delete_playlists P db) = d_next_function db"
  by simp_all

lemma functions_insert_playlist [simp]:
  "d_functions (snd (insert_playlist now op name iv mode m db)) = d_functions db"
  "d_next_function (snd (insert_playlist now op name iv mode m db)) = d_next_function db"
  by (simp_all add: insert_playlist_def Let_def)

lemma functions_upsert:
  "upsert_managed now sn db = (r, db') \<Longrightarrow> d_functions db' = d_functions db \<and> d_next_function db' = d_next_function db"
  using functions_insert_playlist [of now None "managedName sn" 900 "''sequential''" "Some sn" db]
  by (auto simp: upsert_managed_def split: option.splits sum.splits prod.splits simp del: functions_insert_playlist)

lemma functions_SetManagedImage:
  "d_functions (snd (SetManagedImage flt now sn img db)) = d_functions db \<and> d_next_function (snd (SetManagedImage flt now sn img db)) = d_next_function db"
  by (auto simp: SetManagedImage_def Let_def dest: functions_upsert split: sum.split prod.split)

lemma functions_kept:
  "d_functions (snd (CreatePlaylist flt now op name iv mode m db)) = d_functions db \<and> d_next_function (snd (CreatePlaylist flt now op name iv mode m db)) = d_next_function db"
  "d_functions (snd (UpdatePlaylist flt now i n v md db)) = d_functions db \<and> d_next_function (snd (UpdatePlaylist flt now i n v md db)) = d_next_function db"
  "d_functions (snd (DeletePlaylist flt i db)) = d_functions db \<and> d_next_function (snd (DeletePlaylist flt i db)) = d_next_function db"
  "d_functions (snd (AddItem flt now i img fit d db)) = d_functions db \<and> d_next_function (snd (AddItem flt now i img fit d db)) = d_next_function db"
  "d_functions (snd (RemoveItem flt now i db)) = d_functions db \<and> d_next_function (snd (RemoveItem flt now i db)) = d_next_function db"
  "d_functions (snd (SetPolicy flt now i iv mode db)) = d_functions db \<and> d_next_function (snd (SetPolicy flt now i iv mode db)) = d_next_function db"
  "d_functions (snd (Reshuffle flt now i db)) = d_functions db \<and> d_next_function (snd (Reshuffle flt now i db)) = d_next_function db"
  "d_functions (snd (Reorder flt now i ids db)) = d_functions db \<and> d_next_function (snd (Reorder flt now i ids db)) = d_next_function db"
  "d_functions (snd (BindPlaylist flt sn i db)) = d_functions db \<and> d_next_function (snd (BindPlaylist flt sn i db)) = d_next_function db"
  "d_functions (snd (UnbindPlaylist f1 f2 sn db)) = d_functions db \<and> d_next_function (snd (UnbindPlaylist f1 f2 sn db)) = d_next_function db"
  "d_functions (snd (VariantPut flt sha fit d p db)) = d_functions db \<and> d_next_function (snd (VariantPut flt sha fit d p db)) = d_next_function db"
  "d_functions (snd (GCVariantCache flt db)) = d_functions db \<and> d_next_function (snd (GCVariantCache flt db)) = d_next_function db"
  "d_functions (snd (BindDevice flt sn i db)) = d_functions db \<and> d_next_function (snd (BindDevice flt sn i db)) = d_next_function db"
  "d_functions (snd (Unbind flt sn db)) = d_functions db \<and> d_next_function (snd (Unbind flt sn db)) = d_next_function db"
  "d_functions (snd (DeleteDeviceBindings f1 f2 sn db)) = d_functions db \<and> d_next_function (snd (DeleteDeviceBindings f1 f2 sn db)) = d_next_function db"
  "d_functions (snd (LastGoodPut flt now sn i p st db)) = d_functions db \<and> d_next_function (snd (LastGoodPut flt now sn i p st db)) = d_next_function db"
  by (simp_all add: CreatePlaylist_def UpdatePlaylist_def DeletePlaylist_def AddItem_def RemoveItem_def SetPolicy_def Reshuffle_def Reorder_def
      BindPlaylist_def UnbindPlaylist_def VariantPut_def GCVariantCache_def BindDevice_def Unbind_def DeleteDeviceBindings_def LastGoodPut_def
      Let_def split: option.split prod.split)

lemma functions_ResolveCursor:
  "d_functions (snd (ResolveCursor flt sn i iv n now db)) = d_functions db \<and> d_next_function (snd (ResolveCursor flt sn i iv n now db)) = d_next_function db"
  by (simp add: ResolveCursor_def Let_def split: option.split)

lemma db_moves_step: "db_moves db (display_step op db)"
proof (cases op)
  case (OpCreateFunction flt now p)
  then show ?thesis
    by (auto simp: CreateFunction_def Let_def row_moves_def)
next
  case (OpUpdateFunction flt now i p)
  then show ?thesis
    by (simp add: UpdateFunction_def row_moves_exec)
next
  case (OpSetEnabled flt now i e)
  then show ?thesis
    by (simp add: SetEnabled_def row_moves_exec)
next
  case (OpSetWebhookToken flt now i sha)
  then show ?thesis
    by (simp add: SetWebhookToken_def row_moves_exec)
next
  case (OpDeleteFunction flt i)
  then show ?thesis
    by (auto simp: DeleteFunction_def row_moves_def)
qed (simp_all add: functions_kept functions_ResolveCursor functions_SetManagedImage)


text \<open>A call of the render primitive that returned \<open>packed\<close>, at time \<open>t\<close> or, when shared, less than a time to live before \<open>t\<close>.\<close>

definition rendered :: "faas_config \<Rightarrow> render_record list \<Rightarrow> int \<Rightarrow> int \<Rightarrow> bytes \<Rightarrow> time \<Rightarrow> bool \<Rightarrow> bool" where
  "rendered cf rs i v packed t shared \<longleftrightarrow>
     (\<exists>r \<in> set rs. fn_id (dr_function r) = i \<and> fn_version (dr_function r) = v \<and> dr_packed r = Some packed \<and>
        (dr_at r = t \<or> shared \<and> tc_serial_invariant (config_of cf (dr_function r)) \<and> t - dr_at r < ttlFor cf (dr_function r)))"

definition caches_rendered :: "faas_config \<Rightarrow> faas_state \<Rightarrow> bool" where
  "caches_rendered cf s \<longleftrightarrow>
     (\<forall>sn i e. fs_cache s (sn, i) = Some e \<longrightarrow> rendered cf (fs_renders s) i (fe_version e) (fe_packed e) (fe_rendered_at e) True) \<and>
     (\<forall>i v e. fs_inv s (i, v) = Some e \<longrightarrow> rendered cf (fs_renders s) i v (ie_packed e) (ie_rendered_at e) False)"

definition row_current :: "faas_function list \<Rightarrow> int \<Rightarrow> faas_function \<Rightarrow> bool" where
  "row_current fs n g \<longleftrightarrow> fn_id g < n \<and>
     (\<forall>f \<in> set fs. fn_id f = fn_id g \<longrightarrow>
        fn_version g < fn_version f \<or> fn_version g = fn_version f \<and> fn_trigger_config g = fn_trigger_config f)"

definition fresh_ok :: "faas_config \<Rightarrow> faas_state \<Rightarrow> bool" where
  "fresh_ok cf s \<longleftrightarrow> display_ok (fs_db s) \<and> caches_rendered cf s \<and>
     (\<forall>r \<in> set (fs_renders s). row_current (d_functions (fs_db s)) (d_next_function (fs_db s)) (dr_function r))"

named_theorems fresh_intros \<open>the elementary steps keep the caches within what was rendered\<close>

lemma rendered_mono: "rendered cf rs i v b t sh \<Longrightarrow> rendered cf (rs @ rs') i v b t sh"
  by (auto simp: rendered_def)

lemma row_current_moves:
  assumes cur: "row_current fs n g" and moves: "row_moves fs n fs' n'"
  shows "row_current fs' n' g"
  unfolding row_current_def
proof (intro conjI ballI impI)
  show "fn_id g < n'"
    using assms by (simp add: row_current_def row_moves_def)
next
  fix f assume f: "f \<in> set fs'" "fn_id f = fn_id g"
  then have "fn_id f < n"
    using cur by (simp add: row_current_def)
  then obtain h where h: "h \<in> set fs" "fn_id h = fn_id f"
      "fn_version h < fn_version f \<or> fn_version h = fn_version f \<and> fn_trigger_config h = fn_trigger_config f"
    using moves f(1) unfolding row_moves_def by fastforce
  then have "fn_version g < fn_version h \<or> fn_version g = fn_version h \<and> fn_trigger_config g = fn_trigger_config h"
    using cur f(2) by (simp add: row_current_def)
  with h(3) show "fn_version g < fn_version f \<or> fn_version g = fn_version f \<and> fn_trigger_config g = fn_trigger_config f"
    by auto
qed

lemma row_current_self:
  "display_ok db \<Longrightarrow> f \<in> set (d_functions db) \<Longrightarrow> row_current (d_functions db) (d_next_function db) f"
  by (auto simp: row_current_def display_ok_def functions_ok_def keyed_def dest: inj_onD simp: distinct_map)

lemma fresh_db [fresh_intros]:
  "fresh_ok cf s \<Longrightarrow> display_ok db \<Longrightarrow> db_moves (fs_db s) db \<Longrightarrow> fresh_ok cf (s\<lparr>fs_db := db\<rparr>)"
  by (auto simp: fresh_ok_def caches_rendered_def intro: row_current_moves)

lemma fresh_irrelevant [simp]:
  "fresh_ok cf (s\<lparr>fs_last_run := l\<rparr>) = fresh_ok cf s" "fresh_ok cf (s\<lparr>fs_pl_renders := pl\<rparr>) = fresh_ok cf s"
  by (simp_all add: fresh_ok_def caches_rendered_def)

lemma fresh_record [fresh_intros]:
  "fresh_ok cf s \<Longrightarrow> fn \<in> set (d_functions (fs_db s)) \<Longrightarrow> fresh_ok cf (record_render fn now res s)"
  by (auto simp: fresh_ok_def caches_rendered_def record_render_def rendered_mono row_current_self)

lemma fresh_cache [fresh_intros]:
  "fresh_ok cf s \<Longrightarrow> rendered cf (fs_renders s) i v b now True \<Longrightarrow> fresh_ok cf (cache_put_frame sn i v b now s)"
  by (auto simp: fresh_ok_def caches_rendered_def cache_put_frame_def)

lemma fresh_inv [fresh_intros]:
  "fresh_ok cf s \<Longrightarrow> rendered cf (fs_renders s) i v b now False \<Longrightarrow> fresh_ok cf (putInvariant i v b now s)"
  by (auto simp: fresh_ok_def caches_rendered_def putInvariant_def)

lemma last_good_put_state:
  "last_good_put flt now sn i b s = (ok, s') \<Longrightarrow>
    s' = s\<lparr>fs_db := snd (LastGoodPut (flt FLastGoodPut) now sn i b ''ok'' (fs_db s))\<rparr>"
  by (auto simp: last_good_put_def split: prod.splits)

lemma fresh_last_good: "fresh_ok cf s \<Longrightarrow> last_good_put flt now sn i b s = (ok, s') \<Longrightarrow> fresh_ok cf s'"
  by (drule last_good_put_state) (auto simp: functions_kept fresh_ok_def [of cf s] intro!: fresh_db ok_LastGoodPut)

lemma last_good_functions [simp]:
  "last_good_put flt now sn i b s = (ok, s') \<Longrightarrow> d_functions (fs_db s') = d_functions (fs_db s) \<and> fs_renders s' = fs_renders s"
  by (drule last_good_put_state) (simp add: functions_kept)

lemma record_functions [simp]: "fs_db (record_render fn now res s) = fs_db s"
  by (simp add: record_render_def)

lemma cache_functions [simp]:
  "fs_db (cache_put_frame sn i v b now s) = fs_db s" "fs_renders (cache_put_frame sn i v b now s) = fs_renders s"
  "fs_db (putInvariant i v b now s) = fs_db s" "fs_renders (putInvariant i v b now s) = fs_renders s"
  by (simp_all add: cache_put_frame_def putInvariant_def)

lemma rendered_record:
  "rr_err res = None \<Longrightarrow> rendered cf (fs_renders (record_render fn now res s)) (fn_id fn) (fn_version fn) (rr_packed res) now sh"
  by (simp add: rendered_def record_render_def)


lemma same_config: "fn_trigger_config f = fn_trigger_config g \<Longrightarrow> config_of cf f = config_of cf g \<and> ttlFor cf f = ttlFor cf g"
  by (simp add: config_of_def ttlFor_def)

lemma rendered_current:
  assumes ok: "fresh_ok cf s" and fn: "fn \<in> set (d_functions (fs_db s))" and "rendered cf (fs_renders s) (fn_id fn) (fn_version fn) b t sh"
  obtains r where "r \<in> set (fs_renders s)" "fn_id (dr_function r) = fn_id fn" "fn_version (dr_function r) = fn_version fn" "dr_packed r = Some b"
    "dr_at r = t \<or> sh \<and> tc_serial_invariant (config_of cf fn) \<and> t - dr_at r < ttlFor cf fn"
    "config_of cf (dr_function r) = config_of cf fn" "ttlFor cf (dr_function r) = ttlFor cf fn"
proof -
  obtain r where r: "r \<in> set (fs_renders s)" "fn_id (dr_function r) = fn_id fn" "fn_version (dr_function r) = fn_version fn" "dr_packed r = Some b"
      "dr_at r = t \<or> sh \<and> tc_serial_invariant (config_of cf (dr_function r)) \<and> t - dr_at r < ttlFor cf (dr_function r)"
    using assms(3) by (auto simp: rendered_def)
  then have "fn_trigger_config (dr_function r) = fn_trigger_config fn"
    using ok fn by (force simp: fresh_ok_def row_current_def)
  from same_config [OF this, of cf] r that show thesis
    by simp
qed

lemma fresh_hit_rendered:
  assumes "fresh_ok cf s" "fresh_hit cf fn sn now s = Some b"
  obtains t where "rendered cf (fs_renders s) (fn_id fn) (fn_version fn) b t True" "now - t < ttlFor cf fn"
  using assms by (force simp: fresh_ok_def caches_rendered_def fresh_hit_def split: option.splits if_splits)

lemma invariant_hit_rendered:
  assumes ok: "fresh_ok cf s" and fn: "fn \<in> set (d_functions (fs_db s))" and hit: "invariant_hit cf fn now s = Some b"
  shows "rendered cf (fs_renders s) (fn_id fn) (fn_version fn) b now True"
proof -
  obtain e where e: "fs_inv s (fn_id fn, fn_version fn) = Some e" "now - ie_rendered_at e < ttlFor cf fn" "b = ie_packed e"
      "tc_serial_invariant (config_of cf fn)"
    using hit by (auto simp: invariant_hit_def split: if_splits option.splits)
  then have "rendered cf (fs_renders s) (fn_id fn) (fn_version fn) b (ie_rendered_at e) False"
    using ok by (simp add: fresh_ok_def caches_rendered_def)
  from rendered_current [OF ok fn this] show ?thesis
    using e by (metis rendered_def)
qed

lemma drive_frame_fresh:
  assumes ok: "fresh_ok cf s" and fn: "fn \<in> set (d_functions (fs_db s))"
  shows "fresh_ok cf (snd (drive_frame cf flt env ck fn rctx force s))"
proof (cases "rr_err (doRender cf env fn rctx force)")
  case None
  have lg: "fresh_ok cf (snd (last_good_put flt now sn i b t))" if "fresh_ok cf t" for flt now sn i b t
    using fresh_last_good [OF that] by (metis prod.collapse)
  show ?thesis
    using None ok fn by (auto simp: drive_frame_def Let_def rendered_record intro!: fresh_intros lg)
qed (use ok fn in \<open>simp add: drive_frame_def Let_def fresh_record\<close>)

lemma buildFrame_fresh:
  assumes ok: "fresh_ok cf s" and fn: "fn \<in> set (d_functions (fs_db s))"
  shows "fresh_ok cf (snd (buildFrame cf flt env ck fn rctx force s))"
  using ok drive_frame_fresh [OF ok fn] invariant_hit_rendered [OF ok fn]
  by (auto simp: buildFrame_cases intro!: fresh_intros split: option.split if_splits)


lemma fan_one_fresh:
  assumes ok: "fresh_ok cf (snd acc)" and fn: "fn \<in> set (d_functions (fs_db (snd acc)))"
  shows "fresh_ok cf (snd (fan_one cf turn fn tg sn acc)) \<and> d_functions (fs_db (snd (fan_one cf turn fn tg sn acc))) = d_functions (fs_db (snd acc))"
proof -
  obtain ok' failed s where acc: "acc = ((ok', failed), s)"
    by (metis prod.exhaust)
  then have s: "fresh_ok cf s" "fn \<in> set (d_functions (fs_db s))"
    using assms by simp_all
  show ?thesis
    using s fresh_record [OF s] invariant_hit_rendered [OF s]
    by (auto simp: acc fan_one_def Let_def rendered_record dest: fresh_last_good intro!: fresh_cache fresh_inv
        split: option.split prod.split bool.split)
qed

lemma fan_fold_fresh:
  "fresh_ok cf (snd acc) \<Longrightarrow> fn \<in> set (d_functions (fs_db (snd acc))) \<Longrightarrow> fresh_ok cf (snd (fold (fan_one cf turn fn tg) sns acc)) \<and>
    d_functions (fs_db (snd (fold (fan_one cf turn fn tg) sns acc))) = d_functions (fs_db (snd acc))"
proof (induction sns arbitrary: acc)
  case (Cons sn sns)
  note step = fan_one_fresh [OF Cons.prems, of turn tg sn]
  show ?case
    using Cons.IH [of "fan_one cf turn fn tg sn acc"] step Cons.prems(2) by simp
qed simp

lemma fanOut_fresh:
  assumes "fresh_ok cf s" "fn \<in> set (d_functions (fs_db s))"
  shows "fresh_ok cf (snd (fanOut cf flt turn fn tg s))" "d_functions (fs_db (snd (fanOut cf flt turn fn tg s))) = d_functions (fs_db s)"
  using assms fan_fold_fresh [of cf "((0, 0), s)"] by (auto simp: fanOut_def split: option.split)

lemma loaded_function:
  "LoadFunction flt i db = Inr fn \<Longrightarrow> fn \<in> set (d_functions db) \<and> fn_id fn = i"
  "LoadFunctionByName flt name db = Inr fn \<Longrightarrow> fn \<in> set (d_functions db) \<and> fn_name fn = name"
  by (auto simp: LoadFunction_def LoadFunctionByName_def find_function_def find_Some_iff split: if_splits option.splits)

lemma Fanout_fresh: "fresh_ok cf s \<Longrightarrow> fresh_ok cf (snd (Fanout cf flt turn name payload s))"
  by (auto simp: Fanout_def split: sum.split intro!: fanOut_fresh(1) dest: loaded_function)

lemma tick_one_fresh: "fresh_ok cf s \<Longrightarrow> fresh_ok cf (tick_one cf turn now f s)"
  by (auto simp: tick_one_def Let_def split: sum.split option.split intro!: fanOut_fresh(1) dest: loaded_function)

lemma tickSchedule_fresh: "fresh_ok cf s \<Longrightarrow> fresh_ok cf (tickSchedule cf flt turn now s)"
  unfolding tickSchedule_def by (auto split: option.split intro: fold_keeps [where I = "fresh_ok cf"] tick_one_fresh)

lemma packedVariant_fresh:
  assumes ok: "fresh_ok cf s"
  shows "fresh_ok cf (snd (packedVariant cf flt env ck blob sha it s))"
proof -
  have "fresh_ok cf (s\<lparr>fs_pl_renders := l, fs_db := db\<rparr>)" if "VariantPut f sha fit d p (fs_db s) = (e, db)" for f fit d p e db l
    using ok_VariantPut [of "fs_db s" f sha fit d p] functions_kept(11) [of f sha fit d p "fs_db s"] ok that
    by (intro fresh_db) (simp_all add: fresh_ok_def caches_rendered_def)
  then show ?thesis
    using ok by (auto simp: packedVariant_def Let_def split: sum.split option.split prod.split)
qed

lemma buildPlaylistFrame_fresh:
  assumes ok: "fresh_ok cf s"
  shows "fresh_ok cf (snd (buildPlaylistFrame cf flt env ck blob rng sn i s))"
proof -
  have cur: "fresh_ok cf (s\<lparr>fs_db := db\<rparr>)" if "ResolveCursor f sn i iv n now (fs_db s) = (c, db)" for f iv n now c db
    using ok_ResolveCursor [of "fs_db s" f sn i iv n now] functions_ResolveCursor [of f sn i iv n now "fs_db s"] that ok
    by (intro fresh_db) (simp_all add: fresh_ok_def)
  have var: "fresh_ok cf s2" if "packedVariant cf flt env ck blob sha it s1 = (r, s2)" "fresh_ok cf s1" for sha it s1 r s2
    using packedVariant_fresh [OF that(2), of flt env ck blob sha it] that(1) by simp
  show ?thesis
    using ok cur var by (auto simp: buildPlaylistFrame_def Let_def split: sum.split option.split prod.split)
qed

lemma Render_fresh: "fresh_ok cf s \<Longrightarrow> fresh_ok cf (snd (Render cf flt env ck blob rng r s))"
  by (auto simp: Render_def Let_def buildPlaylistFrame_fresh split: option.split sum.split intro!: buildFrame_fresh dest: loaded_function)

interpretation fresh: invariant_run "faas_step cf" "\<lambda>_. True" "fresh_ok cf" for cf
proof
  show "fresh_ok cf (faas_step cf a s)" if "fresh_ok cf s" for a s
    using that Render_fresh Fanout_fresh tickSchedule_fresh
    by (cases a) (auto intro!: fresh_db display_step_ok db_moves_step simp: fresh_ok_def [of cf s])
qed

lemma fresh_ok_init: "fresh_ok cf (faas_init ops images templates)"
  by (simp add: fresh_ok_def caches_rendered_def faas_init_def display_ok_init)


definition recent_render :: "faas_config \<Rightarrow> render_record list \<Rightarrow> faas_function \<Rightarrow> bytes \<Rightarrow> clock \<Rightarrow> bool" where
  "recent_render cf rs fn packed ck \<longleftrightarrow>
     (\<exists>r \<in> set rs. fn_id (dr_function r) = fn_id fn \<and> fn_version (dr_function r) = fn_version fn \<and> dr_packed r = Some packed \<and>
        (dr_at r = ck_fin ck \<or> ck_now ck - dr_at r < ttlFor cf fn \<or>
         tc_serial_invariant (config_of cf fn) \<and> ck_now ck - dr_at r < 2 * ttlFor cf fn))"

lemma buildFrame_recent:
  assumes ok: "fresh_ok cf s" and fn: "fn \<in> set (d_functions (fs_db s))"
    and status: "sv_status (fst (buildFrame cf flt env ck fn rctx force s)) = ''ok''"
  shows "recent_render cf (fs_renders (snd (buildFrame cf flt env ck fn rctx force s))) fn (sv_packed (fst (buildFrame cf flt env ck fn rctx force s))) ck"
proof -
  have fresh: "recent_render cf (fs_renders s) fn b ck" if "fresh_hit cf fn (rc_serial rctx) (ck_now ck) s = Some b" for b
  proof -
    from fresh_hit_rendered [OF ok that]
    obtain t where t: "rendered cf (fs_renders s) (fn_id fn) (fn_version fn) b t True" "ck_now ck - t < ttlFor cf fn"
      by blast
    from rendered_current [OF ok fn t(1)] obtain r where r: "r \<in> set (fs_renders s)" "fn_id (dr_function r) = fn_id fn"
        "fn_version (dr_function r) = fn_version fn" "dr_packed r = Some b"
        "dr_at r = t \<or> tc_serial_invariant (config_of cf fn) \<and> t - dr_at r < ttlFor cf fn"
      by auto
    then have "ck_now ck - dr_at r < ttlFor cf fn \<or> tc_serial_invariant (config_of cf fn) \<and> ck_now ck - dr_at r < 2 * ttlFor cf fn"
      using t(2) by auto
    with r show ?thesis
      unfolding recent_render_def by blast
  qed
  have inv: "recent_render cf (fs_renders s) fn b ck" if "invariant_hit cf fn (ck_now ck) s = Some b" for b
  proof -
    note hit = that
    obtain e where e: "fs_inv s (fn_id fn, fn_version fn) = Some e" "ck_now ck - ie_rendered_at e < ttlFor cf fn" "b = ie_packed e"
      using hit by (auto simp: invariant_hit_def split: if_splits option.splits)
    then have "rendered cf (fs_renders s) (fn_id fn) (fn_version fn) b (ie_rendered_at e) False"
      using ok by (simp add: fresh_ok_def caches_rendered_def)
    with e(2) show ?thesis
      by (auto simp: rendered_def recent_render_def)
  qed
  have drive: "recent_render cf (fs_renders (snd (drive_frame cf flt env ck fn rctx force s))) fn (sv_packed (fst (drive_frame cf flt env ck fn rctx force s))) ck"
    if "sv_status (fst (drive_frame cf flt env ck fn rctx force s)) = ''ok''"
  proof (cases "rr_err (doRender cf env fn rctx force)")
    case None
    have put: "fs_renders (snd (last_good_put f now sn i b t)) = fs_renders t" for f now sn i b t
      using last_good_functions [OF surjective_pairing [of "last_good_put f now sn i b t"]] by simp
    show ?thesis
      using rendered_record [OF None, of cf fn "ck_fin ck" s False] None
      by (auto simp: drive_frame_def Let_def put recent_render_def rendered_def)
  next
    case (Some e)
    then show ?thesis
      using that by (auto simp: drive_frame_def Let_def fallback_def error_served_def split: option.splits sum.splits)
  qed
  show ?thesis
    using status fresh inv drive by (auto simp: buildFrame_cases split: option.split if_splits)
qed




section \<open>The scheduler\<close>

lemma fan_one_keeps:
  "d_functions (fs_db (snd (fan_one cf turn fn tg sn acc))) = d_functions (fs_db (snd acc)) \<and>
    fs_last_run (snd (fan_one cf turn fn tg sn acc)) = fs_last_run (snd acc)"
proof -
  have put: "d_functions (fs_db s') = d_functions (fs_db s) \<and> fs_last_run s' = fs_last_run s"
    if "last_good_put flt now i j b s = (ok, s')" for flt now i j b s ok s'
    using last_good_put_state [OF that] by (simp add: functions_kept)
  have rec: "fs_last_run (record_render fn now res s) = fs_last_run s" for now res s
    by (simp add: record_render_def)
  have cache: "fs_last_run (cache_put_frame sn i v b now s) = fs_last_run s" "fs_last_run (putInvariant i v b now s) = fs_last_run s" for i v b now s
    by (simp_all add: cache_put_frame_def putInvariant_def)
  obtain ok failed s where acc: "acc = ((ok, failed), s)"
    by (metis prod.exhaust)
  show ?thesis
    by (auto simp: acc fan_one_def Let_def rec cache dest: put split: option.split prod.split bool.split)
qed

lemma fanOut_keeps:
  "d_functions (fs_db (snd (fanOut cf flt turn fn tg s))) = d_functions (fs_db s)"
  "fs_last_run (snd (fanOut cf flt turn fn tg s)) = fs_last_run s"
proof -
  have "d_functions (fs_db (snd (fold (fan_one cf turn fn tg) sns acc))) = d_functions (fs_db (snd acc)) \<and>
      fs_last_run (snd (fold (fan_one cf turn fn tg) sns acc)) = fs_last_run (snd acc)" for sns acc
    by (induction sns arbitrary: acc) (simp_all add: fan_one_keeps)
  then show "d_functions (fs_db (snd (fanOut cf flt turn fn tg s))) = d_functions (fs_db s)"
      "fs_last_run (snd (fanOut cf flt turn fn tg s)) = fs_last_run s"
    by (simp_all add: fanOut_def split: option.split)
qed

text \<open>A function is due when it is enabled, has a schedule and has not been run for its interval.\<close>

definition due :: "faas_config \<Rightarrow> (int \<Rightarrow> sched_turn) \<Rightarrow> time \<Rightarrow> faas_state \<Rightarrow> faas_function \<Rightarrow> bool" where
  "due cf turn now s f \<longleftrightarrow> fn_enabled f \<and> \<not> st_load_flt (turn (fn_id f)) \<and> scheduled_type cf f \<noteq> None \<and>
     (case fs_last_run s (fn_id f) of None \<Rightarrow> True | Some t0 \<Rightarrow> due_interval cf f * second \<le> now - t0)"

definition run_due :: "faas_config \<Rightarrow> (int \<Rightarrow> sched_turn) \<Rightarrow> time \<Rightarrow> faas_function \<Rightarrow> faas_state \<Rightarrow> faas_state" where
  "run_due cf turn now f s =
     snd (fanOut cf (st_serials_flt (turn (fn_id f))) (st_turn (turn (fn_id f))) f
       \<lparr>tg_type = the (scheduled_type cf f), tg_payload = None\<rparr> (s\<lparr>fs_last_run := (fs_last_run s)(fn_id f \<mapsto> now)\<rparr>))"

lemma find_row:
  "distinct (map g fs) \<Longrightarrow> f \<in> set fs \<Longrightarrow> find (\<lambda>h. g h = g f) fs = Some f"
  by (induction fs) auto

lemma tick_one_due:
  assumes "distinct (map fn_id (d_functions (fs_db s)))" "f \<in> set (d_functions (fs_db s))"
  shows "tick_one cf turn now f s = (if due cf turn now s f then run_due cf turn now f s else s)"
  using find_row [OF assms]
  by (auto simp: tick_one_def Let_def LoadFunction_def find_function_def due_def run_due_def split: option.split)

lemma fold_tick:
  assumes "distinct (map fn_id (d_functions (fs_db s)))" "set fs \<subseteq> set (d_functions (fs_db s))" "distinct (map fn_id fs)"
  shows "fold (tick_one cf turn now) fs s = fold (run_due cf turn now) (filter (due cf turn now s) fs) s"
  using assms
proof (induction fs arbitrary: s)
  case (Cons f fs)
  note one = tick_one_due [OF Cons.prems(1), of f cf turn now]
  show ?case
  proof (cases "due cf turn now s f")
    case True
    let ?s = "run_due cf turn now f s"
    have s: "d_functions (fs_db ?s) = d_functions (fs_db s)" "fs_last_run ?s = (fs_last_run s)(fn_id f \<mapsto> now)"
      by (simp_all add: run_due_def fanOut_keeps)
    moreover have "fn_id g \<noteq> fn_id f" if "g \<in> set fs" for g
      using Cons.prems(3) that by (metis distinct.simps(2) image_eqI list.set_map list.simps(9))
    ultimately have "filter (due cf turn now ?s) fs = filter (due cf turn now s) fs"
      by (intro filter_cong) (simp_all add: due_def)
    then show ?thesis
      using Cons.IH [of ?s] Cons.prems one True s(1) by simp
  next
    case False
    then show ?thesis
      using Cons.IH [of s] Cons.prems one by simp
  qed
qed simp

text \<open>
  C24 (scheduled work).  A scheduler tick, after any run of the service, fans out exactly the functions that are due when the
  tick starts: enabled, loadable, on a schedule, and not run within their interval.  Each of them is run once, in the order
  of their names, and its last run becomes the time of the tick; the others keep theirs.
\<close>

theorem tick_runs_due:
  "let s = run (faas_step cf) ops (faas_init operators images templates); fns = d_functions (fs_db s)
   in tickSchedule cf False turn now s =
        fold (run_due cf turn now) (filter (due cf turn now s) (sort_key (\<lambda>f. cf_collate cf (fn_name f)) fns)) s \<and>
      map (\<lambda>f. fs_last_run (tickSchedule cf False turn now s) (fn_id f)) fns =
        map (\<lambda>f. if due cf turn now s f then Some now else fs_last_run s (fn_id f)) fns"
proof -
  define s where "s = run (faas_step cf) ops (faas_init operators images templates)"
  let ?fs = "sort_key (\<lambda>f. cf_collate cf (fn_name f)) (d_functions (fs_db s))"
  let ?due = "filter (due cf turn now s) ?fs"
  have "fresh_ok cf s"
    unfolding s_def by (intro fresh.run_I fresh_ok_init) simp
  then have d: "distinct (map fn_id (d_functions (fs_db s)))"
    by (simp add: fresh_ok_def display_ok_def functions_ok_def keyed_def)
  have "mset (map fn_id ?fs) = mset (map fn_id (d_functions (fs_db s)))"
    by simp
  then have d': "distinct (map fn_id ?fs)"
    using d mset_eq_imp_distinct_iff by blast
  have eq: "tickSchedule cf False turn now s = fold (run_due cf turn now) ?due s"
    using fold_tick [OF d _ d'] by (simp add: tickSchedule_def ListFunctions_def)
  have last_runs: "fs_last_run (fold (run_due cf turn now) fs t) i = (if i \<in> fn_id ` set fs then Some now else fs_last_run t i)" for fs t i
    by (induction fs arbitrary: t) (auto simp: run_due_def fanOut_keeps)
  have "(fn_id f \<in> fn_id ` set ?due) = due cf turn now s f" if "f \<in> set (d_functions (fs_db s))" for f
    using d that by (auto simp: distinct_map dest: inj_onD)
  then show ?thesis
    unfolding s_def [symmetric] Let_def using eq last_runs by auto
qed

section \<open>A worker that always answers with a black picture\<close>

lemma length_black_picture: "length black_picture = RawFrameSize"
  by (simp only: black_picture_def length_replicate)

lemma length_example_payload: "length example_payload = 6 + RawFrameSize"
  by (simp add: example_payload_def length_black_picture)

lemma example_worker:
  "driveWorker (re_worker example_env) (re_marshal example_env) (re_unmarshal example_env) req = Some (example_meta, black_picture)"
proof -
  have "WriteFrame KindRenderResponse example_payload = Inr example_stream"
    by (simp add: WriteFrame_def length_example_payload example_stream_def) (simp add: frame_sizes)
  from ReadFrame_Write [OF this, of "[]"]
  have r: "fst (ReadFrame example_stream) = Inr ((KindRenderResponse, example_payload), [])"
    by (simp add: length_example_payload) (simp add: frame_sizes)
  have "EncodeResponse (\<lambda>_. Some [123, 125]) example_meta black_picture = Inr example_payload"
    by (simp add: EncodeResponse_def example_meta_def example_payload_def length_black_picture) (simp add: frame_sizes)
  from Decode_Encode(1) [OF this, of "\<lambda>_. Some example_meta"]
  have "DecodeResponse (\<lambda>_. Some example_meta) example_payload = Inr (example_meta, black_picture)"
    by simp
  moreover have "\<exists>b. WriteFrame KindRenderRequest [] = Inr b"
    by (simp add: WriteFrame_def frame_sizes)
  ultimately show ?thesis
    using r by (auto simp: driveWorker_def example_env_def)
qed

lemma example_render:
  assumes "fn_secret_bindings fn = []" "fn_egress_allow fn = []"
  shows "rr_err (doRender cf example_env fn rctx force) = None"
proof -
  obtain img where img: "FromRGB black_picture = Some img" "im_dx img = int Width" "im_dy img = int Height"
    by (simp add: FromRGB_def length_black_picture rawRGBLen_def Width_def Height_def RawFrameSize_def)
  have pack: "\<exists>out. PackWithDither f g img (case ParseDither (resolveDitherStr a b c) of None \<Rightarrow> DitherNone | Some d \<Rightarrow> d) = Inr out" for f g a b c
  proof -
    obtain d where d: "ParseDither (resolveDitherStr a b c) = Some d"
      using resolveDitherStr_parses by blast
    show ?thesis
      using PackWithDither_total [OF img(2,3) ParseDither_cases [OF d], of f g] by (auto simp: d)
  qed
  have "rm_err example_meta = None"
    by (simp add: example_meta_def)
  then have call: "rr_err (render_call example_env fn rctx opts vals) = None" for opts vals
    using pack [of "re_f32 example_env" "re_f64 example_env" "ro_dither opts" "rm_dither example_meta" "ro_dither_default opts"] img(1)
    by (auto simp: render_call_def Let_def example_worker split: sum.split)
  show ?thesis
    by (simp add: doRender_def renderOnce_def assms Let_def call)
qed

definition example_function :: faas_function where
  "example_function =
     \<lparr>fn_id = 1, fn_name = ''clock'', fn_source = [], fn_version = 1, fn_trigger_type = ''render'', fn_trigger_config = coalesceJSON [],
      fn_secret_bindings = [], fn_egress_allow = [], fn_enabled = True, fn_created_at = 0, fn_updated_at = 0,
      fn_webhook_sha = None, fn_template_id = None\<rparr>"

definition example_ops :: "faas_op list" where
  "example_ops =
     [OpStore (OpCreateFunction False 0
        \<lparr>cp_name = ''clock'', cp_source = [], cp_trigger_type = ''render'', cp_trigger_config = [], cp_secret_bindings = None,
         cp_egress_allow = None, cp_webhook_sha = None, cp_template_id = None\<rparr>),
      OpStore (OpSetEnabled False 0 1 True), OpStore (OpBindDevice False ''PP01'' 1)]"

definition example_state :: faas_state where
  "example_state = run (faas_step example_faas_config) example_ops (faas_init {} Map.empty {})"

lemma example_db:
  "d_functions (fs_db example_state) = [example_function]" "d_playlist_of (fs_db example_state) = Map.empty"
  "d_function_of (fs_db example_state) = [''PP01'' \<mapsto> 1]" "fs_cache example_state = Map.empty" "fs_inv example_state = Map.empty"
  "fs_last_run example_state = Map.empty"
  by (simp_all add: example_state_def example_ops_def faas_init_def display_init_def CreateFunction_def SetEnabled_def BindDevice_def
      exec_function_def map_function_def find_function_def example_function_def Let_def triggerOrDefault_def coalesceSlice_def
      delete_playlists_def TriggerRender_def coalesce_def)

lemma example_inline: "syncInline example_faas_config example_function"
  by (simp add: syncInline_def example_function_def TriggerRender_def config_of_def example_faas_config_def)

lemma example_Render:
  "sv_status (fst (Render example_faas_config (\<lambda>_. False) example_env ck blob rng example_request example_state)) = ''ok''"
proof -
  have "fn_enabled example_function" "fn_secret_bindings example_function = []" "fn_egress_allow example_function = []"
    by (simp_all add: example_function_def)
  then show ?thesis
    by (simp add: Render_def ResolveBinding_def LoadFunction_def find_function_def example_db example_request_def Let_def coalesce_def
        example_inline buildFrame_def fresh_hit_def invariant_hit_def drive_frame_def example_render)
      (simp add: example_function_def)
qed


end
