(* ===== verification/Go_Net.thy ===== *)
theory Go_Net
  imports Go_Strings
begin

text \<open>
  What the programs use of Go's \<open>net\<close> and \<open>net/netip\<close>: IP addresses as byte strings (of length 4 or 16, empty for \<open>nil\<close>),
  their predicates, parsing and printing of addresses and CIDR blocks, and the \<open>host:port\<close> notation.
\<close>

unbundle bit_operations_syntax

type_synonym ip = bytes

section \<open>Address families\<close>

definition v4_in_v6 :: bytes where "v4_in_v6 = [0, 0, 0, 0, 0, 0, 0, 0, 0, 0, 255, 255]"

definition To4 :: "ip \<Rightarrow> ip option" where
  "To4 ip =
     (if length ip = 4 then Some ip
      else if length ip = 16 \<and> take 12 ip = v4_in_v6 then Some (drop 12 ip) else None)"

definition To16 :: "ip \<Rightarrow> ip" where "To16 ip = (if length ip = 4 then v4_in_v6 @ ip else ip)"

definition IPv6zero :: ip where "IPv6zero = replicate 16 0"

definition IPv6loopback :: ip where "IPv6loopback = replicate 15 0 @ [1]"

definition IP_equal :: "ip \<Rightarrow> ip \<Rightarrow> bool" where
  "IP_equal a b =
     (if length a = length b then a = b
      else if length a = 4 \<and> length b = 16 then take 12 b = v4_in_v6 \<and> a = drop 12 b
      else if length a = 16 \<and> length b = 4 then take 12 a = v4_in_v6 \<and> drop 12 a = b
      else False)"

definition IsUnspecified :: "ip \<Rightarrow> bool" where
  "IsUnspecified ip \<longleftrightarrow> IP_equal ip (v4_in_v6 @ [0, 0, 0, 0]) \<or> IP_equal ip IPv6zero"

definition IsLoopback :: "ip \<Rightarrow> bool" where
  "IsLoopback ip = (case To4 ip of Some a \<Rightarrow> a ! 0 = 127 | None \<Rightarrow> IP_equal ip IPv6loopback)"

definition IsPrivate :: "ip \<Rightarrow> bool" where
  "IsPrivate ip =
     (case To4 ip of
        Some a \<Rightarrow> a ! 0 = 10 \<or> a ! 0 = 172 \<and> a ! 1 AND 0xF0 = 16 \<or> a ! 0 = 192 \<and> a ! 1 = 168
      | None \<Rightarrow> length ip = 16 \<and> ip ! 0 AND 0xFE = 0xFC)"

definition IsMulticast :: "ip \<Rightarrow> bool" where
  "IsMulticast ip = (case To4 ip of Some a \<Rightarrow> a ! 0 AND 0xF0 = 0xE0 | None \<Rightarrow> length ip = 16 \<and> ip ! 0 = 0xFF)"

definition IsInterfaceLocalMulticast :: "ip \<Rightarrow> bool" where
  "IsInterfaceLocalMulticast ip \<longleftrightarrow> length ip = 16 \<and> ip ! 0 = 0xFF \<and> ip ! 1 AND 0x0F = 0x01"

definition IsLinkLocalMulticast :: "ip \<Rightarrow> bool" where
  "IsLinkLocalMulticast ip =
     (case To4 ip of
        Some a \<Rightarrow> a ! 0 = 224 \<and> a ! 1 = 0 \<and> a ! 2 = 0
      | None \<Rightarrow> length ip = 16 \<and> ip ! 0 = 0xFF \<and> ip ! 1 AND 0x0F = 0x02)"

definition IsLinkLocalUnicast :: "ip \<Rightarrow> bool" where
  "IsLinkLocalUnicast ip =
     (case To4 ip of
        Some a \<Rightarrow> a ! 0 = 169 \<and> a ! 1 = 254
      | None \<Rightarrow> length ip = 16 \<and> ip ! 0 = 0xFE \<and> ip ! 1 AND 0xC0 = 0x80)"

section \<open>Parsing addresses\<close>

text \<open>The dotted notation; \<open>v\<close> and \<open>d\<close> are the value and the number of digits of the current field.\<close>

fun v4_fields :: "string \<Rightarrow> nat \<Rightarrow> nat \<Rightarrow> bytes \<Rightarrow> bytes option" where
  "v4_fields [] v d fs = (if length fs < 3 then None else Some (fs @ [of_nat v]))"
| "v4_fields (c # s) v d fs =
     (if is_digit c then
        (if d = 1 \<and> v = 0 then None
         else let v' = 10 * v + digit_val c in if v' > 255 then None else v4_fields s v' (d + 1) fs)
      else if c = CHR ''.'' then
        (if d = 0 \<or> s = [] then None
         else if length fs = 3 then None
         else v4_fields s 0 0 (fs @ [of_nat v]))
      else None)"

definition is_hex :: "char \<Rightarrow> bool" where "is_hex c \<longleftrightarrow> hex_val c \<noteq> None"

definition hex_num :: "string \<Rightarrow> nat" where "hex_num s = foldl (\<lambda>n c. 16 * n + the (hex_val c)) 0 s"

definition be16 :: "nat \<Rightarrow> bytes" where "be16 n = [of_nat (n div 256), of_nat (n mod 256)]"

lemma length_dropWhile: "length (dropWhile P xs) \<le> length xs"
  by (induction xs) auto

lemma dropWhile_Cons_less: "dropWhile P s = c # s' \<Longrightarrow> length s' < length s"
  using length_dropWhile [of P s] by simp

text \<open>
  The loop over the hexadecimal groups: what is left of the text, the bytes so far and the position of the ellipsis.
\<close>

function v6_loop :: "string \<Rightarrow> bytes \<Rightarrow> nat option \<Rightarrow> (string \<times> bytes \<times> nat option) option" where
  "v6_loop s ip e =
     (if length ip \<ge> 16 then Some (s, ip, e)
      else
        let h = takeWhile is_hex s; rest = dropWhile is_hex s in
        if length h > 4 then None
        else if h = [] then None
        else if rest \<noteq> [] \<and> hd rest = CHR ''.'' then
          (if e = None \<and> length ip \<noteq> 12 then None
           else if length ip + 4 > 16 then None
           else case v4_fields s 0 0 [] of None \<Rightarrow> None | Some f \<Rightarrow> Some ([], ip @ f, e))
        else
          let ip = ip @ be16 (hex_num h) in
          case rest of
            [] \<Rightarrow> Some ([], ip, e)
          | c # s' \<Rightarrow>
              if c \<noteq> CHR '':'' then None
              else case s' of
                [] \<Rightarrow> None
              | c' # s'' \<Rightarrow>
                  if c' = CHR '':'' then
                    (if e \<noteq> None then None
                     else if s'' = [] then Some ([], ip, Some (length ip))
                     else v6_loop s'' ip (Some (length ip)))
                  else v6_loop s' ip e)"
  by pat_completeness auto

termination
  by (relation "measure (\<lambda>(s, _, _). length s)") (auto dest!: dropWhile_Cons_less [OF sym])

declare v6_loop.simps [simp del]

text \<open>\<open>parseIPv6\<close> and \<open>ParseAddr\<close>, which also return the zone.\<close>

definition parse_v6 :: "string \<Rightarrow> bytes option" where
  "parse_v6 s =
     (let (e0, s0) = (if take 2 s = ''::'' then (Some 0, drop 2 s) else (None, s)) in
      if e0 \<noteq> None \<and> s0 = [] then Some (replicate 16 0)
      else case v6_loop s0 [] e0 of
        None \<Rightarrow> None
      | Some (rest, ip, e) \<Rightarrow>
          if rest \<noteq> [] then None
          else if length ip < 16 then
            (case e of None \<Rightarrow> None | Some k \<Rightarrow> Some (take k ip @ replicate (16 - length ip) 0 @ drop k ip))
          else if e \<noteq> None then None else Some ip)"

definition ParseAddr :: "string \<Rightarrow> (bytes \<times> string) option" where
  "ParseAddr s =
     (case find (\<lambda>c. c \<in> {CHR ''.'', CHR '':'', CHR ''%''}) s of
        None \<Rightarrow> None
      | Some c \<Rightarrow>
          if c = CHR ''.'' then (case v4_fields s 0 0 [] of None \<Rightarrow> None | Some f \<Rightarrow> Some (f, []))
          else if c = CHR '':'' then
            (case Cut CHR ''%'' s of
               None \<Rightarrow> (case parse_v6 s of None \<Rightarrow> None | Some ip \<Rightarrow> Some (ip, []))
             | Some (s', zone) \<Rightarrow>
                 if zone = [] then None
                 else case parse_v6 s' of None \<Rightarrow> None | Some ip \<Rightarrow> Some (ip, zone))
          else None)"

definition ParseIP :: "string \<Rightarrow> ip option" where
  "ParseIP s = (case ParseAddr s of None \<Rightarrow> None | Some (a, zone) \<Rightarrow> if zone \<noteq> [] then None else Some (To16 a))"

section \<open>CIDR blocks\<close>

record ipnet =
  net_ip :: ip
  net_mask :: bytes

definition CIDRMask :: "nat \<Rightarrow> nat \<Rightarrow> bytes" where
  "CIDRMask n l = map (\<lambda>i. NOT (drop_bit (min 8 (n - 8 * i)) 255)) [0..<l]"

definition mask_bytes :: "bytes \<Rightarrow> bytes \<Rightarrow> bytes" where "mask_bytes a m = map2 (AND) a m"

text \<open>The masks have the length of the address as it was written, so only a prefix of IPv4 length is cut to four bytes.\<close>

definition ParseCIDR :: "string \<Rightarrow> ipnet option" where
  "ParseCIDR s =
     (case Cut CHR ''/'' s of
        None \<Rightarrow> None
      | Some (addr, len) \<Rightarrow>
          (case ParseAddr addr of
             None \<Rightarrow> None
           | Some (a, zone) \<Rightarrow>
               (case ParseUint 23 len of
                  (n, None) \<Rightarrow>
                    if zone \<noteq> [] \<or> n > 8 * length a then None
                    else Some \<lparr>net_ip = mask_bytes a (CIDRMask n (length a)), net_mask = CIDRMask n (length a)\<rparr>
                | _ \<Rightarrow> None)))"

definition net_contains :: "ipnet \<Rightarrow> ip \<Rightarrow> bool" where
  "net_contains n ip =
     (let (nn, m) =
        (case To4 (net_ip n) of
           Some a \<Rightarrow> (a, if length (net_mask n) = 16 then drop 12 (net_mask n) else net_mask n)
         | None \<Rightarrow> (net_ip n, net_mask n));
        x = (case To4 ip of Some a \<Rightarrow> a | None \<Rightarrow> ip)
      in length x = length nn \<and> mask_bytes nn m = mask_bytes x m)"

section \<open>Printing addresses\<close>

fun hex_group :: "nat \<Rightarrow> string" where
  "hex_group n = (if n < 16 then [hex_digit n] else hex_group (n div 16) @ [hex_digit (n mod 16)])"

declare hex_group.simps [simp del]

fun groups :: "bytes \<Rightarrow> nat list" where
  "groups (a # b # r) = (256 * unat a + unat b) # groups r"
| "groups _ = []"

text \<open>The longest run of at least two zero groups, the first of them.\<close>

definition zero_run :: "nat list \<Rightarrow> (nat \<times> nat) option" where
  "zero_run gs =
     fold (\<lambda>i best. let z = length (takeWhile ((=) 0) (drop i gs)) in
             if z \<ge> 2 \<and> z > (case best of None \<Rightarrow> 0 | Some (a, b) \<Rightarrow> b - a) then Some (i, i + z) else best) [0..<8] None"

definition v6_string :: "nat list \<Rightarrow> string" where
  "v6_string gs =
     (case zero_run gs of
        None \<Rightarrow> join '':'' (map hex_group gs)
      | Some (a, b) \<Rightarrow> join '':'' (map hex_group (take a gs)) @ ''::'' @ join '':'' (map hex_group (drop b gs)))"

definition IP_string :: "ip \<Rightarrow> string" where
  "IP_string ip =
     (if ip = [] then ''<nil>''
      else if length ip \<noteq> 4 \<and> length ip \<noteq> 16 then CHR ''?'' # EncodeToString ip
      else case To4 ip of
        Some a \<Rightarrow> join ''.'' (map (\<lambda>b. format_nat (unat b)) a)
      | None \<Rightarrow> v6_string (groups ip))"

section \<open>Host and port\<close>

definition JoinHostPort :: "string \<Rightarrow> string \<Rightarrow> string" where
  "JoinHostPort host port =
     (if CHR '':'' \<in> set host then CHR ''['' # host @ '']:'' @ port else host @ CHR '':'' # port)"

text \<open>The text before and after the last occurrence.\<close>

definition cut_last :: "char \<Rightarrow> string \<Rightarrow> (string \<times> string) option" where
  "cut_last c s = (case Cut c (rev s) of None \<Rightarrow> None | Some (a, b) \<Rightarrow> Some (rev b, rev a))"

definition SplitHostPort :: "string \<Rightarrow> (string \<times> string) option" where
  "SplitHostPort hp =
     (case cut_last CHR '':'' hp of
        None \<Rightarrow> None
      | Some (front, port) \<Rightarrow>
          if hp \<noteq> [] \<and> hd hp = CHR ''['' then
            (case Cut CHR '']'' hp of
               None \<Rightarrow> None
             | Some (open_host, after) \<Rightarrow>
                 if length open_host + 1 \<noteq> length front then None
                 else if CHR ''['' \<in> set (tl hp) \<or> CHR '']'' \<in> set after then None
                 else Some (tl open_host, port))
          else if CHR '':'' \<in> set front then None
          else if CHR ''['' \<in> set hp \<or> CHR '']'' \<in> set hp then None
          else Some (front, port))"

section \<open>Printed addresses parse back\<close>

lemma hex_group_props:
  "n < 65536 \<Longrightarrow> hex_group n \<noteq> [] \<and> length (hex_group n) \<le> 4 \<and> list_all is_hex (hex_group n) \<and> hex_num (hex_group n) = n"
proof -
  have small: "hex_group m \<noteq> [] \<and> length (hex_group m) = 1 \<and> list_all is_hex (hex_group m) \<and> hex_num (hex_group m) = m" if "m < 16" for m
    using that by (simp add: hex_group.simps hex_num_def is_hex_def)
  have step: "hex_group m \<noteq> [] \<and> length (hex_group m) \<le> k' \<and> list_all is_hex (hex_group m) \<and> hex_num (hex_group m) = m"
    if "\<And>m. m < b \<Longrightarrow> hex_group m \<noteq> [] \<and> length (hex_group m) \<le> k \<and> list_all is_hex (hex_group m) \<and> hex_num (hex_group m) = m"
      "m < 16 * b" "0 < k" "k' = k + 1" for b k k' m
  proof (cases "m < 16")
    case True
    then show ?thesis using small [of m] that(3,4) by simp
  next
    case False
    have "m div 16 < b"
      using that(2) by (simp add: less_mult_imp_div_less mult.commute)
    from that(1) [OF this] that(4) False show ?thesis
      by (simp add: hex_group.simps [of m] hex_num_def is_hex_def)
  qed
  have 1: "hex_group m \<noteq> [] \<and> length (hex_group m) \<le> 1 \<and> list_all is_hex (hex_group m) \<and> hex_num (hex_group m) = m" if "m < 16" for m
    using small [OF that] by simp
  have 2: "hex_group m \<noteq> [] \<and> length (hex_group m) \<le> 2 \<and> list_all is_hex (hex_group m) \<and> hex_num (hex_group m) = m" if "m < 256" for m
    by (rule step [OF 1, of 16 m]) (use that in simp_all)
  have 3: "hex_group m \<noteq> [] \<and> length (hex_group m) \<le> 3 \<and> list_all is_hex (hex_group m) \<and> hex_num (hex_group m) = m" if "m < 4096" for m
    by (rule step [OF 2, of 256 m]) (use that in simp_all)
  show "n < 65536 \<Longrightarrow> ?thesis"
    by (rule step [OF 3, of 4096 n]) simp_all
qed

lemma is_hex_special [simp]: "\<not> is_hex CHR '':''" "\<not> is_hex CHR ''.''" "\<not> is_hex CHR ''%''" "\<not> is_hex CHR '']''" "\<not> is_hex CHR ''[''"
  by (simp_all add: is_hex_def hex_val_def)

lemma span_hex:
  "list_all is_hex h \<Longrightarrow> (\<And>c r. rest = c # r \<Longrightarrow> \<not> is_hex c) \<Longrightarrow> takeWhile is_hex (h @ rest) = h \<and> dropWhile is_hex (h @ rest) = rest"
  by (cases rest) (auto simp: takeWhile_append dropWhile_append list_all_iff)

text \<open>One group of the loop, at the end of the text, before another group and before the ellipsis.\<close>

lemma v6_group:
  assumes "g < 65536" "length ip < 16"
  shows "v6_loop (hex_group g) ip e = Some ([], ip @ be16 g, e)"
    and "v6_loop (hex_group g @ '':'' @ c # s) ip e = (if c = CHR '':'' then
        (if e \<noteq> None then None else if s = [] then Some ([], ip @ be16 g, Some (length ip + 2)) else v6_loop s (ip @ be16 g) (Some (length ip + 2)))
      else v6_loop (c # s) (ip @ be16 g) e)"
proof -
  have g: "hex_group g \<noteq> []" "length (hex_group g) \<le> 4" "list_all is_hex (hex_group g)" "hex_num (hex_group g) = g"
    using hex_group_props [OF assms(1)] by auto
  have 1: "takeWhile is_hex (hex_group g) = hex_group g" "dropWhile is_hex (hex_group g) = []"
    using span_hex [OF g(3), of "[]"] by simp_all
  show "v6_loop (hex_group g) ip e = Some ([], ip @ be16 g, e)"
    using g assms(2) by (subst v6_loop.simps) (simp add: 1 Let_def)
  have 2: "takeWhile is_hex (hex_group g @ CHR '':'' # t) = hex_group g" "dropWhile is_hex (hex_group g @ CHR '':'' # t) = CHR '':'' # t" for t
    using span_hex [OF g(3), of "CHR '':'' # t"] by auto
  show "v6_loop (hex_group g @ '':'' @ c # s) ip e = (if c = CHR '':'' then
        (if e \<noteq> None then None else if s = [] then Some ([], ip @ be16 g, Some (length ip + 2)) else v6_loop s (ip @ be16 g) (Some (length ip + 2)))
      else v6_loop (c # s) (ip @ be16 g) e)"
    using g assms(2) by (subst v6_loop.simps) (simp add: 2 Let_def be16_def)
qed

definition bytes16 :: "nat list \<Rightarrow> bytes" where "bytes16 gs = concat (map be16 gs)"

lemma bytes16_simps [simp]:
  "bytes16 [] = []" "bytes16 (g # gs) = be16 g @ bytes16 gs" "bytes16 (gs @ hs) = bytes16 gs @ bytes16 hs" "length (bytes16 gs) = 2 * length gs"
  by (induction gs) (simp_all add: bytes16_def be16_def)

lemma hex_group_hd: "g < 65536 \<Longrightarrow> \<exists>c s. hex_group g = c # s \<and> is_hex c"
  using hex_group_props [of g] by (cases "hex_group g") auto

lemma join_hex_hd: "gs \<noteq> [] \<Longrightarrow> list_all (\<lambda>g. g < 65536) gs \<Longrightarrow> \<exists>c s. join '':'' (map hex_group gs) = c # s \<and> is_hex c"
  using hex_group_hd by (cases gs; cases "tl gs") fastforce+

lemma v6_groups:
  "gs \<noteq> [] \<Longrightarrow> list_all (\<lambda>g. g < 65536) gs \<Longrightarrow> length ip + 2 * length gs \<le> 16 \<Longrightarrow>
    v6_loop (join '':'' (map hex_group gs)) ip e = Some ([], ip @ bytes16 gs, e)"
proof (induction gs arbitrary: ip)
  case (Cons g gs)
  show ?case
  proof (cases "gs = []")
    case True
    then show ?thesis using Cons.prems v6_group(1) [of g ip e] by simp
  next
    case False
    then obtain c s where cs: "join '':'' (map hex_group gs) = c # s" "is_hex c"
      using join_hex_hd [of gs] Cons.prems by auto
    have "join '':'' (map hex_group (g # gs)) = hex_group g @ '':'' @ c # s"
      using False cs(1) by (cases gs) auto
    then show ?thesis
      using v6_group(2) [of g ip c s e] cs Cons.IH [of "ip @ be16 g"] False Cons.prems by (auto simp: be16_def)
  qed
qed simp

lemma v6_groups_ellipsis:
  "gs \<noteq> [] \<Longrightarrow> list_all (\<lambda>g. g < 65536) gs \<Longrightarrow> length ip + 2 * length gs \<le> 16 \<Longrightarrow>
    v6_loop (join '':'' (map hex_group gs) @ ''::'' @ t) ip None =
      (if t = [] then Some ([], ip @ bytes16 gs, Some (length ip + 2 * length gs))
       else v6_loop t (ip @ bytes16 gs) (Some (length ip + 2 * length gs)))"
proof (induction gs arbitrary: ip)
  case (Cons g gs)
  show ?case
  proof (cases "gs = []")
    case True
    then show ?thesis using Cons.prems v6_group(2) [of g ip "CHR '':''" t None] by simp
  next
    case False
    then obtain c s where cs: "join '':'' (map hex_group gs) = c # s" "is_hex c"
      using join_hex_hd [of gs] Cons.prems by auto
    have "join '':'' (map hex_group (g # gs)) @ ''::'' @ t = hex_group g @ '':'' @ c # s @ ''::'' @ t"
      using False cs(1) by (cases gs) auto
    moreover have "c \<noteq> CHR '':''"
      using cs(2) by auto
    ultimately show ?thesis
      using v6_group(2) [of g ip c "s @ ''::'' @ t" None] cs Cons.IH [of "ip @ be16 g"] False Cons.prems by (auto simp: be16_def)
  qed
qed simp

lemma zero_run_Some:
  assumes "zero_run gs = Some (a, b)"
  shows "a + 2 \<le> b \<and> b \<le> length gs \<and> take (b - a) (drop a gs) = replicate (b - a) 0"
proof -
  define f where "f = (\<lambda>i best. let z = length (takeWhile ((=) (0::nat)) (drop i gs)) in
             if z \<ge> 2 \<and> z > (case best of None \<Rightarrow> 0 | Some (a, b) \<Rightarrow> b - a) then Some (i, i + z) else best)"
  let ?P = "\<lambda>best. \<forall>a b. best = Some (a, b) \<longrightarrow> a + 2 \<le> b \<and> b \<le> length gs \<and> take (b - a) (drop a gs) = replicate (b - a) 0"
  have run: "take (length (takeWhile ((=) 0) (drop i gs))) (drop i gs) = replicate (length (takeWhile ((=) 0) (drop i gs))) 0" for i
    using takeWhile_eq_take [of "(=) 0" "drop i gs"] by (metis (full_types) replicate_length_same set_takeWhileD)
  have len: "z = length (takeWhile ((=) 0) (drop i gs)) \<Longrightarrow> z \<ge> 2 \<Longrightarrow> i + z \<le> length gs" for i z
    using length_takeWhile_le [of "(=) 0" "drop i gs"] by simp
  have step: "?P (f i best)" if "?P best" for i best
    using that run [of i] len [of _ i] by (auto simp: f_def Let_def)
  have all: "?P (fold f is best)" if "?P best" for "is" best
    using that
  proof (induction "is" arbitrary: best)
    case (Cons i "is")
    show ?case
      using Cons.IH [OF step [OF Cons.prems, of i]] by (simp only: fold_Cons comp_def)
  qed simp
  have "fold f [0..<8] None = Some (a, b)"
    using assms by (simp only: zero_run_def f_def)
  with all [of None "[0..<8]"] show ?thesis
    by simp
qed

lemma groups_bytes16: "even (length ip) \<Longrightarrow> bytes16 (groups ip) = ip \<and> list_all (\<lambda>g. g < 65536) (groups ip) \<and> 2 * length (groups ip) = length ip"
proof (induction ip rule: groups.induct)
  case (1 a b r)
  have "be16 (256 * unat a + unat b) = [a, b]" "256 * unat a + unat b < 65536"
    using unsigned_less [of a, where ?'a = nat] unsigned_less [of b, where ?'a = nat] by (simp_all add: be16_def)
  then show ?case using 1 by simp
qed auto

lemma join_hex_chars: "list_all (\<lambda>g. g < 65536) gs \<Longrightarrow> c \<in> set (join '':'' (map hex_group gs)) \<Longrightarrow> is_hex c \<or> c = CHR '':''"
proof (induction gs)
  case (Cons g gs)
  then show ?case
    using hex_group_props [of g] by (cases gs) (auto simp: list_all_iff)
qed simp

lemma join_hex_nonempty: "gs \<noteq> [] \<Longrightarrow> list_all (\<lambda>g. g < 65536) gs \<Longrightarrow> join '':'' (map hex_group gs) \<noteq> []"
  using join_hex_hd by fastforce

lemma parse_v6_plain:
  assumes "take 2 s \<noteq> ''::''" "v6_loop s [] None = Some ([], ip, e)"
  shows "parse_v6 s = (if length ip < 16 then (case e of None \<Rightarrow> None | Some k \<Rightarrow> Some (take k ip @ replicate (16 - length ip) 0 @ drop k ip))
    else if e \<noteq> None then None else Some ip)"
  using assms by (simp add: parse_v6_def)

lemma take2_hex: "gs \<noteq> [] \<Longrightarrow> list_all (\<lambda>g. g < 65536) gs \<Longrightarrow> take 2 (join '':'' (map hex_group gs) @ t) \<noteq> ''::''"
  using join_hex_hd [of gs] by (auto simp: take_Cons')

lemma parse_v6_ellipsis:
  assumes gs: "list_all (\<lambda>g. g < 65536) gs" and hs: "list_all (\<lambda>g. g < 65536) hs" and len: "length gs + length hs < 8"
  shows "parse_v6 (join '':'' (map hex_group gs) @ ''::'' @ join '':'' (map hex_group hs)) =
    Some (bytes16 gs @ replicate (16 - 2 * length gs - 2 * length hs) 0 @ bytes16 hs)"
proof (cases "gs = []")
  case True
  show ?thesis
  proof (cases "hs = []")
    case False
    have "v6_loop (join '':'' (map hex_group hs)) [] (Some 0) = Some ([], bytes16 hs, Some 0)"
      using v6_groups [OF False hs, of "[]" "Some 0"] len by simp
    then show ?thesis
      using True False join_hex_nonempty [OF False hs] len by (simp add: parse_v6_def)
  qed (simp add: True parse_v6_def)
next
  case False
  let ?t = "join '':'' (map hex_group hs)"
  have "v6_loop (join '':'' (map hex_group gs) @ ''::'' @ ?t) [] None = Some ([], bytes16 gs @ bytes16 hs, Some (2 * length gs))"
  proof (cases "hs = []")
    case True
    then show ?thesis
      using v6_groups_ellipsis [OF False gs, of "[]" "[]"] len by simp
  next
    case hs0: False
    then show ?thesis
      using v6_groups_ellipsis [OF False gs, of "[]" ?t] join_hex_nonempty [OF hs0 hs]
        v6_groups [OF hs0 hs, of "bytes16 gs" "Some (2 * length gs)"] len by simp
  qed
  from parse_v6_plain [OF take2_hex [OF False gs] this] show ?thesis
    using len by simp
qed

lemma parse_v6_string:
  assumes gs: "list_all (\<lambda>g. g < 65536) gs" and len: "length gs = 8"
  shows "parse_v6 (v6_string gs) = Some (bytes16 gs)"
proof (cases "zero_run gs")
  case None
  have ne: "gs \<noteq> []"
    using len by auto
  have "v6_loop (join '':'' (map hex_group gs)) [] None = Some ([], bytes16 gs, None)"
    using v6_groups [OF ne gs, of "[]" None] len by simp
  from parse_v6_plain [OF _ this] take2_hex [OF ne gs, of "[]"] show ?thesis
    using None len by (simp add: v6_string_def)
next
  case (Some ab)
  then obtain a b where ab: "zero_run gs = Some (a, b)"
    by (cases ab) auto
  from zero_run_Some [OF this] have r: "a + 2 \<le> b" "b \<le> 8" "take (b - a) (drop a gs) = replicate (b - a) 0"
    using len by auto
  have "gs = take a gs @ take (b - a) (drop a gs) @ drop (b - a) (drop a gs)"
    by (simp only: append_take_drop_id)
  then have split: "gs = take a gs @ replicate (b - a) 0 @ drop b gs"
    using r by simp
  have "bytes16 (replicate n 0) = replicate (2 * n) 0" for n
    by (induction n) (simp_all add: be16_def)
  then have "bytes16 gs = bytes16 (take a gs) @ replicate (2 * (b - a)) 0 @ bytes16 (drop b gs)"
    by (subst split) simp
  moreover have "16 - 2 * length (take a gs) - 2 * length (drop b gs) = 2 * (b - a)"
    using r len by simp
  moreover have "list_all (\<lambda>g. g < 65536) (take a gs)" "list_all (\<lambda>g. g < 65536) (drop b gs)"
    using gs by (meson in_set_takeD in_set_dropD list_all_iff)+
  ultimately show ?thesis
    using parse_v6_ellipsis [of "take a gs" "drop b gs"] r len ab by (simp add: v6_string_def)
qed

lemma v6_string_chars: "list_all (\<lambda>g. g < 65536) gs \<Longrightarrow> c \<in> set (v6_string gs) \<Longrightarrow> is_hex c \<or> c = CHR '':''"
proof -
  assume gs: "list_all (\<lambda>g. g < 65536) gs" and c: "c \<in> set (v6_string gs)"
  have sub: "list_all (\<lambda>g. g < 65536) (take a gs)" "list_all (\<lambda>g. g < 65536) (drop b gs)" for a b
    using gs by (meson in_set_takeD in_set_dropD list_all_iff)+
  show "is_hex c \<or> c = CHR '':''"
    using c join_hex_chars [OF gs, of c] join_hex_chars [OF sub(1), of c] join_hex_chars [OF sub(2), of c]
    unfolding v6_string_def by (auto split: option.splits)
qed

lemma v6_string_colon: "length gs = 8 \<Longrightarrow> CHR '':'' \<in> set (v6_string gs)"
  by (cases gs; cases "tl gs") (auto simp: v6_string_def split: option.split prod.split)

lemma find_special_v6:
  assumes "\<And>c. c \<in> set s \<Longrightarrow> is_hex c \<or> c = CHR '':''" "CHR '':'' \<in> set s"
  shows "find (\<lambda>c. c \<in> {CHR ''.'', CHR '':'', CHR ''%''}) s = Some CHR '':''"
  using assms
proof (induction s)
  case (Cons c s)
  show ?case
  proof (cases "c = CHR '':''")
    case False
    then have "is_hex c"
      using Cons.prems(1) by auto
    then have "c \<notin> {CHR ''.'', CHR '':'', CHR ''%''}"
      by auto
    then show ?thesis
      using Cons False by simp
  qed simp
qed simp

lemma ParseIP_v6_string:
  assumes "length ip = 16"
  shows "ParseIP (v6_string (groups ip)) = Some ip"
proof -
  have g: "bytes16 (groups ip) = ip" "list_all (\<lambda>g. g < 65536) (groups ip)" "length (groups ip) = 8"
    using groups_bytes16 [of ip] assms by auto
  have "CHR ''%'' \<notin> set (v6_string (groups ip))"
    using v6_string_chars [OF g(2), of "CHR ''%''"] by auto
  then have "Cut CHR ''%'' (v6_string (groups ip)) = None"
    by (simp add: Cut_None)
  moreover have "find (\<lambda>c. c \<in> {CHR ''.'', CHR '':'', CHR ''%''}) (v6_string (groups ip)) = Some CHR '':''"
    using find_special_v6 v6_string_chars [OF g(2)] v6_string_colon [OF g(3)] by blast
  ultimately show ?thesis
    using parse_v6_string [OF g(2,3)] g(1) assms by (simp add: ParseIP_def ParseAddr_def To16_def)
qed

text \<open>The dotted notation.\<close>

lemma format_small:
  "n < 256 \<Longrightarrow> format_nat n =
    (if n < 10 then [digit_char n] else if n < 100 then [digit_char (n div 10), digit_char (n mod 10)]
     else [digit_char (n div 100), digit_char (n div 10 mod 10), digit_char (n mod 10)])"
proof -
  assume "n < 256"
  then have "n div 100 < 10" "n div 10 < 10 \<longleftrightarrow> n < 100" "n < 10 \<longrightarrow> n < 100" "n div 10 div 10 = n div 100"
    by (simp_all add: div_less_iff_less_mult flip: div_mult2_eq)
  then show ?thesis
    by (simp add: format_nat.simps [of n] format_nat.simps [of "n div 10"] format_nat.simps [of "n div 100"])
qed

lemma v4_digits:
  assumes "n < 256"
  shows "\<exists>d > 0. v4_fields (format_nat n @ s) 0 0 fs = v4_fields s n d fs"
proof -
  have m: "10 * (n div 10) + n mod 10 = n" "10 * (n div 100) + n div 10 mod 10 = n div 10"
    using div_mult_mod_eq [of "n div 10" 10] by (simp_all add: div_mult2_eq [symmetric])
  consider "n < 10" | "10 \<le> n" "n < 100" | "100 \<le> n"
    by linarith
  then show ?thesis
  proof cases
    case 1
    then show ?thesis
      using assms by (auto simp: format_small)
  next
    case 2
    then have d: "n div 10 < 10" "n div 10 \<noteq> 0"
      by auto
    have "format_nat n = [digit_char (n div 10), digit_char (n mod 10)]"
      using 2 assms by (subst format_small) auto
    then show ?thesis
      using d assms m by (intro exI [of _ "Suc (Suc 0)"]) (simp add: Let_def)
  next
    case 3
    then have d: "n div 100 < 10" "n div 100 \<noteq> 0" "n div 10 mod 10 < 10" "n div 10 \<noteq> 0"
      using assms by auto
    have "format_nat n = [digit_char (n div 100), digit_char (n div 10 mod 10), digit_char (n mod 10)]"
      using 3 assms by (subst format_small) auto
    then show ?thesis
      using d assms m by (intro exI [of _ "Suc (Suc (Suc 0))"]) (auto simp: Let_def)
  qed
qed

lemma is_digit_dot [simp]: "\<not> is_digit CHR ''.''"
  by (simp add: is_digit_def)

lemma v4_field_dot: "n < 256 \<Longrightarrow> s \<noteq> [] \<Longrightarrow> length fs < 3 \<Longrightarrow> v4_fields (format_nat n @ ''.'' @ s) 0 0 fs = v4_fields s 0 0 (fs @ [of_nat n])"
  using v4_digits [of n "''.'' @ s" fs] by auto

lemma v4_field_end: "n < 256 \<Longrightarrow> length fs = 3 \<Longrightarrow> v4_fields (format_nat n) 0 0 fs = Some (fs @ [of_nat n])"
  using v4_digits [of n "[]" fs] by auto

lemma ParseIP_v4_string:
  assumes "length a = 4"
  shows "ParseIP (join ''.'' (map (\<lambda>b. format_nat (unat b)) a)) = Some (v4_in_v6 @ a)"
proof -
  obtain w x y z where a: "a = [w, x, y, z]"
    using assms by (auto simp: numeral_eq_Suc length_Suc_conv)
  have b: "unat (c :: byte) < 256" for c
    using unsigned_less [of c, where ?'a = nat] by simp
  let ?s = "format_nat (unat w) @ ''.'' @ format_nat (unat x) @ ''.'' @ format_nat (unat y) @ ''.'' @ format_nat (unat z)"
  have "v4_fields ?s 0 0 [] = Some [w, x, y, z]"
    using v4_field_dot v4_field_end b by simp
  moreover have "find (\<lambda>c. c \<in> {CHR ''.'', CHR '':'', CHR ''%''}) ?s = Some CHR ''.''"
  proof -
    have d: "c \<notin> {CHR ''.'', CHR '':'', CHR ''%''}" if "is_digit c" for c
      using that by (auto simp: is_digit_def)
    have "find P (t @ CHR ''.'' # u) = Some CHR ''.''" if "\<forall>c \<in> set t. \<not> P c" "P CHR ''.''" for P t u
      using that by (induction t) auto
    then show ?thesis
      using format_nat_digits [of "unat w"] d by auto
  qed
  ultimately show ?thesis
    by (simp add: ParseIP_def ParseAddr_def a To16_def)
qed

lemma ParseIP_IP_string:
  assumes "length ip = 4 \<or> length ip = 16"
  shows "ParseIP (IP_string ip) = Some (To16 ip)"
proof (cases "To4 ip")
  case None
  then have "length ip = 16"
    using assms by (auto simp: To4_def)
  then show ?thesis
    using ParseIP_v6_string [of ip] None by (auto simp: IP_string_def To16_def)
next
  case (Some a)
  then have "length a = 4" "To16 ip = v4_in_v6 @ a"
    using assms append_take_drop_id [of 12 ip] by (auto simp: To4_def To16_def v4_in_v6_def split: if_splits simp del: append_take_drop_id)
  then show ?thesis
    using ParseIP_v4_string [of a] Some assms by (auto simp: IP_string_def)
qed

lemma IP_string_chars:
  assumes "length ip = 4 \<or> length ip = 16" "c \<in> set (IP_string ip)"
  shows "is_hex c \<or> c = CHR '':'' \<or> c = CHR ''.''"
proof (cases "To4 ip")
  case None
  then have "IP_string ip = v6_string (groups ip)" "even (length ip)"
    using assms(1) by (auto simp: IP_string_def To4_def)
  then show ?thesis
    using v6_string_chars [of "groups ip" c] groups_bytes16 [of ip] assms(2) by auto
next
  case (Some a)
  have dig: "is_hex c" if "is_digit c" for c
    using that by (simp add: is_hex_def is_digit_def hex_val_def Let_def)
  have join: "c \<in> set (join ''.'' ss) \<Longrightarrow> (\<exists>s \<in> set ss. c \<in> set s) \<or> c = CHR ''.''" for ss
  proof (induction ss)
    case (Cons s ss)
    then show ?case
      by (cases ss) auto
  qed simp
  have "(\<exists>b :: byte. c \<in> set (format_nat (unat b))) \<or> c = CHR ''.''" if "c \<in> set (join ''.'' (map (\<lambda>b. format_nat (unat b)) a))"
    using join [OF that] by auto
  moreover have "IP_string ip = join ''.'' (map (\<lambda>b. format_nat (unat b)) a)"
    using Some assms(1) by (auto simp: IP_string_def)
  ultimately show ?thesis
    using assms(2) dig format_nat_digits by metis
qed

section \<open>Host and port, joined and split\<close>

lemma Cut_last_part: "c \<notin> set b \<Longrightarrow> cut_last c (a @ c # b) = Some (a, b)"
proof -
  assume "c \<notin> set b"
  then have "Cut c (rev b @ c # rev a) = Some (rev b, rev a)"
    by (simp add: Cut_Some)
  then show ?thesis
    by (simp add: cut_last_def)
qed

lemma SplitHostPort_Join:
  assumes "CHR ''['' \<notin> set host" "CHR '']'' \<notin> set host" "set port \<inter> {CHR '':'', CHR ''['', CHR '']''} = {}"
  shows "SplitHostPort (JoinHostPort host port) = Some (host, port)"
proof (cases "CHR '':'' \<in> set host")
  case True
  have "cut_last CHR '':'' (''['' @ host @ '']:'' @ port) = Some (''['' @ host @ '']'', port)"
    using Cut_last_part [of "CHR '':''" port "''['' @ host @ '']''"] assms(3) by simp
  moreover have "Cut CHR '']'' (''['' @ host @ '']:'' @ port) = Some (''['' @ host, '':'' @ port)"
    using assms(2) by (subst Cut_Some) simp
  ultimately show ?thesis
    using True assms by (simp add: SplitHostPort_def JoinHostPort_def)
next
  case False
  have "cut_last CHR '':'' (host @ CHR '':'' # port) = Some (host, port)"
    using Cut_last_part [of "CHR '':''" port host] assms(3) by simp
  moreover have "\<not> (host @ CHR '':'' # port \<noteq> [] \<and> hd (host @ CHR '':'' # port) = CHR ''['')"
    using assms(1) by (cases host) auto
  ultimately show ?thesis
    using False assms by (auto simp: SplitHostPort_def JoinHostPort_def)
qed

lemma SplitHostPort_chars:
  assumes "SplitHostPort hp = Some (host, port)"
  shows "set port \<inter> {CHR '':'', CHR ''['', CHR '']''} = {}"
proof -
  obtain front where cut: "cut_last CHR '':'' hp = Some (front, port)"
    using assms by (auto simp: SplitHostPort_def split: option.splits if_splits prod.splits)
  then have hp: "hp = front @ CHR '':'' # port" and colon: "CHR '':'' \<notin> set port"
    by (auto simp: cut_last_def Cut_Some rev_swap split: option.splits prod.splits)
  show ?thesis
  proof (cases "hp \<noteq> [] \<and> hd hp = CHR ''[''")
    case False
    then show ?thesis
      using assms cut colon hp by (auto simp: SplitHostPort_def split: if_splits)
  next
    case True
    obtain oh after where c: "Cut CHR '']'' hp = Some (oh, after)" "length oh + 1 = length front" "CHR ''['' \<notin> set (tl hp)" "CHR '']'' \<notin> set after"
      using assms cut True by (auto simp: SplitHostPort_def split: option.splits if_splits prod.splits)
    then have "hp = (oh @ '']'') @ after"
      by (simp add: Cut_Some)
    with hp c(2) have "after = CHR '':'' # port"
      using append_eq_append_conv [of "oh @ '']''" front after "CHR '':'' # port"] by simp
    moreover have "front \<noteq> []"
      using c(2) by auto
    ultimately show ?thesis
      using c(3,4) colon hp by (cases front) auto
  qed
qed

end
