(* ===== verification/Egress.thy ===== *)
theory Egress
  imports Go_Net Runs
begin

text \<open>
  The egress proxy of the render workers (\<open>cmd/faas-egress\<close>): the address policy (\<open>policy.go\<close>), the registry of per-call
  allowlists, the proxy handler and the control handler (\<open>main.go\<close>).

  Parameters: the resolver, whether a connection to an address comes up, and the JSON of the control requests, which arrive decoded
  (\<open>None\<close> for a body that does not decode).  A header is a map from canonical keys to values.  The bytes piped after
  the connection are not part of the model.
\<close>

section \<open>Policy (policy.go)\<close>

definition mustCIDRs :: "string list \<Rightarrow> ipnet list option" where
  "mustCIDRs cidrs = those (map ParseCIDR cidrs)"

definition denyExtra_texts :: "string list" where
  "denyExtra_texts =
     [''0.0.0.0/8'', ''100.64.0.0/10'', ''192.0.0.0/24'', ''198.18.0.0/15'', ''240.0.0.0/4'', ''255.255.255.255/32'',
      ''64:ff9b::/96'', ''100::/64'']"

text \<open>The texts are constants of the program; a text that did not parse would stop it at its start.\<close>

definition denyExtra :: "ipnet list" where
  "denyExtra = (case mustCIDRs denyExtra_texts of Some ns \<Rightarrow> ns | None \<Rightarrow> [])"

definition isDenied :: "ip \<Rightarrow> bool" where
  "isDenied ip \<longleftrightarrow>
     (if ip = [] then True
      else if IsLoopback ip \<or> IsLinkLocalUnicast ip \<or> IsLinkLocalMulticast ip \<or> IsInterfaceLocalMulticast ip \<or> IsMulticast ip \<or>
        IsUnspecified ip \<or> IsPrivate ip then True
      else list_ex (\<lambda>n. net_contains n ip) denyExtra)"

definition hostAllowed :: "string \<Rightarrow> string \<Rightarrow> string list \<Rightarrow> bool" where
  "hostAllowed host port allow = list_ex (\<lambda>a. a = host \<or> a = host @ '':'' @ port) allow"

datatype egress_error = NotAllowed | ResolveFailed | OnlyDenied

definition decide :: "string \<Rightarrow> string \<Rightarrow> string list \<Rightarrow> (string \<Rightarrow> ip list option) \<Rightarrow> egress_error + ip" where
  "decide host port allow lookup =
     (if \<not> hostAllowed host port allow then Inl NotAllowed
      else case ParseIP host of
        Some ip \<Rightarrow> Inr ip
      | None \<Rightarrow>
          (case lookup host of
             None \<Rightarrow> Inl ResolveFailed
           | Some ips \<Rightarrow> (case find (\<lambda>ip. \<not> isDenied ip) ips of None \<Rightarrow> Inl OnlyDenied | Some ip \<Rightarrow> Inr ip)))"

section \<open>Proxy (main.go)\<close>

type_synonym registry = "string \<rightharpoonup> string list"

type_synonym header = "string \<Rightarrow> string list"

record proxy_request =
  px_method :: string
  px_host :: string
  px_url_host :: string
  px_url_ok :: bool
  px_header :: header

definition header_get :: "header \<Rightarrow> string \<Rightarrow> string" where
  "header_get h k = (case h k of [] \<Rightarrow> [] | v # _ \<Rightarrow> v)"

definition CutPrefix :: "string \<Rightarrow> string \<Rightarrow> string option" where
  "CutPrefix p s = (if take (length p) s = p then Some (drop (length p) s) else None)"

definition credOf :: "proxy_request \<Rightarrow> string" where
  "credOf r = (case CutPrefix ''Bearer '' (header_get (px_header r) ''Proxy-Authorization'') of Some v \<Rightarrow> v | None \<Rightarrow> [])"

definition target_host :: "proxy_request \<Rightarrow> string \<times> string" where
  "target_host r =
     (let hp = (if px_method r \<noteq> ''CONNECT'' \<and> px_url_host r \<noteq> [] then px_url_host r else px_host r) in
      case SplitHostPort hp of
        Some hostport \<Rightarrow> hostport
      | None \<Rightarrow> if px_method r = ''CONNECT'' then (hp, ''443'') else (hp, ''80''))"

definition copyHeaders :: "header \<Rightarrow> header \<Rightarrow> header" where
  "copyHeaders dst src = (\<lambda>k. dst k @ src k)"

text \<open>What a request leads to: a status written by the proxy itself, the addresses dialled, the header sent upstream.\<close>

record proxy_result =
  pr_status :: "nat option"
  pr_dials :: "string list"
  pr_sent :: "header option"

definition refused :: "nat \<Rightarrow> string list \<Rightarrow> proxy_result" where
  "refused code dials = \<lparr>pr_status = Some code, pr_dials = dials, pr_sent = None\<rparr>"

definition doConnect :: "(string \<Rightarrow> bool) \<Rightarrow> string \<Rightarrow> proxy_result" where
  "doConnect dial pinned =
     (if \<not> dial pinned then refused 502 [pinned] else \<lparr>pr_status = None, pr_dials = [pinned], pr_sent = None\<rparr>)"

definition doHTTP :: "(string \<Rightarrow> bool) \<Rightarrow> proxy_request \<Rightarrow> string \<Rightarrow> proxy_result" where
  "doHTTP dial r pinned =
     (if \<not> px_url_ok r then refused 400 []
      else
        let h = (copyHeaders (\<lambda>_. []) (px_header r))(''Proxy-Authorization'' := []) in
        if \<not> dial pinned then refused 502 [pinned]
        else \<lparr>pr_status = None, pr_dials = [pinned], pr_sent = Some h\<rparr>)"

definition ServeHTTP :: "(string \<Rightarrow> ip list option) \<Rightarrow> (string \<Rightarrow> bool) \<Rightarrow> registry \<Rightarrow> proxy_request \<Rightarrow> proxy_result" where
  "ServeHTTP resolve dial reg r =
     (let cred = credOf r in
      if cred = [] then refused 403 []
      else case reg cred of
        None \<Rightarrow> refused 403 []
      | Some allow \<Rightarrow>
          let (host, port) = target_host r in
          (case decide host port allow resolve of
             Inl _ \<Rightarrow> refused 403 []
           | Inr ip \<Rightarrow>
               let pinned = JoinHostPort (IP_string ip) port in
               if px_method r = ''CONNECT'' then doConnect dial pinned else doHTTP dial r pinned))"

definition handleRegister :: "(string \<times> string list) option \<Rightarrow> registry \<Rightarrow> nat \<times> registry" where
  "handleRegister body reg =
     (case body of
        None \<Rightarrow> (400, reg)
      | Some (cred, allow) \<Rightarrow> if cred = [] then (400, reg) else (204, reg(cred \<mapsto> allow)))"

definition handleUnregister :: "string option \<Rightarrow> registry \<Rightarrow> nat \<times> registry" where
  "handleUnregister body reg =
     (case body of None \<Rightarrow> (400, reg) | Some cred \<Rightarrow> if cred = [] then (400, reg) else (204, reg(cred := None)))"

section \<open>The deny-set is a set of address blocks\<close>

text \<open>An address is in a block when it is of the block's family and agrees with it on the leading bits.\<close>

definition bits_of :: "bytes \<Rightarrow> bool list" where "bits_of b = concat (map (\<lambda>w. map (bit w) [7, 6, 5, 4, 3, 2, 1, 0]) b)"

definition canonical :: "ip \<Rightarrow> ip" where "canonical ip = (case To4 ip of Some a \<Rightarrow> a | None \<Rightarrow> ip)"

definition in_block :: "ip \<Rightarrow> bytes \<times> nat \<Rightarrow> bool" where
  "in_block ip blk =
     (let (a, n) = blk; x = canonical ip in length x = length a \<and> take n (bits_of x) = take n (bits_of a))"

definition extra_blocks :: "(bytes \<times> nat) list" where
  "extra_blocks =
     [([0, 0, 0, 0], 8), ([100, 64, 0, 0], 10), ([192, 0, 0, 0], 24), ([198, 18, 0, 0], 15), ([240, 0, 0, 0], 4),
      ([255, 255, 255, 255], 32), (0 # 0x64 # 0xFF # 0x9B # replicate 12 0, 96), (0x01 # replicate 15 0, 64)]"

definition std_blocks :: "(bytes \<times> nat) list" where
  "std_blocks =
     [([127, 0, 0, 0], 8), (IPv6loopback, 128),
      ([10, 0, 0, 0], 8), ([172, 16, 0, 0], 12), ([192, 168, 0, 0], 16), (0xFC # replicate 15 0, 7),
      ([169, 254, 0, 0], 16), (0xFE # 0x80 # replicate 14 0, 10),
      ([224, 0, 0, 0], 4), (0xFF # replicate 15 0, 8), (IPv6zero, 128)]"

definition reserved_blocks :: "(bytes \<times> nat) list" where "reserved_blocks = std_blocks @ extra_blocks"

lemma replicates:
  "replicate 12 x = [x, x, x, x, x, x, x, x, x, x, x, x]" "replicate 14 x = [x, x, x, x, x, x, x, x, x, x, x, x, x, x]"
  "replicate 15 x = [x, x, x, x, x, x, x, x, x, x, x, x, x, x, x]" "replicate 16 x = [x, x, x, x, x, x, x, x, x, x, x, x, x, x, x, x]"
  by (simp_all add: numeral_eq_Suc)

lemma and_255 [simp]: "(b :: byte) AND 255 = b"
proof -
  have "(255 :: byte) = - 1"
    by simp
  then show ?thesis
    by (simp only: and.right_neutral)
qed

text \<open>A mask keeps the leading bits.\<close>

lemma all_less_8: "(\<forall>i < 8. P i) \<longleftrightarrow> P 7 \<and> P 6 \<and> P 5 \<and> P 4 \<and> P 3 \<and> P 2 \<and> P 1 \<and> P (0::nat)"
  by (simp add: eval_nat_numeral All_less_Suc)

lemma mask_byte_eq:
  fixes b c :: byte
  shows "b AND NOT (drop_bit (min 8 k) 255) = c AND NOT (drop_bit (min 8 k) 255) \<longleftrightarrow>
    take k (map (bit b) [7, 6, 5, 4, 3, 2, 1, 0]) = take k (map (bit c) [7, 6, 5, 4, 3, 2, 1, 0])"
proof -
  have bits: "x = y \<longleftrightarrow> (\<forall>i < 8. bit x i = bit y i)" for x y :: byte
    by (auto intro: bit_word_eqI)
  have m: "bit (NOT (drop_bit (min 8 k) 255) :: byte) i \<longleftrightarrow> 8 \<le> min 8 k + i" if "i < 8" for i
  proof -
    have "(255 :: byte) = - 1"
      by simp
    then show ?thesis
      using that by (auto simp only: bit_not_iff bit_drop_bit_eq comp_def bit_minus_1_iff possible_bit_word len_bit0 len_num1)
  qed
  consider "k = 0" | "k = 1" | "k = 2" | "k = 3" | "k = 4" | "k = 5" | "k = 6" | "k = 7" | "8 \<le> k"
    by linarith
  then show ?thesis
    unfolding bits all_less_8 bit_and_iff by cases (simp_all add: m)
qed

lemma CIDRMask_Suc: "CIDRMask n (Suc l) = NOT (drop_bit (min 8 n) 255) # CIDRMask (n - 8) l"
  unfolding CIDRMask_def by (simp only: map_upt_Suc) (simp add: diff_diff_left add.commute)

lemma bits_of_Cons: "bits_of (w # b) = map (bit w) [7, 6, 5, 4, 3, 2, 1, 0] @ bits_of b"
  by (simp add: bits_of_def)

lemma mask_bytes_eq:
  "length a = length x \<Longrightarrow>
    mask_bytes a (CIDRMask n (length x)) = mask_bytes x (CIDRMask n (length x)) \<longleftrightarrow> take n (bits_of a) = take n (bits_of x)"
proof (induction a x arbitrary: n rule: list_induct2)
  case Nil
  then show ?case
    by (simp add: mask_bytes_def)
next
  case (Cons w a v x)
  have "mask_bytes (w # a) (CIDRMask n (length (v # x))) = mask_bytes (v # x) (CIDRMask n (length (v # x))) \<longleftrightarrow>
      take n (map (bit w) [7, 6, 5, 4, 3, 2, 1, 0]) = take n (map (bit v) [7, 6, 5, 4, 3, 2, 1, 0]) \<and>
      take (n - 8) (bits_of a) = take (n - 8) (bits_of x)"
    using Cons.IH [of "n - 8"] mask_byte_eq [of w n v] by (simp add: mask_bytes_def CIDRMask_Suc)
  also have "\<dots> \<longleftrightarrow> take n (bits_of (w # a)) = take n (bits_of (v # x))"
    unfolding bits_of_Cons take_append by (subst append_eq_append_conv) (simp_all add: eval_nat_numeral)
  finally show ?case .
qed

definition net_of :: "bytes \<times> nat \<Rightarrow> ipnet" where
  "net_of blk = (let (a, n) = blk; m = CIDRMask n (length a) in \<lparr>net_ip = mask_bytes a m, net_mask = m\<rparr>)"

lemma length_CIDRMask [simp]: "length (CIDRMask n l) = l"
  by (simp add: CIDRMask_def)

lemma length_mask_bytes [simp]: "length (mask_bytes a m) = min (length a) (length m)"
  by (simp add: mask_bytes_def)

lemma mask_bytes_twice: "mask_bytes (mask_bytes a m) m = mask_bytes a m"
proof -
  have "map2 (AND) (map2 (AND) a m) m = map2 (AND) a m"
  proof (induction a arbitrary: m)
    case (Cons w a)
    then show ?case by (cases m) (simp_all add: and.assoc)
  qed simp
  then show ?thesis by (simp add: mask_bytes_def)
qed

lemma To4_short: "length a = 4 \<Longrightarrow> To4 a = Some a"
  by (simp add: To4_def)

lemma length_canonical_To4: "To4 ip = Some a \<Longrightarrow> canonical ip = a \<and> length a = 4"
  by (auto simp: canonical_def To4_def split: if_splits)

lemma net_contains_block:
  assumes "length a = 4 \<or> length a = 16 \<and> To4 (mask_bytes a (CIDRMask n 16)) = None"
  shows "net_contains (net_of (a, n)) ip \<longleftrightarrow> in_block ip (a, n)"
proof -
  let ?M = "CIDRMask n (length a)"
  have "net_contains (net_of (a, n)) ip \<longleftrightarrow>
      length (canonical ip) = length a \<and> mask_bytes (mask_bytes a ?M) ?M = mask_bytes (canonical ip) ?M"
    using assms by (auto simp: net_contains_def net_of_def Let_def canonical_def To4_short)
  also have "\<dots> \<longleftrightarrow> length (canonical ip) = length a \<and> take n (bits_of a) = take n (bits_of (canonical ip))"
    using mask_bytes_eq [of a "canonical ip" n] by (auto simp: mask_bytes_twice)
  finally show ?thesis
    by (auto simp: in_block_def Let_def)
qed

lemma ParseCIDR_net_of:
  "ParseAddr addr = Some (a, []) \<Longrightarrow> ParseUint 23 len = (n, None) \<Longrightarrow> n \<le> 8 * length a \<Longrightarrow> CHR ''/'' \<notin> set addr \<Longrightarrow>
    ParseCIDR (addr @ CHR ''/'' # len) = Some (net_of (a, n))"
proof -
  assume "CHR ''/'' \<notin> set addr"
  then have "Cut CHR ''/'' (addr @ CHR ''/'' # len) = Some (addr, len)"
    by (simp add: Cut_Some)
  then show "ParseAddr addr = Some (a, []) \<Longrightarrow> ParseUint 23 len = (n, None) \<Longrightarrow> n \<le> 8 * length a \<Longrightarrow> ?thesis"
    by (simp add: ParseCIDR_def net_of_def Let_def)
qed

lemmas parse_v4_defs = ParseAddr_def is_digit_def digit_val_def ParseUint_def

lemma ParseCIDR_texts: "map ParseCIDR denyExtra_texts = map (Some \<circ> net_of) extra_blocks"
proof -
  have v6: "v6_loop ''64:ff9b::'' [] None = Some ([], [0, 0x64, 0xFF, 0x9B], Some 4)" "v6_loop ''100::'' [] None = Some ([], [1, 0], Some 2)"
    by (subst v6_loop.simps, simp add: is_hex_def hex_val_def be16_def hex_num_def, (subst v6_loop.simps, simp add: is_hex_def hex_val_def be16_def hex_num_def)?)+
  have e: "ParseCIDR ''0.0.0.0/8'' = Some (net_of ([0, 0, 0, 0], 8))" "ParseCIDR ''100.64.0.0/10'' = Some (net_of ([100, 64, 0, 0], 10))"
      "ParseCIDR ''192.0.0.0/24'' = Some (net_of ([192, 0, 0, 0], 24))" "ParseCIDR ''198.18.0.0/15'' = Some (net_of ([198, 18, 0, 0], 15))"
      "ParseCIDR ''240.0.0.0/4'' = Some (net_of ([240, 0, 0, 0], 4))" "ParseCIDR ''255.255.255.255/32'' = Some (net_of ([255, 255, 255, 255], 32))"
    using ParseCIDR_net_of [of "''0.0.0.0''" "[0, 0, 0, 0]" "''8''" 8] ParseCIDR_net_of [of "''100.64.0.0''" "[100, 64, 0, 0]" "''10''" 10]
      ParseCIDR_net_of [of "''192.0.0.0''" "[192, 0, 0, 0]" "''24''" 24] ParseCIDR_net_of [of "''198.18.0.0''" "[198, 18, 0, 0]" "''15''" 15]
      ParseCIDR_net_of [of "''240.0.0.0''" "[240, 0, 0, 0]" "''4''" 4] ParseCIDR_net_of [of "''255.255.255.255''" "[255, 255, 255, 255]" "''32''" 32]
    by (simp_all add: parse_v4_defs)
  have "ParseAddr ''64:ff9b::'' = Some (0 # 0x64 # 0xFF # 0x9B # replicate 12 0, [])" "ParseAddr ''100::'' = Some (0x01 # replicate 15 0, [])"
    by (simp_all add: ParseAddr_def parse_v6_def v6 numeral_eq_Suc)
  then have "ParseCIDR ''64:ff9b::/96'' = Some (net_of (0 # 0x64 # 0xFF # 0x9B # replicate 12 0, 96))" "ParseCIDR ''100::/64'' = Some (net_of (0x01 # replicate 15 0, 64))"
    using ParseCIDR_net_of [of "''64:ff9b::''" "0 # 0x64 # 0xFF # 0x9B # replicate 12 0" "''96''" 96]
      ParseCIDR_net_of [of "''100::''" "0x01 # replicate 15 0" "''64''" 64] by (simp_all add: parse_v4_defs)
  with e show ?thesis
    by (simp only: denyExtra_texts_def extra_blocks_def list.map comp_def)
qed

lemma denyExtra_blocks: "denyExtra = map net_of extra_blocks"
proof -
  have "those (map (Some \<circ> f) xs) = Some (map f xs)" for f :: "bytes \<times> nat \<Rightarrow> ipnet" and xs
    by (induction xs) simp_all
  then show ?thesis
    by (simp add: denyExtra_def mustCIDRs_def ParseCIDR_texts)
qed

lemma in_block_mask:
  "in_block ip (a, n) \<longleftrightarrow> length (canonical ip) = length a \<and>
    mask_bytes (canonical ip) (CIDRMask n (length a)) = mask_bytes a (CIDRMask n (length a))"
  using mask_bytes_eq [of "canonical ip" a n] by (auto simp: in_block_def Let_def)

lemma extra_contains: "list_ex (\<lambda>n. net_contains n ip) denyExtra \<longleftrightarrow> (\<exists>blk \<in> set extra_blocks. in_block ip blk)"
proof -
  have "net_contains (net_of blk) ip \<longleftrightarrow> in_block ip blk" if "blk \<in> set extra_blocks" for blk
    using that by (auto simp: extra_blocks_def intro!: net_contains_block simp: CIDRMask_def mask_bytes_def To4_def v4_in_v6_def upt_rec)
  then show ?thesis
    by (auto simp: denyExtra_blocks list_ex_iff)
qed

definition std_denied :: "ip \<Rightarrow> bool" where
  "std_denied ip \<longleftrightarrow> IsLoopback ip \<or> IsLinkLocalUnicast ip \<or> IsLinkLocalMulticast ip \<or> IsInterfaceLocalMulticast ip \<or> IsMulticast ip \<or>
     IsUnspecified ip \<or> IsPrivate ip"

lemmas std_preds = IsLoopback_def IsLinkLocalUnicast_def IsLinkLocalMulticast_def IsInterfaceLocalMulticast_def IsMulticast_def
  IsUnspecified_def IsPrivate_def IP_equal_def

lemma explicit16:
  "IPv6loopback = [0, 0, 0, 0, 0, 0, 0, 0, 0, 0, 0, 0, 0, 0, 0, 1]" "IPv6zero = [0, 0, 0, 0, 0, 0, 0, 0, 0, 0, 0, 0, 0, 0, 0, 0]"
  by (simp_all add: IPv6loopback_def IPv6zero_def replicates)

lemma masks4:
  "CIDRMask 8 4 = [255, 0, 0, 0]" "CIDRMask 12 4 = [255, 240, 0, 0]" "CIDRMask 16 4 = [255, 255, 0, 0]" "CIDRMask 4 4 = [240, 0, 0, 0]"
  by (simp_all add: CIDRMask_def upt_rec)

lemma std_v4:
  assumes "To4 ip = Some a"
  shows "std_denied ip \<longleftrightarrow> (\<exists>blk \<in> set std_blocks. in_block ip blk) \<or> a = [0, 0, 0, 0]"
proof -
  have a: "canonical ip = a" "length a = 4"
    using length_canonical_To4 [OF assms] by auto
  then obtain w x y z where wxyz: "a = [w, x, y, z]"
    by (auto simp: numeral_eq_Suc length_Suc_conv)
  have un: "IsUnspecified ip \<longleftrightarrow> a = [0, 0, 0, 0]"
  proof -
    have z: "take 12 IPv6zero \<noteq> v4_in_v6" "length IPv6zero = 16" "length v4_in_v6 = 12"
      by (simp_all add: IPv6zero_def v4_in_v6_def replicates)
    from assms consider "length ip = 4" "a = ip" | "length ip = 16" "take 12 ip = v4_in_v6" "a = drop 12 ip"
      by (auto simp: To4_def split: if_splits)
    then show ?thesis
    proof cases
      case 1
      then show ?thesis
        using z by (auto simp: IsUnspecified_def IP_equal_def)
    next
      case 2
      then have "ip = v4_in_v6 @ a"
        by (metis append_take_drop_id)
      then show ?thesis
        using z 2 by (auto simp: IsUnspecified_def IP_equal_def)
    qed
  qed
  have il: "\<not> IsInterfaceLocalMulticast ip"
  proof
    assume i: "IsInterfaceLocalMulticast ip"
    then have t: "take 12 ip = v4_in_v6"
      using assms by (auto simp: IsInterfaceLocalMulticast_def To4_def split: if_splits)
    have "ip ! 0 = take 12 ip ! 0"
      by simp
    also have "\<dots> = 0"
      by (simp only: t) (simp add: v4_in_v6_def)
    finally show False
      using i by (simp add: IsInterfaceLocalMulticast_def)
  qed
  have preds: "IsLoopback ip \<longleftrightarrow> w = 127" "IsPrivate ip \<longleftrightarrow> w = 10 \<or> w = 172 \<and> x AND 240 = 16 \<or> w = 192 \<and> x = 168"
      "IsMulticast ip \<longleftrightarrow> w AND 240 = 224" "IsLinkLocalUnicast ip \<longleftrightarrow> w = 169 \<and> x = 254" "IsLinkLocalMulticast ip \<longrightarrow> w AND 240 = 224"
    using assms by (auto simp: std_preds wxyz)
  have blk: "in_block ip (b, n) \<longleftrightarrow> length b = 4 \<and> mask_bytes a (CIDRMask n 4) = mask_bytes b (CIDRMask n 4)" for b n
    using a by (auto simp: in_block_mask)
  have m: "in_block ip ([127, 0, 0, 0], 8) \<longleftrightarrow> w = 127" "in_block ip ([10, 0, 0, 0], 8) \<longleftrightarrow> w = 10"
      "in_block ip ([172, 16, 0, 0], 12) \<longleftrightarrow> w = 172 \<and> x AND 240 = 16" "in_block ip ([192, 168, 0, 0], 16) \<longleftrightarrow> w = 192 \<and> x = 168"
      "in_block ip ([169, 254, 0, 0], 16) \<longleftrightarrow> w = 169 \<and> x = 254" "in_block ip ([224, 0, 0, 0], 4) \<longleftrightarrow> w AND 240 = 224"
    unfolding blk masks4 by (simp_all add: wxyz mask_bytes_def)
  have v6: "length b = 16 \<Longrightarrow> \<not> in_block ip (b, n)" for b n
    by (simp add: blk)
  show ?thesis
    unfolding std_denied_def un std_blocks_def using preds il by (auto simp: m v6 explicit16)
qed

lemma masks16:
  "CIDRMask 7 16 = 254 # replicate 15 0" "CIDRMask 10 16 = 255 # 192 # replicate 14 0" "CIDRMask 8 16 = 255 # replicate 15 0"
  "CIDRMask 128 16 = replicate 16 255"
  by (simp_all add: CIDRMask_def upt_rec replicates)

lemma std_v6:
  assumes "To4 ip = None" "length ip = 16"
  shows "std_denied ip \<longleftrightarrow> (\<exists>blk \<in> set std_blocks. in_block ip blk)"
proof -
  obtain a b c d e f g h i j k l m n p q where ip: "ip = [a, b, c, d, e, f, g, h, i, j, k, l, m, n, p, q]"
    using assms(2) by (auto simp: numeral_eq_Suc length_Suc_conv)
  have "canonical ip = ip"
    by (simp add: canonical_def assms(1))
  then have blk: "in_block ip (x, y) \<longleftrightarrow> length x = 16 \<and> mask_bytes ip (CIDRMask y 16) = mask_bytes x (CIDRMask y 16)" for x y
    using assms(2) by (auto simp: in_block_mask)
  have m7: "in_block ip (0xFC # replicate 15 0, 7) \<longleftrightarrow> a AND 254 = 252"
    and m10: "in_block ip (0xFE # 0x80 # replicate 14 0, 10) \<longleftrightarrow> a = 254 \<and> b AND 192 = 128"
    and m8: "in_block ip (0xFF # replicate 15 0, 8) \<longleftrightarrow> a = 255"
    and m0: "in_block ip (IPv6zero, 128) \<longleftrightarrow> ip = IPv6zero"
    and m1: "in_block ip (IPv6loopback, 128) \<longleftrightarrow> ip = IPv6loopback"
    unfolding blk masks16 by (simp_all add: ip explicit16 mask_bytes_def replicates)
  have v4: "length x = 4 \<Longrightarrow> \<not> in_block ip (x, y)" for x y
    by (simp add: blk)
  have "v4_in_v6 @ [0, 0, 0, 0] \<noteq> ip"
    using assms by (auto simp: To4_def v4_in_v6_def)
  then have preds: "IsUnspecified ip \<longleftrightarrow> ip = IPv6zero" "IsLoopback ip \<longleftrightarrow> ip = IPv6loopback" "IsPrivate ip \<longleftrightarrow> a AND 254 = 252"
      "IsMulticast ip \<longleftrightarrow> a = 255" "IsLinkLocalUnicast ip \<longleftrightarrow> a = 254 \<and> b AND 192 = 128"
      "IsLinkLocalMulticast ip \<longrightarrow> a = 255" "IsInterfaceLocalMulticast ip \<longrightarrow> a = 255"
    using assms by (auto simp: std_preds ip explicit16 v4_in_v6_def)
  show ?thesis
    unfolding std_denied_def std_blocks_def using preds by (auto simp: m7 m10 m8 m0 m1 v4)
qed

lemma std_other:
  assumes "length ip \<noteq> 4" "length ip \<noteq> 16"
  shows "\<not> std_denied ip" and "blk \<in> set reserved_blocks \<Longrightarrow> \<not> in_block ip blk"
proof -
  have t: "To4 ip = None"
    using assms by (simp add: To4_def)
  show "\<not> std_denied ip"
    using assms by (auto simp: std_denied_def std_preds t explicit16 v4_in_v6_def)
  show "blk \<in> set reserved_blocks \<Longrightarrow> \<not> in_block ip blk"
    using assms t by (auto simp: reserved_blocks_def std_blocks_def extra_blocks_def in_block_mask canonical_def explicit16)
qed

text \<open>
  C27 (deny-set).  The deny-set is exactly this set of address blocks: loopback, private, link-local, multicast, unspecified,
  carrier-grade NAT, benchmarking, reserved, broadcast, NAT64 and discard-only.  An IPv4 address written in its IPv6 form is judged
  as the IPv4 address, and the empty address is denied.
\<close>

theorem isDenied_blocks: "isDenied ip \<longleftrightarrow> ip = [] \<or> (\<exists>blk \<in> set reserved_blocks. in_block ip blk)"
proof (cases "ip = []")
  case False
  have d: "isDenied ip \<longleftrightarrow> std_denied ip \<or> (\<exists>blk \<in> set extra_blocks. in_block ip blk)"
    using False by (auto simp: isDenied_def std_denied_def extra_contains)
  have r: "(\<exists>blk \<in> set reserved_blocks. in_block ip blk) \<longleftrightarrow>
      (\<exists>blk \<in> set std_blocks. in_block ip blk) \<or> (\<exists>blk \<in> set extra_blocks. in_block ip blk)"
    by (auto simp: reserved_blocks_def)
  show ?thesis
  proof (cases "To4 ip")
    case (Some a)
    have "in_block ip ([0, 0, 0, 0], 8)" if "a = [0, 0, 0, 0]"
      using length_canonical_To4 [OF Some] that by (simp add: in_block_mask)
    then have "a = [0, 0, 0, 0] \<Longrightarrow> \<exists>blk \<in> set extra_blocks. in_block ip blk"
      by (simp add: extra_blocks_def)
    then show ?thesis
      using std_v4 [OF Some] d r False by blast
  next
    case None
    show ?thesis
    proof (cases "length ip = 16")
      case True
      then show ?thesis
        using std_v6 [OF None] d r False by blast
    next
      case l16: False
      then have "length ip \<noteq> 4"
        using None by (auto simp: To4_def)
      then show ?thesis
        using std_other [of ip] l16 d r False by (auto simp: reserved_blocks_def)
    qed
  qed
qed (simp add: isDenied_def)

section \<open>No connection outside the allowlist\<close>

datatype egress_op =
    EgRegisterReq "(string \<times> string list) option"
  | EgUnregisterReq "string option"
  | EgProxyReq "string \<Rightarrow> ip list option" "string \<Rightarrow> bool" proxy_request

primrec egress_op_step :: "egress_op \<Rightarrow> registry \<times> proxy_result list \<Rightarrow> registry \<times> proxy_result list" where
  "egress_op_step (EgRegisterReq body) st = (snd (handleRegister body (fst st)), snd st)"
| "egress_op_step (EgUnregisterReq body) st = (snd (handleUnregister body (fst st)), snd st)"
| "egress_op_step (EgProxyReq resolve dial r) st = (fst st, snd st @ [ServeHTTP resolve dial (fst st) r])"

text \<open>The allowlist a credential has after a sequence of control requests: that of its last registration, unless it was removed since.\<close>

definition grant_step :: "egress_op \<Rightarrow> string \<Rightarrow> string list option \<Rightarrow> string list option" where
  "grant_step op cred g =
     (case op of
        EgRegisterReq (Some (c, allow)) \<Rightarrow> if c = cred then Some allow else g
      | EgUnregisterReq (Some c) \<Rightarrow> if c = cred then None else g
      | _ \<Rightarrow> g)"

definition granted :: "egress_op list \<Rightarrow> string \<Rightarrow> string list option" where
  "granted ops cred = fold (\<lambda>op. grant_step op cred) ops None"

lemma granted_registry:
  assumes "cred \<noteq> []"
  shows "fst (run egress_op_step ops (reg, out)) cred = fold (\<lambda>op. grant_step op cred) ops (reg cred)"
proof (induction ops arbitrary: reg out)
  case (Cons op ops)
  have "fst (egress_op_step op (reg, out)) cred = grant_step op cred (reg cred)"
    using assms by (cases op) (auto simp: handleRegister_def handleUnregister_def grant_step_def split: option.split prod.split)
  then show ?case
    using Cons.IH [of "fst (egress_op_step op (reg, out))" "snd (egress_op_step op (reg, out))"] by simp
qed simp

lemma decide_Inr:
  assumes "decide host port allow lookup = Inr ip"
  shows "hostAllowed host port allow \<and>
    (ParseIP host = Some ip \<or> ParseIP host = None \<and> \<not> isDenied ip \<and> (\<exists>ips. lookup host = Some ips \<and> ip \<in> set ips))"
  using assms by (auto simp: decide_def find_Some_iff split: if_splits option.splits)

lemma ParseIP_length: "ParseIP host = Some ip \<Longrightarrow> length ip = 16"
proof -
  have v4: "v4_fields s v d fs = Some f \<Longrightarrow> length fs \<le> 3 \<Longrightarrow> length f = 4" for s v d fs f
    by (induction s v d fs rule: v4_fields.induct) (auto simp: Let_def split: if_splits)
  have loop: "v6_loop s ip e = Some (r, ip', e') \<Longrightarrow> length ip \<le> 16 \<Longrightarrow> even (length ip) \<Longrightarrow> (\<forall>k. e = Some k \<longrightarrow> k \<le> length ip) \<Longrightarrow>
      length ip' \<le> 16 \<and> (\<forall>k. e' = Some k \<longrightarrow> k \<le> length ip')" for s ip e r ip' e'
  proof (induction s arbitrary: ip e rule: measure_induct_rule [where f = length])
    case (less s)
    let ?h = "takeWhile is_hex s" and ?rest = "dropWhile is_hex s" and ?ip = "ip @ be16 (hex_num (takeWhile is_hex s))"
    show ?case
    proof (cases "16 \<le> length ip")
      case True
      then show ?thesis
        using less.prems by (subst (asm) v6_loop.simps) simp
    next
      case False
      then have n: "length ?ip \<le> 16" "even (length ?ip)" "\<forall>k. e = Some k \<longrightarrow> k \<le> length ?ip"
        using less.prems(2-4) by (auto simp: be16_def elim: evenE)
      note eq = less.prems(1) [unfolded v6_loop.simps [of s ip e] Let_def]
      show ?thesis
      proof (cases "?rest \<noteq> [] \<and> hd ?rest = CHR ''.''")
        case True
        then show ?thesis
          using eq False less.prems(4) v4 by (auto split: if_splits option.splits)
      next
        case ndot: False
        show ?thesis
        proof (cases ?rest)
          case Nil
          then show ?thesis
            using eq [unfolded Nil] False n by (auto split: if_splits)
        next
          case (Cons c s')
          have s': "length s' < length s"
            using dropWhile_Cons_less [OF Cons] .
          show ?thesis
          proof (cases s')
            case Nil
            then show ?thesis
              using eq False ndot Cons by (auto split: if_splits)
          next
            case s'': (Cons c' s'')
            consider "v6_loop s' ?ip e = Some (r, ip', e')" | "s'' = []" "ip' = ?ip" "e' = Some (length ?ip)"
              | "v6_loop s'' ?ip (Some (length ?ip)) = Some (r, ip', e')"
              using eq False ndot Cons s'' by (auto split: if_splits)
            then show ?thesis
            proof cases
              case 1
              then show ?thesis
                using less.IH [OF s' 1 n] by simp
            next
              case 2
              then show ?thesis
                using n(1) by simp
            next
              case 3
              have "length s'' < length s"
                using s' s'' by simp
              then show ?thesis
                using less.IH [OF _ 3 n(1,2)] by simp
            qed
          qed
        qed
      qed
    qed
  qed
  have v6: "parse_v6 s = Some f \<Longrightarrow> length f = 16" for s f
    using loop by (fastforce simp: parse_v6_def Let_def split: if_splits option.splits prod.splits)
  show "ParseIP host = Some ip \<Longrightarrow> length ip = 16"
    using v4 v6 by (fastforce simp: ParseIP_def ParseAddr_def To16_def v4_in_v6_def split: if_splits option.splits prod.splits)
qed

text \<open>
  C26 (egress wall).  Whatever register, unregister and proxy requests came before, an address the proxy dials for a request is the text
  of an IP address and a port, where the request's host and port match an entry of the allowlist that the request's credential holds at that
  moment, and the IP is that very host when the host is a literal IP, and otherwise one the resolver returned for the host and outside
  the deny-set.  The text is not resolved again: it reads back as that IP.  A request without a registered credential dials nothing,
  and the credential is never sent upstream.
\<close>

theorem egress_wall:
  assumes "st = run egress_op_step ops (Map.empty, [])" and "\<forall>h ips. resolve h = Some ips \<longrightarrow> (\<forall>ip \<in> set ips. length ip = 4 \<or> length ip = 16)"
    and "res = ServeHTTP resolve dial (fst st) r"
  shows "(granted ops (credOf r) = None \<longrightarrow> pr_dials res = [] \<and> pr_status res = Some 403) \<and>
    (\<forall>addr \<in> set (pr_dials res). \<exists>allow h ip. granted ops (credOf r) = Some allow \<and>
       hostAllowed (fst (target_host r)) (snd (target_host r)) allow \<and>
       SplitHostPort addr = Some (h, snd (target_host r)) \<and> ParseIP h = Some (To16 ip) \<and>
       (ParseIP (fst (target_host r)) = Some ip \<or>
        ParseIP (fst (target_host r)) = None \<and> \<not> isDenied ip \<and> (\<exists>ips. resolve (fst (target_host r)) = Some ips \<and> ip \<in> set ips))) \<and>
    (\<forall>h. pr_sent res = Some h \<longrightarrow> h ''Proxy-Authorization'' = [])"
proof -
  let ?c = "credOf r" and ?host = "fst (target_host r)" and ?port = "snd (target_host r)"
  have reg: "?c \<noteq> [] \<Longrightarrow> fst st ?c = granted ops ?c"
    using granted_registry [of ?c ops Map.empty "[]"] by (simp add: assms(1) granted_def)
  have sent: "pr_sent res = Some h \<Longrightarrow> h ''Proxy-Authorization'' = []" for h
    by (auto simp: assms(3) ServeHTTP_def doConnect_def doHTTP_def refused_def Let_def split: if_splits option.splits prod.splits sum.splits)
  have none: "?c = [] \<or> granted ops ?c = None \<Longrightarrow> res = refused 403 []"
    using reg by (auto simp: assms(3) ServeHTTP_def Let_def)
  have port: "set ?port \<inter> {CHR '':'', CHR ''['', CHR '']''} = {}"
    using SplitHostPort_chars by (auto simp: target_host_def Let_def split: option.splits)
  have dials: "\<exists>allow h ip. granted ops ?c = Some allow \<and> hostAllowed ?host ?port allow \<and> SplitHostPort addr = Some (h, ?port) \<and>
      ParseIP h = Some (To16 ip) \<and> (ParseIP ?host = Some ip \<or>
        ParseIP ?host = None \<and> \<not> isDenied ip \<and> (\<exists>ips. resolve ?host = Some ips \<and> ip \<in> set ips))"
    if addr: "addr \<in> set (pr_dials res)" for addr
  proof -
    have "\<not> (?c = [] \<or> granted ops ?c = None)"
    proof
      assume "?c = [] \<or> granted ops ?c = None"
      from none [OF this] addr show False
        by (simp add: refused_def)
    qed
    then have c: "?c \<noteq> []" "granted ops ?c \<noteq> None"
      by simp_all
    then obtain allow where g: "granted ops ?c = Some allow" "fst st ?c = Some allow"
      using reg by auto
    obtain ip where ip: "decide ?host ?port allow resolve = Inr ip" "addr = JoinHostPort (IP_string ip) ?port"
      using addr c g by (auto simp: assms(3) ServeHTTP_def doConnect_def doHTTP_def refused_def Let_def split: if_splits sum.splits prod.splits)
    note d = decide_Inr [OF ip(1)]
    have len: "length ip = 4 \<or> length ip = 16"
      using d assms(2) ParseIP_length by blast
    have "CHR ''['' \<notin> set (IP_string ip)" "CHR '']'' \<notin> set (IP_string ip)"
      using IP_string_chars [OF len] by fastforce+
    from SplitHostPort_Join [OF this port] have "SplitHostPort addr = Some (IP_string ip, ?port)"
      by (simp add: ip(2))
    moreover have "ParseIP (IP_string ip) = Some (To16 ip)"
      by (rule ParseIP_IP_string [OF len])
    ultimately show ?thesis
      using g(1) d by blast
  qed
  show ?thesis
    using none dials sent by (auto simp: refused_def)
qed

definition example_proxy_request :: proxy_request where
  "example_proxy_request =
     \<lparr>px_method = ''CONNECT'', px_host = ''api:443'', px_url_host = [], px_url_ok = True,
      px_header = (\<lambda>k. if k = ''Proxy-Authorization'' then [''Bearer c1''] else [])\<rparr>"

text \<open>A name that resolves to the metadata service and to a public address: the connection goes to the public one.\<close>

definition example_resolver :: "string \<Rightarrow> ip list option" where
  "example_resolver h = Some [[169, 254, 169, 254], [9, 9, 9, 9]]"

definition example_egress_ops :: "egress_op list" where
  "example_egress_ops = [EgRegisterReq (Some (''c1'', [''api'']))]"

theorem egress_wall_witness:
  "\<exists>res. res = ServeHTTP example_resolver (\<lambda>_. True) (fst (run egress_op_step example_egress_ops (Map.empty, []))) example_proxy_request \<and>
     pr_dials res = [''9.9.9.9:443''] \<and> (\<forall>addr \<in> set (pr_dials res). \<exists>h ip. SplitHostPort addr = Some (h, ''443'') \<and> ParseIP h = Some (To16 ip))"
proof -
  let ?st = "run egress_op_step example_egress_ops (Map.empty, [])"
  let ?res = "ServeHTTP example_resolver (\<lambda>_. True) (fst ?st) example_proxy_request"
  have c: "credOf example_proxy_request = ''c1''"
    by (simp add: credOf_def example_proxy_request_def header_get_def CutPrefix_def)
  have t: "target_host example_proxy_request = (''api'', ''443'')"
    by (simp add: target_host_def example_proxy_request_def SplitHostPort_def cut_last_def)
  have i: "isDenied [169, 254, 169, 254]"
    by (simp add: isDenied_def IsLinkLocalUnicast_def To4_def)
  have m: "CIDRMask 10 4 = [255, 192, 0, 0]" "CIDRMask 24 4 = [255, 255, 255, 0]" "CIDRMask 15 4 = [255, 254, 0, 0]" "CIDRMask 32 4 = [255, 255, 255, 255]"
    by (simp_all add: CIDRMask_def upt_rec)
  have "length (canonical [9, 9, 9, 9]) = 4" "canonical [9, 9, 9, 9] = [9, 9, 9, 9]"
    by (simp_all add: canonical_def To4_def)
  then have blk: "in_block [9, 9, 9, 9] (b, n) \<longleftrightarrow> length b = 4 \<and> mask_bytes [9, 9, 9, 9] (CIDRMask n 4) = mask_bytes b (CIDRMask n 4)" for b n
    by (cases "length b = 4") (simp_all add: in_block_mask)
  have "\<not> in_block [9, 9, 9, 9] blk" if "blk \<in> set extra_blocks" for blk
    using that by (auto simp: extra_blocks_def blk masks4 m mask_bytes_def)
  moreover have "\<not> std_denied [9, 9, 9, 9]"
    by (simp add: std_denied_def std_preds To4_def explicit16 v4_in_v6_def)
  ultimately have p: "\<not> isDenied [9, 9, 9, 9]"
    by (auto simp: isDenied_def std_denied_def extra_contains)
  have d: "decide ''api'' ''443'' [''api''] example_resolver = Inr [9, 9, 9, 9]"
    using i p by (simp add: decide_def hostAllowed_def ParseIP_def ParseAddr_def example_resolver_def)
  have connect: "px_method example_proxy_request = ''CONNECT''"
    by (simp add: example_proxy_request_def)
  have "IP_string [9, 9, 9, 9] = ''9.9.9.9''"
    by (simp add: IP_string_def To4_def format_nat.simps digit_char_def) code_simp
  then have "pr_dials ?res = [''9.9.9.9:443'']"
    by (simp add: ServeHTTP_def Let_def c t d connect example_egress_ops_def handleRegister_def doConnect_def JoinHostPort_def)
  moreover have "\<forall>h ips. example_resolver h = Some ips \<longrightarrow> (\<forall>ip \<in> set ips. length ip = 4 \<or> length ip = 16)"
    by (simp add: example_resolver_def)
  from egress_wall [OF refl this refl, where ops = example_egress_ops and dial = "\<lambda>_. True" and r = example_proxy_request]
  have "\<forall>addr \<in> set (pr_dials ?res). \<exists>h ip. SplitHostPort addr = Some (h, ''443'') \<and> ParseIP h = Some (To16 ip)"
    unfolding t by (metis snd_conv)
  ultimately show ?thesis
    by blast
qed

end
