(* ===== verification/Imgstore.thy ===== *)
theory Imgstore
  imports Display_Invariant Ota "HOL-Library.AList" "HOL-Library.List_Lexorder" "HOL-Library.Char_ord"
begin

text \<open>
  The content-addressed image store (\<open>imgstore\<close>): the image table, the blob directory, and the sweep that reconciles them.

  The directory is the list of its files with contents and modification times, in the order in which they were created; reading it
  gives their names in order.  \<open>decode\<close> stands for \<open>image.DecodeConfig\<close>: format, width and height, or an error.  A write of
  a blob has a fate, which includes the death of the process; a call then has no answer.  The display tables are part of the
  state, since the items of playlists refer to images: \<open>d_images\<close> is the view they have of the image table.
\<close>

section \<open>State\<close>

record image_row =
  ig_id :: int
  ig_operator :: "int option"
  ig_sha :: string
  ig_blob_path :: string
  ig_mime :: string
  ig_width :: int
  ig_height :: int
  ig_byte_size :: nat
  ig_created_at :: time

record blob_file =
  bf_content :: bytes
  bf_mtime :: time

record img_state =
  is_db :: display_db
  is_rows :: "image_row list"
  is_next :: int
  is_dir :: bool
  is_files :: "(string \<times> blob_file) list"

datatype image_error = ImgNotFound | ImgTooLarge | ImgUnsupported | ImgInUse | ImgFailed

definition MaxImagePixels :: int where "MaxImagePixels = 24000000"

type_synonym decoder = "bytes \<Rightarrow> (string \<times> int \<times> int) option"

definition formatMIME :: "string \<Rightarrow> string option" where
  "formatMIME f =
     (if f = ''png'' then Some ''image/png'' else if f = ''jpeg'' then Some ''image/jpeg''
      else if f = ''gif'' then Some ''image/gif'' else None)"

definition sniff :: "decoder \<Rightarrow> bytes \<Rightarrow> (string \<times> int \<times> int) option" where
  "sniff decode blob =
     (case decode blob of
        None \<Rightarrow> None
      | Some (f, w, h) \<Rightarrow> (case formatMIME f of None \<Rightarrow> None | Some m \<Rightarrow> Some (m, w, h)))"

definition blobFSPath :: "string \<Rightarrow> string" where "blobFSPath sha = path_base (sha @ ''.bin'')"

definition set_rows :: "image_row list \<Rightarrow> img_state \<Rightarrow> img_state" where
  "set_rows rows s = s\<lparr>is_rows := rows, is_db := (is_db s)\<lparr>d_images := map_of (map (\<lambda>r. (ig_id r, ig_sha r)) rows)\<rparr>\<rparr>"

section \<open>Blobs\<close>

datatype write_fate = WroteAll | NoDirectory | NoTemp | WriteFailed | RenameFailed | DiedInWrite bytes | DiedBeforeRename

definition tempPrefix :: string where "tempPrefix = ''.tmp-img-''"

definition is_temp :: "string \<Rightarrow> bool" where "is_temp name \<longleftrightarrow> take (length tempPrefix) name = tempPrefix"

text \<open>\<open>Some b\<close> says whether the call succeeded, \<open>None\<close> that the process died in it.  \<open>sfx\<close> is what \<open>CreateTemp\<close> adds.\<close>

definition writeBlobAtomic :: "write_fate \<Rightarrow> string \<Rightarrow> time \<Rightarrow> string \<Rightarrow> bytes \<Rightarrow> img_state \<Rightarrow> bool option \<times> img_state" where
  "writeBlobAtomic fate sfx now name data s =
     (if fate = NoDirectory then (Some False, s)
      else
        let s = s\<lparr>is_dir := True\<rparr>; tmp = tempPrefix @ sfx;
            put = (\<lambda>n b. s\<lparr>is_files := AList.update n \<lparr>bf_content = b, bf_mtime = now\<rparr> (is_files s)\<rparr>)
        in case fate of
             WroteAll \<Rightarrow> (Some True, put (path_base name) data)
           | DiedInWrite part \<Rightarrow> (None, put tmp part)
           | DiedBeforeRename \<Rightarrow> (None, put tmp data)
           | _ \<Rightarrow> (Some False, s))"

definition remove_file :: "string \<Rightarrow> img_state \<Rightarrow> img_state" where
  "remove_file name s = s\<lparr>is_files := AList.delete name (is_files s)\<rparr>"

section \<open>Rows\<close>

definition GetImage :: "bool \<Rightarrow> int \<Rightarrow> img_state \<Rightarrow> image_error + image_row" where
  "GetImage flt i s =
     (if flt then Inl ImgFailed else case find (\<lambda>r. ig_id r = i) (is_rows s) of None \<Rightarrow> Inl ImgNotFound | Some r \<Rightarrow> Inr r)"

definition GetImageBySha :: "bool \<Rightarrow> string \<Rightarrow> img_state \<Rightarrow> image_error + image_row" where
  "GetImageBySha flt sha s =
     (if flt then Inl ImgFailed else case find (\<lambda>r. ig_sha r = sha) (is_rows s) of None \<Rightarrow> Inl ImgNotFound | Some r \<Rightarrow> Inr r)"

definition LoadBlob :: "bool \<Rightarrow> bool \<Rightarrow> int \<Rightarrow> img_state \<Rightarrow> image_error + bytes \<times> image_row" where
  "LoadBlob flt flt_read i s =
     (case GetImage flt i s of
        Inl e \<Rightarrow> Inl e
      | Inr r \<Rightarrow>
          (case (if flt_read then None else map_of (is_files s) (blobFSPath (ig_sha r))) of
             None \<Rightarrow> Inl ImgFailed
           | Some f \<Rightarrow> Inr (bf_content f, r)))"

definition ListImages :: "bool \<Rightarrow> int \<Rightarrow> int \<Rightarrow> img_state \<Rightarrow> image_row list option" where
  "ListImages flt limit cursor s =
     (let limit = (if limit \<le> 0 then 50 else limit) in
      if flt then None else Some (take (nat limit) (sort_key ig_id (filter (\<lambda>r. ig_id r > cursor) (is_rows s)))))"

record put_env =
  pe_decode :: decoder
  pe_now :: time
  pe_flt_insert :: bool
  pe_flt_get :: bool
  pe_flt_stat :: bool
  pe_died :: bool
  pe_fate :: write_fate
  pe_suffix :: string

text \<open>The insert: \<open>None\<close> on a conflict, which has drawn a number all the same.  The row's CHECK and foreign key are those of the migration.\<close>

definition put_row :: "put_env \<Rightarrow> int option \<Rightarrow> bytes \<Rightarrow> string \<Rightarrow> int \<Rightarrow> int \<Rightarrow> img_state \<Rightarrow> (image_error + image_row option) \<times> img_state" where
  "put_row env opk blob mime w h s =
     (let sha = EncodeToString (sha256 blob);
          r = \<lparr>ig_id = is_next s, ig_operator = opk, ig_sha = sha, ig_blob_path = sha @ ''.bin'', ig_mime = mime,
              ig_width = w, ig_height = h, ig_byte_size = length blob, ig_created_at = pe_now env\<rparr>
      in if pe_flt_insert env \<or> blob = [] \<or> (\<exists>k. opk = Some k \<and> k \<notin> d_operators (is_db s)) then (Inl ImgFailed, s)
         else if \<exists>q \<in> set (is_rows s). ig_sha q = sha then (Inr None, s\<lparr>is_next := is_next s + 1\<rparr>)
         else (Inr (Some r), (set_rows (is_rows s @ [r]) s)\<lparr>is_next := is_next s + 1\<rparr>))"

definition PutImage :: "put_env \<Rightarrow> int option \<Rightarrow> bytes \<Rightarrow> img_state \<Rightarrow> (image_error + image_row) option \<times> img_state" where
  "PutImage env opk blob s =
     (case sniff (pe_decode env) blob of
        None \<Rightarrow> (Some (Inl ImgUnsupported), s)
      | Some (mime, w, h) \<Rightarrow>
          if wrap64 (w * h) > MaxImagePixels then (Some (Inl ImgTooLarge), s)
          else
            let sha = EncodeToString (sha256 blob);
                write = writeBlobAtomic (pe_fate env) (pe_suffix env) (pe_now env) (sha @ ''.bin'') blob
            in case put_row env opk blob mime w h s of
                 (Inl e, s) \<Rightarrow> (Some (Inl e), s)
               | (Inr None, s) \<Rightarrow>
                   if \<not> pe_flt_stat env \<and> map_of (is_files s) (blobFSPath sha) = None then
                     (case write s of
                        (None, s) \<Rightarrow> (None, s)
                      | (Some False, s) \<Rightarrow> (Some (Inl ImgFailed), s)
                      | (Some True, s) \<Rightarrow> (Some (GetImageBySha (pe_flt_get env) sha s), s))
                   else (Some (GetImageBySha (pe_flt_get env) sha s), s)
               | (Inr (Some r), s) \<Rightarrow>
                   if pe_died env then (None, s)
                   else case write s of
                     (None, s) \<Rightarrow> (None, s)
                   | (Some False, s) \<Rightarrow> (Some (Inl ImgFailed), s)
                   | (Some True, s) \<Rightarrow> (Some (Inr r), s))"

datatype remove_fate = Removed | RemoveFailed | DiedBeforeRemove

definition delete_blob :: "remove_fate \<Rightarrow> string \<Rightarrow> img_state \<Rightarrow> image_error option option \<times> img_state" where
  "delete_blob fate sha s =
     (case fate of
        DiedBeforeRemove \<Rightarrow> (None, s)
      | RemoveFailed \<Rightarrow> (if map_of (is_files s) (blobFSPath sha) = None then (Some None, s) else (Some (Some ImgFailed), s))
      | Removed \<Rightarrow> (Some None, remove_file (blobFSPath sha) s))"

text \<open>\<open>ON DELETE RESTRICT\<close> of the playlist items.\<close>

definition delete_row :: "bool \<Rightarrow> int \<Rightarrow> img_state \<Rightarrow> (image_error + string) \<times> img_state" where
  "delete_row flt i s =
     (if flt then (Inl ImgFailed, s)
      else case find (\<lambda>r. ig_id r = i) (is_rows s) of
        None \<Rightarrow> (Inl ImgNotFound, s)
      | Some r \<Rightarrow>
          if \<exists>it \<in> set (d_items (is_db s)). it_image_id it = i then (Inl ImgInUse, s)
          else (Inr (ig_sha r), set_rows (filter (\<lambda>q. ig_id q \<noteq> i) (is_rows s)) s))"

definition DeleteImage :: "bool \<Rightarrow> remove_fate \<Rightarrow> int \<Rightarrow> img_state \<Rightarrow> image_error option option \<times> img_state" where
  "DeleteImage flt fate i s =
     (case delete_row flt i s of
        (Inl e, s) \<Rightarrow> (Some (Some e), s)
      | (Inr sha, s) \<Rightarrow> delete_blob fate sha s)"

text \<open>The playlists that hold the image for one panel.\<close>

definition managed_users :: "int \<Rightarrow> display_db \<Rightarrow> playlist \<Rightarrow> bool" where
  "managed_users i db p \<longleftrightarrow> pl_managed_serial p \<noteq> None \<and> (\<exists>it \<in> set (d_items db). it_playlist_id it = pl_id p \<and> it_image_id it = i)"

definition DeleteImageManagedAware :: "bool \<Rightarrow> remove_fate \<Rightarrow> int \<Rightarrow> img_state \<Rightarrow> image_error option option \<times> img_state" where
  "DeleteImageManagedAware flt fate i s0 =
     (let db = is_db s0 in
      if flt then (Some (Some ImgFailed), s0)
      else if \<exists>it \<in> set (d_items db). it_image_id it = i \<and> (\<exists>p \<in> set (d_playlists db). pl_id p = it_playlist_id it \<and> pl_managed_serial p = None)
      then (Some (Some ImgInUse), s0)
      else
        let serials = {sn. \<exists>p \<in> set (d_playlists db). managed_users i db p \<and> pl_managed_serial p = Some sn};
            db = db\<lparr>d_cursors := (\<lambda>sn. if sn \<in> serials then None else d_cursors db sn)\<rparr>;
            db = delete_playlists (managed_users i db) db
        in case delete_row False i (s0\<lparr>is_db := db\<rparr>) of
             (Inl e, _) \<Rightarrow> (Some (Some e), s0)
           | (Inr sha, s) \<Rightarrow> delete_blob fate sha s)"

section \<open>The sweep\<close>

record sweep_env =
  sv_flt_rows :: bool
  sv_flt_read :: bool
  sv_no_info :: "string \<Rightarrow> bool"
  sv_no_remove :: "string \<Rightarrow> bool"
  sv_now :: time

definition CutSuffix :: "string \<Rightarrow> string \<Rightarrow> string option" where
  "CutSuffix suf s =
     (if length suf \<le> length s \<and> drop (length s - length suf) s = suf then Some (take (length s - length suf) s) else None)"

text \<open>One entry, with the counter, the names seen and the directory; \<open>None\<close> for the error that ends the sweep.\<close>

definition sweep_entry :: "sweep_env \<Rightarrow> time \<Rightarrow> string set \<Rightarrow> string \<Rightarrow> nat \<times> string list \<times> img_state \<Rightarrow> (nat \<times> string list \<times> img_state) option" where
  "sweep_entry env grace known name acc =
     (let (removed, onDisk, s) = acc;
          old = (\<not> sv_no_info env name \<and> (case map_of (is_files s) name of None \<Rightarrow> False | Some f \<Rightarrow> grace \<le> sv_now env - bf_mtime f))
      in if is_temp name then
           (if \<not> old then Some acc
            else if sv_no_remove env name then None
            else Some (removed + 1, onDisk, remove_file name s))
         else case CutSuffix ''.bin'' name of
           None \<Rightarrow> Some acc
         | Some sha \<Rightarrow>
             let onDisk = onDisk @ [sha] in
             if sha \<in> known then Some (removed, onDisk, s)
             else if \<not> old then Some (removed, onDisk, s)
             else if sv_no_remove env name then None
             else Some (removed + 1, onDisk, remove_file name s))"

fun sweep_entries :: "sweep_env \<Rightarrow> time \<Rightarrow> string set \<Rightarrow> string list \<Rightarrow> nat \<times> string list \<times> img_state \<Rightarrow> bool \<times> nat \<times> string list \<times> img_state" where
  "sweep_entries env grace known [] acc = (True, acc)"
| "sweep_entries env grace known (n # ns) acc =
     (case sweep_entry env grace known n acc of
        None \<Rightarrow> (False, acc)
      | Some acc \<Rightarrow> sweep_entries env grace known ns acc)"

definition SweepOrphanBlobs :: "sweep_env \<Rightarrow> time \<Rightarrow> img_state \<Rightarrow> (nat \<times> nat \<times> bool) \<times> img_state" where
  "SweepOrphanBlobs env grace s =
     (if \<not> is_dir s then ((0, 0, True), s)
      else if sv_flt_read env \<or> sv_flt_rows env then ((0, 0, False), s)
      else
        let known = ig_sha ` set (is_rows s) in
        case sweep_entries env grace known (sort (map fst (is_files s))) (0, [], s) of
          (False, removed, _, s) \<Rightarrow> ((removed, 0, False), s)
        | (True, removed, onDisk, s) \<Rightarrow> ((removed, card (known - set onDisk), True), s))"


section \<open>Runs\<close>

datatype img_op =
    OpPutImage put_env "int option" bytes
  | OpDeleteImage bool remove_fate int
  | OpDeleteManaged bool remove_fate int
  | OpSweep sweep_env time
  | OpDisplay display_op

primrec img_step :: "img_op \<Rightarrow> img_state \<Rightarrow> img_state" where
  "img_step (OpPutImage env opk blob) s = snd (PutImage env opk blob s)"
| "img_step (OpDeleteImage flt fate i) s = snd (DeleteImage flt fate i s)"
| "img_step (OpDeleteManaged flt fate i) s = snd (DeleteImageManagedAware flt fate i s)"
| "img_step (OpSweep env grace) s = snd (SweepOrphanBlobs env grace s)"
| "img_step (OpDisplay op) s = s\<lparr>is_db := display_step op (is_db s)\<rparr>"

definition img_init :: "int set \<Rightarrow> int set \<Rightarrow> img_state" where
  "img_init operators templates =
     \<lparr>is_db = display_init operators Map.empty templates, is_rows = [], is_next = 1, is_dir = False, is_files = []\<rparr>"

definition sha_name :: "bytes \<Rightarrow> string" where "sha_name b = EncodeToString (sha256 b) @ ''.bin''"

text \<open>Well-formed tables, and a directory in which a blob is named after its content.\<close>

definition rows_ok :: "image_row list \<Rightarrow> int \<Rightarrow> bool" where
  "rows_ok rows n \<longleftrightarrow> keyed ig_id rows n \<and> distinct (map ig_sha rows) \<and>
     (\<forall>r \<in> set rows. \<exists>b. ig_sha r = EncodeToString (sha256 b) \<and> ig_byte_size r = length b)"

definition files_ok :: "(string \<times> blob_file) list \<Rightarrow> bool" where
  "files_ok fs \<longleftrightarrow> (\<forall>(name, f) \<in> set fs. name = sha_name (bf_content f) \<or> is_temp name)"

definition img_ok :: "img_state \<Rightarrow> bool" where
  "img_ok s \<longleftrightarrow> rows_ok (is_rows s) (is_next s) \<and> files_ok (is_files s) \<and> display_ok (is_db s) \<and>
     d_images (is_db s) = map_of (map (\<lambda>r. (ig_id r, ig_sha r)) (is_rows s)) \<and> (\<not> is_dir s \<longrightarrow> is_files s = [])"

lemma hex_no_slash: "CHR ''/'' \<notin> set (EncodeToString d)"
proof -
  have "hex_val CHR ''/'' = None"
    by (simp add: hex_val_def Let_def)
  then show ?thesis
    using EncodeToString_chars [of "CHR ''/''" d] by auto
qed

lemma blobFSPath_sha [simp]: "blobFSPath (EncodeToString d) = EncodeToString d @ ''.bin''"
  unfolding blobFSPath_def using hex_no_slash [of d] by (intro path_base_plain) simp_all

lemma blobFSPath_row: "rows_ok rows n \<Longrightarrow> r \<in> set rows \<Longrightarrow> blobFSPath (ig_sha r) = ig_sha r @ ''.bin''"
  by (auto simp: rows_ok_def)

lemma is_temp_tempPrefix [simp]: "is_temp (tempPrefix @ sfx)"
  by (simp add: is_temp_def)

lemma sha_name_not_temp: "\<not> is_temp (sha_name b)"
proof
  assume "is_temp (sha_name b)"
  then have "hd (sha_name b) = CHR ''.''"
    by (cases "sha_name b") (simp_all add: is_temp_def tempPrefix_def)
  moreover have "hd (sha_name b) \<noteq> CHR ''.''"
  proof -
    have "hex_val CHR ''.'' = None"
      by (simp add: hex_val_def Let_def)
    moreover have "EncodeToString (sha256 b) \<noteq> []"
    proof -
      have "length (EncodeToString (sha256 b)) = 64"
        by (simp add: length_sha256)
      then show ?thesis
        by (metis length_0_conv zero_neq_numeral)
    qed
    ultimately show ?thesis
      using EncodeToString_chars [of "hd (EncodeToString (sha256 b))" "sha256 b"] by (auto simp: sha_name_def)
  qed
  ultimately show False
    by simp
qed

lemma files_ok_update: "files_ok fs \<Longrightarrow> name = sha_name (bf_content f) \<or> is_temp name \<Longrightarrow> files_ok (AList.update name f fs)"
  by (induction fs) (auto simp: files_ok_def)

lemma files_ok_delete: "files_ok fs \<Longrightarrow> files_ok (AList.delete name fs)"
  by (auto simp: files_ok_def AList.delete_eq)

lemma images_kept: "d_images (display_step op db) = d_images db"
proof (cases op)
  case (OpSetManagedImage flt now sn img)
  have "d_images (snd (insert_playlist now op' name iv mode m db)) = d_images db" for op' name iv mode m db
    by (simp add: insert_playlist_def Let_def)
  then have "d_images (snd (upsert_managed now sn db)) = d_images db" for db
    by (auto simp: upsert_managed_def split: option.splits sum.splits prod.splits) (metis snd_conv)+
  then have "upsert_managed now sn db = (r, db') \<Longrightarrow> d_images db' = d_images db" for r db db'
    by (metis snd_conv)
  then show ?thesis
    unfolding OpSetManagedImage by (auto simp: SetManagedImage_def Let_def split: sum.split prod.split)
qed (simp_all add: CreatePlaylist_def insert_playlist_def UpdatePlaylist_def DeletePlaylist_def AddItem_def RemoveItem_def SetPolicy_def Reshuffle_def Reorder_def
      BindPlaylist_def UnbindPlaylist_def VariantPut_def GCVariantCache_def BindDevice_def Unbind_def DeleteDeviceBindings_def LastGoodPut_def ResolveCursor_def
      CreateFunction_def UpdateFunction_def SetEnabled_def SetWebhookToken_def DeleteFunction_def exec_function_def map_playlist_def map_function_def
      delete_playlists_def Let_def split: option.split prod.split)

named_theorems img_intros \<open>the elementary steps keep the image store well formed\<close>

lemma img_ok_files: "img_ok s \<Longrightarrow> files_ok fs \<Longrightarrow> is_dir s \<Longrightarrow> img_ok (s\<lparr>is_files := fs\<rparr>)"
  by (simp add: img_ok_def)

lemma img_ok_remove [img_intros]: "img_ok s \<Longrightarrow> img_ok (remove_file name s)"
  by (auto simp: img_ok_def remove_file_def files_ok_delete)

lemma img_ok_write [img_intros]:
  assumes "img_ok s" "name = sha_name data"
  shows "img_ok (snd (writeBlobAtomic fate sfx now name data s))"
proof -
  have "path_base name = name"
    using blobFSPath_sha [of "sha256 data"] by (simp add: assms(2) sha_name_def blobFSPath_def)
  then show ?thesis
    using assms by (auto simp: writeBlobAtomic_def Let_def img_ok_def intro!: files_ok_update split: write_fate.split)
qed

lemma write_frame:
  "is_db (snd (writeBlobAtomic fate sfx now name data s)) = is_db s \<and> is_rows (snd (writeBlobAtomic fate sfx now name data s)) = is_rows s"
  by (simp add: writeBlobAtomic_def Let_def split: write_fate.split)

lemma display_ok_images:
  "display_ok db \<Longrightarrow> (\<And>it. it \<in> set (d_items db) \<Longrightarrow> images (it_image_id it) \<noteq> None) \<Longrightarrow> display_ok (db\<lparr>d_images := images\<rparr>)"
  by (auto simp: display_ok_def item_rows_ok_def)

lemma map_of_rows: "keyed ig_id rows n \<Longrightarrow> map_of (map (\<lambda>r. (ig_id r, ig_sha r)) rows) i \<noteq> None \<longleftrightarrow> i \<in> ig_id ` set rows"
  by (simp add: map_of_eq_None_iff comp_def image_image)

lemma item_images: "display_ok db \<Longrightarrow> it \<in> set (d_items db) \<Longrightarrow> d_images db (it_image_id it) \<noteq> None"
  by (simp add: display_ok_def item_rows_ok_def)

lemma put_row_ok [img_intros]:
  assumes ok: "img_ok s"
  shows "img_ok (snd (put_row env opk blob mime w h s))"
proof -
  let ?sha = "EncodeToString (sha256 blob)"
  let ?r = "\<lparr>ig_id = is_next s, ig_operator = opk, ig_sha = ?sha, ig_blob_path = ?sha @ ''.bin'', ig_mime = mime, ig_width = w,
    ig_height = h, ig_byte_size = length blob, ig_created_at = pe_now env\<rparr>"
  have rows: "rows_ok (is_rows s @ [?r]) (is_next s + 1)" if "\<not> (\<exists>q \<in> set (is_rows s). ig_sha q = ?sha)"
    using ok that keyed_append [of ig_id "is_rows s" "is_next s" ?r] by (auto simp: img_ok_def rows_ok_def)
  have "display_ok ((is_db s)\<lparr>d_images := map_of (map (\<lambda>r. (ig_id r, ig_sha r)) (is_rows s @ [?r]))\<rparr>)"
    using ok item_images [of "is_db s"] by (intro display_ok_images) (auto simp: img_ok_def map_add_def split: option.split)
  moreover have "rows_ok (is_rows s) (is_next s + 1)"
    using ok by (auto simp: img_ok_def rows_ok_def keyed_def)
  ultimately show ?thesis
    using ok rows by (auto simp: put_row_def Let_def set_rows_def img_ok_def)
qed

lemma PutImage_ok: "img_ok s \<Longrightarrow> img_ok (snd (PutImage env opk blob s))"
proof -
  assume ok: "img_ok s"
  have wr: "img_ok s2" if "writeBlobAtomic fate sfx now (EncodeToString (sha256 blob) @ ''.bin'') blob s1 = (r, s2)" "img_ok s1" for fate sfx now s1 r s2
    using img_ok_write [OF that(2) refl, of fate sfx now blob] that(1) by (simp add: sha_name_def)
  have row: "img_ok s1" if "put_row env opk blob mime w h s = (r, s1)" for mime w h r s1
    using put_row_ok [OF ok, of env opk blob mime w h] that by simp
  show ?thesis
    using ok wr row by (auto simp: PutImage_def Let_def split: option.split sum.split prod.split bool.split)
qed

lemma find_row_set: "find (\<lambda>r. ig_id r = i) rows = Some r \<Longrightarrow> r \<in> set rows \<and> ig_id r = i"
  by (auto simp: find_Some_iff)

lemma delete_row_ok: "img_ok s \<Longrightarrow> img_ok (snd (delete_row flt i s))"
proof -
  assume ok: "img_ok s"
  let ?rows = "filter (\<lambda>q. ig_id q \<noteq> i) (is_rows s)"
  have rows: "rows_ok ?rows (is_next s)"
    using ok by (auto simp: img_ok_def rows_ok_def keyed_filter distinct_map_filter)
  have "display_ok ((is_db s)\<lparr>d_images := map_of (map (\<lambda>r. (ig_id r, ig_sha r)) ?rows)\<rparr>)"
    if "\<not> (\<exists>it \<in> set (d_items (is_db s)). it_image_id it = i)"
  proof (rule display_ok_images)
    show "display_ok (is_db s)"
      using ok by (simp add: img_ok_def)
    fix it assume it: "it \<in> set (d_items (is_db s))"
    then have "it_image_id it \<in> ig_id ` set (is_rows s)" "it_image_id it \<noteq> i"
      using item_images [of "is_db s" it] ok that map_of_rows [of "is_rows s" "is_next s"] by (auto simp: img_ok_def rows_ok_def)
    then have "it_image_id it \<in> ig_id ` set ?rows"
      by auto
    then show "map_of (map (\<lambda>r. (ig_id r, ig_sha r)) ?rows) (it_image_id it) \<noteq> None"
      using map_of_rows [of ?rows "is_next s"] rows by (simp add: rows_ok_def)
  qed
  then show ?thesis
    using ok rows by (auto simp: delete_row_def set_rows_def img_ok_def split: option.split)
qed

lemma delete_blob_ok: "img_ok s \<Longrightarrow> img_ok (snd (delete_blob fate sha s))"
  by (auto simp: delete_blob_def intro: img_ok_remove split: remove_fate.split)

lemma DeleteImage_ok: "img_ok s \<Longrightarrow> img_ok (snd (DeleteImage flt fate i s))"
  using delete_row_ok [of s flt i] delete_blob_ok by (auto simp: DeleteImage_def split: sum.split prod.split)

lemma DeleteImageManagedAware_ok: "img_ok s \<Longrightarrow> img_ok (snd (DeleteImageManagedAware flt fate i s))"
proof -
  assume ok: "img_ok s"
  have "img_ok (s\<lparr>is_db := delete_playlists P ((is_db s)\<lparr>d_cursors := c\<rparr>)\<rparr>)" for P c
    using ok by (auto simp: img_ok_def)
  then have "img_ok t" if "delete_row False i (s\<lparr>is_db := delete_playlists P ((is_db s)\<lparr>d_cursors := c\<rparr>)\<rparr>) = (Inr sha, t)" for P c sha t
    using delete_row_ok that by (metis snd_conv)
  then show ?thesis
    using ok delete_blob_ok by (auto simp: DeleteImageManagedAware_def Let_def split: sum.split prod.split)
qed

text \<open>A sweep only removes files, and none whose name is a known digest.\<close>

lemma sweep_entry_cases:
  assumes "sweep_entry env grace known n acc = Some acc'"
  obtains (keep) "snd (snd acc') = snd (snd acc)"
  | (remove) "snd (snd acc') = remove_file n (snd (snd acc))" "\<forall>sha \<in> known. is_temp n \<or> n \<noteq> sha @ ''.bin''"
proof -
  obtain removed onDisk s where acc: "acc = (removed, onDisk, s)"
    by (cases acc)
  have cut: "CutSuffix ''.bin'' (sha @ ''.bin'') = Some sha" for sha
    by (simp add: CutSuffix_def)
  show ?thesis
  proof (cases "is_temp n")
    case True
    then show ?thesis
      using assms that by (auto simp: acc sweep_entry_def Let_def split: if_splits)
  next
    case False
    show ?thesis
    proof (cases "CutSuffix ''.bin'' n")
      case None
      then show ?thesis
        using assms that False by (simp add: acc sweep_entry_def)
    next
      case (Some sha)
      have "\<forall>k \<in> known. n \<noteq> k @ ''.bin''" if "sha \<notin> known"
        using that Some cut by auto
      then show ?thesis
        using assms that False Some by (auto simp: acc sweep_entry_def Let_def split: if_splits)
    qed
  qed
qed

definition swept :: "string set \<Rightarrow> img_state \<Rightarrow> img_state \<Rightarrow> bool" where
  "swept known s t \<longleftrightarrow> (\<exists>fs. t = s\<lparr>is_files := fs\<rparr> \<and> (files_ok (is_files s) \<longrightarrow> files_ok fs) \<and> (is_files s = [] \<longrightarrow> fs = []) \<and>
     (\<forall>sha \<in> known. \<not> is_temp (sha @ ''.bin'') \<longrightarrow> map_of fs (sha @ ''.bin'') = map_of (is_files s) (sha @ ''.bin'')))"

lemma swept_refl: "swept known s s"
  by (auto simp: swept_def intro!: exI [of _ "is_files s"])

lemma swept_trans: "swept known s t \<Longrightarrow> swept known t u \<Longrightarrow> swept known s u"
  by (auto simp: swept_def)

lemma swept_entry:
  assumes "sweep_entry env grace known n acc = Some acc'"
  shows "swept known (snd (snd acc)) (snd (snd acc'))"
  using assms
proof (cases rule: sweep_entry_cases)
  case remove
  then show ?thesis
    unfolding swept_def by (intro exI [of _ "AList.delete n (is_files (snd (snd acc)))"]) (auto simp: remove_file_def files_ok_delete delete_conv)
qed (simp add: swept_refl)

lemma swept_entries: "swept known (snd (snd acc)) (snd (snd (snd (sweep_entries env grace known ns acc))))"
proof (induction ns arbitrary: acc)
  case (Cons n ns)
  then show ?case
    by (cases "sweep_entry env grace known n acc") (auto simp: swept_refl intro: swept_trans dest: swept_entry)
qed (simp add: swept_refl)

lemma swept_sweep: "swept (ig_sha ` set (is_rows s)) s (snd (SweepOrphanBlobs env grace s))"
  using swept_entries [of "ig_sha ` set (is_rows s)" "(0, [], s)" env grace "sort (map fst (is_files s))"]
  by (auto simp: SweepOrphanBlobs_def Let_def swept_refl split: prod.split bool.split)

lemma SweepOrphanBlobs_ok: "img_ok s \<Longrightarrow> img_ok (snd (SweepOrphanBlobs env grace s))"
  using swept_sweep [of s env grace] by (auto simp: swept_def img_ok_def)

interpretation images: invariant_run img_step "\<lambda>op. True" img_ok
proof
  fix op s
  assume ok: "img_ok s"
  show "img_ok (img_step op s)"
  proof (cases op)
    case (OpDisplay d)
    have "display_ok (display_step d (is_db s))"
      using ok by (intro display.step_I) (simp_all add: img_ok_def)
    then show ?thesis
      using ok by (simp add: OpDisplay img_ok_def images_kept)
  qed (use ok in \<open>simp_all add: PutImage_ok DeleteImage_ok DeleteImageManagedAware_ok SweepOrphanBlobs_ok\<close>)
qed

section \<open>Durability\<close>

definition stored :: "image_row \<Rightarrow> img_state \<Rightarrow> bool" where
  "stored r s \<longleftrightarrow> r \<in> set (is_rows s) \<and> map_of (is_files s) (ig_sha r @ ''.bin'') \<noteq> None"

fun deletes :: "int \<Rightarrow> img_op \<Rightarrow> bool" where
  "deletes i (OpDeleteImage _ _ j) = (i = j)"
| "deletes i (OpDeleteManaged _ _ j) = (i = j)"
| "deletes i _ = False"

lemma sha_rowE:
  assumes "img_ok s" "r \<in> set (is_rows s)"
  obtains b where "ig_sha r = EncodeToString (sha256 b)" "ig_sha r @ ''.bin'' = sha_name b" "\<not> is_temp (ig_sha r @ ''.bin'')"
  using assms sha_name_not_temp by (auto simp: img_ok_def rows_ok_def sha_name_def)

lemma row_keys:
  assumes "img_ok s" "r \<in> set (is_rows s)" "q \<in> set (is_rows s)"
  shows "ig_id r = ig_id q \<longleftrightarrow> r = q" "ig_sha r = ig_sha q \<longleftrightarrow> r = q"
  using assms by (auto simp: img_ok_def rows_ok_def keyed_def distinct_map inj_on_def)

text \<open>What a stored image yields: the blob that is read has the digest of the row.\<close>

lemma stored_LoadBlob:
  assumes "img_ok s" "stored r s"
  shows "\<exists>b. LoadBlob False False (ig_id r) s = Inr (b, r) \<and> EncodeToString (sha256 b) = ig_sha r"
proof -
  obtain f where f: "map_of (is_files s) (ig_sha r @ ''.bin'') = Some f" and r: "r \<in> set (is_rows s)"
    using assms(2) by (auto simp: stored_def)
  have "find (\<lambda>q. ig_id q = ig_id r) (is_rows s) = Some r"
    using assms(1) r keyed_find [of ig_id "is_rows s" "is_next s" r] by (simp add: img_ok_def rows_ok_def)
  moreover have "blobFSPath (ig_sha r) = ig_sha r @ ''.bin''"
    using assms(1) r blobFSPath_row by (auto simp: img_ok_def)
  moreover have "ig_sha r @ ''.bin'' = sha_name (bf_content f)"
    using assms(1) map_of_SomeD [OF f] sha_rowE [OF assms(1) r] unfolding img_ok_def files_ok_def by blast
  ultimately show ?thesis
    using f by (auto simp: LoadBlob_def GetImage_def sha_name_def)
qed

lemma stored_write: "stored r s \<Longrightarrow> stored r (snd (writeBlobAtomic fate sfx now name data s))"
  by (auto simp: stored_def writeBlobAtomic_def Let_def update_conv' split: write_fate.split)

lemma stored_put_row: "stored r s \<Longrightarrow> stored r (snd (put_row env opk blob mime w h s))"
  by (auto simp: stored_def put_row_def Let_def set_rows_def)

lemma stored_PutImage: "stored r s \<Longrightarrow> stored r (snd (PutImage env opk blob s))"
proof -
  assume st: "stored r s"
  have wr: "stored r s2" if "writeBlobAtomic fate sfx now name data s1 = (res, s2)" "stored r s1" for fate sfx now name data s1 res s2
    using stored_write [OF that(2), of fate sfx now name data] that(1) by simp
  have row: "stored r s1" if "put_row env opk blob mime w h s = (res, s1)" for mime w h res s1
    using stored_put_row [OF st, of env opk blob mime w h] that by simp
  show ?thesis
    using st wr row by (auto simp: PutImage_def Let_def split: option.split sum.split prod.split bool.split)
qed

lemma delete_row_InrE:
  assumes "delete_row flt i s = (Inr sha, t)"
  obtains q where "q \<in> set (is_rows s)" "ig_id q = i" "sha = ig_sha q" "is_rows t = filter (\<lambda>q. ig_id q \<noteq> i) (is_rows s)" "is_files t = is_files s"
  using assms find_row_set [of i "is_rows s"] by (auto simp: delete_row_def set_rows_def split: if_splits option.splits)

lemma stored_delete:
  assumes ok: "img_ok s" and st: "stored r s" and i: "ig_id r \<noteq> i" and row: "delete_row flt i s = (Inr sha, t)"
  shows "stored r (snd (delete_blob fate sha t))"
proof -
  obtain q where q: "q \<in> set (is_rows s)" "ig_id q = i" "sha = ig_sha q"
    and t: "is_rows t = filter (\<lambda>q. ig_id q \<noteq> i) (is_rows s)" "is_files t = is_files s"
    using delete_row_InrE [OF row] by blast
  have r: "r \<in> set (is_rows s)"
    using st by (simp add: stored_def)
  then have "ig_sha r \<noteq> sha"
    using row_keys [OF ok r q(1)] i q by auto
  moreover have "blobFSPath sha = sha @ ''.bin''"
    using ok q blobFSPath_row by (auto simp: img_ok_def)
  ultimately show ?thesis
    using st t i by (auto simp: stored_def delete_blob_def remove_file_def delete_conv split: remove_fate.split)
qed

lemma stored_kept:
  assumes ok: "img_ok s" and st: "stored r s" and del: "\<not> deletes (ig_id r) op"
  shows "stored r (img_step op s)"
proof (cases op)
  case (OpDeleteImage flt fate i)
  have "stored r t" if "delete_row flt i s = (Inl e, t)" for e t
    using that st by (auto simp: delete_row_def split: if_splits option.splits)
  then show ?thesis
    using del stored_delete [OF ok st, of i flt] by (auto simp: OpDeleteImage DeleteImage_def split: sum.split prod.split)
next
  case (OpDeleteManaged flt fate i)
  have "stored r (snd (delete_blob fate sha t))" if "delete_row False i (s\<lparr>is_db := delete_playlists P ((is_db s)\<lparr>d_cursors := c\<rparr>)\<rparr>) = (Inr sha, t)" for P c sha t
  proof (rule stored_delete [OF _ _ _ that])
    show "img_ok (s\<lparr>is_db := delete_playlists P ((is_db s)\<lparr>d_cursors := c\<rparr>)\<rparr>)"
      using ok by (auto simp: img_ok_def)
  qed (use st del in \<open>simp_all add: stored_def OpDeleteManaged\<close>)
  then show ?thesis
    using st by (auto simp: OpDeleteManaged DeleteImageManagedAware_def Let_def split: sum.split prod.split)
next
  case (OpSweep env grace)
  have r: "r \<in> set (is_rows s)"
    using st by (simp add: stored_def)
  then have temp: "\<not> is_temp (ig_sha r @ ''.bin'')" "ig_sha r \<in> ig_sha ` set (is_rows s)"
    using sha_rowE [OF ok r] by blast+
  obtain fs where fs: "snd (SweepOrphanBlobs env grace s) = s\<lparr>is_files := fs\<rparr>"
    "\<forall>sha \<in> ig_sha ` set (is_rows s). \<not> is_temp (sha @ ''.bin'') \<longrightarrow> map_of fs (sha @ ''.bin'') = map_of (is_files s) (sha @ ''.bin'')"
    using swept_sweep [of s env grace] unfolding swept_def by blast
  have "map_of fs (ig_sha r @ ''.bin'') = map_of (is_files s) (ig_sha r @ ''.bin'')"
    using bspec [OF fs(2) temp(2)] temp(1) by simp
  then show ?thesis
    using st by (simp add: OpSweep stored_def fs(1))
qed (use st in \<open>simp_all add: stored_PutImage\<close>, simp add: stored_def)

lemma stored_run: "img_ok s \<Longrightarrow> stored r s \<Longrightarrow> list_all (\<lambda>op. \<not> deletes (ig_id r) op) ops \<Longrightarrow> stored r (run img_step ops s)"
  by (induction ops arbitrary: s) (simp_all add: stored_kept images.step_I)

lemma write_success: "writeBlobAtomic fate sfx now name data s = (Some True, t) \<Longrightarrow> is_rows t = is_rows s \<and> map_of (is_files t) (path_base name) \<noteq> None"
  by (auto simp: writeBlobAtomic_def Let_def update_conv' split: write_fate.splits if_splits)

lemma PutImage_stored:
  assumes "img_ok s" "\<not> pe_flt_stat env" "PutImage env opk blob s = (Some (Inr r), t)"
  shows "stored r t \<and> ig_sha r = EncodeToString (sha256 blob)"
proof -
  let ?sha = "EncodeToString (sha256 blob)"
  have by_sha: "stored r t \<and> ig_sha r = ?sha" if "GetImageBySha flt ?sha t = Inr r" "map_of (is_files t) (?sha @ ''.bin'') \<noteq> None" for flt t
    using that by (auto simp: GetImageBySha_def find_Some_iff stored_def split: if_splits option.splits)
  have base: "path_base (?sha @ ''.bin'') = ?sha @ ''.bin''"
    using blobFSPath_sha [of "sha256 blob"] by (simp add: blobFSPath_def)
  have new: "r \<in> set (is_rows s1) \<and> ig_sha r = ?sha" if "put_row env opk blob mime w h s = (Inr (Some r), s1)" for mime w h s1 r
    using that by (auto simp: put_row_def Let_def set_rows_def split: if_splits)
  have wrote: "is_rows t = is_rows s1 \<and> map_of (is_files t) (?sha @ ''.bin'') \<noteq> None"
    if "writeBlobAtomic (pe_fate env) (pe_suffix env) (pe_now env) (?sha @ ''.bin'') blob s1 = (Some True, t)" for s1 t
    using write_success [OF that] base by simp
  obtain mime w h where sniff: "sniff (pe_decode env) blob = Some (mime, w, h)" "\<not> wrap64 (w * h) > MaxImagePixels"
    using assms(3) by (auto simp: PutImage_def split: option.splits if_splits)
  obtain res s1 where row: "put_row env opk blob mime w h s = (res, s1)"
    by fastforce
  show ?thesis
  proof (cases res)
    case (Inl e)
    then show ?thesis
      using assms(3) sniff row by (simp add: PutImage_def)
  next
    case (Inr q)
    show ?thesis
    proof (cases q)
      case None
      show ?thesis
      proof (cases "map_of (is_files s1) (?sha @ ''.bin'')")
        case None
        then show ?thesis
          using assms(2,3) sniff row Inr \<open>q = None\<close> wrote [of s1] by_sha [of "pe_flt_get env"]
          by (auto simp: PutImage_def Let_def split: prod.splits option.splits bool.splits)
      next
        case (Some f)
        then show ?thesis
          using assms(2,3) sniff row Inr \<open>q = None\<close> by_sha [of "pe_flt_get env" t] by (auto simp: PutImage_def Let_def)
      qed
    next
      case (Some r')
      then show ?thesis
        using assms(3) sniff row Inr wrote [of s1] new [of mime w h r' s1]
        by (auto simp: PutImage_def Let_def stored_def split: if_splits prod.splits option.splits bool.splits)
    qed
  qed
qed


definition example_put :: put_env where
  "example_put = \<lparr>pe_decode = (\<lambda>_. Some (''png'', 4, 4)), pe_now = 7, pe_flt_insert = False, pe_flt_get = False, pe_flt_stat = False,
     pe_died = False, pe_fate = WroteAll, pe_suffix = ''x''\<rparr>"

definition example_sweep :: sweep_env where
  "example_sweep = \<lparr>sv_flt_rows = False, sv_flt_read = False, sv_no_info = (\<lambda>_. False), sv_no_remove = (\<lambda>_. False), sv_now = 100000\<rparr>"


text \<open>
  A deletion and an upload of the same bytes, interleaved: both succeed, and the new row has no blob.  (The deletion removes the file after its
  transaction; the upload has inserted its row and written the file in between.)\<close>

lemma delete_put_race:
  assumes "img_ok s" "delete_row False i s = (Inr (EncodeToString (sha256 blob)), s1)" "put_row env opk blob mime w h s1 = (Inr (Some r), s2)"
    and "writeBlobAtomic WroteAll sfx now (EncodeToString (sha256 blob) @ ''.bin'') blob s2 = (Some True, s3)"
    and "delete_blob Removed (EncodeToString (sha256 blob)) s3 = (Some None, s4)"
  shows "LoadBlob False False (ig_id r) s4 = Inl ImgFailed"
proof -
  have ok: "img_ok s2"
    using delete_row_ok [OF assms(1), of False i] put_row_ok [of s1 env opk blob mime w h] assms(2,3) by simp
  have r: "r \<in> set (is_rows s2)" "ig_sha r = EncodeToString (sha256 blob)"
    using assms(3) by (auto simp: put_row_def Let_def set_rows_def split: if_splits)
  then have "find (\<lambda>q. ig_id q = ig_id r) (is_rows s2) = Some r"
    using ok keyed_find [of ig_id "is_rows s2" "is_next s2" r] by (simp add: img_ok_def rows_ok_def)
  moreover have "is_rows s4 = is_rows s2" "map_of (is_files s4) (ig_sha r @ ''.bin'') = None"
    using assms(4,5) write_success [OF assms(4)] r(2) by (auto simp: delete_blob_def remove_file_def delete_conv)
  ultimately show ?thesis
    using r(2) by (simp add: LoadBlob_def GetImage_def)
qed

end
