(* ===== verification/Template_Text.thy ===== *)
theory Template_Text
  imports Go_Net "HOL-Library.Multiset" "HOL-Library.List_Lexorder" "HOL-Library.Char_ord"
begin

text \<open>
  Parameter substitution of templates (\<open>templatestore/substitute.go\<close>): the check of the values against the schema of the template,
  the splicing of the \<open>{{name}}\<close> tokens, and the scan for tokens left over.

  The decoded schema is the result of \<open>json.Unmarshal\<close>, a parameter; so are \<open>url.Parse\<close> (its \<open>Host\<close>) and \<open>strconv.ParseFloat\<close> (whether it
  accepts).  A JSON number is kept as the text that \<open>fmt.Sprint\<close> prints for its float.  A Go map is an association list of distinct
  keys; \<open>order\<close> is the order in which a range loop visits it.
\<close>

section \<open>Values\<close>

datatype json = JNull | JBool bool | JNumber string | JString string | JArray "json list" | JObject "(string \<times> json) list"

text \<open>\<open>fmt.Sprint\<close> of a decoded value; a map is printed in the order of its keys.\<close>

fun Sprint :: "json \<Rightarrow> string" where
  "Sprint JNull = ''<nil>''"
| "Sprint (JBool b) = (if b then ''true'' else ''false'')"
| "Sprint (JNumber n) = n"
| "Sprint (JString s) = s"
| "Sprint (JArray vs) = ''['' @ join '' '' (map Sprint vs) @ '']''"
| "Sprint (JObject kvs) = ''map['' @ join '' '' (map (\<lambda>(k, v). k @ '':'' @ v) (sort_key fst (map (\<lambda>(k, v). (k, Sprint v)) kvs))) @ '']''"

record param_spec =
  ps_name :: string
  ps_type :: string
  ps_required :: bool
  ps_default :: "json option"
  ps_options :: "string list"

record text_env =
  te_schema :: "string \<Rightarrow> param_spec list option"
  te_url_host :: "string \<Rightarrow> string option"
  te_float :: "string \<Rightarrow> bool"

datatype substitute_error = UnknownParam | MissingParam | UnresolvedPlaceholder | EgressHostMismatch | InvalidParam | ConfigDefect

section \<open>Type checks\<close>

text \<open>\<open>u.Hostname()\<close>: the \<open>Host\<close> without a port and without brackets.\<close>

definition validOptionalPort :: "string \<Rightarrow> bool" where
  "validOptionalPort p \<longleftrightarrow> p = [] \<or> (hd p = CHR '':'' \<and> list_all is_digit (tl p))"

definition Hostname :: "string \<Rightarrow> string" where
  "Hostname hp =
     (let host = (case cut_last CHR '':'' hp of
                    Some (front, port) \<Rightarrow> if validOptionalPort (CHR '':'' # port) then front else hp
                  | None \<Rightarrow> hp)
      in if host \<noteq> [] \<and> hd host = CHR ''['' \<and> last host = CHR '']'' then butlast (tl host) else host)"

definition urlHost :: "text_env \<Rightarrow> string \<Rightarrow> string option" where
  "urlHost env raw =
     (let raw = TrimSpace raw in
      if raw = [] then None
      else case te_url_host env raw of
        None \<Rightarrow> None
      | Some h \<Rightarrow>
          (case (if h = [] then te_url_host env (''//'' @ raw) else Some h) of
             None \<Rightarrow> None
           | Some h \<Rightarrow> if Hostname h = [] then None else Some (Hostname h)))"

definition hostOf :: "string \<Rightarrow> string" where
  "hostOf hostport = (case SplitHostPort hostport of Some (h, _) \<Rightarrow> h | None \<Rightarrow> hostport)"

definition hostInAllowlist :: "string \<Rightarrow> string list \<Rightarrow> bool" where
  "hostInAllowlist host allow \<longleftrightarrow> list_ex (\<lambda>entry. hostOf entry = host) allow"

definition isNumeric :: "text_env \<Rightarrow> json \<Rightarrow> bool" where
  "isNumeric env v = (case v of JNumber _ \<Rightarrow> True | JString s \<Rightarrow> te_float env (TrimSpace s) | _ \<Rightarrow> False)"

definition checkParamType :: "text_env \<Rightarrow> param_spec \<Rightarrow> json \<Rightarrow> string list \<Rightarrow> substitute_error option" where
  "checkParamType env s v egressAllow =
     (if ps_type s = ''url'' then
        (case v of
           JString str \<Rightarrow>
             (case urlHost env str of
                None \<Rightarrow> Some InvalidParam
              | Some host \<Rightarrow> if \<not> hostInAllowlist host egressAllow then Some EgressHostMismatch else None)
         | _ \<Rightarrow> Some InvalidParam)
      else if ps_type s = ''number'' then (if \<not> isNumeric env v then Some InvalidParam else None)
      else if ps_type s = ''enum'' then (if Sprint v \<notin> set (ps_options s) then Some InvalidParam else None)
      else None)"

section \<open>Splicing\<close>

definition token :: "string \<Rightarrow> string" where "token name = ''{{'' @ name @ ''}}''"

text \<open>
  \<open>strings.NewReplacer(pairs...).Replace\<close>: one pass from the left; where several of the old strings match, the first in the order of the
  arguments is replaced.
\<close>

fun Replace :: "(string \<times> string) list \<Rightarrow> string \<Rightarrow> string" where
  "Replace pairs [] = []"
| "Replace pairs (c # cs) =
     (case find (\<lambda>(old, _). take (length old) (c # cs) = old) pairs of
        None \<Rightarrow> c # Replace pairs cs
      | Some (old, new) \<Rightarrow> new @ Replace pairs (drop (length old - 1) cs))"

definition spliceTokens :: "((string \<times> json) list \<Rightarrow> (string \<times> json) list) \<Rightarrow> string \<Rightarrow> (string \<times> json) list \<Rightarrow> string" where
  "spliceTokens order source vals =
     (if vals = [] then source else Replace (map (\<lambda>(name, v). (token name, Sprint v)) (order vals)) source)"

text \<open>The regular expression \<open>\{\{[^{}]*\}\}\<close>: its match at the start of a text, and \<open>FindString\<close>.\<close>

definition brace :: "char \<Rightarrow> bool" where "brace c \<longleftrightarrow> c = CHR ''{'' \<or> c = CHR ''}''"

definition placeholder_at :: "string \<Rightarrow> string option" where
  "placeholder_at s =
     (if take 2 s = ''{{'' then
        let name = takeWhile (\<lambda>c. \<not> brace c) (drop 2 s); after = dropWhile (\<lambda>c. \<not> brace c) (drop 2 s)
        in if take 2 after = ''}}'' then Some name else None
      else None)"

fun FindPlaceholder :: "string \<Rightarrow> string option" where
  "FindPlaceholder [] = None"
| "FindPlaceholder (c # cs) =
     (case placeholder_at (c # cs) of Some name \<Rightarrow> Some (token name) | None \<Rightarrow> FindPlaceholder cs)"

section \<open>Substitution\<close>

text \<open>The loop over the schema: a default fills a value that was not provided.\<close>

fun effective :: "text_env \<Rightarrow> string list \<Rightarrow> param_spec list \<Rightarrow> (string \<times> json) list \<Rightarrow> substitute_error + (string \<times> json) list" where
  "effective env allow [] vals = Inr vals"
| "effective env allow (s # ss) vals =
     (case (case map_of vals (ps_name s) of Some v \<Rightarrow> Inr (Some v, vals)
            | None \<Rightarrow> (case ps_default s of
                Some d \<Rightarrow> Inr (Some d, vals @ [(ps_name s, d)])
              | None \<Rightarrow> if ps_required s then Inl MissingParam else Inr (None, vals))) of
        Inl e \<Rightarrow> Inl e
      | Inr (None, vals) \<Rightarrow> effective env allow ss vals
      | Inr (Some v, vals) \<Rightarrow> (case checkParamType env s v allow of Some e \<Rightarrow> Inl e | None \<Rightarrow> effective env allow ss vals))"

text \<open>The template is its schema text, its source and its allow-list.\<close>

definition Substitute ::
  "text_env \<Rightarrow> ((string \<times> json) list \<Rightarrow> (string \<times> json) list) \<Rightarrow> string \<Rightarrow> string \<Rightarrow> string list \<Rightarrow> (string \<times> json) list \<Rightarrow> substitute_error + string" where
  "Substitute env order schema source allow params =
     (case (if schema = [] then Some [] else te_schema env schema) of
        None \<Rightarrow> Inl ConfigDefect
      | Some specs \<Rightarrow>
          if \<not> set (map fst params) \<subseteq> set (map ps_name specs) then Inl UnknownParam
          else case effective env allow specs params of
            Inl e \<Rightarrow> Inl e
          | Inr vals \<Rightarrow>
              (let out = spliceTokens order source vals in
               if FindPlaceholder out \<noteq> None then Inl UnresolvedPlaceholder else Inr out))"

section \<open>Splicing instantiates the placeholders\<close>

text \<open>The reference: every placeholder of the text, in the sense of the regular expression, gives way to its value.\<close>

fun instantiate :: "(string \<rightharpoonup> string) \<Rightarrow> string \<Rightarrow> string" where
  "instantiate vals [] = []"
| "instantiate vals (c # cs) =
     (case placeholder_at (c # cs) of
        None \<Rightarrow> c # instantiate vals cs
      | Some name \<Rightarrow> (case vals name of Some v \<Rightarrow> v | None \<Rightarrow> token name) @ instantiate vals (drop (length (token name) - 1) cs))"

definition plain :: "string \<Rightarrow> bool" where "plain name \<longleftrightarrow> list_all (\<lambda>c. \<not> brace c) name"

lemma length_token [simp]: "length (token name) = length name + 4"
  by (simp add: token_def)

lemma placeholder_at_iff: "placeholder_at s = Some name \<longleftrightarrow> plain name \<and> take (length (token name)) s = token name"
proof
  assume "placeholder_at s = Some name"
  then have s: "take 2 s = ''{{''" "name = takeWhile (\<lambda>c. \<not> brace c) (drop 2 s)" "take 2 (dropWhile (\<lambda>c. \<not> brace c) (drop 2 s)) = ''}}''"
    by (auto simp: placeholder_at_def Let_def split: if_splits)
  have "s = take 2 s @ name @ dropWhile (\<lambda>c. \<not> brace c) (drop 2 s)"
    using s(2) by simp
  also have "\<dots> = ''{{'' @ name @ ''}}'' @ drop 2 (dropWhile (\<lambda>c. \<not> brace c) (drop 2 s))"
    using s(1,3) by (metis append_take_drop_id)
  finally have "s = token name @ drop 2 (dropWhile (\<lambda>c. \<not> brace c) (drop 2 s))"
    by (simp add: token_def)
  then have "take (length (token name)) s = token name"
    by (metis append_eq_conv_conj)
  moreover have "plain name"
    using s(2) by (auto simp: plain_def list_all_iff dest: set_takeWhileD)
  ultimately show "plain name \<and> take (length (token name)) s = token name"
    by simp
next
  assume *: "plain name \<and> take (length (token name)) s = token name"
  then obtain r where "s = token name @ r"
    by (metis append_take_drop_id)
  moreover have "takeWhile (\<lambda>c. \<not> brace c) (name @ CHR ''}'' # t) = name" "dropWhile (\<lambda>c. \<not> brace c) (name @ CHR ''}'' # t) = CHR ''}'' # t" for t
    using * by (simp_all add: plain_def list_all_iff brace_def)
  ultimately show "placeholder_at s = Some name"
    by (simp add: placeholder_at_def token_def)
qed

lemma token_inj [simp]: "token a = token b \<longleftrightarrow> a = b"
  by (simp add: token_def)

text \<open>Which pair the replacer takes does not depend on the order of the pairs.\<close>

lemma find_token:
  assumes names: "\<forall>(n, v) \<in> set vals. plain n" and dist: "distinct (map fst vals)"
  shows "find (\<lambda>(old, _). take (length old) s = old) (map (\<lambda>(n, v). (token n, f v)) vals) =
    (case placeholder_at s of None \<Rightarrow> None | Some n \<Rightarrow> map_option (\<lambda>v. (token n, f v)) (map_of vals n))"
proof -
  have at: "take (length (token n)) s = token n \<longleftrightarrow> placeholder_at s = Some n" if "(n, v) \<in> set vals" for n v
    using names that placeholder_at_iff [of s n] by auto
  have eq: "find (\<lambda>(old, _). take (length old) s = old) (map (\<lambda>(n, v). (token n, f v)) vs) =
      map_option (\<lambda>(n, v). (token n, f v)) (find (\<lambda>(n, v). placeholder_at s = Some n) vs)" if "set vs \<subseteq> set vals" for vs
    using that by (induction vs) (auto simp: at simp del: length_token)
  show ?thesis
  proof (cases "placeholder_at s")
    case None
    then have "find (\<lambda>(n, v). placeholder_at s = Some n) vals = None"
      by (simp add: find_None_iff split_beta)
    then show ?thesis
      using eq None by simp
  next
    case (Some n)
    have "find (\<lambda>(m, v). Some n = Some m) vs = map_option (Pair n) (map_of vs n)" for vs :: "(string \<times> 'a) list"
      by (induction vs) auto
    then show ?thesis
      using eq [OF order_refl] Some by (simp add: option.map_comp comp_def)
  qed
qed

text \<open>Inside a placeholder there is no other one, so a placeholder without a value is copied as it is.\<close>

lemma placeholder_first: "placeholder_at s = Some n \<Longrightarrow> \<exists>r. s = token n @ r \<and> plain n"
  unfolding placeholder_at_iff by (metis append_take_drop_id)

lemma placeholder_brace: "c \<noteq> CHR ''{'' \<Longrightarrow> placeholder_at (c # cs) = None"
  by (cases cs) (auto simp: placeholder_at_def)

lemma placeholder_single: "d \<noteq> CHR ''{'' \<Longrightarrow> placeholder_at (c # d # cs) = None"
  by (simp add: placeholder_at_def)

lemma Replace_plain:
  assumes "\<forall>(n, v) \<in> set vals. plain n" "distinct (map fst vals)"
    and "\<forall>k < length pre. placeholder_at (drop k pre @ r) = None"
  shows "Replace (map (\<lambda>(n, v). (token n, f v)) vals) (pre @ r) = pre @ Replace (map (\<lambda>(n, v). (token n, f v)) vals) r"
  using assms(3)
proof (induction pre)
  case (Cons c pre)
  have "placeholder_at (c # pre @ r) = None"
    using Cons.prems by (force dest: spec [of _ 0])
  moreover have "\<forall>k < length pre. placeholder_at (drop k pre @ r) = None"
    using Cons.prems by (metis Suc_less_eq drop_Suc_Cons length_Cons)
  ultimately show ?case
    using Cons.IH by (simp add: find_token [OF assms(1,2)])
qed simp

lemma token_tail:
  assumes "plain n" "0 < k" "k < length (token n)"
  shows "placeholder_at (drop k (token n) @ r) = None"
proof -
  consider "k = 1" | "2 \<le> k" "k < length n + 2" | "k = length n + 2" | "k = length n + 3"
    using assms by fastforce
  then show ?thesis
  proof cases
    case 1
    have "hd (n @ ''}}'' @ r) \<noteq> CHR ''{''"
      using assms(1) by (cases n) (auto simp: plain_def brace_def)
    then show ?thesis
      using 1 placeholder_single [of "hd (n @ ''}}'' @ r)" "CHR ''{''" "tl (n @ ''}}'' @ r)"] by (cases n) (auto simp: token_def)
  next
    case 2
    then obtain j where j: "k = Suc (Suc j)" "j < length n"
      by (metis Suc_le_D add_2_eq_Suc' eval_nat_numeral(3) not_less_eq numeral_2_eq_2 Suc_le_D Suc_le_mono)
    then have "drop k (token n) @ r = n ! j # drop (Suc j) n @ ''}}'' @ r"
      by (simp add: token_def Cons_nth_drop_Suc)
    moreover have "n ! j \<noteq> CHR ''{''"
      using assms(1) j(2) by (auto simp: plain_def list_all_iff brace_def)
    ultimately show ?thesis
      using placeholder_brace [of "n ! j"] by metis
  next
    case 3
    then show ?thesis
      by (simp add: token_def placeholder_brace)
  next
    case 4
    then show ?thesis
      by (simp add: token_def placeholder_brace drop_Cons' )
  qed
qed

lemma Replace_instantiate:
  assumes names: "\<forall>(n, v) \<in> set vals. plain n" and dist: "distinct (map fst vals)"
  shows "Replace (map (\<lambda>(n, v). (token n, f v)) vals) s = instantiate (\<lambda>n. map_option f (map_of vals n)) s"
proof (induction s rule: length_induct)
  case (1 s)
  let ?pairs = "map (\<lambda>(n, v). (token n, f v)) vals" and ?vals = "\<lambda>n. map_option f (map_of vals n)"
  show ?case
  proof (cases s)
    case (Cons c cs)
    show ?thesis
    proof (cases "placeholder_at s")
      case None
      then show ?thesis
        using 1 Cons by (simp add: find_token [OF names dist])
    next
      case (Some n)
      then obtain r where r: "s = token n @ r" and n: "plain n"
        using placeholder_first by blast
      have cs: "drop (length (token n) - 1) cs = r"
        using r Cons by (simp add: token_def)
      have IH: "Replace ?pairs r = instantiate ?vals r"
        using 1 r by simp
      show ?thesis
      proof (cases "map_of vals n")
        case None
        have "Replace ?pairs s = c # Replace ?pairs cs"
          using Some None Cons by (simp add: find_token [OF names dist])
        moreover have "cs = tl (token n) @ r" "c = hd (token n)"
          using r Cons by (auto simp: token_def)
        moreover have "Replace ?pairs (tl (token n) @ r) = tl (token n) @ Replace ?pairs r"
        proof (rule Replace_plain [OF names dist], intro allI impI)
          fix k
          assume "k < length (tl (token n))"
          then show "placeholder_at (drop k (tl (token n)) @ r) = None"
            using token_tail [OF n, of "Suc k" r] by (simp add: drop_Suc)
        qed
        moreover have "token n = hd (token n) # tl (token n)"
          by (simp add: token_def)
        ultimately have "Replace ?pairs s = token n @ Replace ?pairs r"
          by (metis append_Cons)
        moreover have "instantiate ?vals s = token n @ instantiate ?vals r"
          using Some None Cons cs by simp
        ultimately show ?thesis
          using IH by (simp only:)
      next
        case (Some v)
        then show ?thesis
          using \<open>placeholder_at s = Some n\<close> Cons cs IH by (simp add: find_token [OF names dist])
      qed
    qed
  qed simp
qed

lemma spliceTokens_instantiate:
  assumes "\<forall>(n, v) \<in> set vals. plain n" "distinct (map fst vals)" "mset (order vals) = mset vals"
  shows "spliceTokens order source vals = instantiate (\<lambda>n. map_option Sprint (map_of vals n)) source"
proof (cases "vals = []")
  case True
  have "instantiate Map.empty s = s" for s
  proof (induction s rule: length_induct)
    case (1 s)
    show ?case
    proof (cases s)
      case (Cons c cs)
      have "token n @ drop (length (token n) - 1) cs = s" if "placeholder_at s = Some n" for n
        using placeholder_first [OF that] Cons by (auto simp: token_def)
      then show ?thesis
        using 1 Cons by (auto split: option.split)
    qed simp
  qed
  then show ?thesis
    using True by (simp add: spliceTokens_def)
next
  case False
  have set: "set (order vals) = set vals"
    using assms(3) by (metis set_mset_mset)
  have "distinct (map fst (order vals))"
    using assms(2,3) by (metis mset_eq_imp_distinct_iff mset_map)
  moreover from this have "map_of (order vals) = map_of vals"
    using set assms(2) by (metis map_of_inject_set)
  ultimately show ?thesis
    using False assms(1) set by (simp add: spliceTokens_def Replace_instantiate)
qed

section \<open>What a substituted text is\<close>

lemma FindPlaceholder_None: "FindPlaceholder s = None \<longleftrightarrow> (\<nexists>a n b. s = a @ token n @ b \<and> plain n)"
proof (induction s)
  case (Cons c cs)
  have at: "placeholder_at (c # cs) = None \<longleftrightarrow> (\<nexists>n b. c # cs = token n @ b \<and> plain n)"
    using placeholder_first [of "c # cs"] placeholder_at_iff [of "c # cs"] by (metis append_eq_conv_conj not_None_eq)
  have "(\<exists>a n b. c # cs = a @ token n @ b \<and> plain n) \<longleftrightarrow>
      (\<exists>n b. c # cs = token n @ b \<and> plain n) \<or> (\<exists>a n b. cs = a @ token n @ b \<and> plain n)"
    by (metis append_Cons append_Nil list.inject neq_Nil_conv)
  then show ?case
    using Cons at by (auto split: option.split)
qed (simp add: token_def)

text \<open>The loop keeps what was provided, adds defaults only, and checks every value the schema declares.\<close>

definition well_typed :: "text_env \<Rightarrow> string list \<Rightarrow> param_spec \<Rightarrow> json \<Rightarrow> bool" where
  "well_typed env allow s v \<longleftrightarrow>
     (ps_type s = ''url'' \<longrightarrow> (\<exists>str host e. v = JString str \<and> urlHost env str = Some host \<and> host \<noteq> [] \<and> e \<in> set allow \<and>
        (e = host \<or> (\<exists>port. SplitHostPort e = Some (host, port))))) \<and>
     (ps_type s = ''number'' \<longrightarrow> (\<exists>t. v = JNumber t \<or> v = JString t \<and> te_float env (TrimSpace t))) \<and>
     (ps_type s = ''enum'' \<longrightarrow> Sprint v \<in> set (ps_options s))"

lemma urlHost_nonempty: "urlHost env str = Some h \<Longrightarrow> h \<noteq> []"
  by (auto simp: urlHost_def Let_def split: if_splits option.splits)

lemma hostOf_cases: "hostOf e = h \<Longrightarrow> e = h \<or> (\<exists>port. SplitHostPort e = Some (h, port))"
  by (auto simp: hostOf_def split: option.splits)

lemma checkParamType_None:
  assumes "checkParamType env s v allow = None"
  shows "well_typed env allow s v"
proof -
  have "\<exists>str host e. v = JString str \<and> urlHost env str = Some host \<and> host \<noteq> [] \<and> e \<in> set allow \<and> (e = host \<or> (\<exists>port. SplitHostPort e = Some (host, port)))"
    if "ps_type s = ''url''"
  proof -
    from assms that obtain str host where "v = JString str" "urlHost env str = Some host" "hostInAllowlist host allow"
      by (auto simp: checkParamType_def split: json.splits option.splits if_splits)
    then show ?thesis
      using urlHost_nonempty [of env str host] hostOf_cases by (auto simp: hostInAllowlist_def list_ex_iff)
  qed
  then show ?thesis
    using assms by (auto simp: checkParamType_def well_typed_def isNumeric_def split: if_splits json.splits)
qed

lemma map_of_keep: "map_of vals n = Some v \<Longrightarrow> map_of (vals @ added) n = Some v"
  by (simp add: map_add_def)

definition served :: "text_env \<Rightarrow> string list \<Rightarrow> (string \<times> json) list \<Rightarrow> (string \<times> json) list \<Rightarrow> param_spec \<Rightarrow> bool" where
  "served env allow vals vals' s \<longleftrightarrow>
     (map_of vals (ps_name s) \<noteq> None \<or> ps_default s \<noteq> None \<longrightarrow> (\<exists>v. map_of vals' (ps_name s) = Some v \<and> well_typed env allow s v)) \<and>
     (ps_required s \<longrightarrow> map_of vals' (ps_name s) \<noteq> None)"

lemma served_mono: "served env allow (vals @ ext) vals' s \<Longrightarrow> served env allow vals vals' s"
  using map_of_keep by (fastforce simp: served_def simp del: map_of_append)

definition defaults_of :: "param_spec list \<Rightarrow> (string \<times> json) list \<Rightarrow> bool" where
  "defaults_of ss added \<longleftrightarrow> (\<forall>(n, v) \<in> set added. \<exists>s \<in> set ss. ps_name s = n \<and> ps_default s = Some v)"

lemma effective_props:
  assumes "effective env allow ss vals = Inr vals'" "distinct (map fst vals)"
  shows "\<exists>added. vals' = vals @ added \<and> distinct (map fst vals') \<and> defaults_of ss added \<and> (\<forall>s \<in> set ss. served env allow vals vals' s)"
  using assms
proof (induction ss arbitrary: vals)
  case (Cons s ss)
  show ?case
  proof (cases "map_of vals (ps_name s)")
    case (Some v)
    then have ok: "checkParamType env s v allow = None" and rest: "effective env allow ss vals = Inr vals'"
      using Cons.prems(1) by (auto split: option.splits)
    from Cons.IH [OF rest Cons.prems(2)] obtain added where IH: "vals' = vals @ added" "distinct (map fst vals')" "defaults_of ss added"
      "\<forall>s \<in> set ss. served env allow vals vals' s"
      by blast
    have "served env allow vals vals' s"
      using map_of_keep [OF Some, of added] checkParamType_None [OF ok] by (simp add: served_def IH(1) del: map_of_append)
    then show ?thesis
      using IH by (auto simp: defaults_of_def)
  next
    case none: None
    show ?thesis
    proof (cases "ps_default s")
      case (Some d)
      then have d: "checkParamType env s d allow = None" "effective env allow ss (vals @ [(ps_name s, d)]) = Inr vals'"
        using Cons.prems(1) none by (auto split: option.splits)
      have "distinct (map fst (vals @ [(ps_name s, d)]))"
        using Cons.prems(2) none by (simp add: map_of_eq_None_iff)
      from Cons.IH [OF d(2) this] obtain added where IH: "vals' = (vals @ [(ps_name s, d)]) @ added" "distinct (map fst vals')"
        "defaults_of ss added" "\<forall>s' \<in> set ss. served env allow (vals @ [(ps_name s, d)]) vals' s'"
        by blast
      have "map_of vals' (ps_name s) = Some d"
        unfolding IH(1) by (rule map_of_keep) (use none in \<open>simp add: map_add_def\<close>)
      then have "served env allow vals vals' s"
        using checkParamType_None [OF d(1)] by (simp add: served_def)
      then show ?thesis
        using IH Some served_mono by (intro exI [of _ "(ps_name s, d) # added"]) (auto simp: defaults_of_def)
    next
      case None
      then have r: "\<not> ps_required s" "effective env allow ss vals = Inr vals'"
        using Cons.prems(1) none by (auto split: if_splits)
      have "served env allow vals vals' s"
        using r(1) None none by (simp add: served_def)
      then show ?thesis
        using Cons.IH [OF r(2) Cons.prems(2)] by (auto simp: defaults_of_def)
    qed
  qed
qed (simp add: defaults_of_def)


definition example_text_env :: text_env where
  "example_text_env = \<lparr>te_schema = (\<lambda>_. Some [\<lparr>ps_name = ''u'', ps_type = ''url'', ps_required = True, ps_default = None, ps_options = []\<rparr>,
       \<lparr>ps_name = ''n'', ps_type = ''number'', ps_required = False, ps_default = Some (JNumber ''5''), ps_options = []\<rparr>]),
     te_url_host = (\<lambda>s. if s = ''http://h:80/x'' then Some ''h:80'' else None), te_float = (\<lambda>_. False)\<rparr>"


end
