(* ===== verification/Templates.thy ===== *)
theory Templates
  imports Template_Text Display_Invariant C2_Delivery
begin

text \<open>
  Templates (\<open>templatestore\<close> and its HTTP handlers): the table, the seeding of the built-in catalog, the cache of previews, and the
  application of a template to devices.

  A column of type \<open>JSONB\<close> holds the text in which the database gives the value back; \<open>jsonb\<close> is that normal form of an input text,
  \<open>None\<close> where it is not JSON.  The description is such a column and is kept as its text.  A request body comes decoded.  The display
  tables are part of the state, since functions refer to templates.
\<close>

section \<open>The table\<close>

record template =
  tp_id :: int
  tp_name :: string
  tp_kind :: string
  tp_description :: string
  tp_source :: string
  tp_params :: string
  tp_egress_allow :: "string list"
  tp_secret_bindings :: "string list"
  tp_trigger_config :: "string option"
  tp_builtin :: bool
  tp_version :: int
  tp_created_at :: time
  tp_updated_at :: time

record template_state =
  ts_rows :: "template list"
  ts_next :: int
  ts_previews :: "int \<times> int \<rightharpoonup> bytes"
  ts_display :: display_db

record template_params =
  cr_name :: string
  cr_kind :: string
  cr_description :: string
  cr_source :: string
  cr_params :: string
  cr_egress_allow :: "string list option"
  cr_secret_bindings :: "string list option"
  cr_trigger_config :: string

datatype template_error = TmNotFound | TmScriptTooLong | TmInvalidName | TmInvalidKind | TmUniqueViolation | TmFailed

definition BerryScriptMax :: nat where "BerryScriptMax = 8191"

definition KindRenderFn :: string where "KindRenderFn = ''render_fn''"
definition KindBerrySnippet :: string where "KindBerrySnippet = ''berry_snippet''"
definition KindPlaylistPreset :: string where "KindPlaylistPreset = ''playlist_preset''"

definition builtinPrefix :: string where "builtinPrefix = ''builtin/''"

definition HasPrefix :: "string \<Rightarrow> string \<Rightarrow> bool" where "HasPrefix s p \<longleftrightarrow> take (length p) s = p"

text \<open>The name expression is that of playlists and functions.\<close>

definition ValidTemplateName :: "string \<Rightarrow> bool" where
  "ValidTemplateName name \<longleftrightarrow> ValidName name \<and> \<not> HasPrefix name builtinPrefix"

definition validKind :: "string \<Rightarrow> bool" where
  "validKind kind \<longleftrightarrow> kind = KindRenderFn \<or> kind = KindBerrySnippet \<or> kind = KindPlaylistPreset"

definition too_long :: "string \<Rightarrow> string \<Rightarrow> bool" where
  "too_long kind source \<longleftrightarrow> kind = KindBerrySnippet \<and> length source > BerryScriptMax"

definition coalesceParams :: "string \<Rightarrow> string" where "coalesceParams j = (if j = [] then ''[]'' else j)"

text \<open>The JSON columns of a row: \<open>None\<close> when the database refuses one of the texts.\<close>

definition json_columns :: "(string \<Rightarrow> string option) \<Rightarrow> template_params \<Rightarrow> (string \<times> string \<times> string option) option" where
  "json_columns jsonb p =
     (case (jsonb (cr_description p), jsonb (coalesceParams (cr_params p))) of
        (Some d, Some ps) \<Rightarrow>
          (if cr_trigger_config p = [] then Some (d, ps, None)
           else case jsonb (cr_trigger_config p) of None \<Rightarrow> None | Some t \<Rightarrow> Some (d, ps, Some t))
      | _ \<Rightarrow> None)"

definition template_row :: "bool \<Rightarrow> time \<Rightarrow> int \<Rightarrow> template_params \<Rightarrow> string \<times> string \<times> string option \<Rightarrow> template" where
  "template_row builtin now i p cols =
     \<lparr>tp_id = i, tp_name = cr_name p, tp_kind = cr_kind p, tp_description = fst cols, tp_source = cr_source p, tp_params = fst (snd cols),
      tp_egress_allow = coalesceSlice (cr_egress_allow p), tp_secret_bindings = coalesceSlice (cr_secret_bindings p),
      tp_trigger_config = snd (snd cols), tp_builtin = builtin, tp_version = 1, tp_created_at = now, tp_updated_at = now\<rparr>"

definition set_templates :: "template list \<Rightarrow> template_state \<Rightarrow> template_state" where
  "set_templates rows s = s\<lparr>ts_rows := rows, ts_display := (ts_display s)\<lparr>d_templates := tp_id ` set rows\<rparr>\<rparr>"

definition CreateTemplate :: "(string \<Rightarrow> string option) \<Rightarrow> bool \<Rightarrow> time \<Rightarrow> template_params \<Rightarrow> template_state \<Rightarrow> (template_error + int) \<times> template_state" where
  "CreateTemplate jsonb flt now p s =
     (if \<not> ValidTemplateName (cr_name p) then (Inl TmInvalidName, s)
      else if \<not> validKind (cr_kind p) then (Inl TmInvalidKind, s)
      else if too_long (cr_kind p) (cr_source p) then (Inl TmScriptTooLong, s)
      else if flt then (Inl TmFailed, s)
      else case json_columns jsonb p of
        None \<Rightarrow> (Inl TmFailed, s)
      | Some cols \<Rightarrow>
          if \<exists>r \<in> set (ts_rows s). tp_name r = cr_name p then (Inl TmUniqueViolation, s\<lparr>ts_next := ts_next s + 1\<rparr>)
          else (Inr (ts_next s), (set_templates (ts_rows s @ [template_row False now (ts_next s) p cols]) s)\<lparr>ts_next := ts_next s + 1\<rparr>))"

definition find_template :: "template_state \<Rightarrow> int \<Rightarrow> template option" where
  "find_template s i = find (\<lambda>r. tp_id r = i) (ts_rows s)"

text \<open>The mutable body of a row; the name and the kind of \<open>p\<close> are not used.\<close>

definition updated_row :: "time \<Rightarrow> template_params \<Rightarrow> string \<times> string \<times> string option \<Rightarrow> template \<Rightarrow> template" where
  "updated_row now p cols r =
     r\<lparr>tp_description := fst cols, tp_source := cr_source p, tp_params := fst (snd cols),
       tp_egress_allow := coalesceSlice (cr_egress_allow p), tp_secret_bindings := coalesceSlice (cr_secret_bindings p),
       tp_trigger_config := snd (snd cols), tp_version := tp_version r + 1, tp_updated_at := now\<rparr>"

definition UpdateTemplate ::
  "(string \<Rightarrow> string option) \<Rightarrow> bool \<Rightarrow> bool \<Rightarrow> time \<Rightarrow> int \<Rightarrow> template_params \<Rightarrow> template_state \<Rightarrow> (template_error + bool) \<times> template_state" where
  "UpdateTemplate jsonb flt1 flt2 now i p s =
     (if flt1 then (Inl TmFailed, s)
      else case find_template s i of
        None \<Rightarrow> (Inr False, s)
      | Some r \<Rightarrow>
          if too_long (tp_kind r) (cr_source p) then (Inl TmScriptTooLong, s)
          else if flt2 then (Inl TmFailed, s)
          else case json_columns jsonb p of
            None \<Rightarrow> (Inl TmFailed, s)
          | Some cols \<Rightarrow> (Inr True, set_templates (map (\<lambda>r. if tp_id r = i then updated_row now p cols r else r) (ts_rows s)) s))"

text \<open>The previews cascade; a function keeps living without its template (\<open>ON DELETE SET NULL\<close>).\<close>

definition DeleteTemplate :: "bool \<Rightarrow> int \<Rightarrow> template_state \<Rightarrow> (template_error + bool) \<times> template_state" where
  "DeleteTemplate flt i s =
     (if flt then (Inl TmFailed, s)
      else
        let s' = set_templates (filter (\<lambda>r. tp_id r \<noteq> i) (ts_rows s)) s;
            db = ts_display s'
        in (Inr (find_template s i \<noteq> None),
            s'\<lparr>ts_previews := (\<lambda>(j, v). if j = i then None else ts_previews s (j, v)),
               ts_display := db\<lparr>d_functions := map (\<lambda>f. if fn_template_id f = Some i then f\<lparr>fn_template_id := None\<rparr> else f) (d_functions db)\<rparr>\<rparr>))"

definition LoadTemplate :: "bool \<Rightarrow> int \<Rightarrow> template_state \<Rightarrow> template_error + template" where
  "LoadTemplate flt i s =
     (if flt then Inl TmFailed else case find_template s i of None \<Rightarrow> Inl TmNotFound | Some r \<Rightarrow> Inr r)"

definition template_page :: "string \<Rightarrow> int \<Rightarrow> int \<Rightarrow> template_state \<Rightarrow> template list" where
  "template_page kindFilter limit afterID s =
     (let limit = (if limit \<le> 0 \<or> limit > 200 then 200 else limit) in
      take (nat limit) (sort_key tp_id (filter (\<lambda>r. (kindFilter = [] \<or> tp_kind r = kindFilter) \<and> tp_id r > afterID) (ts_rows s))))"

text \<open>The projections of the two listings: id, name, kind, description, built-in, version, time, and the source of a snippet.\<close>

definition template_summary :: "template \<Rightarrow> int \<times> string \<times> string \<times> string \<times> bool \<times> int \<times> time" where
  "template_summary r = (tp_id r, tp_name r, tp_kind r, tp_description r, tp_builtin r, tp_version r, tp_updated_at r)"

definition ListTemplates where
  "ListTemplates flt kindFilter limit afterID s =
     (if flt then None else Some (map template_summary (template_page kindFilter limit afterID s)))"

definition ListWithSource where
  "ListWithSource flt kindFilter limit afterID s =
     (if flt then None
      else Some (map (\<lambda>r. (template_summary r, if tp_kind r = KindBerrySnippet then tp_source r else [])) (template_page kindFilter limit afterID s)))"

section \<open>The built-in catalog (catalog.go)\<close>

record catalog_entry = template_params +
  ce_source_file :: string

text \<open>The embedded files are a map from names to contents; the catalog comes decoded, \<open>None\<close> where it is missing or malformed.\<close>

definition catalog_source :: "(string \<rightharpoonup> string) \<Rightarrow> catalog_entry \<Rightarrow> string option" where
  "catalog_source fs e =
     (if \<not> HasPrefix (cr_name e) builtinPrefix \<or> \<not> validKind (cr_kind e) then None
      else case fs (''builtins/'' @ ce_source_file e) of
        None \<Rightarrow> None
      | Some src \<Rightarrow> if too_long (cr_kind e) src then None else Some src)"

fun loadCatalog :: "(string \<rightharpoonup> string) \<Rightarrow> catalog_entry list \<Rightarrow> (catalog_entry list) option" where
  "loadCatalog fs [] = Some []"
| "loadCatalog fs (e # es) =
     (case catalog_source fs e of
        None \<Rightarrow> None
      | Some src \<Rightarrow> map_option (\<lambda>es. e\<lparr>cr_source := src\<rparr> # es) (loadCatalog fs es))"

definition template_content :: "template \<Rightarrow> string \<times> string \<times> string \<times> string \<times> string list \<times> string list \<times> string option" where
  "template_content r = (tp_kind r, tp_description r, tp_source r, tp_params r, tp_egress_allow r, tp_secret_bindings r, tp_trigger_config r)"

datatype seed_outcome = Inserted | Updated | Unchanged

text \<open>One upsert; the identity counter is drawn before a conflict is noticed.\<close>

definition seed_one :: "(string \<Rightarrow> string option) \<Rightarrow> time \<Rightarrow> catalog_entry \<Rightarrow> template_state \<Rightarrow> (seed_outcome \<times> template_state) option" where
  "seed_one jsonb now e s =
     (case json_columns jsonb (template_params.truncate e) of
        None \<Rightarrow> None
      | Some cols \<Rightarrow>
          let new = template_row True now (ts_next s) (template_params.truncate e) cols;
              drawn = (\<lambda>s. s\<lparr>ts_next := ts_next s + 1\<rparr>)
          in case find (\<lambda>r. tp_name r = cr_name e) (ts_rows s) of
               None \<Rightarrow> Some (Inserted, drawn (set_templates (ts_rows s @ [new]) s))
             | Some r \<Rightarrow>
                 if tp_builtin r \<and> template_content r \<noteq> template_content new
                 then Some (Updated, drawn
                   (set_templates (map (\<lambda>q. if tp_name q = cr_name e
                     then new\<lparr>tp_id := tp_id q, tp_builtin := tp_builtin q, tp_version := tp_version q + 1, tp_created_at := tp_created_at q\<rparr> else q) (ts_rows s)) s))
                 else Some (Unchanged, drawn s))"

fun seed_all :: "(string \<Rightarrow> string option) \<Rightarrow> (nat \<Rightarrow> bool) \<Rightarrow> time \<Rightarrow> catalog_entry list \<Rightarrow> template_state \<Rightarrow> (seed_outcome list \<times> template_state) option" where
  "seed_all jsonb flt now [] s = Some ([], s)"
| "seed_all jsonb flt now (e # es) s =
     (if flt (length es) then None
      else case seed_one jsonb now e s of
        None \<Rightarrow> None
      | Some (o1, s) \<Rightarrow> (case seed_all jsonb flt now es s of None \<Rightarrow> None | Some (os, s) \<Rightarrow> Some (o1 # os, s)))"

text \<open>The counts of inserted, updated and unchanged entries; a failure rolls the transaction back.\<close>

definition SeedBuiltins ::
  "(string \<Rightarrow> string option) \<Rightarrow> (nat \<Rightarrow> bool) \<Rightarrow> bool \<Rightarrow> time \<Rightarrow> (string \<rightharpoonup> string) \<Rightarrow> catalog_entry list option \<Rightarrow> template_state \<Rightarrow>
   (nat \<times> nat \<times> nat) option \<times> template_state" where
  "SeedBuiltins jsonb flt flt_tx now fs catalog s =
     (case (case catalog of None \<Rightarrow> None | Some es \<Rightarrow> loadCatalog fs es) of
        None \<Rightarrow> (None, s)
      | Some es \<Rightarrow>
          (case seed_all jsonb flt now es s of
             None \<Rightarrow> (None, s)
           | Some (os, s') \<Rightarrow>
               if flt_tx then (None, s)
               else (Some (count_list os Inserted, count_list os Updated, count_list os Unchanged), s')))"

section \<open>Previews (preview.go)\<close>

definition BuiltinPreviewTargets :: "bool \<Rightarrow> template_state \<Rightarrow> (int \<times> string \<times> int \<times> string) list option" where
  "BuiltinPreviewTargets flt s =
     (if flt then None
      else Some (map (\<lambda>r. (tp_id r, tp_name r, tp_version r, tp_source r))
             (sort_key tp_id (filter (\<lambda>r. tp_builtin r \<and> tp_kind r = KindRenderFn) (ts_rows s)))))"

definition LoadPreview :: "bool \<Rightarrow> int \<Rightarrow> int \<Rightarrow> template_state \<Rightarrow> template_error + bytes" where
  "LoadPreview flt i version s =
     (if flt then Inl TmFailed else case ts_previews s (i, version) of None \<Rightarrow> Inl TmNotFound | Some png \<Rightarrow> Inr png)"

definition StorePreview :: "bool \<Rightarrow> int \<Rightarrow> int \<Rightarrow> bytes \<Rightarrow> template_state \<Rightarrow> bool \<times> template_state" where
  "StorePreview flt i version png s =
     (if flt \<or> find_template s i = None then (False, s)
      else (True, s\<lparr>ts_previews := (ts_previews s)((i, version) \<mapsto> png)\<rparr>))"

section \<open>Handlers (template_http.go)\<close>

definition templateID :: "string \<Rightarrow> int option" where
  "templateID path = (case ParseInt path of (i, None) \<Rightarrow> if i \<le> 0 then None else Some i | _ \<Rightarrow> None)"

definition templateCreateErr :: "template_error \<Rightarrow> nat \<times> string" where
  "templateCreateErr e =
     (case e of
        TmInvalidName \<Rightarrow> (422, ''invalid_name'')
      | TmInvalidKind \<Rightarrow> (422, ''invalid_kind'')
      | TmScriptTooLong \<Rightarrow> (422, ''berry_too_long'')
      | TmUniqueViolation \<Rightarrow> (409, ''duplicate_name'')
      | _ \<Rightarrow> (500, ''internal''))"

definition create_template :: "(string \<Rightarrow> string option) \<Rightarrow> bool \<Rightarrow> time \<Rightarrow> template_params option \<Rightarrow> template_state \<Rightarrow> int api \<times> template_state" where
  "create_template jsonb flt now body s =
     (case body of
        None \<Rightarrow> (ApiErr 400 ''bad_request'', s)
      | Some p \<Rightarrow>
          if cr_source p = [] then (ApiErr 422 ''missing_source'', s)
          else case CreateTemplate jsonb flt now p s of
            (Inl e, s) \<Rightarrow> (case templateCreateErr e of (status, code) \<Rightarrow> ApiErr status code, s)
          | (Inr i, s) \<Rightarrow> (ApiOk i, s))"

definition loadMutable :: "bool \<Rightarrow> int \<Rightarrow> template_state \<Rightarrow> template api" where
  "loadMutable flt i s =
     (case LoadTemplate flt i s of
        Inl TmNotFound \<Rightarrow> ApiErr 404 ''not_found''
      | Inl _ \<Rightarrow> ApiErr 500 ''internal''
      | Inr r \<Rightarrow> if tp_builtin r then ApiErr 409 ''builtin_immutable'' else ApiOk r)"

text \<open>The answer of an update is the new version; another request may have come between the load and the write: \<open>between\<close>.\<close>

definition update_template ::
  "(string \<Rightarrow> string option) \<Rightarrow> (nat \<Rightarrow> bool) \<Rightarrow> time \<Rightarrow> string \<Rightarrow> template_params option \<Rightarrow> (template_state \<Rightarrow> template_state) \<Rightarrow> template_state \<Rightarrow> int api \<times> template_state" where
  "update_template jsonb flt now path body between s =
     (case templateID path of
        None \<Rightarrow> (ApiErr 422 ''invalid_id'', s)
      | Some i \<Rightarrow>
          (case loadMutable (flt 0) i s of
             ApiErr status code \<Rightarrow> (ApiErr status code, s)
           | ApiOk t \<Rightarrow>
               (let s = between s in
                case body of
                  None \<Rightarrow> (ApiErr 400 ''bad_request'', s)
                | Some p \<Rightarrow>
                    if cr_source p = [] then (ApiErr 422 ''missing_source'', s)
                    else case UpdateTemplate jsonb (flt 1) (flt 2) now i p s of
                      (Inl TmScriptTooLong, s) \<Rightarrow> (ApiErr 422 ''berry_too_long'', s)
                    | (Inl _, s) \<Rightarrow> (ApiErr 500 ''internal'', s)
                    | (Inr False, s) \<Rightarrow> (ApiErr 404 ''not_found'', s)
                    | (Inr True, s) \<Rightarrow> (ApiOk (tp_version t + 1), s))))"

definition delete_template :: "(nat \<Rightarrow> bool) \<Rightarrow> string \<Rightarrow> (template_state \<Rightarrow> template_state) \<Rightarrow> template_state \<Rightarrow> int api \<times> template_state" where
  "delete_template flt path between s =
     (case templateID path of
        None \<Rightarrow> (ApiErr 422 ''invalid_id'', s)
      | Some i \<Rightarrow>
          (case loadMutable (flt 0) i s of
             ApiErr status code \<Rightarrow> (ApiErr status code, s)
           | ApiOk t \<Rightarrow>
               (case DeleteTemplate (flt 1) i (between s) of
                  (Inl _, s) \<Rightarrow> (ApiErr 500 ''internal'', s)
                | (Inr False, s) \<Rightarrow> (ApiErr 404 ''not_found'', s)
                | (Inr True, s) \<Rightarrow> (ApiOk i, s))))"

section \<open>Runs\<close>

text \<open>An update and a delete carry what other requests do between their load and their write.\<close>

datatype template_op =
    OpCreateTemplate bool time "template_params option"
  | OpUpdateTemplate "nat \<Rightarrow> bool" time string "template_params option" "template_op list"
  | OpDeleteTemplate "nat \<Rightarrow> bool" string "template_op list"
  | OpStorePreview bool int int bytes
  | OpSeed "nat \<Rightarrow> bool" bool time "string \<rightharpoonup> string" "catalog_entry list option"

fun template_step :: "(string \<Rightarrow> string option) \<Rightarrow> template_op \<Rightarrow> template_state \<Rightarrow> template_state"
  and template_steps :: "(string \<Rightarrow> string option) \<Rightarrow> template_op list \<Rightarrow> template_state \<Rightarrow> template_state" where
  "template_step jsonb (OpCreateTemplate flt now body) s = snd (create_template jsonb flt now body s)"
| "template_step jsonb (OpUpdateTemplate flt now path body ops) s = snd (update_template jsonb flt now path body (template_steps jsonb ops) s)"
| "template_step jsonb (OpDeleteTemplate flt path ops) s = snd (delete_template flt path (template_steps jsonb ops) s)"
| "template_step jsonb (OpStorePreview flt i v png) s = snd (StorePreview flt i v png s)"
| "template_step jsonb (OpSeed flt flt_tx now fs catalog) s = snd (SeedBuiltins jsonb flt flt_tx now fs catalog s)"
| "template_steps jsonb [] s = s"
| "template_steps jsonb (op # ops) s = template_steps jsonb ops (template_step jsonb op s)"

fun no_seed :: "template_op \<Rightarrow> bool" where
  "no_seed (OpSeed _ _ _ _ _) = False"
| "no_seed (OpUpdateTemplate _ _ _ _ ops) = list_all no_seed ops"
| "no_seed (OpDeleteTemplate _ _ ops) = list_all no_seed ops"
| "no_seed _ = True"

definition row_ok :: "template \<Rightarrow> bool" where
  "row_ok r \<longleftrightarrow> validKind (tp_kind r) \<and> \<not> too_long (tp_kind r) (tp_source r) \<and>
     (if tp_builtin r then HasPrefix (tp_name r) builtinPrefix else ValidTemplateName (tp_name r))"

definition templates_ok :: "template_state \<Rightarrow> bool" where
  "templates_ok s \<longleftrightarrow> keyed tp_id (ts_rows s) (ts_next s) \<and> distinct (map tp_name (ts_rows s)) \<and> list_all row_ok (ts_rows s) \<and>
     display_ok (ts_display s) \<and> d_templates (ts_display s) = tp_id ` set (ts_rows s) \<and>
     (\<forall>i v. ts_previews s (i, v) \<noteq> None \<longrightarrow> i \<in> tp_id ` set (ts_rows s))"

text \<open>What may happen to a table in between: a row that was there keeps its class, and a new one has a new id.\<close>

definition evolves :: "template_state \<Rightarrow> template_state \<Rightarrow> bool" where
  "evolves s t \<longleftrightarrow> ts_next s \<le> ts_next t \<and>
     (\<forall>r \<in> set (ts_rows t). tp_id r < ts_next s \<longrightarrow> (\<exists>q \<in> set (ts_rows s). tp_id q = tp_id r \<and> tp_builtin q = tp_builtin r))"

lemma evolves_refl: "evolves s s"
  by (auto simp: evolves_def)

lemma evolves_trans: "evolves s t \<Longrightarrow> evolves t u \<Longrightarrow> evolves s u"
  unfolding evolves_def by (smt (verit) order_trans)

lemma display_ok_templates [simp]: "display_ok (db\<lparr>d_templates := ts\<rparr>) = display_ok db"
  by (simp add: display_ok_def)

lemma set_templates_sel [simp]:
  "ts_rows (set_templates rows s) = rows" "ts_next (set_templates rows s) = ts_next s" "ts_previews (set_templates rows s) = ts_previews s"
  "d_templates (ts_display (set_templates rows s)) = tp_id ` set rows" "display_ok (ts_display (set_templates rows s)) = display_ok (ts_display s)"
  by (simp_all add: set_templates_def)

lemma template_row_sel [simp]:
  "tp_id (template_row b now i p cols) = i" "tp_name (template_row b now i p cols) = cr_name p" "tp_kind (template_row b now i p cols) = cr_kind p"
  "tp_builtin (template_row b now i p cols) = b" "tp_source (template_row b now i p cols) = cr_source p" "tp_version (template_row b now i p cols) = 1"
  by (simp_all add: template_row_def)

lemma keyed_mono: "keyed key xs n \<Longrightarrow> n \<le> m \<Longrightarrow> keyed key xs m"
  by (auto simp: keyed_def)

lemma templates_ok_next: "templates_ok s \<Longrightarrow> templates_ok (s\<lparr>ts_next := ts_next s + 1\<rparr>)"
  using keyed_mono [of tp_id "ts_rows s" "ts_next s" "ts_next s + 1"] by (simp add: templates_ok_def)

text \<open>The three ways in which a statement changes the rows.\<close>

lemma templates_ok_insert:
  assumes "templates_ok s" "row_ok r" "tp_id r = ts_next s" "\<forall>q \<in> set (ts_rows s). tp_name q \<noteq> tp_name r"
  shows "templates_ok ((set_templates (ts_rows s @ [r]) s)\<lparr>ts_next := ts_next s + 1\<rparr>) \<and> evolves s ((set_templates (ts_rows s @ [r]) s)\<lparr>ts_next := ts_next s + 1\<rparr>)"
  using assms keyed_append [of tp_id "ts_rows s" "ts_next s" r] by (auto simp: templates_ok_def evolves_def)

lemma templates_ok_map:
  assumes "templates_ok s" "\<And>r. r \<in> set (ts_rows s) \<Longrightarrow> row_ok (f r)"
    and f: "\<And>r. tp_id (f r) = tp_id r" "\<And>r. tp_name (f r) = tp_name r" "\<And>r. tp_builtin (f r) = tp_builtin r"
  shows "templates_ok (set_templates (map f (ts_rows s)) s) \<and> evolves s (set_templates (map f (ts_rows s)) s)"
proof -
  have "tp_id ` f ` set (ts_rows s) = tp_id ` set (ts_rows s)"
    using f(1) by (auto simp: image_image)
  then show ?thesis
    using assms keyed_map [of tp_id "ts_rows s" "ts_next s" f] by (auto simp: templates_ok_def evolves_def comp_def list_all_iff)
qed

lemma templates_ok_delete: "templates_ok s \<Longrightarrow> templates_ok (snd (DeleteTemplate flt i s)) \<and> evolves s (snd (DeleteTemplate flt i s))"
proof -
  assume ok: "templates_ok s"
  let ?db = "(ts_display s)\<lparr>d_templates := tp_id ` set (filter (\<lambda>r. tp_id r \<noteq> i) (ts_rows s))\<rparr>"
  let ?g = "\<lambda>f. if fn_template_id f = Some i then f\<lparr>fn_template_id := None\<rparr> else f"
  have "functions_ok (map ?g (d_functions ?db)) (d_next_function ?db)"
    using ok by (intro functions_ok_map) (auto simp: templates_ok_def display_ok_def functions_ok_def split: if_splits)
  moreover have "fn_id ` ?g ` set (d_functions ?db) = fn_id ` set (d_functions ?db)"
    unfolding image_image by (rule image_cong) simp_all
  ultimately have "display_ok (?db\<lparr>d_functions := map ?g (d_functions ?db)\<rparr>)"
    using ok by (simp add: templates_ok_def display_ok_def)
  moreover have "tp_id ` {x \<in> set (ts_rows s). tp_id x \<noteq> i} = tp_id ` set (ts_rows s) - {i}"
    by auto
  moreover have "evolves s (snd (DeleteTemplate flt i s))"
    by (auto simp: DeleteTemplate_def Let_def evolves_def set_templates_def)
  ultimately show ?thesis
    using ok by (simp add: DeleteTemplate_def Let_def templates_ok_def set_templates_def keyed_filter distinct_map_filter list_all_iff)
qed

definition kept :: "template_state \<Rightarrow> template_state \<Rightarrow> bool" where
  "kept s t \<longleftrightarrow> templates_ok t \<and> evolves s t"

lemma kept_refl: "templates_ok s \<Longrightarrow> kept s s"
  by (simp add: kept_def evolves_refl)

lemma kept_trans: "kept s t \<Longrightarrow> kept t u \<Longrightarrow> kept s u"
  using evolves_trans by (auto simp: kept_def)

lemma kept_next: "templates_ok s \<Longrightarrow> kept s (s\<lparr>ts_next := ts_next s + 1\<rparr>)"
  by (auto simp: kept_def templates_ok_next evolves_def)

lemma kept_create: "templates_ok s \<Longrightarrow> kept s (snd (create_template jsonb flt now body s))"
proof -
  assume ok: "templates_ok s"
  have "kept s (snd (CreateTemplate jsonb flt now p s))" for p
  proof -
    have "row_ok (template_row False now (ts_next s) p cols)" if "ValidTemplateName (cr_name p)" "validKind (cr_kind p)" "\<not> too_long (cr_kind p) (cr_source p)" for cols
      using that by (simp add: row_ok_def)
    then show ?thesis
      using ok kept_refl [OF ok] kept_next [OF ok] templates_ok_insert [OF ok, of "template_row False now (ts_next s) p cols" for cols]
      by (auto simp: CreateTemplate_def kept_def split: option.split)
  qed
  then show ?thesis
    using kept_refl [OF ok]
    by (auto simp: create_template_def split: option.split prod.split sum.split) (metis snd_conv)+
qed

lemma find_templateD: "find_template s i = Some r \<Longrightarrow> r \<in> set (ts_rows s) \<and> tp_id r = i"
  by (auto simp: find_template_def find_Some_iff)

lemma template_unique: "templates_ok s \<Longrightarrow> q \<in> set (ts_rows s) \<Longrightarrow> r \<in> set (ts_rows s) \<Longrightarrow> tp_id q = tp_id r \<Longrightarrow> q = r"
  by (simp add: templates_ok_def keyed_def distinct_map inj_on_def)

lemma updated_row_sel [simp]:
  "tp_id (updated_row now p cols r) = tp_id r" "tp_name (updated_row now p cols r) = tp_name r" "tp_kind (updated_row now p cols r) = tp_kind r"
  "tp_builtin (updated_row now p cols r) = tp_builtin r" "tp_source (updated_row now p cols r) = cr_source p"
  by (simp_all add: updated_row_def)

lemma kept_UpdateTemplate:
  assumes ok: "templates_ok s"
  shows "kept s (snd (UpdateTemplate jsonb flt1 flt2 now i p s))"
proof -
  have "kept s (set_templates (map (\<lambda>r. if tp_id r = i then updated_row now p cols r else r) (ts_rows s)) s)"
    if "find_template s i = Some r0" "\<not> too_long (tp_kind r0) (cr_source p)" for cols r0
    unfolding kept_def
  proof (rule templates_ok_map [OF ok])
    fix r
    assume r: "r \<in> set (ts_rows s)"
    then have "r = r0" if "tp_id r = i"
      using find_templateD [OF \<open>find_template s i = Some r0\<close>] that template_unique [OF ok] by blast
    moreover have "row_ok r"
      using ok r by (simp add: templates_ok_def list_all_iff)
    ultimately show "row_ok (if tp_id r = i then updated_row now p cols r else r)"
      using that(2) by (auto simp: row_ok_def)
  qed simp_all
  then show ?thesis
    using kept_refl [OF ok] by (auto simp: UpdateTemplate_def split: option.split)
qed

lemma kept_update:
  assumes "templates_ok s" "\<And>s. templates_ok s \<Longrightarrow> kept s (between s)"
  shows "kept s (snd (update_template jsonb flt now path body between s))"
proof -
  have "kept s (snd (UpdateTemplate jsonb flt1 flt2 now i p (between s)))" for flt1 flt2 i p
    using assms kept_UpdateTemplate kept_trans kept_def by metis
  then show ?thesis
    using assms kept_refl
    by (auto simp: update_template_def Let_def split: option.split api.split prod.split sum.split bool.split template_error.split) (metis snd_conv)+
qed

lemma kept_delete:
  assumes "templates_ok s" "\<And>s. templates_ok s \<Longrightarrow> kept s (between s)"
  shows "kept s (snd (delete_template flt path between s))"
proof -
  have "kept s (snd (DeleteTemplate flt1 i (between s)))" for flt1 i
    using assms templates_ok_delete kept_trans unfolding kept_def by (metis evolves_trans)
  then show ?thesis
    using assms kept_refl
    by (auto simp: delete_template_def split: option.split api.split prod.split sum.split bool.split) (metis snd_conv)+
qed

lemma kept_StorePreview: "templates_ok s \<Longrightarrow> kept s (snd (StorePreview flt i v png s))"
proof -
  assume ok: "templates_ok s"
  let ?t = "s\<lparr>ts_previews := (ts_previews s)((i, v) \<mapsto> png)\<rparr>"
  have "\<forall>j w. ts_previews s (j, w) \<noteq> None \<longrightarrow> j \<in> tp_id ` set (ts_rows s)"
    using ok by (simp add: templates_ok_def)
  then have "\<forall>j w. ts_previews ?t (j, w) \<noteq> None \<longrightarrow> j \<in> tp_id ` set (ts_rows s)" if "find_template s i \<noteq> None"
    using that find_templateD [of s i] by (simp split: if_splits) blast
  then have "kept s ?t" if "find_template s i \<noteq> None"
    using ok that by (auto simp: kept_def evolves_def templates_ok_def)
  then show ?thesis
    using kept_refl [OF ok] by (simp add: StorePreview_def)
qed

section \<open>Seeding\<close>

definition entry_ok :: "catalog_entry \<Rightarrow> bool" where
  "entry_ok e \<longleftrightarrow> HasPrefix (cr_name e) builtinPrefix \<and> validKind (cr_kind e) \<and> \<not> too_long (cr_kind e) (cr_source e)"

lemma loadCatalog_ok: "loadCatalog fs cat = Some es \<Longrightarrow> list_all entry_ok es \<and> map cr_name es = map cr_name cat"
proof (induction cat arbitrary: es)
  case (Cons e cat)
  then obtain src es' where "catalog_source fs e = Some src" "loadCatalog fs cat = Some es'" "es = e\<lparr>cr_source := src\<rparr> # es'"
    by (auto split: option.splits)
  then show ?case
    using Cons.IH by (auto simp: catalog_source_def entry_ok_def split: if_splits option.splits)
qed simp

lemma truncate_sel [simp]:
  "cr_name (template_params.truncate e) = cr_name e" "cr_kind (template_params.truncate e) = cr_kind e" "cr_source (template_params.truncate e) = cr_source e"
  by (simp_all add: template_params.truncate_def)

text \<open>What a seeded row holds: the content of the entry, whatever its id, version and times.\<close>

definition entry_content where
  "entry_content jsonb e = map_option (\<lambda>cols. template_content (template_row True 0 0 (template_params.truncate e) cols)) (json_columns jsonb (template_params.truncate e))"

lemma template_content_row: "template_content (template_row b now i p cols) = template_content (template_row True 0 0 p cols)"
  by (simp add: template_content_def template_row_def)

definition installed :: "(string \<Rightarrow> string option) \<Rightarrow> template_state \<Rightarrow> catalog_entry \<Rightarrow> bool" where
  "installed jsonb s e \<longleftrightarrow> (\<exists>r \<in> set (ts_rows s). tp_builtin r \<and> tp_name r = cr_name e \<and> entry_content jsonb e = Some (template_content r))"

lemma find_name: "templates_ok s \<Longrightarrow> r \<in> set (ts_rows s) \<Longrightarrow> find (\<lambda>q. tp_name q = tp_name r) (ts_rows s) = Some r"
proof -
  assume "templates_ok s" "r \<in> set (ts_rows s)"
  moreover have "distinct (map tp_name xs) \<Longrightarrow> r \<in> set xs \<Longrightarrow> find (\<lambda>q. tp_name q = tp_name r) xs = Some r" for xs
    by (induction xs) auto
  ultimately show ?thesis
    by (simp add: templates_ok_def)
qed

lemma builtin_name: "templates_ok s \<Longrightarrow> r \<in> set (ts_rows s) \<Longrightarrow> tp_builtin r \<longleftrightarrow> HasPrefix (tp_name r) builtinPrefix"
proof -
  assume "templates_ok s" "r \<in> set (ts_rows s)"
  then have "row_ok r"
    by (simp add: templates_ok_def list_all_iff)
  then show ?thesis
    by (auto simp: row_ok_def ValidTemplateName_def split: if_splits)
qed

lemma seed_one_props:
  assumes ok: "templates_ok s" and e: "entry_ok e" and seed: "seed_one jsonb now e s = Some (out, t)"
  shows "kept s t" and "installed jsonb t e"
    and "filter (\<lambda>r. tp_name r \<noteq> cr_name e) (ts_rows t) = filter (\<lambda>r. tp_name r \<noteq> cr_name e) (ts_rows s)"
    and "installed jsonb s e \<Longrightarrow> out = Unchanged \<and> t = s\<lparr>ts_next := ts_next s + 1\<rparr>"
proof -
  obtain cols where cols: "json_columns jsonb (template_params.truncate e) = Some cols"
    using seed by (auto simp: seed_one_def split: option.splits)
  let ?new = "template_row True now (ts_next s) (template_params.truncate e) cols"
  have content: "entry_content jsonb e = Some (template_content ?new)"
    using cols by (simp add: entry_content_def template_content_row [of True now "ts_next s"])
  have "kept s t \<and> installed jsonb t e \<and> filter (\<lambda>r. tp_name r \<noteq> cr_name e) (ts_rows t) = filter (\<lambda>r. tp_name r \<noteq> cr_name e) (ts_rows s) \<and>
     (installed jsonb s e \<longrightarrow> out = Unchanged \<and> t = s\<lparr>ts_next := ts_next s + 1\<rparr>)"
  proof (cases "find (\<lambda>r. tp_name r = cr_name e) (ts_rows s)")
    case None
    then have t: "t = (set_templates (ts_rows s @ [?new]) s)\<lparr>ts_next := ts_next s + 1\<rparr>"
      using seed cols by (simp add: seed_one_def Let_def)
    have "\<forall>q \<in> set (ts_rows s). tp_name q \<noteq> cr_name e"
      using None by (simp add: find_None_iff)
    moreover have "row_ok ?new"
      using e by (simp add: row_ok_def entry_ok_def)
    ultimately show ?thesis
      using templates_ok_insert [OF ok, of ?new] content by (auto simp: t kept_def installed_def)
  next
    case (Some r)
    then have r: "r \<in> set (ts_rows s)" "tp_name r = cr_name e"
      by (auto simp: find_Some_iff)
    then have b: "tp_builtin r"
      using builtin_name [OF ok r(1)] e by (simp add: entry_ok_def)
    have only: "q = r" if "q \<in> set (ts_rows s)" "tp_name q = cr_name e" for q
      using find_name [OF ok that(1)] that(2) Some by simp
    let ?f = "\<lambda>q. if tp_name q = cr_name e then ?new\<lparr>tp_id := tp_id q, tp_builtin := tp_builtin q, tp_version := tp_version q + 1, tp_created_at := tp_created_at q\<rparr> else q"
    show ?thesis
    proof (cases "template_content r = template_content ?new")
      case True
      then have "t = s\<lparr>ts_next := ts_next s + 1\<rparr>" "out = Unchanged"
        using seed cols Some b by (simp_all add: seed_one_def Let_def)
      then show ?thesis
        using kept_next [OF ok] r b content True by (auto simp: installed_def)
    next
      case False
      then have t: "t = (set_templates (map ?f (ts_rows s)) s)\<lparr>ts_next := ts_next s + 1\<rparr>"
        using seed cols Some b by (simp add: seed_one_def Let_def)
      have "templates_ok (set_templates (map ?f (ts_rows s)) s) \<and> evolves s (set_templates (map ?f (ts_rows s)) s)"
      proof (rule templates_ok_map [OF ok])
        fix q
        assume "q \<in> set (ts_rows s)"
        then show "row_ok (?f q)"
          using ok e b only by (auto simp: row_ok_def entry_ok_def templates_ok_def list_all_iff)
      qed simp_all
      then have "kept s t"
        using templates_ok_next [of "set_templates (map ?f (ts_rows s)) s"] unfolding t kept_def by (auto simp: evolves_def)
      moreover have "installed jsonb t e"
        unfolding installed_def
      proof
        have "?f r \<in> ?f ` set (ts_rows s)"
          using r(1) by (rule imageI)
        moreover have "ts_rows t = map ?f (ts_rows s)"
          by (simp add: t)
        ultimately show "?f r \<in> set (ts_rows t)"
          by (simp only: set_map)
        show "tp_builtin (?f r) \<and> tp_name (?f r) = cr_name e \<and> entry_content jsonb e = Some (template_content (?f r))"
          using r(2) b content by (simp add: template_content_def)
      qed
      moreover have "filter (\<lambda>r. tp_name r \<noteq> cr_name e) (map ?f xs) = filter (\<lambda>r. tp_name r \<noteq> cr_name e) xs" for xs
        by (induction xs) auto
      moreover have "\<not> installed jsonb s e"
        using False content only by (auto simp: installed_def)
      ultimately show ?thesis
        by (simp add: t)
    qed
  qed
  then show "kept s t" "installed jsonb t e"
    "filter (\<lambda>r. tp_name r \<noteq> cr_name e) (ts_rows t) = filter (\<lambda>r. tp_name r \<noteq> cr_name e) (ts_rows s)"
    "installed jsonb s e \<Longrightarrow> out = Unchanged \<and> t = s\<lparr>ts_next := ts_next s + 1\<rparr>"
    by simp_all
qed

lemma installed_other:
  assumes "cr_name e' \<noteq> cr_name e" "filter (\<lambda>r. tp_name r \<noteq> cr_name e) (ts_rows t) = filter (\<lambda>r. tp_name r \<noteq> cr_name e) (ts_rows s)"
  shows "installed jsonb t e' \<longleftrightarrow> installed jsonb s e'"
proof -
  have "{r \<in> set (ts_rows t). tp_name r \<noteq> cr_name e} = {r \<in> set (ts_rows s). tp_name r \<noteq> cr_name e}"
    using arg_cong [OF assms(2), of set] by simp
  then show ?thesis
    using assms(1) unfolding installed_def by (metis (mono_tags, lifting) mem_Collect_eq)
qed

lemma operator_rows:
  assumes "templates_ok s" "templates_ok t" "entry_ok e"
    and "filter (\<lambda>r. tp_name r \<noteq> cr_name e) (ts_rows t) = filter (\<lambda>r. tp_name r \<noteq> cr_name e) (ts_rows s)"
  shows "filter (\<lambda>r. \<not> tp_builtin r) (ts_rows t) = filter (\<lambda>r. \<not> tp_builtin r) (ts_rows s)"
proof -
  have eq: "filter (\<lambda>r. \<not> tp_builtin r) (ts_rows u) = filter (\<lambda>r. \<not> tp_builtin r) (filter (\<lambda>r. tp_name r \<noteq> cr_name e) (ts_rows u))" if "templates_ok u" for u
    using builtin_name [OF that] assms(3) by (auto simp: entry_ok_def intro!: filter_cong)
  show ?thesis
    unfolding eq [OF assms(1)] eq [OF assms(2)] assms(4) ..
qed

lemma seed_all_props:
  assumes "templates_ok s" "list_all entry_ok es" "distinct (map cr_name es)" "seed_all jsonb flt now es s = Some (os, t)"
  shows "kept s t \<and> list_all (installed jsonb t) es \<and>
     filter (\<lambda>r. \<not> tp_builtin r) (ts_rows t) = filter (\<lambda>r. \<not> tp_builtin r) (ts_rows s) \<and>
     filter (\<lambda>r. tp_name r \<notin> cr_name ` set es) (ts_rows t) = filter (\<lambda>r. tp_name r \<notin> cr_name ` set es) (ts_rows s)"
  using assms
proof (induction es arbitrary: s os)
  case (Cons e es)
  obtain o1 s1 os1 where one: "seed_one jsonb now e s = Some (o1, s1)" and rest: "seed_all jsonb flt now es s1 = Some (os1, t)"
    using Cons.prems(4) by (auto split: if_splits option.splits)
  have e: "entry_ok e"
    using Cons.prems(2) by simp
  note P = seed_one_props [OF Cons.prems(1) e one]
  have ok1: "templates_ok s1"
    using P(1) by (simp add: kept_def)
  have IH: "kept s1 t" "list_all (installed jsonb t) es" "filter (\<lambda>r. \<not> tp_builtin r) (ts_rows t) = filter (\<lambda>r. \<not> tp_builtin r) (ts_rows s1)"
    "filter (\<lambda>r. tp_name r \<notin> cr_name ` set es) (ts_rows t) = filter (\<lambda>r. tp_name r \<notin> cr_name ` set es) (ts_rows s1)"
    using Cons.IH [OF ok1 _ _ rest] Cons.prems(2,3) by simp_all
  have "{r \<in> set (ts_rows t). tp_name r \<notin> cr_name ` set es} = {r \<in> set (ts_rows s1). tp_name r \<notin> cr_name ` set es}"
    using arg_cong [OF IH(4), of set] by simp
  moreover have "cr_name e \<notin> cr_name ` set es"
    using Cons.prems(3) by simp
  ultimately have "installed jsonb t e"
    using P(2) unfolding installed_def by (metis (mono_tags, lifting) mem_Collect_eq)
  moreover have "filter (\<lambda>r. tp_name r \<notin> cr_name ` set (e # es)) (ts_rows t) = filter (\<lambda>r. tp_name r \<notin> cr_name ` set (e # es)) (ts_rows s)"
  proof -
    have E: "filter (\<lambda>r. tp_name r \<notin> cr_name ` set (e # es)) rs = filter (\<lambda>r. tp_name r \<noteq> cr_name e) (filter (\<lambda>r. tp_name r \<notin> cr_name ` set es) rs)"
      and F: "filter (\<lambda>r. tp_name r \<notin> cr_name ` set (e # es)) rs = filter (\<lambda>r. tp_name r \<notin> cr_name ` set es) (filter (\<lambda>r. tp_name r \<noteq> cr_name e) rs)" for rs
      by (simp_all add: conj_commute)
    show ?thesis
      by (metis E F IH(4) P(3))
  qed
  moreover have "filter (\<lambda>r. \<not> tp_builtin r) (ts_rows s1) = filter (\<lambda>r. \<not> tp_builtin r) (ts_rows s)"
    by (rule operator_rows [OF Cons.prems(1) ok1 e P(3)])
  ultimately show ?case
    using IH(2,3) kept_trans [OF P(1) IH(1)] by simp
qed (simp add: kept_refl)

lemma seed_all_again:
  assumes "templates_ok s" "list_all entry_ok es" "list_all (installed jsonb s) es" "\<And>i. \<not> flt i"
  shows "seed_all jsonb flt now es s = Some (replicate (length es) Unchanged, s\<lparr>ts_next := ts_next s + int (length es)\<rparr>)"
  using assms(1-3)
proof (induction es arbitrary: s)
  case (Cons e es)
  obtain r where r: "entry_content jsonb e = Some (template_content r)"
    using Cons.prems(3) by (auto simp: installed_def)
  then have "seed_one jsonb now e s \<noteq> None"
    by (auto simp: seed_one_def entry_content_def Let_def split: option.split)
  then obtain out t where one: "seed_one jsonb now e s = Some (out, t)"
    by auto
  have t: "out = Unchanged" "t = s\<lparr>ts_next := ts_next s + 1\<rparr>" "templates_ok t"
    using seed_one_props [OF Cons.prems(1) _ one] Cons.prems(2,3) by (auto simp: kept_def)
  have "list_all (installed jsonb t) es"
    using Cons.prems(3) by (auto simp: t(2) installed_def list_all_iff)
  then have "seed_all jsonb flt now es t = Some (replicate (length es) Unchanged, t\<lparr>ts_next := ts_next t + int (length es)\<rparr>)"
    using Cons.IH [OF t(3)] Cons.prems(2) by simp
  then show ?case
    using one t(1,2) assms(4) [of "length es"] by (simp add: algebra_simps)
qed simp

lemma count_replicate: "count_list (replicate n x) y = (if x = y then n else 0)"
  by (induction n) auto

lemma kept_seed:
  assumes ok: "templates_ok s"
  shows "kept s (snd (SeedBuiltins jsonb flt flt_tx now fs catalog s))"
proof -
  have "kept s t" if "templates_ok s" "list_all entry_ok es" "seed_all jsonb flt now es s = Some (os, t)" for es os s t
    using that
  proof (induction es arbitrary: s os)
    case (Cons e es)
    then obtain o1 s1 os1 where one: "seed_one jsonb now e s = Some (o1, s1)" "seed_all jsonb flt now es s1 = Some (os1, t)"
      by (auto split: if_splits option.splits)
    have "kept s s1"
      using seed_one_props(1) [OF Cons.prems(1) _ one(1)] Cons.prems(2) by simp
    moreover from this have "kept s1 t"
      using Cons.IH [OF _ _ one(2)] Cons.prems(2) by (simp add: kept_def)
    ultimately show ?case
      by (rule kept_trans)
  qed (simp add: kept_refl)
  then show ?thesis
    using ok kept_refl [OF ok] loadCatalog_ok by (fastforce simp: SeedBuiltins_def split: option.split prod.split)
qed

section \<open>What the catalog promises\<close>

lemma kept_step: "templates_ok s \<Longrightarrow> kept s (template_step jsonb op s)"
  and kept_steps: "templates_ok s \<Longrightarrow> kept s (template_steps jsonb ops s)"
proof (induction jsonb op s and jsonb ops s rule: template_step_template_steps.induct)
  case (2 jsonb flt now path body ops s)
  then show ?case
    using kept_update by simp
next
  case (3 jsonb flt path ops s)
  then show ?case
    using kept_delete by simp
next
  case (7 jsonb op ops s)
  then show ?case
    using kept_trans by (simp add: kept_def)
qed (simp_all add: kept_create kept_StorePreview kept_seed kept_refl)

lemma filter_map_other: "\<forall>r \<in> set rows. P r \<longrightarrow> \<not> Q r \<and> \<not> Q (f r) \<Longrightarrow> filter Q (map (\<lambda>r. if P r then f r else r) rows) = filter Q rows"
  by (induction rows) auto

lemma operator_still:
  assumes "templates_ok s" "loadMutable flt i s = ApiOk t" "kept s u" "r \<in> set (ts_rows u)" "tp_id r = i"
  shows "\<not> tp_builtin r"
proof -
  have t: "t \<in> set (ts_rows s)" "tp_id t = i" "\<not> tp_builtin t"
    using assms(2) find_templateD [of s i] by (auto simp: loadMutable_def LoadTemplate_def split: if_splits option.splits sum.splits template_error.splits)
  then have "i < ts_next s"
    using assms(1) by (auto simp: templates_ok_def keyed_def)
  then obtain q where "q \<in> set (ts_rows s)" "tp_id q = i" "tp_builtin q = tp_builtin r"
    using assms(3-5) by (auto simp: kept_def evolves_def)
  then show ?thesis
    using template_unique [OF assms(1)] t by metis
qed

lemma update_builtins:
  assumes "templates_ok s" "kept s (between s)"
  shows "filter tp_builtin (ts_rows (snd (update_template jsonb flt now path body between s))) \<in> {filter tp_builtin (ts_rows s), filter tp_builtin (ts_rows (between s))}"
proof -
  have "filter tp_builtin (ts_rows (snd (UpdateTemplate jsonb flt1 flt2 now i p (between s)))) = filter tp_builtin (ts_rows (between s))"
    if "loadMutable (flt 0) i s = ApiOk t" for flt1 flt2 i p t
    using operator_still [OF assms(1) that assms(2)] filter_map_other [of "ts_rows (between s)" "\<lambda>r. tp_id r = i" tp_builtin]
    by (auto simp: UpdateTemplate_def split: option.split)
  then show ?thesis
    by (auto simp: update_template_def Let_def split: option.split api.split prod.split sum.split bool.split template_error.split) (metis snd_conv)+
qed

lemma delete_builtins:
  assumes "templates_ok s" "kept s (between s)"
  shows "filter tp_builtin (ts_rows (snd (delete_template flt path between s))) \<in> {filter tp_builtin (ts_rows s), filter tp_builtin (ts_rows (between s))}"
proof -
  have "filter tp_builtin (ts_rows (snd (DeleteTemplate flt1 i (between s)))) = filter tp_builtin (ts_rows (between s))"
    if "loadMutable (flt 0) i s = ApiOk t" for flt1 i t
    using operator_still [OF assms(1) that assms(2)] by (auto simp: DeleteTemplate_def Let_def intro!: filter_cong)
  then show ?thesis
    by (auto simp: delete_template_def split: option.split api.split prod.split sum.split bool.split) (metis snd_conv)+
qed

lemma create_builtins: "filter tp_builtin (ts_rows (snd (create_template jsonb flt now body s))) = filter tp_builtin (ts_rows s)"
  by (auto simp: create_template_def CreateTemplate_def split: option.split prod.split sum.split)

lemma step_builtins: "templates_ok s \<Longrightarrow> no_seed op \<Longrightarrow> filter tp_builtin (ts_rows (template_step jsonb op s)) = filter tp_builtin (ts_rows s)"
  and steps_builtins: "templates_ok s \<Longrightarrow> list_all no_seed ops \<Longrightarrow> filter tp_builtin (ts_rows (template_steps jsonb ops s)) = filter tp_builtin (ts_rows s)"
proof (induction jsonb op s and jsonb ops s rule: template_step_template_steps.induct)
  case (2 jsonb flt now path body ops s)
  then show ?case
    using update_builtins [of s "template_steps jsonb ops"] kept_steps [of s jsonb ops] by fastforce
next
  case (3 jsonb flt path ops s)
  then show ?case
    using delete_builtins [of s "template_steps jsonb ops"] kept_steps [of s jsonb ops] by fastforce
next
  case (7 jsonb op ops s)
  then show ?case
    using kept_step [of s jsonb op] by (simp add: kept_def)
qed (simp_all add: create_builtins StorePreview_def)

definition template_init :: "int set \<Rightarrow> template_state" where
  "template_init operators = \<lparr>ts_rows = [], ts_next = 1, ts_previews = (\<lambda>_. None), ts_display = display_init operators Map.empty {}\<rparr>"

lemma template_init_ok: "templates_ok (template_init operators)"
  using display_ok_init by (simp add: templates_ok_def template_init_def keyed_def display_init_def)

text \<open>
  C30 (immutable catalog).  Whatever requests create, change and delete templates, also when they run into each other between their check and their
  write, the built-in rows stay as they are; every row keeps a valid kind and a valid name for its class, and a snippet the size the firmware takes.\<close>

theorem catalog_immutable:
  assumes "s = template_steps jsonb ops0 (template_init operators)" and "list_all no_seed ops"
  shows "filter tp_builtin (ts_rows (template_steps jsonb ops s)) = filter tp_builtin (ts_rows s) \<and>
    list_all row_ok (ts_rows (template_steps jsonb ops s))"
proof -
  have "templates_ok s" "templates_ok (template_steps jsonb ops s)"
    unfolding assms(1) using kept_steps template_init_ok by (simp_all add: kept_def)
  then show ?thesis
    using steps_builtins [OF _ assms(2)] by (simp add: templates_ok_def)
qed

definition example_entry :: catalog_entry where
  "example_entry = \<lparr>cr_name = ''builtin/clock'', cr_kind = ''render_fn'', cr_description = ''{}'', cr_source = [], cr_params = ''[]'', cr_egress_allow = None,
     cr_secret_bindings = None, cr_trigger_config = [], ce_source_file = ''clock.js''\<rparr>"

definition example_seed :: template_op where
  "example_seed = OpSeed (\<lambda>_. False) False 0 [''builtins/clock.js'' \<mapsto> ''draw()''] (Some [example_entry])"

lemma catalog_immutable_witness:
  "map tp_name (filter tp_builtin (ts_rows (template_steps Some [OpDeleteTemplate (\<lambda>_. False) ''1'' []] (template_steps Some [example_seed] (template_init {}))))) =
     [''builtin/clock'']"
proof -
  have "map tp_name (filter tp_builtin (ts_rows (template_steps Some [example_seed] (template_init {})))) = [''builtin/clock'']"
    by (simp add: example_seed_def example_entry_def SeedBuiltins_def catalog_source_def HasPrefix_def builtinPrefix_def validKind_def KindRenderFn_def too_long_def
        KindBerrySnippet_def seed_one_def json_columns_def coalesceParams_def template_init_def template_params.truncate_def)
  then show ?thesis
    using catalog_immutable [OF refl, of "[OpDeleteTemplate (\<lambda>_. False) ''1'' []]" Some "[example_seed]" "{}"] by simp
qed

text \<open>
  A start that seeds without error leaves every entry of the catalog installed as a built-in row with exactly its content,
  leaves the rows of operators alone, and the next start finds nothing to do.\<close>

theorem seed_installs:
  assumes "s = template_steps jsonb ops (template_init operators)"
    and "SeedBuiltins jsonb flt flt_tx now fs (Some cat) s = (Some counts, t)" and "distinct (map cr_name cat)"
  shows "\<exists>es. loadCatalog fs cat = Some es \<and> map cr_name es = map cr_name cat \<and> list_all (installed jsonb t) es \<and>
    filter (\<lambda>r. \<not> tp_builtin r) (ts_rows t) = filter (\<lambda>r. \<not> tp_builtin r) (ts_rows s) \<and>
    SeedBuiltins jsonb (\<lambda>_. False) False now' fs (Some cat) t = (Some (0, 0, length cat), t\<lparr>ts_next := ts_next t + int (length cat)\<rparr>)"
proof -
  have ok: "templates_ok s"
    unfolding assms(1) using kept_steps template_init_ok by (simp add: kept_def)
  obtain es os where es: "loadCatalog fs cat = Some es" and all: "seed_all jsonb flt now es s = Some (os, t)"
    using assms(2) by (auto simp: SeedBuiltins_def split: option.splits if_splits)
  note cat = loadCatalog_ok [OF es]
  have len: "length es = length cat"
    using cat by (metis length_map)
  have props: "kept s t" "list_all (installed jsonb t) es" "filter (\<lambda>r. \<not> tp_builtin r) (ts_rows t) = filter (\<lambda>r. \<not> tp_builtin r) (ts_rows s)"
    using seed_all_props [OF ok _ _ all] cat assms(3) by simp_all
  have "seed_all jsonb (\<lambda>_. False) now' es t = Some (replicate (length es) Unchanged, t\<lparr>ts_next := ts_next t + int (length es)\<rparr>)"
    using seed_all_again [of t es jsonb "\<lambda>_. False" now'] props cat by (simp add: kept_def)
  then have "SeedBuiltins jsonb (\<lambda>_. False) False now' fs (Some cat) t = (Some (0, 0, length cat), t\<lparr>ts_next := ts_next t + int (length cat)\<rparr>)"
    using es len by (simp add: SeedBuiltins_def count_replicate)
  then show ?thesis
    using es cat props by blast
qed

lemma seed_installs_witness:
  "\<exists>counts t. SeedBuiltins Some (\<lambda>_. False) False 0 [''builtins/clock.js'' \<mapsto> ''draw()''] (Some [example_entry]) (template_init {}) = (Some counts, t) \<and>
     SeedBuiltins Some (\<lambda>_. False) False 9 [''builtins/clock.js'' \<mapsto> ''draw()''] (Some [example_entry]) t = (Some (0, 0, 1), t\<lparr>ts_next := ts_next t + 1\<rparr>)"
proof -
  obtain counts t where "SeedBuiltins Some (\<lambda>_. False) False 0 [''builtins/clock.js'' \<mapsto> ''draw()''] (Some [example_entry]) (template_init {}) = (Some counts, t)"
    by (simp add: example_entry_def SeedBuiltins_def catalog_source_def HasPrefix_def builtinPrefix_def validKind_def KindRenderFn_def too_long_def
        KindBerrySnippet_def seed_one_def json_columns_def coalesceParams_def template_init_def template_params.truncate_def)
  then show ?thesis
    using seed_installs [where ops = "[]" and operators = "{}" and jsonb = Some and cat = "[example_entry]", OF refl] by fastforce
qed

end
