(* ===== verification/Template_Apply.thy ===== *)
theory Template_Apply
  imports Templates Bwry
begin

text \<open>
  Applying a template (\<open>template_apply_http.go\<close>): a snippet is queued for devices, a render function is minted, bound and
  enabled; and the decoding of a packed frame for its preview (\<open>png.go\<close>).

  \<open>json.Marshal\<close> and the PNG encoder are parameters.  A request comes decoded; the params of the body are a JSON value, an object of
  which is the map that Go decodes (distinct keys).
\<close>

section \<open>Requests\<close>

record apply_body =
  ab_fn_name :: string
  ab_params :: "json option"
  ab_target_serials :: "serial list"
  ab_bind :: bool
  ab_enable :: bool
  ab_idempotency_key :: "string option"

record apply_env =
  ae_text :: text_env
  ae_order :: "(string \<times> json) list \<Rightarrow> (string \<times> json) list"
  ae_marshal :: "(string \<times> json) list \<Rightarrow> string"
  ae_now :: time
  ae_key_id :: int
  ae_flt_load :: bool
  ae_flt_enqueue :: "nat \<Rightarrow> enqueue_call \<Rightarrow> bool"
  ae_flt_create :: "nat \<Rightarrow> bool"
  ae_flt_bind :: "nat \<Rightarrow> bool"
  ae_flt_enable :: bool

datatype apply_result = Enqueued "(serial \<times> int) list" | Minted int string "serial list"

definition decodeParams :: "json option \<Rightarrow> (string \<times> json) list option" where
  "decodeParams raw = (case raw of None \<Rightarrow> Some [] | Some JNull \<Rightarrow> Some [] | Some (JObject kvs) \<Rightarrow> Some kvs | Some _ \<Rightarrow> None)"

definition writeSubstituteErr :: "substitute_error \<Rightarrow> nat \<times> string" where
  "writeSubstituteErr e =
     (case e of
        UnknownParam \<Rightarrow> (422, ''unknown_param'')
      | MissingParam \<Rightarrow> (422, ''missing_param'')
      | UnresolvedPlaceholder \<Rightarrow> (422, ''unresolved_placeholder'')
      | EgressHostMismatch \<Rightarrow> (422, ''egress_host_mismatch'')
      | InvalidParam \<Rightarrow> (422, ''invalid_param'')
      | ConfigDefect \<Rightarrow> (500, ''internal''))"

definition sortedParams :: "(string \<times> json) list \<Rightarrow> (string \<times> json) list" where "sortedParams params = sort_key fst params"

definition deriveIdempotencyKey :: "apply_env \<Rightarrow> int \<Rightarrow> (string \<times> json) list \<Rightarrow> string" where
  "deriveIdempotencyKey env i params =
     ''tmpl:'' @ FormatInt i @ '':'' @ EncodeToString (take 8 (sha256 (bytes_of (ae_marshal env (sortedParams params)))))"

definition substitute_in :: "apply_env \<Rightarrow> template \<Rightarrow> (string \<times> json) list \<Rightarrow> substitute_error + string" where
  "substitute_in env t params = Substitute (ae_text env) (ae_order env) (tp_params t) (tp_source t) (tp_egress_allow t) params"

section \<open>Snippets\<close>

definition enqueue_status :: "cmd_error \<Rightarrow> nat \<times> string" where
  "enqueue_status e =
     (case e of
        ErrScriptEmpty \<Rightarrow> (422, ''invalid_script'')
      | C2_Channel.ErrScriptTooLong \<Rightarrow> (422, ''invalid_script'')
      | ErrUnknownSerial \<Rightarrow> (422, ''unknown_serial'')
      | _ \<Rightarrow> (500, ''internal''))"

text \<open>The loop over the targets; what it has queued stays when it stops.\<close>

fun enqueue_all :: "(nat \<Rightarrow> enqueue_call \<Rightarrow> bool) \<Rightarrow> time \<Rightarrow> string \<Rightarrow> string \<Rightarrow> int \<Rightarrow> string \<Rightarrow> serial list \<Rightarrow> 'a db_scheme \<Rightarrow>
   (serial \<times> int) list api \<times> 'a db_scheme" where
  "enqueue_all flt now script note op key [] db = (ApiOk [], db)"
| "enqueue_all flt now script note op key (sn # sns) db =
     (if sn \<noteq> ''*'' \<and> \<not> ValidSerial sn then (ApiErr 422 ''invalid_serial'', db)
      else case Enqueue (flt (length sns)) now db sn script (Some note) op (Some key) of
        (Inl e, db) \<Rightarrow> (case enqueue_status e of (status, code) \<Rightarrow> (ApiErr status code, db))
      | (Inr seq, db) \<Rightarrow>
          (case enqueue_all flt now script note op key sns db of
             (ApiOk rs, db) \<Rightarrow> (ApiOk ((sn, seq) # rs), db)
           | (ApiErr status code, db) \<Rightarrow> (ApiErr status code, db)))"

definition applyBerry :: "apply_env \<Rightarrow> template \<Rightarrow> apply_body \<Rightarrow> 'a db_scheme \<Rightarrow> (serial \<times> int) list api \<times> 'a db_scheme" where
  "applyBerry env t body db =
     (if ab_target_serials body = [] then (ApiErr 422 ''missing_target'', db)
      else case decodeParams (ab_params body) of
        None \<Rightarrow> (ApiErr 400 ''bad_request'', db)
      | Some params \<Rightarrow>
          (case substitute_in env t params of
             Inl e \<Rightarrow> (case writeSubstituteErr e of (status, code) \<Rightarrow> (ApiErr status code, db))
           | Inr script \<Rightarrow>
               if length script > BerryScriptMax then (ApiErr 422 ''berry_too_long'', db)
               else
                 let key = (case ab_idempotency_key body of None \<Rightarrow> deriveIdempotencyKey env (tp_id t) params | Some k \<Rightarrow> k)
                 in enqueue_all (ae_flt_enqueue env) (ae_now env) script (''tmpl:'' @ tp_name t) (ae_key_id env) key (ab_target_serials body) db))"

section \<open>Render functions\<close>

definition deriveFnName :: "apply_env \<Rightarrow> string \<Rightarrow> (string \<times> json) list \<Rightarrow> string" where
  "deriveFnName env templateName params =
     (let base = (if HasPrefix templateName ''builtin/'' then drop 8 templateName else templateName);
          hash = EncodeToString (take 4 (sha256 (bytes_of (ae_marshal env (sortedParams params)))));
          mx = 128 - 1 - length hash
      in (if length base > mx then take mx base else base) @ ''-'' @ hash)"

definition minted_params :: "template \<Rightarrow> string \<Rightarrow> string \<Rightarrow> create_params" where
  "minted_params t source name =
     \<lparr>cp_name = name, cp_source = source, cp_trigger_type = [], cp_trigger_config = (case tp_trigger_config t of None \<Rightarrow> [] | Some j \<Rightarrow> j),
      cp_secret_bindings = Some (tp_secret_bindings t), cp_egress_allow = Some (tp_egress_allow t), cp_webhook_sha = None, cp_template_id = Some (tp_id t)\<rparr>"

text \<open>The attempts that remain, of 64.\<close>

fun create_attempts :: "apply_env \<Rightarrow> template \<Rightarrow> string \<Rightarrow> string \<Rightarrow> bool \<Rightarrow> nat \<Rightarrow> display_db \<Rightarrow> (int \<times> string) api \<times> display_db" where
  "create_attempts env t source base explicit 0 db = (ApiErr 409 ''function_name_taken'', db)"
| "create_attempts env t source base explicit (Suc k) db =
     (let attempt = 63 - k; name = (if attempt > 0 then base @ ''-'' @ FormatInt (int attempt + 1) else base)
      in case CreateFunction (ae_flt_create env attempt) (ae_now env) (minted_params t source name) db of
           (Inr i, db) \<Rightarrow> (ApiOk (i, name), db)
         | (Inl UniqueViolation, db) \<Rightarrow>
             if explicit then (ApiErr 409 ''function_name_taken'', db) else create_attempts env t source base explicit k db
         | (Inl _, db) \<Rightarrow> (ApiErr 500 ''internal'', db))"

definition createRenderFn where "createRenderFn env t source base explicit db = create_attempts env t source base explicit 64 db"

fun bind_all :: "(nat \<Rightarrow> bool) \<Rightarrow> int \<Rightarrow> serial list \<Rightarrow> display_db \<Rightarrow> bool \<times> display_db" where
  "bind_all flt i [] db = (True, db)"
| "bind_all flt i (sn # sns) db =
     (case BindDevice (flt (length sns)) sn i db of (Some _, db) \<Rightarrow> (False, db) | (None, db) \<Rightarrow> bind_all flt i sns db)"

definition applyRenderFn :: "apply_env \<Rightarrow> template \<Rightarrow> apply_body \<Rightarrow> display_db \<Rightarrow> (int \<times> string \<times> serial list) api \<times> display_db" where
  "applyRenderFn env t body db =
     (case decodeParams (ab_params body) of
        None \<Rightarrow> (ApiErr 400 ''bad_request'', db)
      | Some params \<Rightarrow>
          (case substitute_in env t params of
             Inl e \<Rightarrow> (case writeSubstituteErr e of (status, code) \<Rightarrow> (ApiErr status code, db))
           | Inr source \<Rightarrow>
               (let explicit = (ab_fn_name body \<noteq> []);
                    base = (if explicit then ab_fn_name body else deriveFnName env (tp_name t) params);
                    serials = (if ab_bind body then ab_target_serials body else [])
                in if \<not> ValidName base then (ApiErr 422 ''invalid_name'', db)
                   else if \<not> list_all ValidSerial serials then (ApiErr 422 ''invalid_serial'', db)
                   else case createRenderFn env t source base explicit db of
                     (ApiErr status code, db) \<Rightarrow> (ApiErr status code, db)
                   | (ApiOk (i, name), db) \<Rightarrow>
                       (case bind_all (ae_flt_bind env) i serials db of
                          (False, db) \<Rightarrow> (ApiErr 500 ''internal'', db)
                        | (True, db) \<Rightarrow>
                            if ab_enable body then
                              (case SetEnabled (ae_flt_enable env) (ae_now env) i True db of
                                 (None, db) \<Rightarrow> (ApiErr 500 ''internal'', db)
                               | (Some _, db) \<Rightarrow> (ApiOk (i, name, serials), db))
                            else (ApiOk (i, name, serials), db)))))"

text \<open>The handler: the row's kind selects the branch.\<close>

definition apply_template ::
  "apply_env \<Rightarrow> string \<Rightarrow> apply_body option \<Rightarrow> template_state \<Rightarrow> 'a db_scheme \<Rightarrow> apply_result api \<times> template_state \<times> 'a db_scheme" where
  "apply_template env path body s db =
     (case templateID path of
        None \<Rightarrow> (ApiErr 422 ''invalid_id'', s, db)
      | Some i \<Rightarrow>
          (case LoadTemplate (ae_flt_load env) i s of
             Inl TmNotFound \<Rightarrow> (ApiErr 404 ''not_found'', s, db)
           | Inl _ \<Rightarrow> (ApiErr 500 ''internal'', s, db)
           | Inr t \<Rightarrow>
               (case body of
                  None \<Rightarrow> (ApiErr 400 ''bad_request'', s, db)
                | Some b \<Rightarrow>
                    if tp_kind t = KindBerrySnippet then
                      (case applyBerry env t b db of
                         (ApiErr status code, db) \<Rightarrow> (ApiErr status code, s, db)
                       | (ApiOk rs, db) \<Rightarrow> (ApiOk (Enqueued rs), s, db))
                    else if tp_kind t = KindRenderFn then
                      (case applyRenderFn env t b (ts_display s) of
                         (ApiErr status code, dd) \<Rightarrow> (ApiErr status code, s\<lparr>ts_display := dd\<rparr>, db)
                       | (ApiOk (i, name, sns), dd) \<Rightarrow> (ApiOk (Minted i name sns), s\<lparr>ts_display := dd\<rparr>, db))
                    else (ApiErr 422 ''unsupported_kind'', s, db))))"

section \<open>Previews (png.go)\<close>

text \<open>The palette index of every pixel, row by row, which the PNG encoder is given.\<close>

definition preview_code :: "bytes \<Rightarrow> nat \<Rightarrow> byte" where
  "preview_code packed px = drop_bit (6 - 2 * (px mod 4)) (packed ! (px div 4)) AND 3"

definition PackedToPNG :: "(byte list \<Rightarrow> bytes option) \<Rightarrow> bytes \<Rightarrow> bytes option" where
  "PackedToPNG encode packed =
     (if length packed \<noteq> PackedSize then None else encode (map (preview_code packed) [0..<Width * Height]))"

section \<open>A snippet is queued once\<close>

lemma Enqueue_keyed:
  assumes "queue_inv db" "\<forall>c. \<not> flt c" "k \<noteq> []" "Enqueue flt now db sn sc nt op (Some k) = (Inr seq, db')"
  shows "\<exists>new. command_queue db' = command_queue db @ new \<and> (\<forall>r \<in> set new. c_script r = sc \<and> c_serial r = sn) \<and> length sc \<le> 8191 \<and>
    devices db' = devices db \<and> queue_inv db' \<and> (\<exists>r \<in> set (command_queue db'). pending_key sn k r \<and> c_seq r = seq)"
proof -
  have check: "enqueue_check flt db sn sc = None"
    using assms(4) by (auto simp: Enqueue_def split: option.splits)
  have inv: "queue_inv db'"
    using c2_apply_queue_inv [OF assms(1), of undefined "EnqueueCmd flt now sn sc nt op (Some k)"] assms(4) by simp
  show ?thesis
  proof (cases "cmd_conflict db sn (Some k)")
    case True
    then obtain r where r: "r \<in> set (command_queue db)" "pending_key sn k r"
      by (auto simp: cmd_conflict_def)
    have "seq = c_seq r" "db' = db\<lparr>cmd_next_seq := cmd_next_seq db + 1\<rparr>"
      using Enqueue_pending [of db flt sn sc k r now nt op] assms check r by simp_all
    then show ?thesis
      using r inv check by (auto simp: enqueue_check_None)
  next
    case False
    then have "seq = cmd_next_seq db" "db' = db\<lparr>command_queue := command_queue db @ [new_cmd now db sn sc nt (Some op) (Some k)], cmd_next_seq := cmd_next_seq db + 1\<rparr>"
      using Enqueue_new [of flt db sn sc k now nt op] assms check by simp_all
    then show ?thesis
      using inv check by (auto simp: enqueue_check_None new_cmd_def pending_key_def)
  qed
qed

lemma Enqueue_again:
  assumes "queue_inv db" "\<forall>c. \<not> flt c" "k \<noteq> []" "r \<in> set (command_queue db)" "pending_key sn k r" "enqueue_check flt db sn sc = None"
  shows "\<exists>db'. Enqueue flt now db sn sc nt op (Some k) = (Inr (c_seq r), db') \<and> command_queue db' = command_queue db \<and> devices db' = devices db \<and> queue_inv db'"
  using Enqueue_pending [of db flt sn sc k r now nt op] assms by (auto simp: queue_inv_def queue_ok_def)

text \<open>A second pass over targets that are pending returns the same numbers and adds nothing, whatever the script.\<close>

lemma enqueue_all_again:
  assumes "queue_inv db" "\<forall>i c. \<not> flt i c" "key \<noteq> []" "sc \<noteq> []" "length sc \<le> 8191"
    and "list_all (\<lambda>(sn, seq). (\<exists>r \<in> set (command_queue db). pending_key sn key r \<and> c_seq r = seq) \<and> (sn = ''*'' \<or> ValidSerial sn \<and> devices db sn \<noteq> None)) rs"
  shows "\<exists>db'. enqueue_all flt now sc nt op key (map fst rs) db = (ApiOk rs, db') \<and> command_queue db' = command_queue db"
  using assms(1,6)
proof (induction rs arbitrary: db)
  case (Cons p rs)
  obtain sn seq where p: "p = (sn, seq)"
    by (cases p)
  obtain r where r: "r \<in> set (command_queue db)" "pending_key sn key r" "c_seq r = seq"
    using Cons.prems(2) p by auto
  have "enqueue_check (flt (length rs)) db sn sc = None"
    using Cons.prems(2) p assms(2,4,5) by (auto simp: enqueue_check_None)
  then obtain db1 where db1: "Enqueue (flt (length rs)) now db sn sc (Some nt) op (Some key) = (Inr seq, db1)"
    "command_queue db1 = command_queue db" "devices db1 = devices db" "queue_inv db1"
    using Enqueue_again [OF Cons.prems(1) _ assms(3) r(1,2), of "flt (length rs)" sc now "Some nt" op] assms(2) r(3) by auto
  obtain db' where "enqueue_all flt now sc nt op key (map fst rs) db1 = (ApiOk rs, db')" "command_queue db' = command_queue db1"
    using Cons.IH [OF db1(4)] Cons.prems(2) db1(2,3) by auto
  then show ?case
    using db1 Cons.prems(2) p by auto
qed simp

lemma enqueue_all_props:
  assumes "queue_inv db" "\<forall>i c. \<not> flt i c" "key \<noteq> []" "enqueue_all flt now sc nt op key sns db = (ApiOk rs, db')"
  shows "map fst rs = sns \<and> (\<exists>new. command_queue db' = command_queue db @ new \<and> (\<forall>r \<in> set new. c_script r = sc \<and> c_serial r \<in> set sns)) \<and>
    devices db' = devices db \<and> queue_inv db' \<and> (sns \<noteq> [] \<longrightarrow> sc \<noteq> [] \<and> length sc \<le> 8191) \<and>
    list_all (\<lambda>(sn, seq). (\<exists>r \<in> set (command_queue db'). pending_key sn key r \<and> c_seq r = seq) \<and> (sn = ''*'' \<or> ValidSerial sn \<and> devices db' sn \<noteq> None)) rs"
  using assms(1,4)
proof (induction sns arbitrary: db rs)
  case (Cons sn sns)
  obtain seq db1 rs1 where one: "Enqueue (flt (length sns)) now db sn sc (Some nt) op (Some key) = (Inr seq, db1)" "sn = ''*'' \<or> ValidSerial sn"
    "enqueue_all flt now sc nt op key sns db1 = (ApiOk rs1, db')" "rs = (sn, seq) # rs1"
    using Cons.prems(2) by (auto split: if_splits prod.splits sum.splits api.splits)
  have check: "enqueue_check (flt (length sns)) db sn sc = None"
    using one(1) by (auto simp: Enqueue_def split: option.splits)
  obtain new where new: "command_queue db1 = command_queue db @ new" "\<forall>r \<in> set new. c_script r = sc \<and> c_serial r = sn" "length sc \<le> 8191"
    "devices db1 = devices db" "queue_inv db1" "\<exists>r \<in> set (command_queue db1). pending_key sn key r \<and> c_seq r = seq"
    using Enqueue_keyed [OF Cons.prems(1) _ assms(3) one(1)] assms(2) by blast
  obtain new' where new': "map fst rs1 = sns" "command_queue db' = command_queue db1 @ new'" "\<forall>r \<in> set new'. c_script r = sc \<and> c_serial r \<in> set sns"
    "devices db' = devices db1" "queue_inv db'"
    "list_all (\<lambda>(sn, seq). (\<exists>r \<in> set (command_queue db'). pending_key sn key r \<and> c_seq r = seq) \<and> (sn = ''*'' \<or> ValidSerial sn \<and> devices db' sn \<noteq> None)) rs1"
    using Cons.IH [OF new(5) one(3)] by blast
  have "sc \<noteq> []" "sn = ''*'' \<or> devices db sn \<noteq> None"
    using check by (auto simp: enqueue_check_None)
  then show ?case
    using one(2,4) new new' by auto
qed simp


definition example_template :: template where
  "example_template = \<lparr>tp_id = 1, tp_name = ''boot'', tp_kind = ''berry_snippet'', tp_description = ''{}'', tp_source = ''reboot()'', tp_params = ''[]'',
     tp_egress_allow = [], tp_secret_bindings = [], tp_trigger_config = None, tp_builtin = False, tp_version = 1, tp_created_at = 0, tp_updated_at = 0\<rparr>"

definition example_apply_env :: apply_env where
  "example_apply_env = \<lparr>ae_text = \<lparr>te_schema = (\<lambda>_. Some []), te_url_host = (\<lambda>_. None), te_float = (\<lambda>_. False)\<rparr>, ae_order = id, ae_marshal = (\<lambda>_. ''[]''),
     ae_now = 1, ae_key_id = 7, ae_flt_load = False, ae_flt_enqueue = (\<lambda>_ _. False), ae_flt_create = (\<lambda>_. False), ae_flt_bind = (\<lambda>_. False), ae_flt_enable = False\<rparr>"

definition example_body :: "serial list \<Rightarrow> apply_body" where
  "example_body sns = \<lparr>ab_fn_name = ''fn'', ab_params = None, ab_target_serials = sns, ab_bind = True, ab_enable = True, ab_idempotency_key = Some ''k''\<rparr>"

lemma example_substitute: "substitute_in example_apply_env example_template [] = Inr ''reboot()''"
  by code_simp


text \<open>
  The key is derived from the template's id and the params alone.  So while a command is pending, applying the edited template with the same params
  answers with the number of the old command, and the new script is dropped.\<close>

lemma edited_snippet_dropped:
  assumes "queue_inv db" "\<forall>i c. \<not> ae_flt_enqueue env i c" "ab_idempotency_key body = None" "ab_target_serials body = [sn]" "sn = ''*''"
    and "decodeParams (ab_params body) = Some params" "substitute_in env t params = Inr script" "script \<noteq> []" "length script \<le> 8191"
    and "r \<in> set (command_queue db)" "pending_key sn (deriveIdempotencyKey env (tp_id t) params) r"
  shows "\<exists>db'. applyBerry env t body db = (ApiOk [(sn, c_seq r)], db') \<and> command_queue db' = command_queue db"
proof -
  have "deriveIdempotencyKey env (tp_id t) params \<noteq> []"
    by (simp add: deriveIdempotencyKey_def)
  moreover have "enqueue_check (ae_flt_enqueue env 0) db sn script = None"
    using assms(5,8,9) by (simp add: enqueue_check_None)
  ultimately obtain db' where "Enqueue (ae_flt_enqueue env 0) (ae_now env) db sn script (Some (''tmpl:'' @ tp_name t)) (ae_key_id env) (Some (deriveIdempotencyKey env (tp_id t) params))
      = (Inr (c_seq r), db')" "command_queue db' = command_queue db"
    using Enqueue_again [of db "ae_flt_enqueue env 0"] assms(1,2,10,11) by blast
  then show ?thesis
    using assms(3-9) by (simp add: applyBerry_def BerryScriptMax_def)
qed

section \<open>A minted function\<close>

lemma CreateFunction_Inr:
  assumes "CreateFunction flt now p db = (Inr i, db')"
  shows "\<exists>f. d_functions db' = d_functions db @ [f] \<and> fn_id f = i \<and> fn_name f = cp_name p \<and> fn_source f = cp_source p \<and> \<not> fn_enabled f \<and>
    fn_egress_allow f = coalesceSlice (cp_egress_allow p) \<and> fn_secret_bindings f = coalesceSlice (cp_secret_bindings p) \<and> fn_template_id f = cp_template_id p \<and>
    (\<forall>g \<in> set (d_functions db). fn_name g \<noteq> cp_name p) \<and> i = d_next_function db \<and> d_function_of db' = d_function_of db"
  using assms by (auto simp: CreateFunction_def Let_def split: if_splits)

lemma create_attempts_props:
  assumes "create_attempts env t source base explicit k db = (ApiOk (i, name), db')" "k \<le> 64" "explicit \<longrightarrow> k = 64"
  shows "\<exists>f. d_functions db' = d_functions db @ [f] \<and> fn_id f = i \<and> fn_name f = name \<and> fn_source f = source \<and> \<not> fn_enabled f \<and>
    fn_egress_allow f = tp_egress_allow t \<and> fn_secret_bindings f = tp_secret_bindings t \<and> fn_template_id f = Some (tp_id t) \<and>
    (\<forall>g \<in> set (d_functions db). fn_name g \<noteq> name) \<and> i = d_next_function db \<and> (explicit \<longrightarrow> name = base) \<and>
    d_function_of db' = d_function_of db"
  using assms
proof (induction k)
  case (Suc k)
  let ?name = "if 63 - k > 0 then base @ ''-'' @ FormatInt (int (63 - k) + 1) else base"
  obtain res db1 where cf: "CreateFunction (ae_flt_create env (63 - k)) (ae_now env) (minted_params t source ?name) db = (res, db1)"
    by fastforce
  show ?case
  proof (cases res)
    case (Inr j)
    then have "j = i" "?name = name" "db1 = db'"
      using Suc.prems(1) cf by (simp_all add: Let_def)
    then show ?thesis
      using CreateFunction_Inr [of _ _ _ db j db1] cf Inr Suc.prems(2,3)
      by (fastforce simp: minted_params_def coalesceSlice_def coalesce_def)
  next
    case (Inl e)
    then have "e = UniqueViolation" "\<not> explicit" and rest: "create_attempts env t source base explicit k db1 = (ApiOk (i, name), db')"
      using Suc.prems(1) cf by (auto simp: Let_def split: store_error.splits if_splits)
    moreover have "db1 = db"
      using cf Inl by (auto simp: CreateFunction_def Let_def split: if_splits)
    ultimately show ?thesis
      using Suc.IH Suc.prems(2) by simp
  qed
qed simp

lemma create_attempts_ok: "display_ok db \<Longrightarrow> display_ok (snd (create_attempts env t source base explicit k db))"
proof (induction k arbitrary: db)
  case (Suc k)
  let ?name = "if 63 - k > 0 then base @ ''-'' @ FormatInt (int (63 - k) + 1) else base"
  obtain res db1 where cf: "CreateFunction (ae_flt_create env (63 - k)) (ae_now env) (minted_params t source ?name) db = (res, db1)"
    by fastforce
  then have "display_ok db1"
    using ok_CreateFunction [OF Suc.prems, of "ae_flt_create env (63 - k)" "ae_now env" "minted_params t source ?name"] by simp
  then show ?case
    using Suc.IH cf by (auto simp: Let_def split: sum.split store_error.split)
qed simp

lemma BindDevice_None:
  assumes "BindDevice flt sn i db = (None, db')"
  shows "d_functions db' = d_functions db \<and> d_function_of db' = (d_function_of db)(sn \<mapsto> i) \<and> d_playlist_of db' sn = None"
  using assms by (auto simp: BindDevice_def Let_def delete_playlists_def split: if_splits)

lemma bind_all_props:
  assumes "bind_all flt i sns db = (True, db')" "display_ok db"
  shows "display_ok db' \<and> d_functions db' = d_functions db \<and> (\<forall>sn. d_function_of db' sn = (if sn \<in> set sns then Some i else d_function_of db sn))"
  using assms
proof (induction sns arbitrary: db)
  case (Cons sn sns)
  obtain db1 where one: "BindDevice (flt (length sns)) sn i db = (None, db1)" "bind_all flt i sns db1 = (True, db')"
    using Cons.prems(1) by (auto split: prod.splits option.splits)
  have "display_ok db1"
    using ok_BindDevice [OF Cons.prems(2), of "flt (length sns)" sn i] one(1) by simp
  then show ?case
    using Cons.IH [OF one(2)] BindDevice_None [OF one(1)] by auto
qed simp

text \<open>
  A render template that is applied without error has minted one function, under a name that was free (the chosen one, if
  one was given), with the substituted source and exactly the hosts and secrets of the template, enabled as asked; the devices to
  bind show it, and no playlist; every other function and binding is as before, and the tables stay well formed.\<close>

theorem apply_mints_function:
  assumes "display_ok db" and "applyRenderFn env t body db = (ApiOk (i, name, serials), db')"
  shows "display_ok db' \<and> serials = (if ab_bind body then ab_target_serials body else []) \<and>
    (\<exists>f params. d_functions db' = d_functions db @ [f] \<and> decodeParams (ab_params body) = Some params \<and> substitute_in env t params = Inr (fn_source f) \<and>
       fn_id f = i \<and> i \<notin> fn_id ` set (d_functions db) \<and> fn_name f = name \<and> (\<forall>g \<in> set (d_functions db). fn_name g \<noteq> name) \<and>
       (ab_fn_name body \<noteq> [] \<longrightarrow> name = ab_fn_name body) \<and> fn_enabled f = ab_enable body \<and>
       fn_egress_allow f = tp_egress_allow t \<and> fn_secret_bindings f = tp_secret_bindings t) \<and>
    (\<forall>sn. d_function_of db' sn = (if sn \<in> set serials then Some i else d_function_of db sn)) \<and>
    (\<forall>sn \<in> set serials. ValidSerial sn \<and> d_playlist_of db' sn = None)"
proof -
  obtain params where params: "decodeParams (ab_params body) = Some params"
    using assms(2) by (auto simp: applyRenderFn_def split: option.splits)
  obtain source where source: "substitute_in env t params = Inr source"
    using assms(2) params by (auto simp: applyRenderFn_def split: sum.splits prod.splits)
  define base where "base = (if ab_fn_name body \<noteq> [] then ab_fn_name body else deriveFnName env (tp_name t) params)"
  define sns where "sns = (if ab_bind body then ab_target_serials body else [])"
  have valid: "ValidName base" "list_all ValidSerial sns"
    using assms(2) params source unfolding applyRenderFn_def base_def sns_def by (auto simp: Let_def split: if_splits)
  have eq: "applyRenderFn env t body db =
      (case createRenderFn env t source base (ab_fn_name body \<noteq> []) db of
         (ApiErr status code, db) \<Rightarrow> (ApiErr status code, db)
       | (ApiOk (i, name), db) \<Rightarrow>
           (case bind_all (ae_flt_bind env) i sns db of
              (False, db) \<Rightarrow> (ApiErr 500 ''internal'', db)
            | (True, db) \<Rightarrow>
                if ab_enable body then
                  (case SetEnabled (ae_flt_enable env) (ae_now env) i True db of
                     (None, db) \<Rightarrow> (ApiErr 500 ''internal'', db)
                   | (Some _, db) \<Rightarrow> (ApiOk (i, name, sns), db))
                else (ApiOk (i, name, sns), db)))"
    using valid unfolding base_def sns_def by (simp add: applyRenderFn_def params source Let_def cong del: if_weak_cong)
  obtain res db1 where mint': "createRenderFn env t source base (ab_fn_name body \<noteq> []) db = (res, db1)"
    by fastforce
  then obtain i' name' where res: "res = ApiOk (i', name')"
    using assms(2) eq by (cases res) auto
  obtain bound db2 where bind': "bind_all (ae_flt_bind env) i' sns db1 = (bound, db2)"
    by fastforce
  then have bound
    using assms(2) eq mint' res by (cases bound) auto
  then have ids: "i' = i" "name' = name" "serials = sns" and on: "\<not> ab_enable body \<and> db' = db2 \<or> ab_enable body \<and> (\<exists>b. SetEnabled (ae_flt_enable env) (ae_now env) i True db2 = (Some b, db'))"
    using assms(2) eq mint' res bind' by (auto split: if_splits prod.splits option.splits)
  have mint: "createRenderFn env t source base (ab_fn_name body \<noteq> []) db = (ApiOk (i, name), db1)" and bind: "bind_all (ae_flt_bind env) i sns db1 = (True, db2)"
    using mint' res bind' ids \<open>bound\<close> by simp_all
  obtain f where f: "d_functions db1 = d_functions db @ [f]" "fn_id f = i" "fn_name f = name" "fn_source f = source" "\<not> fn_enabled f"
    "fn_egress_allow f = tp_egress_allow t" "fn_secret_bindings f = tp_secret_bindings t" "(\<forall>g \<in> set (d_functions db). fn_name g \<noteq> name)" "i = d_next_function db"
    "ab_fn_name body \<noteq> [] \<longrightarrow> name = base" "d_function_of db1 = d_function_of db"
    using create_attempts_props [OF mint [unfolded createRenderFn_def]] by auto
  have ok1: "display_ok db1"
    using create_attempts_ok [OF assms(1), of env t source base "ab_fn_name body \<noteq> []" 64] mint by (simp add: createRenderFn_def)
  note B = bind_all_props [OF bind ok1]
  have new: "\<forall>g \<in> set (d_functions db). fn_id g \<noteq> i"
    using assms(1) f(9) by (auto simp: display_ok_def functions_ok_def keyed_def)
  obtain f' where f': "d_functions db' = d_functions db @ [f']" "fn_id f' = i" "fn_name f' = name" "fn_source f' = source" "fn_enabled f' = ab_enable body"
    "fn_egress_allow f' = tp_egress_allow t" "fn_secret_bindings f' = tp_secret_bindings t"
    and rest: "display_ok db'" "d_function_of db' = d_function_of db2"
  proof (cases "ab_enable body")
    case False
    then show ?thesis
      using that [of f] on f B by auto
  next
    case True
    then obtain b where "SetEnabled (ae_flt_enable env) (ae_now env) i True db2 = (Some b, db')"
      using on by blast
    then have db': "db' = map_function i (\<lambda>f. f\<lparr>fn_enabled := True, fn_updated_at := ae_now env\<rparr>) db2" and ok': "display_ok db'"
      using ok_SetEnabled [of db2 "ae_flt_enable env" "ae_now env" i True] B by (auto simp: SetEnabled_def exec_function_def split: if_splits)
    have "map (\<lambda>g. if fn_id g = i then h g else g) (d_functions db) = d_functions db" for h
      using new by (simp add: map_idI)
    then show ?thesis
      using that [of "f\<lparr>fn_enabled := True, fn_updated_at := ae_now env\<rparr>"] f B ok' True by (simp add: db' map_function_def)
  qed
  have "d_function_of db' sn = (if sn \<in> set sns then Some i else d_function_of db sn)" for sn
    using rest(2) B f(11) by simp
  moreover from this have "d_playlist_of db' sn = None" if "sn \<in> set sns" for sn
    using rest(1) that unfolding display_ok_def bindings_ok_def by (metis disjoint_iff domIff option.distinct(1))
  moreover have "i \<notin> fn_id ` set (d_functions db)"
    using new by auto
  ultimately show ?thesis
    using rest(1) f' f(8,10) params source ids(3) valid(2) by (auto simp: base_def sns_def list_all_iff)
qed

definition example_function_template :: template where
  "example_function_template = example_template\<lparr>tp_kind := ''render_fn'', tp_source := ''draw()'', tp_egress_allow := [''h:80'']\<rparr>"

lemma apply_mints_function_witness:
  "\<exists>db' f. applyRenderFn example_apply_env example_function_template (example_body [''pp1'']) (display_init {} Map.empty {1}) = (ApiOk (1, ''fn'', [''pp1'']), db') \<and>
     d_functions db' = [f] \<and> fn_egress_allow f = [''h:80''] \<and> fn_enabled f \<and> d_function_of db' ''pp1'' = Some 1"
proof -
  let ?db = "display_init {} Map.empty {1}"
  have sub: "substitute_in example_apply_env example_function_template [] = Inr ''draw()''"
    by code_simp
  have names: "ValidName ''fn''" "ValidSerial ''pp1''"
    by code_simp+
  have "createRenderFn env t source base explicit db = create_attempts env t source base explicit (Suc 63) db" for env t source base explicit db
    by (simp add: createRenderFn_def)
  then have mint: "createRenderFn example_apply_env example_function_template ''draw()'' ''fn'' True ?db =
      (case CreateFunction False 1 (minted_params example_function_template ''draw()'' ''fn'') ?db of (Inr i, db) \<Rightarrow> (ApiOk (i, ''fn''), db) | (_, db) \<Rightarrow> (ApiErr 500 [], db))"
    by (simp only: create_attempts.simps)
      (simp add: CreateFunction_def example_apply_env_def minted_params_def display_init_def Let_def example_function_template_def example_template_def triggerOrDefault_def)
  obtain db' where run: "applyRenderFn example_apply_env example_function_template (example_body [''pp1'']) ?db = (ApiOk (1, ''fn'', [''pp1'']), db')"
    by (simp add: applyRenderFn_def sub decodeParams_def example_body_def names mint)
      (simp add: CreateFunction_def example_apply_env_def minted_params_def display_init_def Let_def
        example_function_template_def example_template_def triggerOrDefault_def BindDevice_def find_function_def delete_playlists_def SetEnabled_def exec_function_def)
  have "display_ok ?db" "d_functions ?db = []"
    using display_ok_init by (simp_all add: display_init_def)
  note props = apply_mints_function [OF this(1) run, unfolded this(2)]
  obtain f where "d_functions db' = [f]" "fn_enabled f" "fn_egress_allow f = [''h:80'']"
    using props by (auto simp: example_body_def example_function_template_def)
  moreover have "\<forall>sn. d_function_of db' sn = (if sn \<in> set [''pp1''] then Some 1 else d_function_of ?db sn)"
    using props by blast
  ultimately show ?thesis
    using run by simp
qed

section \<open>Previews\<close>

lemma preview_code_unpack: "px < 4 * length packed \<Longrightarrow> preview_code packed px = unpack2bpp packed ! px"
proof (induction packed arbitrary: px)
  case (Cons b packed)
  show ?case
  proof (cases "px < 4")
    case True
    then consider "px = 0" | "px = 1" | "px = 2" | "px = 3"
      by linarith
    then show ?thesis
      by cases (simp_all add: preview_code_def unpack2bpp_def unpack_byte_def)
  next
    case False
    then obtain n where n: "px = 4 + n"
      using le_Suc_ex not_less by blast
    have "preview_code (b # packed) px = preview_code packed n"
      by (simp add: n preview_code_def)
    moreover have "unpack2bpp (b # packed) ! px = unpack2bpp packed ! n"
      by (simp add: n unpack2bpp_def unpack_byte_def nth_append)
    ultimately show ?thesis
      using Cons n by simp
  qed
qed simp

text \<open>The preview of a packed image has, at every pixel, the code that the panel shows there.\<close>

lemma preview_shows_frame:
  assumes "length packed = PackedSize" "x < Width" "y < Height"
  shows "PackedToPNG Some packed \<noteq> None" "the (PackedToPNG Some packed) ! (y * Width + x) = unpack2bpp packed ! (y * Width + x)"
proof -
  have "y * Width + x < (y + 1) * Width"
    using assms(2) by simp
  also have "\<dots> \<le> Height * Width"
    using assms(3) by (intro mult_right_mono) simp_all
  finally have px: "y * Width + x < Width * Height"
    by (simp add: mult.commute)
  then have "y * Width + x < 4 * length packed"
    using assms(1) by (simp add: frame_dims)
  then show "PackedToPNG Some packed \<noteq> None" "the (PackedToPNG Some packed) ! (y * Width + x) = unpack2bpp packed ! (y * Width + x)"
    using assms(1) px preview_code_unpack by (simp_all add: PackedToPNG_def)
qed

end
