(* ===== verification/Single_Flight.thy ===== *)
theory Single_Flight
  imports Main
begin

text \<open>
  The in-flight deduplication of playlist renders (\<open>singleFlight\<close> in \<open>faascore/playlistframe.go\<close>) under \<open>packedVariant\<close>, with threads that
  interleave: the cache lookup, the map of calls under its mutex, the channel that is closed when a call has its result, the
  render and the store of its frame.

  A call is a number; its channel is closed when \<open>fl_done\<close> holds its result (\<open>None\<close> for an error).  Three ghost fields record the
  worker drives, the frames they have produced, and the events that make another drive necessary.
\<close>

section \<open>Threads\<close>

datatype 'r flight_pc =
    Idle
  | Missed string
  | Waiting string nat
  | Leading string nat
  | Driving string nat
  | Finishing string nat "'r option"
  | Published string nat "'r option"
  | Returned string "'r option"
  | Dead string nat

record 'r flight =
  fl_calls :: "string \<rightharpoonup> nat"
  fl_next :: nat
  fl_done :: "nat \<rightharpoonup> 'r option"
  fl_cache :: "string \<rightharpoonup> 'r"
  fl_pc :: "nat \<Rightarrow> 'r flight_pc"
  fl_drives :: "string \<Rightarrow> nat"
  fl_produced :: "(string \<times> 'r) set"
  fl_losses :: "string \<Rightarrow> nat"

definition go_to :: "nat \<Rightarrow> 'r flight_pc \<Rightarrow> 'r flight \<Rightarrow> 'r flight" where
  "go_to t p s = s\<lparr>fl_pc := (fl_pc s)(t := p)\<rparr>"

definition lost :: "string \<Rightarrow> 'r flight \<Rightarrow> 'r flight" where
  "lost k s = s\<lparr>fl_losses := (fl_losses s)(k := fl_losses s k + 1)\<rparr>"

text \<open>A frame is stored with \<open>ON CONFLICT DO NOTHING\<close>: an entry that is there stays.\<close>

definition put_new :: "'r option \<Rightarrow> 'r \<Rightarrow> 'r" where
  "put_new old p = (case old of Some q \<Rightarrow> q | None \<Rightarrow> p)"

text \<open>
  A lookup that fails counts as a miss, so it may miss a frame that is there.  The store of the frame comes before the result is
  published.  \<open>Evict\<close> is the collection of the variant cache; \<open>Panic\<close> is a panic of the function that is run, which the HTTP server
  recovers further up: the call is then neither closed nor removed.
\<close>

inductive flight_step :: "'r flight \<Rightarrow> 'r flight \<Rightarrow> bool" where
  Hit: "fl_pc s t = Idle \<Longrightarrow> fl_cache s k = Some p \<Longrightarrow> flight_step s (go_to t (Returned k (Some p)) s)"
| Miss: "fl_pc s t = Idle \<Longrightarrow> flight_step s (go_to t (Missed k) s)"
| Join: "fl_pc s t = Missed k \<Longrightarrow> fl_calls s k = Some c \<Longrightarrow> flight_step s (go_to t (Waiting k c) s)"
| Lead: "fl_pc s t = Missed k \<Longrightarrow> fl_calls s k = None \<Longrightarrow>
    flight_step s (go_to t (Leading k (fl_next s)) (s\<lparr>fl_calls := (fl_calls s)(k \<mapsto> fl_next s), fl_next := fl_next s + 1\<rparr>))"
| Recheck: "fl_pc s t = Leading k c \<Longrightarrow> fl_cache s k = Some p \<Longrightarrow> flight_step s (go_to t (Finishing k c (Some p)) s)"
| Drive: "fl_pc s t = Leading k c \<Longrightarrow>
    flight_step s (go_to t (Driving k c) ((if fl_cache s k = None then s else lost k s)\<lparr>fl_drives := (fl_drives s)(k := fl_drives s k + 1)\<rparr>))"
| Stored: "fl_pc s t = Driving k c \<Longrightarrow>
    flight_step s (go_to t (Finishing k c (Some p)) (s\<lparr>fl_cache := (fl_cache s)(k \<mapsto> put_new (fl_cache s k) p), fl_produced := insert (k, p) (fl_produced s)\<rparr>))"
| Fail: "fl_pc s t = Driving k c \<Longrightarrow> flight_step s (go_to t (Finishing k c None) (lost k s))"
| Close: "fl_pc s t = Finishing k c r \<Longrightarrow> flight_step s (go_to t (Published k c r) (s\<lparr>fl_done := (fl_done s)(c \<mapsto> r)\<rparr>))"
| Remove: "fl_pc s t = Published k c r \<Longrightarrow> flight_step s (go_to t (Returned k r) (s\<lparr>fl_calls := (fl_calls s)(k := None)\<rparr>))"
| Wake: "fl_pc s t = Waiting k c \<Longrightarrow> fl_done s c = Some r \<Longrightarrow> flight_step s (go_to t (Returned k r) s)"
| Again: "fl_pc s t = Returned k r \<Longrightarrow> flight_step s (go_to t Idle s)"
| Evict: "flight_step s (lost k (s\<lparr>fl_cache := (fl_cache s)(k := None)\<rparr>))"
| Panic: "fl_pc s t = Leading k c \<or> fl_pc s t = Driving k c \<Longrightarrow> flight_step s (go_to t (Dead k c) (lost k s))"

definition flight_init :: "(string \<rightharpoonup> 'r) \<Rightarrow> 'r flight" where
  "flight_init cache =
     \<lparr>fl_calls = Map.empty, fl_next = 0, fl_done = Map.empty, fl_cache = cache, fl_pc = (\<lambda>_. Idle), fl_drives = (\<lambda>_. 0),
      fl_produced = {(k, p). cache k = Some p}, fl_losses = (\<lambda>_. 0)\<rparr>"

definition reachable_flight :: "(string \<rightharpoonup> 'r) \<Rightarrow> 'r flight \<Rightarrow> bool" where
  "reachable_flight cache s \<longleftrightarrow> flight_step\<^sup>*\<^sup>* (flight_init cache) s"

section \<open>Invariant\<close>

text \<open>The call a thread leads, from its entry in the map to its removal.\<close>

fun leads :: "'r flight_pc \<Rightarrow> (string \<times> nat) option" where
  "leads (Leading k c) = Some (k, c)"
| "leads (Driving k c) = Some (k, c)"
| "leads (Finishing k c r) = Some (k, c)"
| "leads (Published k c r) = Some (k, c)"
| "leads (Dead k c) = Some (k, c)"
| "leads _ = None"

definition leader :: "'r flight \<Rightarrow> nat \<Rightarrow> (string \<times> nat) option" where
  "leader s t = leads (fl_pc s t)"

definition calls_ok :: "(string \<rightharpoonup> nat) \<Rightarrow> nat \<Rightarrow> (nat \<Rightarrow> (string \<times> nat) option) \<Rightarrow> bool" where
  "calls_ok calls n ld \<longleftrightarrow> (\<forall>k c. calls k = Some c \<longrightarrow> c < n \<and> (\<exists>t. ld t = Some (k, c))) \<and>
     (\<forall>t k c. ld t = Some (k, c) \<longrightarrow> calls k = Some c) \<and>
     (\<forall>t u k c d. ld t = Some (k, c) \<longrightarrow> ld u = Some (k, d) \<longrightarrow> t = u) \<and>
     (\<forall>k k' c. calls k = Some c \<longrightarrow> calls k' = Some c \<longrightarrow> k = k')"

fun thread_done :: "(string \<rightharpoonup> nat) \<Rightarrow> nat \<Rightarrow> (nat \<rightharpoonup> 'r option) \<Rightarrow> 'r flight_pc \<Rightarrow> bool" where
  "thread_done calls n dn (Leading k c) = (dn c = None)"
| "thread_done calls n dn (Driving k c) = (dn c = None)"
| "thread_done calls n dn (Finishing k c r) = (dn c = None)"
| "thread_done calls n dn (Dead k c) = (dn c = None)"
| "thread_done calls n dn (Published k c r) = (dn c = Some r)"
| "thread_done calls n dn (Waiting k c) = (c < n \<and> (calls k = Some c \<or> dn c \<noteq> None))"
| "thread_done calls n dn _ = True"

definition done_ok :: "'r flight \<Rightarrow> bool" where
  "done_ok s \<longleftrightarrow> (\<forall>c r. fl_done s c = Some r \<longrightarrow> c < fl_next s) \<and> (\<forall>t. thread_done (fl_calls s) (fl_next s) (fl_done s) (fl_pc s t))"

text \<open>A frame that is cached, in flight or returned under a key was produced for that key (or was cached at the start).\<close>

fun thread_frame :: "(string \<times> 'r) set \<Rightarrow> (nat \<rightharpoonup> 'r option) \<Rightarrow> 'r flight_pc \<Rightarrow> bool" where
  "thread_frame made dn (Finishing k c r) = (\<forall>p. r = Some p \<longrightarrow> (k, p) \<in> made)"
| "thread_frame made dn (Published k c r) = (\<forall>p. r = Some p \<longrightarrow> (k, p) \<in> made)"
| "thread_frame made dn (Returned k r) = (\<forall>p. r = Some p \<longrightarrow> (k, p) \<in> made)"
| "thread_frame made dn (Waiting k c) = (\<forall>p. dn c = Some (Some p) \<longrightarrow> (k, p) \<in> made)"
| "thread_frame made dn _ = True"

definition frames_of_key :: "'r flight \<Rightarrow> bool" where
  "frames_of_key s \<longleftrightarrow> (\<forall>k p. fl_cache s k = Some p \<longrightarrow> (k, p) \<in> fl_produced s) \<and> (\<forall>t. thread_frame (fl_produced s) (fl_done s) (fl_pc s t))"

fun drives :: "'r flight_pc \<Rightarrow> string option" where
  "drives (Driving k c) = Some k"
| "drives _ = None"

definition busy :: "'r flight \<Rightarrow> string \<Rightarrow> bool" where
  "busy s k \<longleftrightarrow> (\<exists>t. drives (fl_pc s t) = Some k)"

definition drives_ok :: "'r flight \<Rightarrow> bool" where
  "drives_ok s \<longleftrightarrow> (\<forall>k. fl_drives s k \<le> fl_losses s k + (if fl_cache s k \<noteq> None \<or> busy s k then 1 else 0))"

definition flight_ok :: "'r flight \<Rightarrow> bool" where
  "flight_ok s \<longleftrightarrow> calls_ok (fl_calls s) (fl_next s) (leader s) \<and> done_ok s \<and> frames_of_key s \<and> drives_ok s"

lemmas flight_defs = go_to_def lost_def

lemma go_to_sel [simp]:
  "fl_calls (go_to t p s) = fl_calls s" "fl_next (go_to t p s) = fl_next s" "fl_done (go_to t p s) = fl_done s" "fl_cache (go_to t p s) = fl_cache s"
  "fl_drives (go_to t p s) = fl_drives s" "fl_produced (go_to t p s) = fl_produced s" "fl_losses (go_to t p s) = fl_losses s"
  "fl_pc (go_to t p s) = (fl_pc s)(t := p)"
  by (simp_all add: go_to_def)

lemma lost_sel [simp]:
  "fl_calls (lost k s) = fl_calls s" "fl_next (lost k s) = fl_next s" "fl_done (lost k s) = fl_done s" "fl_cache (lost k s) = fl_cache s"
  "fl_drives (lost k s) = fl_drives s" "fl_produced (lost k s) = fl_produced s" "fl_losses (lost k s) = (fl_losses s)(k := fl_losses s k + 1)"
  "fl_pc (lost k s) = fl_pc s"
  by (simp_all add: lost_def)

lemma leader_sel [simp]:
  "leader (go_to t p s) = (leader s)(t := leads p)" "leader (lost k s) = leader s" "leader (s\<lparr>fl_calls := x1\<rparr>) = leader s"
  "leader (s\<lparr>fl_next := x2\<rparr>) = leader s" "leader (s\<lparr>fl_done := x3\<rparr>) = leader s" "leader (s\<lparr>fl_cache := x4\<rparr>) = leader s"
  "leader (s\<lparr>fl_drives := x5\<rparr>) = leader s" "leader (s\<lparr>fl_produced := x6\<rparr>) = leader s"
  by (auto simp: leader_def)

lemma leader_same: "leads (fl_pc s t) = x \<Longrightarrow> (leader s)(t := x) = leader s"
  by (auto simp: leader_def)

lemma calls_ok_lead:
  assumes ok: "calls_ok calls n ld" and free: "calls k = None" "ld t = None"
  shows "calls_ok (calls(k \<mapsto> n)) (n + 1) (ld(t \<mapsto> (k, n)))"
proof -
  have bound: "\<And>k c. calls k = Some c \<Longrightarrow> c < n" and led: "\<And>k c. calls k = Some c \<Longrightarrow> \<exists>t. ld t = Some (k, c)" and entry: "\<And>t k c. ld t = Some (k, c) \<Longrightarrow> calls k = Some c"
    and one: "\<And>t u k c d. ld t = Some (k, c) \<Longrightarrow> ld u = Some (k, d) \<Longrightarrow> t = u" and inj: "\<And>k k' c. calls k = Some c \<Longrightarrow> calls k' = Some c \<Longrightarrow> k = k'"
    using ok unfolding calls_ok_def by blast+
  have none: "ld u \<noteq> Some (k, c)" for u c
    using entry free(1) by force
  show ?thesis
    unfolding calls_ok_def
  proof (intro conjI allI impI)
    fix j c
    assume c: "(calls(k \<mapsto> n)) j = Some c"
    then show "c < n + 1"
      using bound [of j c] by (cases "j = k") auto
    show "\<exists>u. (ld(t \<mapsto> (k, n))) u = Some (j, c)"
    proof (cases "j = k")
      case True
      then show ?thesis
        using c by (intro exI [of _ t]) simp
    next
      case False
      then obtain u where "ld u = Some (j, c)"
        using led c by auto
      then show ?thesis
        using free(2) by (intro exI [of _ u]) auto
    qed
  next
    fix u j c
    assume "(ld(t \<mapsto> (k, n))) u = Some (j, c)"
    then show "(calls(k \<mapsto> n)) j = Some c"
      using entry [of u j c] none by (auto split: if_splits)
  next
    fix u v j c d
    assume "(ld(t \<mapsto> (k, n))) u = Some (j, c)" "(ld(t \<mapsto> (k, n))) v = Some (j, d)"
    then show "u = v"
      using none one by (auto split: if_splits)
  next
    fix j j' c
    assume "(calls(k \<mapsto> n)) j = Some c" "(calls(k \<mapsto> n)) j' = Some c"
    then show "j = j'"
      using bound inj by (auto split: if_splits)
  qed
qed

lemma calls_ok_remove:
  assumes "calls_ok calls n ld" "ld t = Some (k, c)"
  shows "calls_ok (calls(k := None)) n (ld(t := None))"
proof -
  have led: "\<And>k c. calls k = Some c \<Longrightarrow> c < n \<and> (\<exists>t. ld t = Some (k, c))" and entry: "\<And>t k c. ld t = Some (k, c) \<Longrightarrow> calls k = Some c"
    and one: "\<And>t u k c d. ld t = Some (k, c) \<Longrightarrow> ld u = Some (k, d) \<Longrightarrow> t = u" and inj: "\<And>k k' c. calls k = Some c \<Longrightarrow> calls k' = Some c \<Longrightarrow> k = k'"
    using assms(1) unfolding calls_ok_def by blast+
  show ?thesis
    unfolding calls_ok_def
  proof (intro conjI allI impI)
    fix j d
    assume "(calls(k := None)) j = Some d"
    then have j: "j \<noteq> k" "calls j = Some d"
      by (auto split: if_splits)
    then obtain u where "d < n" "ld u = Some (j, d)"
      using led by blast
    moreover from this have "u \<noteq> t"
      using assms(2) j(1) by auto
    ultimately show "d < n" "\<exists>u. (ld(t := None)) u = Some (j, d)"
      by auto
  next
    fix u j d
    assume "(ld(t := None)) u = Some (j, d)"
    then have u: "u \<noteq> t" "ld u = Some (j, d)"
      by (auto split: if_splits)
    then show "(calls(k := None)) j = Some d"
      using entry [OF u(2)] one [OF assms(2)] by auto
  next
    fix u v j d e
    assume "(ld(t := None)) u = Some (j, d)" "(ld(t := None)) v = Some (j, e)"
    then show "u = v"
      using one by (auto split: if_splits)
  next
    fix j j' d
    assume "(calls(k := None)) j = Some d" "(calls(k := None)) j' = Some d"
    then show "j = j'"
      using inj by (auto split: if_splits)
  qed
qed

lemma calls_ok_step:
  assumes "flight_step s s'" "calls_ok (fl_calls s) (fl_next s) (leader s)"
  shows "calls_ok (fl_calls s') (fl_next s') (leader s')"
  using assms
proof (induction rule: flight_step.induct)
  case (Lead s t k)
  moreover from this have "leader s t = None"
    by (simp add: leader_def)
  ultimately show ?case
    using calls_ok_lead [of "fl_calls s" "fl_next s" "leader s" k t] by (simp add: fun_upd_def)
next
  case (Remove s t k c r)
  moreover from this have "leader s t = Some (k, c)"
    by (simp add: leader_def)
  ultimately show ?case
    using calls_ok_remove [of "fl_calls s" "fl_next s" "leader s" t k c] by (simp add: fun_upd_def)
qed (auto simp: leader_same)

lemma calls_okD:
  assumes "calls_ok (fl_calls s) (fl_next s) (leader s)"
  shows "leads (fl_pc s t) = Some (k, c) \<Longrightarrow> fl_calls s k = Some c \<and> c < fl_next s"
    and "leads (fl_pc s t) = Some (k, c) \<Longrightarrow> leads (fl_pc s u) = Some (k', c) \<Longrightarrow> t = u"
    and "leads (fl_pc s t) = Some (k, c) \<Longrightarrow> leads (fl_pc s u) = Some (k, d) \<Longrightarrow> t = u"
    and "fl_calls s j = Some c \<Longrightarrow> fl_calls s k = Some c \<Longrightarrow> j = k"
proof -
  have entry: "\<And>t k c. leads (fl_pc s t) = Some (k, c) \<Longrightarrow> fl_calls s k = Some c" and bound: "\<And>k c. fl_calls s k = Some c \<Longrightarrow> c < fl_next s"
    and one: "\<And>t u k c d. leads (fl_pc s t) = Some (k, c) \<Longrightarrow> leads (fl_pc s u) = Some (k, d) \<Longrightarrow> t = u"
    and inj: "\<And>k k' c. fl_calls s k = Some c \<Longrightarrow> fl_calls s k' = Some c \<Longrightarrow> k = k'"
    using assms unfolding calls_ok_def leader_def by blast+
  show "leads (fl_pc s t) = Some (k, c) \<Longrightarrow> fl_calls s k = Some c \<and> c < fl_next s"
    using entry bound by blast
  show "leads (fl_pc s t) = Some (k, c) \<Longrightarrow> leads (fl_pc s u) = Some (k, d) \<Longrightarrow> t = u"
    by (rule one)
  show "fl_calls s j = Some c \<Longrightarrow> fl_calls s k = Some c \<Longrightarrow> j = k"
    by (rule inj)
  show "leads (fl_pc s t) = Some (k, c) \<Longrightarrow> leads (fl_pc s u) = Some (k', c) \<Longrightarrow> t = u"
    using entry inj one by metis
qed

lemma thread_done_close:
  assumes ok: "calls_ok (fl_calls s) (fl_next s) (leader s)" and t: "fl_pc s t = Finishing k c r" and u: "u \<noteq> t"
    and before_close: "thread_done (fl_calls s) (fl_next s) (fl_done s) (fl_pc s u)"
  shows "thread_done (fl_calls s) (fl_next s) ((fl_done s)(c \<mapsto> r)) (fl_pc s u)"
proof -
  have "leads (fl_pc s u) \<noteq> Some (j, c)" for j
    using calls_okD(2) [OF ok, of t k c u j] t u by auto
  then show ?thesis
    using before_close by (cases "fl_pc s u") auto
qed

lemma thread_done_lead: "thread_done calls n dn p \<Longrightarrow> calls k = None \<Longrightarrow> thread_done (calls(k \<mapsto> n)) (Suc n) dn p"
  by (cases p) auto

lemma thread_done_remove: "thread_done calls n dn p \<Longrightarrow> calls k = Some c \<Longrightarrow> dn c \<noteq> None \<Longrightarrow> thread_done (calls(k := None)) n dn p"
  by (cases p) auto

lemma done_ok_step: "flight_step s s' \<Longrightarrow> calls_ok (fl_calls s) (fl_next s) (leader s) \<Longrightarrow> done_ok s \<Longrightarrow> done_ok s'"
proof (induction rule: flight_step.induct)
  case (Join s t k c)
  then show ?case
    by (auto simp: done_ok_def calls_ok_def)
next
  case (Lead s t k)
  then have "fl_done s (fl_next s) = None"
    unfolding done_ok_def by (meson less_irrefl not_Some_eq)
  then show ?case
    using Lead thread_done_lead [of "fl_calls s" "fl_next s" "fl_done s"] by (auto simp: done_ok_def intro: less_SucI)
next
  case (Close s t k c r)
  moreover from this have "c < fl_next s"
    using calls_okD(1) [of s t k c] by simp
  ultimately show ?case
    using thread_done_close [of s t k c r] by (auto simp: done_ok_def)
next
  case (Remove s t k c r)
  moreover from this have "fl_calls s k = Some c" "fl_done s c \<noteq> None"
    using calls_okD(1) [of s t k c] by (auto simp: done_ok_def dest: spec [of _ t])
  ultimately show ?case
    using thread_done_remove [of "fl_calls s" "fl_next s" "fl_done s" _ k c] by (auto simp: done_ok_def)
qed (auto simp: done_ok_def, (metis thread_done.simps)+)

lemma thread_frame_mono: "thread_frame made dn p \<Longrightarrow> made \<subseteq> made' \<Longrightarrow> thread_frame made' dn p"
  by (cases p) auto

lemma frames_step: "flight_step s s' \<Longrightarrow> calls_ok (fl_calls s) (fl_next s) (leader s) \<Longrightarrow> done_ok s \<Longrightarrow> frames_of_key s \<Longrightarrow> frames_of_key s'"
proof (induction rule: flight_step.induct)
  case (Join s t k c)
  obtain u where u: "leads (fl_pc s u) = Some (k, c)"
    using Join unfolding calls_ok_def leader_def by blast
  have "thread_done (fl_calls s) (fl_next s) (fl_done s) (fl_pc s u)" "thread_frame (fl_produced s) (fl_done s) (fl_pc s u)"
    using Join by (simp_all add: done_ok_def frames_of_key_def)
  then have "\<forall>p. fl_done s c = Some (Some p) \<longrightarrow> (k, p) \<in> fl_produced s"
    using u by (cases "fl_pc s u") auto
  then show ?case
    using Join by (auto simp: frames_of_key_def)
next
  case (Stored s t k c p)
  then show ?case
    by (auto simp: frames_of_key_def put_new_def intro: thread_frame_mono [OF _ subset_insertI] split: option.splits)
next
  case (Close s t k c r)
  have t: "fl_calls s k = Some c" "fl_done s c = None" "\<forall>p. r = Some p \<longrightarrow> (k, p) \<in> fl_produced s"
    using Close calls_okD(1) [of s t k c] unfolding done_ok_def frames_of_key_def by (auto, metis thread_done.simps(3), metis thread_frame.simps(1))
  have own: "j = k" if "fl_calls s j = Some c" for j
    by (rule calls_okD(4) [OF Close.prems(1) that t(1)])
  have "thread_frame (fl_produced s) ((fl_done s)(c \<mapsto> r)) (fl_pc s u)" if "u \<noteq> t" for u
  proof -
    have "thread_done (fl_calls s) (fl_next s) (fl_done s) (fl_pc s u)" "thread_frame (fl_produced s) (fl_done s) (fl_pc s u)"
      using Close by (simp_all add: done_ok_def frames_of_key_def)
    then show ?thesis
      using t(2,3) by (cases "fl_pc s u") (auto dest: own)
  qed
  then show ?case
    using Close t by (auto simp: frames_of_key_def)
next
  case (Wake s t k c r)
  then show ?case
    by (auto simp: frames_of_key_def) (metis thread_frame.simps(4))
next
  case (Remove s t k c r)
  then show ?case
    by (auto simp: frames_of_key_def) (metis thread_frame.simps(2))
qed (auto simp: frames_of_key_def split: if_splits)

text \<open>Whether a drive for a key is on, before and after thread \<open>t\<close> moves.\<close>

lemma busy_split: "busy s j \<longleftrightarrow> drives (fl_pc s t) = Some j \<or> (\<exists>u. u \<noteq> t \<and> drives (fl_pc s u) = Some j)"
  by (auto simp: busy_def)

lemma busy_moved: "fl_pc s' = (fl_pc s)(t := p) \<Longrightarrow> busy s' j \<longleftrightarrow> drives p = Some j \<or> (\<exists>u. u \<noteq> t \<and> drives (fl_pc s u) = Some j)"
  using busy_split [of s' j t] by auto

lemma busy_same:
  assumes "drives p = drives (fl_pc s t)" "fl_pc s' = (fl_pc s)(t := p)"
  shows "busy s' = busy s"
proof (rule ext)
  fix j
  show "busy s' j = busy s j"
    using busy_moved [OF assms(2), of j] busy_split [of s j t] assms(1) by simp
qed

lemma drives_ok_keep [simp]:
  "drives_ok (s\<lparr>fl_calls := x1\<rparr>) = drives_ok s" "drives_ok (s\<lparr>fl_next := x2\<rparr>) = drives_ok s" "drives_ok (s\<lparr>fl_done := x3\<rparr>) = drives_ok s"
  by (simp_all add: drives_ok_def busy_def)

lemma drives_ok_go_to: "drives p = drives (fl_pc s t) \<Longrightarrow> drives_ok (go_to t p s) = drives_ok s"
  using busy_same [of p s t "go_to t p s"] by (simp add: drives_ok_def)

lemma drives_okD: "drives_ok s \<Longrightarrow> fl_drives s k \<le> fl_losses s k + (if fl_cache s k \<noteq> None \<or> busy s k then 1 else 0)"
  by (simp add: drives_ok_def)

text \<open>A step that moves thread \<open>t\<close> only touches the account of key \<open>k\<close>.\<close>

lemma drives_one_key:
  assumes ok: "drives_ok s" and moved: "\<And>j. j \<noteq> k \<Longrightarrow> busy s' j = busy s j"
    and drv: "fl_drives s' = (fl_drives s)(k := d)" and los: "fl_losses s' = (fl_losses s)(k := l)" and cac: "fl_cache s' = (fl_cache s)(k := p)"
    and at: "d \<le> l + (if p \<noteq> None \<or> busy s' k then 1 else 0)"
  shows "drives_ok s'"
  unfolding drives_ok_def
proof
  fix j
  show "fl_drives s' j \<le> fl_losses s' j + (if fl_cache s' j \<noteq> None \<or> busy s' j then 1 else 0)"
    using drives_okD [OF ok, of j] moved [of j] at drv los cac by (cases "j = k") simp_all
qed

lemma drives_step: "flight_step s s' \<Longrightarrow> calls_ok (fl_calls s) (fl_next s) (leader s) \<Longrightarrow> drives_ok s \<Longrightarrow> drives_ok s'"
proof (induction rule: flight_step.induct)
  case (Drive s t k c)
  let ?s' = "go_to t (Driving k c) ((if fl_cache s k = None then s else lost k s)\<lparr>fl_drives := (fl_drives s)(k := fl_drives s k + 1)\<rparr>)"
  have "u = t" if u: "drives (fl_pc s u) = Some k" for u
  proof (cases "fl_pc s u")
    case (Driving j d)
    then have "leads (fl_pc s u) = Some (k, d)"
      using u by simp
    then show ?thesis
      using calls_okD(3) [OF Drive.prems(1), of t k c u d] Drive.hyps by simp
  qed (use u in simp_all)
  then have idle: "\<not> busy s k"
    using Drive.hyps by (auto simp: busy_def)
  have moved: "busy ?s' j \<longleftrightarrow> busy s j \<or> j = k" for j
    using busy_moved [of ?s' s t "Driving k c" j] busy_split [of s j t] Drive.hyps by auto
  show ?case
  proof (rule drives_one_key [OF Drive.prems(2), where k = k and p = "fl_cache s k" and d = "fl_drives s k + 1" and l = "fl_losses s k + (if fl_cache s k = None then 0 else 1)"])
    show "fl_drives s k + 1 \<le> fl_losses s k + (if fl_cache s k = None then 0 else 1) + (if fl_cache s k \<noteq> None \<or> busy ?s' k then 1 else 0)"
      using drives_okD [OF Drive.prems(2), of k] idle moved [of k] by (auto split: if_splits)
    show "busy ?s' j = busy s j" if "j \<noteq> k" for j
      using moved [of j] that by blast
  qed simp_all
next
  case (Stored s t k c p)
  let ?s' = "go_to t (Finishing k c (Some p)) (s\<lparr>fl_cache := (fl_cache s)(k \<mapsto> put_new (fl_cache s k) p), fl_produced := insert (k, p) (fl_produced s)\<rparr>)"
  show ?case
  proof (rule drives_one_key [OF Stored.prems(2), where k = k and p = "Some (put_new (fl_cache s k) p)" and d = "fl_drives s k" and l = "fl_losses s k"])
    show "busy ?s' j = busy s j" if "j \<noteq> k" for j
      using that busy_moved [of ?s' s t "Finishing k c (Some p)" j] busy_split [of s j t] Stored.hyps by auto
    show "fl_drives s k \<le> fl_losses s k + (if Some (put_new (fl_cache s k) p) \<noteq> None \<or> busy ?s' k then 1 else 0)"
      using drives_okD [OF Stored.prems(2), of k] by (auto split: if_splits)
  qed simp_all
next
  case (Fail s t k c)
  let ?s' = "go_to t (Finishing k c None) (lost k s)"
  show ?case
  proof (rule drives_one_key [OF Fail.prems(2), where k = k and p = "fl_cache s k" and d = "fl_drives s k" and l = "fl_losses s k + 1"])
    show "busy ?s' j = busy s j" if "j \<noteq> k" for j
      using that busy_moved [of ?s' s t "Finishing k c None" j] busy_split [of s j t] Fail.hyps by auto
    show "fl_drives s k \<le> fl_losses s k + 1 + (if fl_cache s k \<noteq> None \<or> busy ?s' k then 1 else 0)"
      using drives_okD [OF Fail.prems(2), of k] by (auto split: if_splits)
  qed simp_all
next
  case (Panic s t k c)
  let ?s' = "go_to t (Dead k c) (lost k s)"
  show ?case
  proof (rule drives_one_key [OF Panic.prems(2), where k = k and p = "fl_cache s k" and d = "fl_drives s k" and l = "fl_losses s k + 1"])
    show "busy ?s' j = busy s j" if "j \<noteq> k" for j
      using that busy_moved [of ?s' s t "Dead k c" j] busy_split [of s j t] Panic.hyps by auto
    show "fl_drives s k \<le> fl_losses s k + 1 + (if fl_cache s k \<noteq> None \<or> busy ?s' k then 1 else 0)"
      using drives_okD [OF Panic.prems(2), of k] by (auto split: if_splits)
  qed simp_all
next
  case (Evict s k)
  let ?s' = "lost k (s\<lparr>fl_cache := (fl_cache s)(k := None)\<rparr>)"
  have same: "busy ?s' = busy s"
    by (simp add: busy_def fun_eq_iff)
  show ?case
  proof (rule drives_one_key [OF Evict.prems(2), where k = k and p = None and d = "fl_drives s k" and l = "fl_losses s k + 1"])
    show "fl_drives s k \<le> fl_losses s k + 1 + (if None \<noteq> (None :: 'a option) \<or> busy ?s' k then 1 else 0)"
      using drives_okD [OF Evict.prems(2), of k] by (auto split: if_splits)
  qed (simp_all add: same)
qed (simp_all add: drives_ok_go_to)

section \<open>Reachable states\<close>

lemma flight_ok_init: "flight_ok (flight_init cache)"
  by (simp add: flight_ok_def flight_init_def calls_ok_def leader_def done_ok_def frames_of_key_def drives_ok_def)

lemma flight_ok_step: "flight_step s s' \<Longrightarrow> flight_ok s \<Longrightarrow> flight_ok s'"
  using calls_ok_step done_ok_step frames_step drives_step unfolding flight_ok_def by blast

lemma flight_ok_reachable: "reachable_flight cache s \<Longrightarrow> flight_ok s"
  unfolding reachable_flight_def by (induction rule: rtranclp_induct) (auto intro: flight_ok_init flight_ok_step)

text \<open>Without a failed drive, an evicted frame, a missed recheck or a panic, a key is rendered at most once.\<close>

lemma stampede_bound: "reachable_flight cache s \<Longrightarrow> fl_drives s k \<le> fl_losses s k + 1"
  using flight_ok_reachable [of cache s] drives_okD [of s k] by (auto simp: flight_ok_def split: if_splits)

lemma leader_unique:
  assumes "reachable_flight cache s" "leads (fl_pc s t) = Some (k, c)" "leads (fl_pc s u) = Some (k, d)"
  shows "t = u"
  using flight_ok_reachable [OF assms(1)] calls_okD(3) [of s, OF _ assms(2,3)] by (simp add: flight_ok_def)

lemma returned_frame: "reachable_flight cache s \<Longrightarrow> fl_pc s t = Returned k (Some p) \<Longrightarrow> (k, p) \<in> fl_produced s"
  using flight_ok_reachable [of cache s] unfolding flight_ok_def frames_of_key_def by (metis thread_frame.simps(3))

text \<open>A waiting thread waits for a call that is closed or has its own leader, on the same key.\<close>

lemma waiting_has_leader:
  assumes "reachable_flight cache s" "fl_pc s t = Waiting k c"
  shows "fl_done s c \<noteq> None \<or> (\<exists>u. leads (fl_pc s u) = Some (k, c))"
proof -
  have "flight_ok s"
    using flight_ok_reachable [OF assms(1)] .
  moreover from this have "thread_done (fl_calls s) (fl_next s) (fl_done s) (fl_pc s t)"
    by (simp add: flight_ok_def done_ok_def)
  ultimately show ?thesis
    using assms(2) by (auto simp: flight_ok_def calls_ok_def leader_def)
qed

section \<open>A panic\<close>

text \<open>
  The function that runs the render is called without a deferred clean-up.  If it panics, its entry stays in the map and its
  channel is never closed: no thread that joins the key ever returns, and no later request for the key gets a new call.
\<close>

definition stuck :: "string \<Rightarrow> nat \<Rightarrow> nat \<Rightarrow> 'r flight \<Rightarrow> bool" where
  "stuck k c t s \<longleftrightarrow> fl_pc s t = Dead k c"

lemma stuck_step: "flight_step s s' \<Longrightarrow> stuck k c t s \<Longrightarrow> stuck k c t s'"
  by (induction rule: flight_step.induct) (auto simp: stuck_def)

lemma stuck_forever: "flight_step\<^sup>*\<^sup>* s s' \<Longrightarrow> stuck k c t s \<Longrightarrow> stuck k c t s'"
  by (induction rule: rtranclp_induct) (auto intro: stuck_step)

lemma stuck_calls:
  assumes "reachable_flight cache s" "stuck k c t s"
  shows "fl_calls s k = Some c" "fl_done s c = None"
proof -
  have ok: "flight_ok s"
    using flight_ok_reachable [OF assms(1)] .
  then show "fl_calls s k = Some c"
    using assms(2) calls_okD(1) [of s t k c] by (simp add: flight_ok_def stuck_def)
  have "thread_done (fl_calls s) (fl_next s) (fl_done s) (fl_pc s t)"
    using ok by (simp add: flight_ok_def done_ok_def)
  then show "fl_done s c = None"
    using assms(2) by (simp add: stuck_def)
qed

lemma panic_blocks_key:
  assumes "reachable_flight cache s" "fl_pc s t = Dead k c" "flight_step\<^sup>*\<^sup>* s s'"
  shows "fl_calls s' k = Some c \<and> fl_done s' c = None"
proof -
  have "reachable_flight cache s'" "stuck k c t s'"
    using assms stuck_forever [OF assms(3)] unfolding reachable_flight_def stuck_def by auto
  then show ?thesis
    using stuck_calls by blast
qed

section \<open>Progress\<close>

lemma reachable_flight_step: "reachable_flight cache s \<Longrightarrow> flight_step s s' \<Longrightarrow> reachable_flight cache s'"
  unfolding reachable_flight_def by (rule rtranclp.rtrancl_into_rtrancl)

text \<open>A leader that has not panicked closes its call in at most three steps of its own.\<close>

lemma leader_publishes:
  assumes u: "leads (fl_pc s u) = Some (k, c)" "fl_done s c = None" "\<forall>r. fl_pc s u \<noteq> Published k c r" "fl_pc s u \<noteq> Dead k c" and t: "t \<noteq> u"
  shows "\<exists>s'. flight_step\<^sup>*\<^sup>* s s' \<and> fl_done s' c \<noteq> None \<and> fl_pc s' t = fl_pc s t"
proof -
  have close: "\<exists>s'. flight_step\<^sup>*\<^sup>* s1 s' \<and> fl_done s' c \<noteq> None \<and> fl_pc s' t = fl_pc s1 t" if "fl_pc s1 u = Finishing k c r" for s1 :: "'a flight" and r
    using flight_step.Close [OF that] t by (intro exI [of _ "go_to u (Published k c r) (s1\<lparr>fl_done := (fl_done s1)(c \<mapsto> r)\<rparr>)"]) auto
  have failed: "\<exists>s'. flight_step\<^sup>*\<^sup>* s1 s' \<and> fl_done s' c \<noteq> None \<and> fl_pc s' t = fl_pc s1 t" if "fl_pc s1 u = Driving k c" for s1 :: "'a flight"
    using flight_step.Fail [OF that] close [of "go_to u (Finishing k c None) (lost k s1)" None] t
    by (auto intro: converse_rtranclp_into_rtranclp)
  show ?thesis
  proof (cases "fl_pc s u")
    case (Leading j d)
    then have at: "fl_pc s u = Leading k c"
      using u by simp
    let ?s1 = "go_to u (Driving k c) ((if fl_cache s k = None then s else lost k s)\<lparr>fl_drives := (fl_drives s)(k := fl_drives s k + 1)\<rparr>)"
    obtain s' where s': "flight_step\<^sup>*\<^sup>* ?s1 s'" "fl_done s' c \<noteq> None" "fl_pc s' t = fl_pc ?s1 t"
      using failed [of ?s1] by auto
    have "fl_pc ?s1 t = fl_pc s t"
      using t by simp
    then show ?thesis
      using s' flight_step.Drive [OF at] by (metis converse_rtranclp_into_rtranclp)
  qed (use u close failed in auto)
qed

section \<open>The cache key\<close>

text \<open>The key under which a variant is in flight: its parts, separated by a zero byte.\<close>

definition variant_key :: "string \<Rightarrow> string \<Rightarrow> string \<Rightarrow> string" where
  "variant_key sha fit dither = sha @ [CHR 0x00] @ fit @ [CHR 0x00] @ dither"

lemma split_at_zero: "c \<notin> set xs \<Longrightarrow> c \<notin> set ys \<Longrightarrow> xs @ c # us = ys @ c # vs \<longleftrightarrow> xs = ys \<and> us = vs"
proof (induction xs arbitrary: ys)
  case Nil
  then show ?case
    by (cases ys) auto
next
  case (Cons x xs)
  then show ?case
    by (cases ys) auto
qed

text \<open>Digests and fit names hold no zero byte, so different variants have different keys.\<close>

lemma variant_key_inject:
  assumes "CHR 0x00 \<notin> set sha" "CHR 0x00 \<notin> set sha'" "CHR 0x00 \<notin> set fit" "CHR 0x00 \<notin> set fit'"
  shows "variant_key sha fit dither = variant_key sha' fit' dither' \<longleftrightarrow> sha = sha' \<and> fit = fit' \<and> dither = dither'"
  using assms by (simp add: variant_key_def split_at_zero)

section \<open>Properties\<close>

text \<open>
  C32 (one worker drive per variant).  In every interleaving of requests: at most one request at a time leads the render of a
  variant; the number of renders of a variant exceeds the number of failures, evictions, panics and missed rechecks by at most one,
  so any number of concurrent requests for a fresh variant make a single worker drive; a request returns only frames that were
  rendered (or cached) for the variant it asked for; and whoever waits, waits for a call that is closed or is led by another
  request on the same variant.
\<close>

theorem single_flight:
  assumes "reachable_flight cache s"
  shows "(\<forall>t u. leads (fl_pc s t) = Some (k, c) \<longrightarrow> leads (fl_pc s u) = Some (k, d) \<longrightarrow> t = u) \<and>
    fl_drives s k \<le> fl_losses s k + 1 \<and>
    (\<forall>t p. fl_pc s t = Returned k (Some p) \<longrightarrow> (k, p) \<in> fl_produced s) \<and>
    (\<forall>t. fl_pc s t = Waiting k c \<longrightarrow> fl_done s c \<noteq> None \<or> (\<exists>u. leads (fl_pc s u) = Some (k, c)))"
  using leader_unique [OF assms] stampede_bound [OF assms] returned_frame [OF assms] waiting_has_leader [OF assms] by blast

text \<open>A run of two requests: the first leads and renders, the second joins it and returns the same frame.\<close>

definition joint_start :: "nat flight" where
  "joint_start = go_to 1 (Waiting ''k'' 0) (go_to 1 (Missed ''k'') (go_to 0 (Leading ''k'' 0)
     ((go_to 0 (Missed ''k'') (flight_init Map.empty))\<lparr>fl_calls := [''k'' \<mapsto> 0], fl_next := 1\<rparr>)))"

lemma joint_start_reachable: "reachable_flight Map.empty joint_start"
proof -
  let ?s1 = "go_to 0 (Missed ''k'') (flight_init Map.empty) :: nat flight"
  let ?s2 = "go_to 0 (Leading ''k'' (fl_next ?s1)) (?s1\<lparr>fl_calls := (fl_calls ?s1)(''k'' \<mapsto> fl_next ?s1), fl_next := fl_next ?s1 + 1\<rparr>)"
  let ?s3 = "go_to 1 (Missed ''k'') ?s2"
  have "reachable_flight Map.empty ?s1"
    by (rule reachable_flight_step [OF _ flight_step.Miss]) (simp_all add: reachable_flight_def flight_init_def)
  then have "reachable_flight Map.empty ?s2"
    by (rule reachable_flight_step [OF _ flight_step.Lead]) (simp_all add: flight_init_def)
  then have "reachable_flight Map.empty ?s3"
    by (rule reachable_flight_step [OF _ flight_step.Miss]) (simp_all add: flight_init_def)
  then have "reachable_flight Map.empty (go_to 1 (Waiting ''k'' 0) ?s3)"
    by (rule reachable_flight_step [OF _ flight_step.Join]) (simp_all add: flight_init_def)
  then show ?thesis
    by (simp add: joint_start_def flight_init_def)
qed

lemma joint_start_pc [simp]: "fl_pc joint_start 0 = Leading ''k'' 0" "fl_pc joint_start (Suc 0) = Waiting ''k'' 0" "fl_done joint_start 0 = None"
  by (simp_all add: joint_start_def flight_init_def)

lemma single_flight_witness:
  "fl_pc joint_start 1 = Waiting ''k'' 0 \<and> fl_drives joint_start ''k'' \<le> fl_losses joint_start ''k'' + 1 \<and>
   (\<exists>u. leads (fl_pc joint_start u) = Some (''k'', 0))"
proof -
  have "fl_pc joint_start 1 = Waiting ''k'' 0" "fl_done joint_start 0 = None"
    by simp_all
  then show ?thesis
    using single_flight [OF joint_start_reachable, of "''k''" 0 0] by blast
qed

text \<open>
  Whatever the interleaving so far, a request that waits for a call whose leader has not
  panicked can return, by steps of that leader and one step of its own: no deadlock between the map's mutex and the channels.
\<close>

theorem follower_returns:
  assumes s: "reachable_flight cache s" "fl_pc s t = Waiting k c" and alive: "\<forall>u. fl_pc s u \<noteq> Dead k c"
  shows "\<exists>s' r. flight_step\<^sup>*\<^sup>* s s' \<and> fl_pc s' t = Returned k r"
proof -
  have "\<exists>s'. flight_step\<^sup>*\<^sup>* s s' \<and> fl_done s' c \<noteq> None \<and> fl_pc s' t = fl_pc s t"
  proof (cases "fl_done s c")
    case None
    then obtain u where u: "leads (fl_pc s u) = Some (k, c)"
      using waiting_has_leader [OF s] by auto
    have "thread_done (fl_calls s) (fl_next s) (fl_done s) (fl_pc s u)"
      using flight_ok_reachable [OF s(1)] by (simp add: flight_ok_def done_ok_def)
    then have "\<forall>r. fl_pc s u \<noteq> Published k c r"
      using None by auto
    moreover have "t \<noteq> u"
      using u s(2) by auto
    ultimately show ?thesis
      using leader_publishes [of s u k c t] u None alive by blast
  qed auto
  then obtain s' r where s': "flight_step\<^sup>*\<^sup>* s s'" "fl_done s' c = Some r" "fl_pc s' t = Waiting k c"
    using s(2) by auto
  have "flight_step s' (go_to t (Returned k r) s')"
    using flight_step.Wake [OF s'(3,2)] .
  then show ?thesis
    using s'(1) by (intro exI [of _ "go_to t (Returned k r) s'"] exI [of _ r]) (auto intro: rtranclp.rtrancl_into_rtrancl)
qed

lemma follower_returns_witness: "\<exists>s' r. flight_step\<^sup>*\<^sup>* joint_start s' \<and> fl_pc s' 1 = Returned ''k'' r"
proof -
  have "\<forall>u. fl_pc joint_start u \<noteq> Dead ''k'' 0"
    by (simp add: joint_start_def flight_init_def)
  then show ?thesis
    using follower_returns [OF joint_start_reachable, of 1 "''k''" 0] by simp
qed

end
