(* ===== verification/Ops_Text.thy ===== *)
theory Ops_Text
  imports Go_Strings
begin

text \<open>
  Text functions of the Go library that the operator tool (\<open>tools/picpak-ops\<close>) uses: numerals in any base
  (\<open>strconv.ParseUint(s, 0, 64)\<close>), the hexadecimal format, lexical path cleaning on Unix, substring search, and the matching of
  regular expressions without regard to case.  Text is ASCII, except where a case fold reaches beyond it.
\<close>

section \<open>Numerals in any base\<close>

definition digit_of :: "char \<Rightarrow> nat option" where
  "digit_of c =
     (let n = (of_char (to_lower c) :: nat)
      in if 48 \<le> n \<and> n \<le> 57 then Some (n - 48) else if 97 \<le> n \<and> n \<le> 122 then Some (n - 87) else None)"

text \<open>The loop of \<open>ParseUint\<close>; underscores are skipped here and judged by \<open>underscoreOK\<close> afterwards.\<close>

fun scan_base :: "nat \<Rightarrow> nat \<Rightarrow> nat \<Rightarrow> string \<Rightarrow> nat option" where
  "scan_base mx base n [] = Some n"
| "scan_base mx base n (c # cs) =
     (if c = CHR ''_'' then scan_base mx base n cs
      else case digit_of c of
        None \<Rightarrow> None
      | Some d \<Rightarrow> if base \<le> d \<or> mx < n * base + d then None else scan_base mx base (n * base + d) cs)"

definition base_prefix :: "string \<Rightarrow> nat \<times> string" where
  "base_prefix s =
     (if s = [] \<or> hd s \<noteq> CHR ''0'' then (10, s)
      else if length s \<ge> 3 \<and> to_lower (s ! 1) = CHR ''b'' then (2, drop 2 s)
      else if length s \<ge> 3 \<and> to_lower (s ! 1) = CHR ''o'' then (8, drop 2 s)
      else if length s \<ge> 3 \<and> to_lower (s ! 1) = CHR ''x'' then (16, drop 2 s)
      else (8, tl s))"

datatype seen = SawStart | SawDigit | SawUnderscore | SawOther

fun underscores_from :: "bool \<Rightarrow> seen \<Rightarrow> string \<Rightarrow> bool" where
  "underscores_from hex saw [] = (saw \<noteq> SawUnderscore)"
| "underscores_from hex saw (c # cs) =
     (if is_digit c \<or> hex \<and> (case digit_of c of Some d \<Rightarrow> 10 \<le> d \<and> d \<le> 15 | None \<Rightarrow> False) then underscores_from hex SawDigit cs
      else if c = CHR ''_'' then saw = SawDigit \<and> underscores_from hex SawUnderscore cs
      else saw \<noteq> SawUnderscore \<and> underscores_from hex SawOther cs)"

definition underscoreOK :: "string \<Rightarrow> bool" where
  "underscoreOK s =
     (let s = (if s \<noteq> [] \<and> (hd s = CHR ''-'' \<or> hd s = CHR ''+'') then tl s else s)
      in if length s \<ge> 2 \<and> hd s = CHR ''0'' \<and> to_lower (s ! 1) \<in> {CHR ''b'', CHR ''o'', CHR ''x''}
         then underscores_from (to_lower (s ! 1) = CHR ''x'') SawDigit (drop 2 s)
         else underscores_from False SawStart s)"

definition ParseUint0 :: "string \<Rightarrow> nat option" where
  "ParseUint0 s =
     (if s = [] then None
      else let (base, digits) = base_prefix s
        in case scan_base (2 ^ 64 - 1) base 0 digits of
             None \<Rightarrow> None
           | Some n \<Rightarrow> if CHR ''_'' \<in> set digits \<and> \<not> underscoreOK s then None else Some n)"

text \<open>\<open>fmt.Sprintf("%#x", n)\<close>.\<close>

fun hex_digits :: "nat \<Rightarrow> string" where
  "hex_digits n = (if n < 16 then [hex_digit n] else hex_digits (n div 16) @ [hex_digit (n mod 16)])"

declare hex_digits.simps [simp del]

definition format_hex :: "nat \<Rightarrow> string" where
  "format_hex n = ''0x'' @ hex_digits n"

lemma of_char_lower: "n < 256 \<Longrightarrow> (of_char (to_lower (char_of n)) :: nat) = (if 65 \<le> n \<and> n \<le> 90 then n + 32 else n)"
  by (simp add: to_lower_def Let_def)

lemma digit_of_hex_digit: "d < 16 \<Longrightarrow> digit_of (hex_digit d) = Some d"
  by (cases "d < 10") (simp_all add: digit_of_def hex_digit_def of_char_lower)

lemma digit_of_underscore: "digit_of CHR ''_'' = None"
  by (simp add: digit_of_def to_lower_def)

lemma hex_digit_not_underscore: "d < 16 \<Longrightarrow> hex_digit d \<noteq> CHR ''_''"
  using digit_of_hex_digit [of d] digit_of_underscore by auto

lemma scan_base_append:
  "scan_base mx base n (s @ t) = (case scan_base mx base n s of None \<Rightarrow> None | Some m \<Rightarrow> scan_base mx base m t)"
  by (induction mx base n s rule: scan_base.induct) (auto split: option.splits)

lemma scan_base_hex_digits: "n \<le> mx \<Longrightarrow> scan_base mx 16 0 (hex_digits n) = Some n"
proof (induction n rule: hex_digits.induct)
  case (1 n)
  show ?case
  proof (cases "n < 16")
    case True
    then show ?thesis
      using 1 by (simp add: hex_digits.simps [of n] digit_of_hex_digit hex_digit_not_underscore)
  next
    case False
    then have "scan_base mx 16 0 (hex_digits (n div 16)) = Some (n div 16)"
      using 1 by (meson div_le_dividend le_trans)
    then show ?thesis
      using False 1 by (simp add: hex_digits.simps [of n] scan_base_append digit_of_hex_digit hex_digit_not_underscore)
  qed
qed

lemma hex_digits_set: "c \<in> set (hex_digits n) \<Longrightarrow> c \<noteq> CHR ''_''"
proof (induction n rule: hex_digits.induct)
  case (1 n)
  have "hex_digit n \<noteq> CHR ''_''" if "n < 16"
    using that by (rule hex_digit_not_underscore)
  moreover have "hex_digit (n mod 16) \<noteq> CHR ''_''"
    by (rule hex_digit_not_underscore) simp
  ultimately show ?case
    using 1 unfolding hex_digits.simps [of n] by (auto split: if_splits)
qed

lemma hex_digits_nonempty [simp]: "hex_digits n \<noteq> []"
  by (subst hex_digits.simps) simp

lemma ParseUint0_format_hex: "n < 2 ^ 64 \<Longrightarrow> ParseUint0 (format_hex n) = Some n"
proof -
  assume n: "n < 2 ^ 64"
  have "base_prefix (format_hex n) = (16, hex_digits n)"
    by (simp add: base_prefix_def format_hex_def to_lower_def Suc_le_eq)
  then show ?thesis
    using n scan_base_hex_digits [of n "2 ^ 64 - 1"] hex_digits_set [of _ n] by (auto simp: ParseUint0_def format_hex_def)
qed

lemma scan_base_bound: "scan_base mx base n s = Some m \<Longrightarrow> n \<le> mx \<Longrightarrow> m \<le> mx"
  by (induction mx base n s rule: scan_base.induct) (auto split: option.splits if_splits)

lemma ParseUint0_bound: "ParseUint0 s = Some n \<Longrightarrow> n < 2 ^ 64"
  using scan_base_bound [of "2 ^ 64 - 1" _ 0] by (fastforce simp: ParseUint0_def split: option.splits if_splits prod.splits)

interpretation hex_text: codec "\<lambda>n. n < 2 ^ 64" format_hex ParseUint0
  by unfold_locales (rule ParseUint0_format_hex)

section \<open>Paths\<close>

fun clean_parts :: "bool \<Rightarrow> string list \<Rightarrow> string list \<Rightarrow> string list" where
  "clean_parts rooted st [] = rev st"
| "clean_parts rooted st (p # ps) =
     (if p = [] \<or> p = ''.'' then clean_parts rooted st ps
      else if p = ''..'' then
        (case st of
           q # st' \<Rightarrow> clean_parts rooted (if q = ''..'' then p # st else st') ps
         | [] \<Rightarrow> clean_parts rooted (if rooted then [] else [p]) ps)
      else clean_parts rooted (p # st) ps)"

definition Clean :: "string \<Rightarrow> string" where
  "Clean p =
     (if p = [] then ''.''
      else let rooted = (hd p = CHR ''/''); s = join ''/'' (clean_parts rooted [] (Split CHR ''/'' p))
        in if rooted then CHR ''/'' # s else if s = [] then ''.'' else s)"

definition PathJoin :: "string list \<Rightarrow> string" where
  "PathJoin elems = (let es = filter (\<lambda>e. e \<noteq> []) elems in if es = [] then [] else Clean (join ''/'' es))"

definition IsAbs :: "string \<Rightarrow> bool" where
  "IsAbs p \<longleftrightarrow> p \<noteq> [] \<and> hd p = CHR ''/''"

text \<open>\<open>resolveUnder\<close> in \<open>flash/writeset.go\<close>.\<close>

definition resolveUnder :: "string \<Rightarrow> string \<Rightarrow> string" where
  "resolveUnder base p = (if p = [] then base else if IsAbs p then p else PathJoin [base, p])"

section \<open>Search\<close>

definition ToLower :: "string \<Rightarrow> string" where
  "ToLower s = map to_lower s"

fun is_prefix_of :: "string \<Rightarrow> string \<Rightarrow> bool" where
  "is_prefix_of [] s = True"
| "is_prefix_of (p # ps) [] = False"
| "is_prefix_of (p # ps) (c # cs) = (p = c \<and> is_prefix_of ps cs)"

fun Contains :: "string \<Rightarrow> string \<Rightarrow> bool" where
  "Contains [] sub = (sub = [])"
| "Contains (c # cs) sub = (is_prefix_of sub (c # cs) \<or> Contains cs sub)"

text \<open>
  What is left of a text after a word matched at its start without regard to case.  The fold of \<open>s\<close> includes the long s
  (bytes \<open>c5 bf\<close>), that of \<open>k\<close> the Kelvin sign (bytes \<open>e2 84 aa\<close>).
\<close>

fun fold_match :: "string \<Rightarrow> string \<Rightarrow> string option" where
  "fold_match [] s = Some s"
| "fold_match (p # ps) s =
     (if p = CHR ''s'' \<and> is_prefix_of [CHR 0xC5, CHR 0xBF] s then fold_match ps (drop 2 s)
      else if p = CHR ''k'' \<and> is_prefix_of [CHR 0xE2, CHR 0x84, CHR 0xAA] s then fold_match ps (drop 3 s)
      else case s of [] \<Rightarrow> None | c # cs \<Rightarrow> if to_lower c = p then fold_match ps cs else None)"

definition fold_any :: "string list \<Rightarrow> string \<Rightarrow> bool" where
  "fold_any ws s \<longleftrightarrow> list_ex (\<lambda>w. fold_match w s \<noteq> None) ws"

text \<open>An unanchored search tries every start, the leftmost first.\<close>

fun first_match :: "(string \<Rightarrow> 'a option) \<Rightarrow> string \<Rightarrow> 'a option" where
  "first_match m [] = m []"
| "first_match m (c # cs) = (case m (c # cs) of Some r \<Rightarrow> Some r | None \<Rightarrow> first_match m cs)"

lemma is_prefix_of_iff: "is_prefix_of p s \<longleftrightarrow> (\<exists>t. s = p @ t)"
  by (induction p s rule: is_prefix_of.induct) auto

lemma Contains_iff: "Contains s sub \<longleftrightarrow> (\<exists>u v. s = u @ sub @ v)"
proof (induction s)
  case Nil
  then show ?case
    by auto
next
  case (Cons c cs)
  have "(\<exists>u v. c # cs = u @ sub @ v) \<longleftrightarrow> (\<exists>v. c # cs = sub @ v) \<or> (\<exists>u v. cs = u @ sub @ v)"
    by (metis append_Cons append_Nil list.exhaust list.inject)
  then show ?case
    using Cons by (simp add: is_prefix_of_iff)
qed

end
