(* ===== verification/Flash_Set.thy ===== *)
theory Flash_Set
  imports Ops_Text "HOL-Library.Word" "HOL-Library.Multiset"
begin

text \<open>
  The flash recipe of the operator tool: the write set and its guard (\<open>flash/writeset.go\<close>) and the esptool command line
  (\<open>flash/esptool.go\<close>).

  Offsets are 64-bit words, file sizes too (\<open>int64\<close> values, compared as signed numbers).  The size of a local file (\<open>os.Stat\<close>) is a parameter; errors keep what
  their text names.
\<close>

section \<open>Write set (writeset.go)\<close>

record artifact =
  ar_name :: string
  ar_file :: string
  ar_offset :: string

record flash_config =
  fc_esptool :: "string list"
  fc_chip :: string
  fc_before :: string
  fc_after :: string
  fc_mode :: string
  fc_size :: string
  fc_freq :: string
  fc_extra :: "string list"
  fc_nvs_offset :: string
  fc_retry_auto :: bool
  fc_retry_max :: int
  fc_tail_lines :: int

record write_entry =
  we_name :: string
  we_offset :: "64 word"
  we_size :: "64 word"
  we_file :: string
  we_local :: string

record nvs_guard =
  g_start :: "64 word"
  g_len :: "64 word"

datatype flash_error = EmptyArtifacts | BadOffset string | EraseVerb string | NilWriteSet | OverlapsNVS string

definition parseOffset :: "string \<Rightarrow> nat option" where
  "parseOffset s = (let s = TrimSpace s in if s = [] then None else ParseUint0 s)"

definition nvsRegionLen :: "64 word" where
  "nvsRegionLen = 0x6000"

definition GuardFromConfig :: "flash_config \<Rightarrow> nvs_guard" where
  "GuardFromConfig fc =
     (case parseOffset (fc_nvs_offset fc) of
        None \<Rightarrow> \<lparr>g_start = 0, g_len = 0\<rparr>
      | Some start \<Rightarrow> \<lparr>g_start = of_nat start, g_len = nvsRegionLen\<rparr>)"

definition entry_of :: "(string \<Rightarrow> 64 word option) \<Rightarrow> string \<Rightarrow> artifact \<Rightarrow> nat \<Rightarrow> write_entry" where
  "entry_of stat dir a off =
     (let local = resolveUnder dir (ar_file a)
      in \<lparr>we_name = ar_name a, we_offset = of_nat off, we_size = (case stat local of Some n \<Rightarrow> n | None \<Rightarrow> 0), we_file = ar_file a, we_local = local\<rparr>)"

fun write_entries :: "(string \<Rightarrow> 64 word option) \<Rightarrow> string \<Rightarrow> artifact list \<Rightarrow> flash_error + write_entry list" where
  "write_entries stat dir [] = Inr []"
| "write_entries stat dir (a # as) =
     (case parseOffset (ar_offset a) of
        None \<Rightarrow> Inl (BadOffset (ar_name a))
      | Some off \<Rightarrow> (case write_entries stat dir as of Inl e \<Rightarrow> Inl e | Inr es \<Rightarrow> Inr (entry_of stat dir a off # es)))"

text \<open>\<open>sort.SliceStable\<close> by offset.\<close>

definition BuildWriteSet :: "(string \<Rightarrow> 64 word option) \<Rightarrow> string \<Rightarrow> artifact list \<Rightarrow> flash_error + write_entry list" where
  "BuildWriteSet stat dir as =
     (if as = [] then Inl EmptyArtifacts
      else case write_entries stat dir as of Inl e \<Rightarrow> Inl e | Inr es \<Rightarrow> Inr (sort_key we_offset es))"

definition eraseVerbs :: "string list" where
  "eraseVerbs = [''erase-flash'', ''erase_flash'', ''erase-region'', ''erase_region'', ''erase-all'', ''erase_all'']"

definition is_erase :: "string \<Rightarrow> bool" where
  "is_erase tok \<longleftrightarrow> ToLower (TrimSpace tok) \<in> set eraseVerbs"

definition entry_end :: "write_entry \<Rightarrow> 64 word" where
  "entry_end e = (if 0 < sint (we_size e) then we_offset e + we_size e else we_offset e + 1)"

definition overlaps :: "nvs_guard \<Rightarrow> write_entry \<Rightarrow> bool" where
  "overlaps g e \<longleftrightarrow> 0 < g_len g \<and> we_offset e < g_start g + g_len g \<and> g_start g < entry_end e"

definition ValidateWriteSet :: "write_entry list option \<Rightarrow> string list \<Rightarrow> nvs_guard \<Rightarrow> flash_error option" where
  "ValidateWriteSet ws argv guard =
     (case find is_erase argv of
        Some tok \<Rightarrow> Some (EraseVerb tok)
      | None \<Rightarrow>
          (case ws of
             None \<Rightarrow> Some NilWriteSet
           | Some es \<Rightarrow> (case find (overlaps guard) es of Some e \<Rightarrow> Some (OverlapsNVS (we_name e)) | None \<Rightarrow> None)))"

section \<open>Command line (esptool.go)\<close>

definition writeFlashVerb :: string where
  "writeFlashVerb = ''write-flash''"

definition dashReset :: "string \<Rightarrow> string" where
  "dashReset mode = map (\<lambda>c. if c = CHR ''_'' then CHR ''-'' else c) (TrimSpace mode)"

definition entry_args :: "string \<Rightarrow> write_entry \<Rightarrow> string list" where
  "entry_args hostDir e = [format_hex (unat (we_offset e)), resolveUnder hostDir (we_file e)]"

definition BuildEsptoolArgv :: "flash_config \<Rightarrow> string \<Rightarrow> string \<Rightarrow> write_entry list \<Rightarrow> string list" where
  "BuildEsptoolArgv fc port hostDir ws =
     fc_esptool fc @ [''--chip'', fc_chip fc, ''-p'', port, ''--before'', dashReset (fc_before fc), ''--after'', dashReset (fc_after fc),
       writeFlashVerb, ''--flash-mode'', fc_mode fc, ''--flash-size'', fc_size fc, ''--flash-freq'', fc_freq fc] @
     fc_extra fc @ concat (map (entry_args hostDir) ws)"

section \<open>The recipe\<close>

lemma write_entries_map:
  "write_entries stat dir as = Inr es \<Longrightarrow>
     \<exists>offs. map (\<lambda>a. parseOffset (ar_offset a)) as = map Some offs \<and> es = map2 (entry_of stat dir) as offs"
proof (induction as arbitrary: es)
  case (Cons a as)
  obtain off es' where step: "parseOffset (ar_offset a) = Some off" "write_entries stat dir as = Inr es'" "es = entry_of stat dir a off # es'"
    using Cons.prems by (auto split: option.splits sum.splits)
  obtain offs where offs: "map (\<lambda>a. parseOffset (ar_offset a)) as = map Some offs" "es' = map2 (entry_of stat dir) as offs"
    using Cons.IH [OF step(2)] by blast
  show ?case
    by (rule exI [of _ "off # offs"]) (simp add: step offs)
qed simp

lemma write_entries_total: "(\<forall>a \<in> set as. parseOffset (ar_offset a) \<noteq> None) \<longleftrightarrow> (\<exists>es. write_entries stat dir as = Inr es)"
  by (induction as) (auto split: option.splits sum.splits)

lemma BuildWriteSet_Inr:
  "BuildWriteSet stat dir as = Inr ws \<longleftrightarrow> as \<noteq> [] \<and> (\<exists>es. write_entries stat dir as = Inr es \<and> ws = sort_key we_offset es)"
  by (auto simp: BuildWriteSet_def split: sum.splits)

lemma parseOffset_bound: "parseOffset s = Some n \<Longrightarrow> n < 2 ^ 64"
  using ParseUint0_bound by (auto simp: parseOffset_def Let_def split: if_splits)

lemma unat_entry_of: "parseOffset (ar_offset a) = Some off \<Longrightarrow> unat (we_offset (entry_of stat dir a off)) = off"
  using parseOffset_bound [of "ar_offset a" off] by (simp add: entry_of_def Let_def unat_of_nat)

lemma ends_with_greatest: "xs \<noteq> [] \<Longrightarrow> sorted (map f xs) \<Longrightarrow> x \<in> set xs \<Longrightarrow> f x \<le> f (List.last xs)"
  by (induction xs) auto

text \<open>Words in hexadecimal hold no space, so an offset survives the trip through the command line.\<close>

lemma hex_digit_no_space: "d < 16 \<Longrightarrow> \<not> is_space (hex_digit d)"
  by (auto simp: is_space_def hex_digit_def)

lemma hex_digits_no_space: "c \<in> set (hex_digits n) \<Longrightarrow> \<not> is_space c"
proof (induction n rule: hex_digits.induct)
  case (1 n)
  then show ?case
    using hex_digit_no_space unfolding hex_digits.simps [of n] by (auto split: if_splits)
qed

lemma trim_by_none: "\<forall>c \<in> set s. \<not> P c \<Longrightarrow> trim_by P s = s"
proof -
  assume *: "\<forall>c \<in> set s. \<not> P c"
  have drop: "dropWhile P t = t" if "\<forall>c \<in> set t. \<not> P c" for t
    using that by (cases t) auto
  show ?thesis
    using drop [of s] drop [of "rev s"] * by (simp add: trim_by_def)
qed

lemma TrimSpace_format_hex: "TrimSpace (format_hex n) = format_hex n"
  unfolding TrimSpace_def
  by (rule trim_by_none) (use hex_digits_no_space [of _ n] in \<open>auto simp: format_hex_def is_space_def\<close>)

lemma parseOffset_format_hex: "n < 2 ^ 64 \<Longrightarrow> parseOffset (format_hex n) = Some n"
proof -
  assume n: "n < 2 ^ 64"
  show ?thesis
    using TrimSpace_format_hex [of n] ParseUint0_format_hex [OF n] unfolding parseOffset_def by (simp add: Let_def format_hex_def)
qed

section \<open>The guard\<close>

definition guard_region :: "nvs_guard \<Rightarrow> nat set" where
  "guard_region g = {unat (g_start g)..<unat (g_start g) + unat (g_len g)}"

text \<open>The flash is erased in sectors of 4096 bytes: a write touches every sector it meets.\<close>

definition sector :: nat where
  "sector = 4096"

definition touched_by :: "write_entry \<Rightarrow> nat set" where
  "touched_by e = {a. \<exists>b. unat (we_offset e) \<le> b \<and> b < unat (we_offset e) + unat (we_size e) \<and> a div sector = b div sector}"

definition guard_aligned :: "nvs_guard \<Rightarrow> bool" where
  "guard_aligned g \<longleftrightarrow> sector dvd unat (g_start g) \<and> sector dvd unat (g_len g) \<and> unat (g_start g) + unat (g_len g) \<le> 2 ^ 63"

lemma region_sector:
  assumes "sector dvd unat (g_start g)" "sector dvd unat (g_len g)" "a div sector = b div sector"
  shows "a \<in> guard_region g \<longleftrightarrow> b \<in> guard_region g"
proof -
  obtain s l where sl: "unat (g_start g) = s * 4096" "unat (g_len g) = l * 4096"
    using assms(1,2) unfolding sector_def dvd_def by (metis mult.commute)
  have "x \<in> guard_region g \<longleftrightarrow> s \<le> x div 4096 \<and> x div 4096 < s + l" for x
    unfolding guard_region_def using sl by (auto simp: less_eq_div_iff_mult_less_eq div_less_iff_less_mult algebra_simps)
  then show ?thesis
    using assms(3) by (simp add: sector_def)
qed

lemma positive_size: "0 < sint (n :: 64 word) \<Longrightarrow> 0 < unat n \<and> unat n < 2 ^ 63"
proof -
  assume n: "0 < sint n"
  have "uint n < 2 ^ 63"
  proof (rule ccontr)
    assume "\<not> uint n < 2 ^ 63"
    then have "sint n \<le> uint n - 2 ^ Suc 63"
      using signed_take_bit_int_less_eq [of 63 "uint n"] by (simp add: sint_uint)
    then show False
      using n uint_lt2p [of n] by simp
  qed
  then have "int (unat n) < 2 ^ 63"
    by simp
  then have "unat n < 2 ^ 63"
    by (metis of_nat_less_numeral_power_cancel_iff)
  moreover have "unat n \<noteq> 0"
    using n by (auto simp: unat_eq_zero)
  ultimately show ?thesis
    by blast
qed

text \<open>An entry that passes the guard meets no byte of the region: none it writes, and none of the sectors it erases.\<close>

lemma guard_end: "unat (g_start g) + unat (g_len g) \<le> 2 ^ 63 \<Longrightarrow> unat (g_start g + g_len g) = unat (g_start g) + unat (g_len g)"
  by (simp add: unat_word_ariths)

lemma no_overlap:
  assumes g: "unat (g_start g) + unat (g_len g) \<le> 2 ^ 63" and ok: "\<not> overlaps g e"
    and b: "unat (we_offset e) \<le> b" "b < unat (we_offset e) + (if 0 < sint (we_size e) then unat (we_size e) else 1)"
  shows "b \<notin> guard_region g"
proof
  assume "b \<in> guard_region g"
  then have in_g: "unat (g_start g) \<le> b" "b < unat (g_start g) + unat (g_len g)"
    by (auto simp: guard_region_def)
  let ?n = "if 0 < sint (we_size e) then we_size e else 1"
  have "unat ?n < 2 ^ 63"
    using positive_size [of "we_size e"] by (cases "0 < sint (we_size e)") simp_all
  moreover have "unat (we_offset e) < 2 ^ 63"
    using b(1) in_g(2) g by linarith
  moreover have "b < unat (we_offset e) + unat ?n"
    using b(2) by (cases "0 < sint (we_size e)") simp_all
  ultimately have n: "unat ?n < 2 ^ 63" "unat (we_offset e) < 2 ^ 63" "b < unat (we_offset e) + unat ?n"
    by blast+
  have "entry_end e = we_offset e + ?n"
    by (simp add: entry_end_def)
  then have "unat (entry_end e) = unat (we_offset e) + unat ?n"
    using n(1,2) by (simp add: unat_word_ariths)
  then have "g_start g < entry_end e" "we_offset e < g_start g + g_len g" "0 < g_len g"
    using n(3) in_g b(1) guard_end [OF g] by (simp_all add: word_less_nat_alt)
  then show False
    using ok by (simp add: overlaps_def)
qed

lemma touched_outside:
  assumes "guard_aligned g" "\<not> overlaps g e" "0 < sint (we_size e)" "a \<in> touched_by e"
  shows "a \<notin> guard_region g"
proof -
  obtain b where b: "unat (we_offset e) \<le> b" "b < unat (we_offset e) + unat (we_size e)" "a div sector = b div sector"
    using assms(4) by (auto simp: touched_by_def)
  have "b \<notin> guard_region g"
    using no_overlap [of g e b] assms b by (simp add: guard_aligned_def)
  then show ?thesis
    using region_sector [of g a b] assms(1) b(3) by (simp add: guard_aligned_def)
qed

lemma find_none: "find P xs = None \<longleftrightarrow> (\<forall>x \<in> set xs. \<not> P x)"
  by (induction xs) auto

lemma ValidateWriteSet_None:
  "ValidateWriteSet (Some ws) argv g = None \<longleftrightarrow> (\<forall>tok \<in> set argv. \<not> is_erase tok) \<and> (\<forall>e \<in> set ws. \<not> overlaps g e)"
  by (simp add: ValidateWriteSet_def find_none [symmetric] split: option.split)

text \<open>The guard refuses nothing else.\<close>

lemma overlaps_exact:
  assumes g: "unat (g_start g) + unat (g_len g) \<le> 2 ^ 63" and e: "0 < sint (we_size e)" "unat (we_offset e) + unat (we_size e) < 2 ^ 64"
  shows "overlaps g e \<longleftrightarrow> {unat (we_offset e)..<unat (we_offset e) + unat (we_size e)} \<inter> guard_region g \<noteq> {}"
proof
  assume "overlaps g e"
  moreover have "unat (entry_end e) = unat (we_offset e) + unat (we_size e)"
    using e by (simp add: entry_end_def unat_word_ariths)
  ultimately have "unat (we_offset e) < unat (g_start g) + unat (g_len g)" "unat (g_start g) < unat (we_offset e) + unat (we_size e)" "0 < unat (g_len g)"
    using guard_end [OF g] by (simp_all add: overlaps_def word_less_nat_alt)
  moreover have "0 < unat (we_size e)"
    using positive_size [OF e(1)] by simp
  ultimately have "max (unat (we_offset e)) (unat (g_start g)) \<in> {unat (we_offset e)..<unat (we_offset e) + unat (we_size e)} \<inter> guard_region g"
    by (auto simp: guard_region_def max_def)
  then show "{unat (we_offset e)..<unat (we_offset e) + unat (we_size e)} \<inter> guard_region g \<noteq> {}"
    by blast
next
  assume "{unat (we_offset e)..<unat (we_offset e) + unat (we_size e)} \<inter> guard_region g \<noteq> {}"
  then show "overlaps g e"
    using no_overlap [OF g] e(1) by fastforce
qed

section \<open>Properties\<close>


text \<open>The compiled defaults: four files, of which the partition table has an unknown size.\<close>

definition default_flash :: flash_config where
  "default_flash =
     \<lparr>fc_esptool = [''esptool''], fc_chip = ''esp32c3'', fc_before = ''default-reset'', fc_after = ''hard-reset'', fc_mode = ''dio'',
      fc_size = ''16MB'', fc_freq = ''80m'', fc_extra = [], fc_nvs_offset = ''0x9000'', fc_retry_auto = False, fc_retry_max = 1, fc_tail_lines = 40\<rparr>"

definition default_artifacts :: "artifact list" where
  "default_artifacts =
     [\<lparr>ar_name = ''bootloader'', ar_file = ''b.bin'', ar_offset = ''0x0''\<rparr>, \<lparr>ar_name = ''app'', ar_file = ''fw.bin'', ar_offset = ''0x20000''\<rparr>,
      \<lparr>ar_name = ''partitions'', ar_file = ''p.bin'', ar_offset = ''0x8000''\<rparr>, \<lparr>ar_name = ''otadata'', ar_file = ''o.bin'', ar_offset = ''0x10000''\<rparr>]"

definition default_sizes :: "string \<Rightarrow> 64 word option" where
  "default_sizes p = (if p = ''/out/p.bin'' then None else Some 0x8000)"

lemma default_offsets:
  "parseOffset ''0x0'' = Some 0" "parseOffset ''0x8000'' = Some 0x8000" "parseOffset ''0x9000'' = Some 0x9000"
  "parseOffset ''0x10000'' = Some 0x10000" "parseOffset ''0x20000'' = Some 0x20000"
  by (simp_all add: parseOffset_def TrimSpace_def trim_by_def is_space_def ParseUint0_def base_prefix_def to_lower_def digit_of_def)

lemma default_paths:
  "map (\<lambda>a. resolveUnder ''/out'' (ar_file a)) default_artifacts = [''/out/b.bin'', ''/out/fw.bin'', ''/out/p.bin'', ''/out/o.bin'']"
  by code_simp

definition default_set :: "write_entry list" where
  "default_set =
     [\<lparr>we_name = ''bootloader'', we_offset = 0, we_size = 0x8000, we_file = ''b.bin'', we_local = ''/out/b.bin''\<rparr>,
      \<lparr>we_name = ''partitions'', we_offset = 0x8000, we_size = 0, we_file = ''p.bin'', we_local = ''/out/p.bin''\<rparr>,
      \<lparr>we_name = ''otadata'', we_offset = 0x10000, we_size = 0x8000, we_file = ''o.bin'', we_local = ''/out/o.bin''\<rparr>,
      \<lparr>we_name = ''app'', we_offset = 0x20000, we_size = 0x8000, we_file = ''fw.bin'', we_local = ''/out/fw.bin''\<rparr>]"

lemma default_recipe: "BuildWriteSet default_sizes ''/out'' default_artifacts = Inr default_set"
  using default_paths by (simp add: default_artifacts_def BuildWriteSet_def entry_of_def default_sizes_def default_offsets default_set_def)

lemma not_erase_hex: "\<not> is_erase (format_hex n)"
  unfolding is_erase_def TrimSpace_format_hex by (simp add: format_hex_def ToLower_def eraseVerbs_def to_lower_def)

lemma default_safe:
  "ValidateWriteSet (Some default_set) (BuildEsptoolArgv default_flash ''/dev/ttyACM0'' ''/stage'' default_set) (GuardFromConfig default_flash) = None"
proof -
  have "\<forall>e \<in> set default_set. \<not> overlaps (GuardFromConfig default_flash) e"
    by (simp add: default_set_def overlaps_def entry_end_def GuardFromConfig_def default_flash_def default_offsets nvsRegionLen_def)
  moreover have "\<forall>tok \<in> set (BuildEsptoolArgv default_flash ''/dev/ttyACM0'' ''/stage'' default_set). \<not> is_erase tok"
    by (simp add: BuildEsptoolArgv_def default_flash_def default_set_def entry_args_def not_erase_hex writeFlashVerb_def dashReset_def resolveUnder_def
        IsAbs_def PathJoin_def Clean_def TrimSpace_def trim_by_def is_space_def)
      (simp add: is_erase_def ToLower_def TrimSpace_def trim_by_def is_space_def to_lower_def eraseVerbs_def)
  ultimately show ?thesis
    by (simp add: ValidateWriteSet_None)
qed


text \<open>
  Building the recipe fails exactly on an empty list or an offset that does not parse.  Otherwise the recipe
  has one entry per artifact, at its offset, in the order of the offsets, so that an interrupted write leaves what lies before the
  last entry complete; and the command line ends with the offsets and paths of the entries, in a spelling that reads back as the
  offsets.
\<close>

theorem recipe_ordered:
  "(as = [] \<or> (\<exists>a \<in> set as. parseOffset (ar_offset a) = None) \<longleftrightarrow> (\<exists>e. BuildWriteSet stat dir as = Inl e)) \<and>
   (\<forall>ws. BuildWriteSet stat dir as = Inr ws \<longrightarrow>
      sorted (map we_offset ws) \<and> (\<forall>e \<in> set ws. we_offset e \<le> we_offset (List.last ws)) \<and>
      (\<exists>offs. map (\<lambda>a. parseOffset (ar_offset a)) as = map Some offs \<and> mset ws = mset (map2 (entry_of stat dir) as offs)) \<and>
      (\<exists>pre. BuildEsptoolArgv fc port hostDir ws = pre @ concat (map (\<lambda>e. [format_hex (unat (we_offset e)), resolveUnder hostDir (we_file e)]) ws)) \<and>
      (\<forall>e \<in> set ws. parseOffset (format_hex (unat (we_offset e))) = Some (unat (we_offset e))))"
proof (intro conjI allI impI ballI)
  show "as = [] \<or> (\<exists>a \<in> set as. parseOffset (ar_offset a) = None) \<longleftrightarrow> (\<exists>e. BuildWriteSet stat dir as = Inl e)"
    using write_entries_total [of as stat dir] by (cases "write_entries stat dir as") (auto simp: BuildWriteSet_def)
next
  fix ws
  assume "BuildWriteSet stat dir as = Inr ws"
  then obtain es where es: "as \<noteq> []" "write_entries stat dir as = Inr es" "ws = sort_key we_offset es"
    by (auto simp: BuildWriteSet_Inr)
  show "sorted (map we_offset ws)"
    by (simp add: es)
  then show "we_offset e \<le> we_offset (List.last ws)" if "e \<in> set ws" for e
    using that by (intro ends_with_greatest) auto
  show "\<exists>offs. map (\<lambda>a. parseOffset (ar_offset a)) as = map Some offs \<and> mset ws = mset (map2 (entry_of stat dir) as offs)"
    using write_entries_map [OF es(2)] es(3) by auto
  show "\<exists>pre. BuildEsptoolArgv fc port hostDir ws = pre @ concat (map (\<lambda>e. [format_hex (unat (we_offset e)), resolveUnder hostDir (we_file e)]) ws)"
    unfolding BuildEsptoolArgv_def entry_args_def append_assoc [symmetric] by (rule exI) (rule refl)
  show "parseOffset (format_hex (unat (we_offset e))) = Some (unat (we_offset e))" for e
    using unsigned_less [of "we_offset e", where ?'a = nat] by (simp add: parseOffset_format_hex)
qed

lemma recipe_ordered_witness: "map we_name default_set = [''bootloader'', ''partitions'', ''otadata'', ''app''] \<and> sorted (map we_offset default_set)"
  using recipe_ordered [of default_artifacts default_sizes "''/out''" default_flash "[]" "[]"] default_recipe by (simp add: default_set_def)

text \<open>
  The guard looks for erase verbs and at the recipe, not at the extra arguments.  The flag of \<open>write-flash\<close> that erases the whole
  chip, and a further pair of an offset and a file, pass.
\<close>

lemma extra_args_pass:
  "\<forall>tok \<in> set [''--erase-all'', ''-e'', ''0x9000'', ''/stage/evil.bin'']. \<not> is_erase tok"
  by (simp add: is_erase_def ToLower_def TrimSpace_def trim_by_def is_space_def to_lower_def eraseVerbs_def)

end
