(* ===== verification/Flash_Run.thy ===== *)
theory Flash_Run
  imports Flash_Set
begin

text \<open>
  One device of a flash run: the reading of the esptool output (\<open>flash/progress.go\<close>), the failure classes (\<open>flash/types.go\<close>,
  \<open>flash/recovery.go\<close>), the staging of the files (\<open>flash/stage.go\<close>) and the sequence of steps (\<open>flashOne\<close> in
  \<open>flash/controller.go\<close>) with the events it emits.

  What the host answers is a parameter: file sizes, the outcome of the staging and of the gate, and one outcome per esptool run.
  Hints and error texts are left out, except where a class depends on them.
\<close>

section \<open>Output of esptool (progress.go)\<close>

definition re_space :: "char \<Rightarrow> bool" where
  "re_space c \<longleftrightarrow> of_char c \<in> {9, 10, 12, 13, 32 :: nat}"

text \<open>\<open>writingRe\<close> from a given start; the value is the captured percentage.\<close>

definition writing_match :: "string \<Rightarrow> string option" where
  "writing_match s =
     (if \<not> is_prefix_of ''Writing at 0x'' s then None
      else let hex = takeWhile (\<lambda>c. hex_val c \<noteq> None) (drop 13 s); s1 = dropWhile (\<lambda>c. hex_val c \<noteq> None) (drop 13 s)
        in if hex = [] \<or> \<not> is_prefix_of ''...'' s1 then None
           else let s2 = dropWhile re_space (drop 3 s1)
             in if \<not> is_prefix_of ''('' s2 then None
                else let ds = takeWhile is_digit (tl s2); s3 = dropWhile re_space (dropWhile is_digit (tl s2))
                  in if ds = [] \<or> \<not> is_prefix_of ''%)'' s3 then None else Some ds)"

definition hash_verified :: "string \<Rightarrow> bool" where
  "hash_verified line \<longleftrightarrow> Contains line ''Hash of data verified''"

definition mismatch_match :: "string \<Rightarrow> unit option" where
  "mismatch_match s =
     (case fold_match ''hash of data '' s of
        None \<Rightarrow> None
      | Some r \<Rightarrow> if fold_any [''does not match'', ''verification failed'', ''mismatch''] r then Some () else None)"

definition hash_mismatch :: "string \<Rightarrow> bool" where
  "hash_mismatch line \<longleftrightarrow> first_match mismatch_match line \<noteq> None"

definition leaving :: "string \<Rightarrow> bool" where
  "leaving line \<longleftrightarrow> fold_any [''leaving...'', ''hard resetting'', ''staying in bootloader''] (dropWhile re_space line)"

record progress =
  pg_files :: int
  pg_verified :: int
  pg_current :: int
  pg_pct :: int
  pg_mismatch :: bool
  pg_leaving :: bool

definition NewProgress :: "int \<Rightarrow> progress" where
  "NewProgress n = \<lparr>pg_files = n, pg_verified = 0, pg_current = 0, pg_pct = 0, pg_mismatch = False, pg_leaving = False\<rparr>"

definition trim_cr :: "string \<Rightarrow> string" where
  "trim_cr line = rev (dropWhile (\<lambda>c. c = CHR 0x0D) (rev line))"

definition Ingest :: "progress \<Rightarrow> string \<Rightarrow> progress" where
  "Ingest p line0 =
     (let line = trim_cr line0
      in case first_match writing_match line of
           Some ds \<Rightarrow>
             (let p1 = (case Atoi ds of (n, None) \<Rightarrow> p\<lparr>pg_pct := n\<rparr> | _ \<Rightarrow> p)
              in p1\<lparr>pg_current := (if pg_verified p \<ge> pg_files p \<and> pg_files p > 0 then pg_files p - 1 else pg_verified p)\<rparr>)
         | None \<Rightarrow>
             if hash_mismatch line then p\<lparr>pg_mismatch := True\<rparr>
             else if hash_verified line then p\<lparr>pg_verified := pg_verified p + 1, pg_pct := 0\<rparr>
             else if leaving line then p\<lparr>pg_leaving := True\<rparr>
             else p)"

definition AllVerified :: "progress \<Rightarrow> bool" where
  "AllVerified p \<longleftrightarrow> pg_files p > 0 \<and> pg_verified p \<ge> pg_files p"

definition Success :: "progress \<Rightarrow> int \<Rightarrow> bool" where
  "Success p exitCode \<longleftrightarrow> exitCode = 0 \<and> \<not> pg_mismatch p \<and> AllVerified p"

definition IngestAll :: "progress \<Rightarrow> string list \<Rightarrow> progress" where
  "IngestAll p lines = foldl Ingest p lines"

text \<open>What a line says, in the order in which the patterns are tried.\<close>

definition says_mismatch :: "string \<Rightarrow> bool" where
  "says_mismatch line \<longleftrightarrow> first_match writing_match (trim_cr line) = None \<and> hash_mismatch (trim_cr line)"

definition says_verified :: "string \<Rightarrow> bool" where
  "says_verified line \<longleftrightarrow> first_match writing_match (trim_cr line) = None \<and> \<not> hash_mismatch (trim_cr line) \<and> hash_verified (trim_cr line)"

lemma Ingest_fields:
  "pg_files (Ingest p line) = pg_files p"
  "pg_verified (Ingest p line) = pg_verified p + (if says_verified line then 1 else 0)"
  "pg_mismatch (Ingest p line) \<longleftrightarrow> pg_mismatch p \<or> says_mismatch line"
  by (auto simp: Ingest_def says_verified_def says_mismatch_def Let_def split: option.splits prod.splits)

lemma IngestAll_fields:
  "pg_files (IngestAll p lines) = pg_files p"
  "pg_verified (IngestAll p lines) = pg_verified p + int (length (filter says_verified lines))"
  "pg_mismatch (IngestAll p lines) \<longleftrightarrow> pg_mismatch p \<or> list_ex says_mismatch lines"
  by (induction lines arbitrary: p) (auto simp: IngestAll_def Ingest_fields)

text \<open>The verdict counts lines.\<close>

lemma Success_iff:
  "Success (IngestAll (NewProgress n) lines) exitCode \<longleftrightarrow>
     exitCode = 0 \<and> 0 < n \<and> n \<le> int (length (filter says_verified lines)) \<and> \<not> list_ex says_mismatch lines"
  by (auto simp: Success_def AllVerified_def IngestAll_fields NewProgress_def)

section \<open>Failure classes (types.go, recovery.go)\<close>

datatype fail_class = FailNone | FailValidate | FailStage | FailGate | FailPortBusy | FailSync | FailHash | FailReset | FailTimeout | FailExit

definition Retryable :: "fail_class \<Rightarrow> bool" where
  "Retryable c \<longleftrightarrow> c \<in> {FailPortBusy, FailSync, FailReset, FailTimeout}"

definition Classify :: "int \<Rightarrow> string list \<Rightarrow> string option \<Rightarrow> progress option \<Rightarrow> fail_class" where
  "Classify exitCode lines runErr prog =
     (let blob = ToLower (join [CHR 0x0A] lines) @ (case runErr of None \<Rightarrow> [] | Some e \<Rightarrow> CHR 0x0A # ToLower e);
          contains = list_ex (Contains blob)
      in if (case prog of Some p \<Rightarrow> pg_mismatch p | None \<Rightarrow> False) \<or>
           contains [''hash of data does not match'', ''hash verification failed'', ''hash mismatch'', ''a fatal error occurred: contents differ'']
         then FailHash
         else if contains [''could not open'', ''permission denied'', ''resource busy'', ''device or resource busy'', ''port doesn't exist'',
             ''no such file or directory'', ''could not exclusively lock'']
         then FailPortBusy
         else if contains [''failed to connect'', ''no serial data received'', ''invalid head of packet'', ''wrong boot mode detected'',
             ''timed out waiting for packet header'', ''failed to enter download mode'']
         then FailSync
         else if (case runErr of
             Some e \<Rightarrow> contains [''context deadline exceeded'', ''signal: killed'', ''killed''] \<or> Contains (ToLower e) ''deadline''
           | None \<Rightarrow> False)
         then FailTimeout
         else if contains [''failed to leave'', ''hard resetting failed'', ''error while resetting''] then FailReset
         else if (case prog of Some p \<Rightarrow> pg_files p > 0 \<and> \<not> AllVerified p | None \<Rightarrow> False) then FailHash
         else FailExit)"

definition classifyTransport :: "string option \<Rightarrow> fail_class" where
  "classifyTransport err =
     (case err of
        None \<Rightarrow> FailExit
      | Some e \<Rightarrow>
          (let s = ToLower e
           in if Contains s ''unknown host'' then FailExit else if Contains s ''busy'' \<or> Contains s ''open'' then FailPortBusy else FailExit))"

definition tailOf :: "int \<Rightarrow> 'a list \<Rightarrow> 'a list" where
  "tailOf n lines = (let k = nat (if n < 1 then 40 else n) in drop (length lines - k) lines)"

section \<open>One device (controller.go)\<close>

datatype phase = PhaseValidating | PhaseStaging | PhaseConfirming | PhaseFlashing

text \<open>A run that did not start, or its exit code, its output and the error of the transport.\<close>

datatype run_outcome = NotStarted "string option" | Ran int "string list" "string option"

datatype flash_event =
    Phase phase
  | Staged
  | Confirmed
  | Released string
  | RunArgv "string list"
  | RunStarted int
  | DeviceDone bool fail_class "string list"

record flash_env =
  fe_stat :: "string \<Rightarrow> 64 word option"
  fe_host_dir :: "string option"
  fe_staged :: bool
  fe_confirmed :: bool
  fe_run :: "nat \<Rightarrow> run_outcome"
  fe_alive :: "nat \<Rightarrow> bool"

definition runOnce :: "flash_config \<Rightarrow> flash_env \<Rightarrow> string list \<Rightarrow> int \<Rightarrow> nat \<Rightarrow> bool \<times> fail_class \<times> string list \<times> flash_event list" where
  "runOnce fc env argv n attempt =
     (case fe_run env attempt of
        NotStarted err \<Rightarrow> (False, classifyTransport err, [], [RunArgv argv])
      | Ran exitCode lines err \<Rightarrow>
          (let tail = tailOf (fc_tail_lines fc) lines; prog = IngestAll (NewProgress n) lines
           in if Success prog exitCode then (True, FailNone, tail, [RunArgv argv, RunStarted n])
              else (False, Classify exitCode lines err (Some prog), tail, [RunArgv argv, RunStarted n])))"

definition maxRetries :: "flash_config \<Rightarrow> int" where
  "maxRetries fc = (if fc_retry_auto fc then fc_retry_max fc else 0)"

function run_from :: "flash_config \<Rightarrow> flash_env \<Rightarrow> string list \<Rightarrow> int \<Rightarrow> nat \<Rightarrow> bool \<times> flash_event list" where
  "run_from fc env argv n attempts =
     (let (ok, class, tail, evs) = runOnce fc env argv n attempts
      in if ok then (True, Phase PhaseFlashing # evs @ [DeviceDone True FailNone tail])
         else if Retryable class \<and> int attempts < maxRetries fc \<and> fe_alive env attempts
         then let (r, evs') = run_from fc env argv n (Suc attempts) in (r, Phase PhaseFlashing # evs @ evs')
         else (False, Phase PhaseFlashing # evs @ [DeviceDone False class tail]))"
  by pat_completeness auto
termination
  by (relation "measure (\<lambda>(fc, env, argv, n, attempts). nat (maxRetries fc - int attempts))") auto

declare run_from.simps [simp del]

definition runWithRetry :: "flash_config \<Rightarrow> flash_env \<Rightarrow> string list \<Rightarrow> int \<Rightarrow> bool \<times> flash_event list" where
  "runWithRetry fc env argv n = run_from fc env argv n 0"

definition release_port :: "string \<Rightarrow> flash_event list" where
  "release_port port = (if port = [] then [] else [Released port])"

definition flashOne :: "flash_config \<Rightarrow> artifact list \<Rightarrow> string \<Rightarrow> string \<Rightarrow> flash_env \<Rightarrow> bool \<times> flash_event list" where
  "flashOne fc artifacts artDir port env =
     (case BuildWriteSet (fe_stat env) artDir artifacts of
        Inl e \<Rightarrow> (False, [Phase PhaseValidating, DeviceDone False FailValidate []])
      | Inr ws \<Rightarrow>
          (case fe_host_dir env of
             None \<Rightarrow> (False, [Phase PhaseValidating, DeviceDone False FailStage []])
           | Some hostDir \<Rightarrow>
               (let argv = BuildEsptoolArgv fc port hostDir ws
                in case ValidateWriteSet (Some ws) argv (GuardFromConfig fc) of
                     Some e \<Rightarrow> (False, [Phase PhaseValidating, DeviceDone False FailValidate []])
                   | None \<Rightarrow>
                       if \<not> fe_staged env then (False, [Phase PhaseValidating, Phase PhaseStaging, DeviceDone False FailStage []])
                       else if \<not> fe_confirmed env
                       then (False, [Phase PhaseValidating, Phase PhaseStaging, Staged, Phase PhaseConfirming, DeviceDone False FailGate []])
                       else let (ok, evs) = runWithRetry fc env argv (int (length ws))
                         in (ok, [Phase PhaseValidating, Phase PhaseStaging, Staged, Phase PhaseConfirming, Confirmed] @ release_port port @ evs))))"

section \<open>Events\<close>

fun is_done :: "flash_event \<Rightarrow> bool" where
  "is_done (DeviceDone ok cls tail) = True"
| "is_done _ = False"

fun is_run :: "flash_event \<Rightarrow> bool" where
  "is_run (RunArgv argv) = True"
| "is_run _ = False"

text \<open>Events that end with the verdict and hold no other one.\<close>

definition one_verdict :: "bool \<Rightarrow> flash_event list \<Rightarrow> bool" where
  "one_verdict ok evs \<longleftrightarrow> (\<exists>body cls tail. evs = body @ [DeviceDone ok cls tail] \<and> (\<forall>e \<in> set body. \<not> is_done e) \<and> (cls = FailNone \<longleftrightarrow> ok))"

lemma one_verdict_one: "ok = (cls = FailNone) \<Longrightarrow> \<forall>e \<in> set body. \<not> is_done e \<Longrightarrow> one_verdict ok (body @ [DeviceDone ok cls tail])"
  unfolding one_verdict_def by blast

lemma one_verdict_prefix: "one_verdict ok evs \<Longrightarrow> \<forall>e \<in> set pre. \<not> is_done e \<Longrightarrow> one_verdict ok (pre @ evs)"
proof -
  assume "one_verdict ok evs" and pre: "\<forall>e \<in> set pre. \<not> is_done e"
  then obtain body cls tail where "evs = body @ [DeviceDone ok cls tail]" "\<forall>e \<in> set body. \<not> is_done e" "cls = FailNone \<longleftrightarrow> ok"
    unfolding one_verdict_def by blast
  then show ?thesis
    using one_verdict_one [of ok cls "pre @ body" tail] pre by auto
qed

text \<open>What a successful run has shown.\<close>

definition proven_run :: "int \<Rightarrow> run_outcome \<Rightarrow> bool" where
  "proven_run n out \<longleftrightarrow>
     (\<exists>lines err. out = Ran 0 lines err \<and> 0 < n \<and> n \<le> int (length (filter says_verified lines)) \<and> \<not> list_ex says_mismatch lines)"

lemma Classify_fails: "Classify exitCode lines err prog \<noteq> FailNone"
  by (simp add: Classify_def Let_def)

lemma classifyTransport_fails: "classifyTransport err \<noteq> FailNone"
  by (simp add: classifyTransport_def Let_def split: option.split)

lemma runOnce_shape:
  assumes "runOnce fc env argv n k = (ok, cls, tail, evs)"
  shows "(cls = FailNone \<longleftrightarrow> ok) \<and> (evs = [RunArgv argv] \<or> evs = [RunArgv argv, RunStarted n]) \<and> (ok \<longrightarrow> proven_run n (fe_run env k))"
  using assms
  by (auto simp: runOnce_def Let_def Classify_fails classifyTransport_fails proven_run_def Success_iff split: run_outcome.splits if_splits)

lemma run_from_shape:
  "run_from fc env argv n k = (ok, evs) \<Longrightarrow>
     one_verdict ok evs \<and> (\<forall>a. RunArgv a \<in> set evs \<longrightarrow> a = argv) \<and> length (filter is_run evs) \<le> 1 + nat (maxRetries fc - int k) \<and>
     (ok \<longrightarrow> (\<exists>j. proven_run n (fe_run env j)))"
proof (induction fc env argv n k arbitrary: ok evs rule: run_from.induct)
  case (1 fc env argv n k)
  obtain ok1 cls tail evs1 where once: "runOnce fc env argv n k = (ok1, cls, tail, evs1)"
    by (metis prod_cases4)
  have evs1: "evs1 = [RunArgv argv] \<or> evs1 = [RunArgv argv, RunStarted n]" and cls: "cls = FailNone \<longleftrightarrow> ok1" and proven: "ok1 \<longrightarrow> proven_run n (fe_run env k)"
    using runOnce_shape [OF once] by blast+
  have pre: "\<forall>e \<in> set (Phase PhaseFlashing # evs1). \<not> is_done e" "\<forall>a. RunArgv a \<in> set evs1 \<longrightarrow> a = argv" "length (filter is_run evs1) = 1"
    using evs1 by auto
  show ?case
  proof (cases "\<not> ok1 \<and> Retryable cls \<and> int k < maxRetries fc \<and> fe_alive env k")
    case True
    obtain evs2 where rest: "run_from fc env argv n (Suc k) = (ok, evs2)" "evs = Phase PhaseFlashing # evs1 @ evs2"
      using "1.prems" True by (subst (asm) run_from.simps) (auto simp: once split: prod.splits)
    have IH: "one_verdict ok evs2" "\<forall>a. RunArgv a \<in> set evs2 \<longrightarrow> a = argv" "length (filter is_run evs2) \<le> 1 + nat (maxRetries fc - int (Suc k))"
      "ok \<longrightarrow> (\<exists>j. proven_run n (fe_run env j))"
      using "1.IH" [OF once [symmetric] refl refl refl] True rest(1) by simp_all
    show ?thesis
      using one_verdict_prefix [OF IH(1) pre(1)] IH(2,3,4) pre True by (auto simp: rest(2))
  next
    case False
    then have evs: "evs = (Phase PhaseFlashing # evs1) @ [DeviceDone ok (if ok1 then FailNone else cls) tail]" "ok = ok1"
      using "1.prems" by (subst (asm) run_from.simps; auto simp: once split: if_splits)+
    have "one_verdict ok evs"
      unfolding evs(1) by (rule one_verdict_one) (use cls evs(2) pre(1) in auto)
    then show ?thesis
      using pre proven evs by auto
  qed
qed

lemma split_after: "x \<notin> set A \<Longrightarrow> pre @ x # post = A @ B \<Longrightarrow> \<exists>pre'. pre = A @ pre'"
  by (auto simp: append_eq_append_conv2 Cons_eq_append_conv)

lemma length_recipe: "BuildWriteSet stat dir as = Inr ws \<Longrightarrow> length ws = length as"
  using write_entries_map [of stat dir as] by (fastforce simp: BuildWriteSet_Inr dest: map_eq_imp_length_eq)

text \<open>The three shapes of a device's events: refused before any host is touched, refused on the way, or run.\<close>

lemma flashOne_cases:
  assumes "flashOne fc as dir port env = (ok, evs)"
  obtains (refused) cls pre where "\<not> ok" "evs = pre @ [DeviceDone False cls []]" "cls \<noteq> FailNone" "\<forall>e \<in> set pre. \<not> is_done e \<and> \<not> is_run e"
  | (run) ws hostDir argv evs' where "BuildWriteSet (fe_stat env) dir as = Inr ws" "argv = BuildEsptoolArgv fc port hostDir ws" "fe_host_dir env = Some hostDir"
      "ValidateWriteSet (Some ws) argv (GuardFromConfig fc) = None" "fe_staged env" "fe_confirmed env"
      "run_from fc env argv (int (length ws)) 0 = (ok, evs')"
      "evs = ([Phase PhaseValidating, Phase PhaseStaging, Staged, Phase PhaseConfirming, Confirmed] @ release_port port) @ evs'"
proof (cases "BuildWriteSet (fe_stat env) dir as")
  case (Inl e)
  then show ?thesis
    using assms refused [of "[Phase PhaseValidating]" FailValidate] by (simp add: flashOne_def)
next
  case ws: (Inr ws)
  show ?thesis
  proof (cases "fe_host_dir env")
    case None
    then show ?thesis
      using assms ws refused [of "[Phase PhaseValidating]" FailStage] by (simp add: flashOne_def)
  next
    case hd: (Some hostDir)
    let ?argv = "BuildEsptoolArgv fc port hostDir ws"
    show ?thesis
    proof (cases "ValidateWriteSet (Some ws) ?argv (GuardFromConfig fc)")
      case (Some e)
      then show ?thesis
        using assms ws hd refused [of "[Phase PhaseValidating]" FailValidate] by (simp add: flashOne_def)
    next
      case valid: None
      consider "\<not> fe_staged env" | "fe_staged env" "\<not> fe_confirmed env" | "fe_staged env" "fe_confirmed env"
        by blast
      then show ?thesis
      proof cases
        case 1
        then show ?thesis
          using assms ws hd valid refused [of "[Phase PhaseValidating, Phase PhaseStaging]" FailStage] by (simp add: flashOne_def)
      next
        case 2
        then show ?thesis
          using assms ws hd valid refused [of "[Phase PhaseValidating, Phase PhaseStaging, Staged, Phase PhaseConfirming]" FailGate]
          by (simp add: flashOne_def)
      next
        case 3
        then show ?thesis
          using assms run [OF ws refl hd valid] ws hd valid by (auto simp: flashOne_def runWithRetry_def split: prod.splits)
      qed
    qed
  qed
qed

section \<open>Properties\<close>

text \<open>
  C34 (one device).  Whatever the host answers, the run of a device emits exactly one verdict, as its last event, and the verdict is
  the result.  Every esptool run is given the command line of a recipe that passed the guard, and comes after the staging, the
  confirmation of the device and the release of its port; there is one more run than allowed retries at most; and a success rests on
  a run that exited with 0 and reported every file of a non-empty recipe as verified and none as different.
\<close>

theorem flash_device:
  assumes "flashOne fc as dir port env = (ok, evs)"
  shows "(\<exists>body cls tail. evs = body @ [DeviceDone ok cls tail] \<and> (\<forall>e \<in> set body. \<not> is_done e) \<and> (cls = FailNone \<longleftrightarrow> ok)) \<and>
    (\<forall>pre argv post. evs = pre @ RunArgv argv # post \<longrightarrow>
       (\<exists>ws hostDir. BuildWriteSet (fe_stat env) dir as = Inr ws \<and> argv = BuildEsptoolArgv fc port hostDir ws \<and>
          ValidateWriteSet (Some ws) argv (GuardFromConfig fc) = None) \<and>
       fe_staged env \<and> Staged \<in> set pre \<and> fe_confirmed env \<and> Confirmed \<in> set pre \<and> (port \<noteq> [] \<longrightarrow> Released port \<in> set pre)) \<and>
    length (filter is_run evs) \<le> 1 + nat (maxRetries fc) \<and>
    (ok \<longrightarrow> (\<exists>k lines err. fe_run env k = Ran 0 lines err \<and> as \<noteq> [] \<and> length as \<le> length (filter says_verified lines) \<and>
       \<not> list_ex says_mismatch lines))"
  using assms
proof (cases rule: flashOne_cases)
  case (refused cls pre)
  have "one_verdict ok evs"
    unfolding refused(2) using refused(1,3,4) one_verdict_one [of False cls pre "[]"] by simp
  moreover have "RunArgv a \<notin> set evs" for a
    using refused(2,4) by auto
  then have "evs \<noteq> p @ RunArgv a # q" for p a q
    by (metis in_set_conv_decomp)
  moreover have "filter is_run evs = []"
    using refused(2,4) by (simp add: filter_empty_conv)
  ultimately show ?thesis
    using refused(1) unfolding one_verdict_def by simp
next
  case (run ws hostDir argv evs')
  let ?head = "[Phase PhaseValidating, Phase PhaseStaging, Staged, Phase PhaseConfirming, Confirmed] @ release_port port"
  have shape: "one_verdict ok evs'" "\<forall>a. RunArgv a \<in> set evs' \<longrightarrow> a = argv" "length (filter is_run evs') \<le> 1 + nat (maxRetries fc)"
    "ok \<longrightarrow> (\<exists>j. proven_run (int (length ws)) (fe_run env j))"
    using run_from_shape [OF run(7)] by simp_all
  have head: "\<forall>e \<in> set ?head. \<not> is_done e \<and> \<not> is_run e"
    by (simp add: release_port_def)
  have verdict: "one_verdict ok evs"
    unfolding run(8) by (rule one_verdict_prefix [OF shape(1)]) (use head in blast)
  have order: "a = argv \<and> Staged \<in> set pre \<and> Confirmed \<in> set pre \<and> (port \<noteq> [] \<longrightarrow> Released port \<in> set pre)" if e: "evs = pre @ RunArgv a # post" for pre a post
  proof -
    have "RunArgv a \<notin> set ?head"
      using head by force
    then obtain pre' where "pre = ?head @ pre'"
      using split_after [of "RunArgv a" ?head pre post evs'] e run(8) by metis
    moreover have "RunArgv a \<in> set evs'"
      using e run(8) \<open>RunArgv a \<notin> set ?head\<close> by (metis Un_iff in_set_conv_decomp set_append)
    ultimately show ?thesis
      using shape(2) by (simp add: release_port_def)
  qed
  have count: "length (filter is_run evs) \<le> 1 + nat (maxRetries fc)"
    using shape(3) head by (simp add: run(8) filter_empty_conv release_port_def)
  have proof_of: "\<exists>k lines err. fe_run env k = Ran 0 lines err \<and> as \<noteq> [] \<and> length as \<le> length (filter says_verified lines) \<and> \<not> list_ex says_mismatch lines" if ok
    using shape(4) that length_recipe [OF run(1)] unfolding proven_run_def by (metis length_greater_0_conv of_nat_0_less_iff of_nat_le_iff)
  show ?thesis
    using verdict order count proof_of run(1,2,4,5,6) unfolding one_verdict_def by blast
qed

text \<open>A run that succeeds at the second try.\<close>

definition busy_then_done :: flash_env where
  "busy_then_done =
     \<lparr>fe_stat = default_sizes, fe_host_dir = Some ''/stage'', fe_staged = True, fe_confirmed = True,
      fe_run = (\<lambda>k. if k = 0 then NotStarted (Some ''device busy'') else Ran 0 (replicate 4 ''Hash of data verified.'') None), fe_alive = (\<lambda>k. True)\<rparr>"

definition retrying_flash :: flash_config where
  "retrying_flash = default_flash\<lparr>fc_retry_auto := True\<rparr>"

lemma verified_line: "says_verified ''Hash of data verified.''" "\<not> says_mismatch ''Hash of data verified.''"
  by code_simp+

lemma busy_class: "classifyTransport (Some ''device busy'') = FailPortBusy"
  by code_simp

lemma busy_then_done_run:
  "\<exists>evs. flashOne retrying_flash default_artifacts ''/out'' ''/dev/ttyACM0'' busy_then_done = (True, evs) \<and> length (filter is_run evs) = 2"
proof -
  let ?argv = "BuildEsptoolArgv default_flash ''/dev/ttyACM0'' ''/stage'' default_set"
  have same: "BuildEsptoolArgv retrying_flash = BuildEsptoolArgv default_flash" "GuardFromConfig retrying_flash = GuardFromConfig default_flash"
    by (simp_all add: fun_eq_iff BuildEsptoolArgv_def GuardFromConfig_def retrying_flash_def)
  have first: "runOnce retrying_flash busy_then_done a 4 0 = (False, FailPortBusy, [], [RunArgv a])" for a
    by (simp add: runOnce_def busy_then_done_def busy_class)
  have second: "\<exists>tail. runOnce retrying_flash busy_then_done a 4 1 = (True, FailNone, tail, [RunArgv a, RunStarted 4])" for a
    by (simp add: runOnce_def busy_then_done_def Success_iff verified_line eval_nat_numeral)
  have retry: "maxRetries retrying_flash = 1" "fe_alive busy_then_done 0"
    by (simp_all add: maxRetries_def retrying_flash_def default_flash_def busy_then_done_def)
  have "\<exists>evs. run_from retrying_flash busy_then_done a 4 0 = (True, evs) \<and> length (filter is_run evs) = 2" for a
  proof -
    obtain tail where tail: "runOnce retrying_flash busy_then_done a 4 (Suc 0) = (True, FailNone, tail, [RunArgv a, RunStarted 4])"
      using second [of a] by auto
    have "run_from retrying_flash busy_then_done a 4 (Suc 0) = (True, Phase PhaseFlashing # [RunArgv a, RunStarted 4] @ [DeviceDone True FailNone tail])"
      by (subst run_from.simps) (simp add: tail)
    then have "run_from retrying_flash busy_then_done a 4 0 =
        (True, Phase PhaseFlashing # [RunArgv a] @ Phase PhaseFlashing # [RunArgv a, RunStarted 4] @ [DeviceDone True FailNone tail])"
      by (subst run_from.simps) (simp add: first Retryable_def retry)
    then show ?thesis
      by simp
  qed
  then obtain evs where evs: "run_from retrying_flash busy_then_done ?argv 4 0 = (True, evs)" "length (filter is_run evs) = 2"
    by blast
  have "length default_set = 4"
    by (simp add: default_set_def)
  then show ?thesis
    using evs default_recipe default_safe
    by (simp add: flashOne_def same busy_then_done_def [THEN arg_cong, of fe_stat] busy_then_done_def [THEN arg_cong, of fe_host_dir]
        busy_then_done_def [THEN arg_cong, of fe_staged] busy_then_done_def [THEN arg_cong, of fe_confirmed] runWithRetry_def release_port_def split: prod.split)
qed

lemma flash_device_witness:
  "\<exists>evs. flashOne retrying_flash default_artifacts ''/out'' ''/dev/ttyACM0'' busy_then_done = (True, evs) \<and> length (filter is_run evs) \<le> 2 \<and>
     (\<exists>body cls tail. evs = body @ [DeviceDone True cls tail])"
proof -
  obtain evs where evs: "flashOne retrying_flash default_artifacts ''/out'' ''/dev/ttyACM0'' busy_then_done = (True, evs)" "length (filter is_run evs) = 2"
    using busy_then_done_run by blast
  show ?thesis
    using conjunct1 [OF flash_device [OF evs(1)]] evs by auto
qed

end
