(* ===== verification/Flash_Stage.thy ===== *)
theory Flash_Stage
  imports Flash_Set
begin

text \<open>
  The staging of the recipe's files on a host (\<open>flash/stage.go\<close>): the copy of every file whose digest differs, over a host whose
  files are a map from paths to contents.

  The digest is a parameter, as are the local files.  Every contact with the host can fail, at three points of a copy: before the
  temporary file, with part of it written, and after the file has been moved into place.
\<close>

record host_files =
  hf_file :: "string \<rightharpoonup> string"

datatype copy_fault = Started | Partial string | Moved

text \<open>\<open>slash\<close> and the path of an entry on the host.\<close>

definition slash :: "string \<Rightarrow> string" where
  "slash p = map (\<lambda>c. if c = CHR 0x5C then CHR ''/'' else c) p"

definition remote_path :: "string \<Rightarrow> write_entry \<Rightarrow> string" where
  "remote_path stageDir e = PathJoin [stageDir, slash (we_file e)]"

text \<open>\<open>realStageTransport.remoteSHA256\<close>: \<open>Some []\<close> for an absent file, \<open>None\<close> for an error.\<close>

definition remoteSHA256 :: "(string \<Rightarrow> string) \<Rightarrow> bool \<Rightarrow> string \<Rightarrow> host_files \<Rightarrow> string option" where
  "remoteSHA256 sha fault p h = (if fault then None else Some (case hf_file h p of None \<Rightarrow> [] | Some c \<Rightarrow> ToLower (sha c)))"

text \<open>\<open>realStageTransport.putFile\<close>: read the local file, write \<open>p.part\<close>, move it to \<open>p\<close>; the value tells success.\<close>

definition putFile :: "(string \<rightharpoonup> string) \<Rightarrow> copy_fault option \<Rightarrow> string \<Rightarrow> string \<Rightarrow> host_files \<Rightarrow> bool \<times> host_files" where
  "putFile local fault localPath p h =
     (case local localPath of
        None \<Rightarrow> (False, h)
      | Some c \<Rightarrow>
          (let moved = h\<lparr>hf_file := (hf_file h)(p @ ''.part'' := None, p \<mapsto> c)\<rparr>
           in case fault of
                None \<Rightarrow> (True, moved)
              | Some Started \<Rightarrow> (False, h)
              | Some (Partial c') \<Rightarrow> (False, h\<lparr>hf_file := (hf_file h)(p @ ''.part'' \<mapsto> c')\<rparr>)
              | Some Moved \<Rightarrow> (False, moved)))"

definition sha256File :: "(string \<Rightarrow> string) \<Rightarrow> (string \<rightharpoonup> string) \<Rightarrow> string \<Rightarrow> string option" where
  "sha256File sha local p = map_option sha (local p)"

definition unchanged :: "(string \<Rightarrow> string) \<Rightarrow> (string \<rightharpoonup> string) \<Rightarrow> bool \<Rightarrow> write_entry \<Rightarrow> string \<Rightarrow> host_files \<Rightarrow> bool" where
  "unchanged sha local fault e p h \<longleftrightarrow>
     we_local e \<noteq> [] \<and>
     (case sha256File sha local (we_local e) of
        None \<Rightarrow> False
      | Some l \<Rightarrow> (case remoteSHA256 sha fault p h of None \<Rightarrow> False | Some r \<Rightarrow> r \<noteq> [] \<and> r = l))"

record stage_config =
  sg_sha :: "string \<Rightarrow> string"
  sg_dir :: string
  sg_skip :: bool
  sg_local :: "string \<rightharpoonup> string"

text \<open>\<open>scpStager.Stage\<close>; the faults of each file are a list.\<close>

fun Stage :: "stage_config \<Rightarrow> (bool \<times> copy_fault option) list \<Rightarrow> write_entry list \<Rightarrow> host_files \<Rightarrow> bool \<times> host_files" where
  "Stage cf flts [] h = (True, h)"
| "Stage cf flts (e # es) h =
     (let p = remote_path (sg_dir cf) e; (rf, cpf) = (case flts of [] \<Rightarrow> (False, None) | f # _ \<Rightarrow> f)
      in if sg_skip cf \<and> unchanged (sg_sha cf) (sg_local cf) rf e p h then Stage cf (tl flts) es h
         else if we_local e = [] then (False, h)
         else let (ok, h') = putFile (sg_local cf) cpf (we_local e) p h
           in if ok then Stage cf (tl flts) es h' else (False, h'))"

section \<open>What the host holds\<close>

text \<open>A path holds the file of an entry when the digests agree.\<close>

definition holds_file :: "stage_config \<Rightarrow> host_files \<Rightarrow> write_entry \<Rightarrow> bool" where
  "holds_file cf h e \<longleftrightarrow>
     (\<exists>c l. hf_file h (remote_path (sg_dir cf) e) = Some c \<and> sg_local cf (we_local e) = Some l \<and> (c = l \<or> ToLower (sg_sha cf c) = sg_sha cf l))"

text \<open>Entries with one path on the host have one local file, and no path is the temporary file of another.\<close>

definition paths_apart :: "stage_config \<Rightarrow> write_entry list \<Rightarrow> bool" where
  "paths_apart cf ws \<longleftrightarrow>
     (\<forall>e \<in> set ws. \<forall>e' \<in> set ws. (remote_path (sg_dir cf) e = remote_path (sg_dir cf) e' \<longrightarrow> we_local e = we_local e') \<and>
        remote_path (sg_dir cf) e \<noteq> remote_path (sg_dir cf) e' @ ''.part'')"

lemma paths_apartD:
  assumes "paths_apart cf ws" "e \<in> set ws" "d \<in> set ws"
  shows "remote_path (sg_dir cf) e = remote_path (sg_dir cf) d \<Longrightarrow> we_local e = we_local d"
    and "remote_path (sg_dir cf) e \<noteq> remote_path (sg_dir cf) d @ ''.part''"
  using assms unfolding paths_apart_def by blast+

lemma putFile_cases:
  obtains (none) "local l = None" "putFile local fault l p h = (False, h)"
  | (started) c where "local l = Some c" "putFile local fault l p h = (False, h)"
  | (partial) c c' where "local l = Some c" "putFile local fault l p h = (False, h\<lparr>hf_file := (hf_file h)(p @ ''.part'' \<mapsto> c')\<rparr>)"
  | (moved) c ok where "local l = Some c" "putFile local fault l p h = (ok, h\<lparr>hf_file := (hf_file h)(p @ ''.part'' := None, p \<mapsto> c)\<rparr>)"
proof (cases "local l")
  case None
  then show ?thesis
    using none by (simp add: putFile_def)
next
  case (Some c)
  show ?thesis
  proof (cases fault)
    case None
    then show ?thesis
      using moved Some by (simp add: putFile_def)
  next
    case (Some f)
    then show ?thesis
      using started partial moved [of c False] \<open>local l = Some c\<close> by (cases f) (simp_all add: putFile_def)
  qed
qed

lemma putFile_other: "q \<noteq> p \<Longrightarrow> q \<noteq> p @ ''.part'' \<Longrightarrow> hf_file (snd (putFile local fault l p h)) q = hf_file h q"
  by (rule putFile_cases [where local = local and l = l and fault = fault and p = p and h = h]) simp_all

lemma putFile_path:
  "hf_file (snd (putFile local fault l p h)) p = hf_file h p \<or> hf_file (snd (putFile local fault l p h)) p = local l \<and> local l \<noteq> None"
  by (rule putFile_cases [where local = local and l = l and fault = fault and p = p and h = h]) simp_all

lemma putFile_ok: "putFile local fault l p h = (True, h') \<Longrightarrow> local l \<noteq> None \<and> hf_file h' p = local l"
  by (rule putFile_cases [where local = local and l = l and fault = fault and p = p and h = h]) auto

lemma unchanged_holds: "unchanged (sg_sha cf) (sg_local cf) f e (remote_path (sg_dir cf) e) h \<Longrightarrow> holds_file cf h e"
  by (auto simp: unchanged_def sha256File_def remoteSHA256_def holds_file_def split: option.splits if_splits)

lemma holds_after_put:
  assumes apart: "remote_path (sg_dir cf) d = remote_path (sg_dir cf) e \<longrightarrow> we_local d = we_local e" "remote_path (sg_dir cf) d \<noteq> remote_path (sg_dir cf) e @ ''.part''"
    and put: "putFile (sg_local cf) f (we_local e) (remote_path (sg_dir cf) e) h = (True, h')" and d: "holds_file cf h d \<or> d = e"
  shows "holds_file cf h' d"
proof (cases "remote_path (sg_dir cf) d = remote_path (sg_dir cf) e")
  case True
  then show ?thesis
    using putFile_ok [OF put] apart(1) by (auto simp: holds_file_def)
next
  case False
  then have "hf_file h' (remote_path (sg_dir cf) d) = hf_file h (remote_path (sg_dir cf) d)"
    using putFile_other [of _ "remote_path (sg_dir cf) e" "sg_local cf" f "we_local e" h] put apart(2) by simp
  then show ?thesis
    using d False by (auto simp: holds_file_def)
qed

lemma Stage_holds:
  "Stage cf flts es h = (True, h') \<Longrightarrow> paths_apart cf (done @ es) \<Longrightarrow> \<forall>d \<in> set done. holds_file cf h d \<Longrightarrow> \<forall>d \<in> set (done @ es). holds_file cf h' d"
proof (induction cf flts es h arbitrary: "done" h' rule: Stage.induct)
  case (2 cf flts e es h)
  obtain rf cpf where f: "(case flts of [] \<Rightarrow> (False, None) | f # _ \<Rightarrow> f) = (rf, cpf)"
    by fastforce
  have apart: "paths_apart cf ((done @ [e]) @ es)"
    using "2.prems"(2) by simp
  show ?case
  proof (cases "sg_skip cf \<and> unchanged (sg_sha cf) (sg_local cf) rf e (remote_path (sg_dir cf) e) h")
    case True
    then have "Stage cf (tl flts) es h = (True, h')" "\<forall>d \<in> set (done @ [e]). holds_file cf h d"
      using "2.prems" unchanged_holds by (auto simp: f)
    then show ?thesis
      using "2.IH"(1) [OF refl f [symmetric] refl True, of h' "done @ [e]"] apart by simp
  next
    case False
    obtain ok h1 where put: "putFile (sg_local cf) cpf (we_local e) (remote_path (sg_dir cf) e) h = (ok, h1)"
      by fastforce
    have step: "we_local e \<noteq> []" "ok" "Stage cf (tl flts) es h1 = (True, h')"
      using "2.prems"(1) False put by (auto simp: f split: if_splits)
    have put1: "putFile (sg_local cf) cpf (we_local e) (remote_path (sg_dir cf) e) h = (True, h1)"
      using put step(2) by simp
    have "holds_file cf h1 d" if "d \<in> set (done @ [e])" for d
      by (rule holds_after_put [OF _ _ put1]) (use that paths_apartD [OF apart, of d e] "2.prems"(3) in auto)
    then show ?thesis
      using "2.IH"(2) [OF refl f [symmetric] refl False step(1) put [symmetric] refl step(2,3), of "done @ [e]"] apart by simp
  qed
qed simp

text \<open>Whatever fails, a path on the host holds its old content or the whole local file.\<close>

lemma Stage_atomic:
  assumes "paths_apart cf ws" "set es \<subseteq> set ws" "e \<in> set ws" "Stage cf flts es h = (ok, h')"
  shows "hf_file h' (remote_path (sg_dir cf) e) = hf_file h (remote_path (sg_dir cf) e) \<or>
    hf_file h' (remote_path (sg_dir cf) e) = sg_local cf (we_local e) \<and> sg_local cf (we_local e) \<noteq> None"
  using assms(1,2,4)
proof (induction cf flts es h arbitrary: ok h' rule: Stage.induct)
  case (2 cf flts d es h)
  obtain rf cpf where f: "(case flts of [] \<Rightarrow> (False, None) | f # _ \<Rightarrow> f) = (rf, cpf)"
    by fastforce
  show ?case
  proof (cases "sg_skip cf \<and> unchanged (sg_sha cf) (sg_local cf) rf d (remote_path (sg_dir cf) d) h")
    case True
    then show ?thesis
      using "2.prems" "2.IH"(1) [OF refl f [symmetric] refl True] assms(1,3) by (simp add: f)
  next
    case False
    obtain r h1 where put: "putFile (sg_local cf) cpf (we_local d) (remote_path (sg_dir cf) d) h = (r, h1)"
      by fastforce
    have d: "d \<in> set ws"
      using "2.prems"(2) by simp
    have old: "hf_file h1 (remote_path (sg_dir cf) e) = hf_file h (remote_path (sg_dir cf) e) \<or>
        hf_file h1 (remote_path (sg_dir cf) e) = sg_local cf (we_local e) \<and> sg_local cf (we_local e) \<noteq> None"
    proof (cases "remote_path (sg_dir cf) e = remote_path (sg_dir cf) d")
      case True
      then have "we_local e = we_local d"
        using paths_apartD(1) [OF "2.prems"(1) assms(3) d] True by simp
      then show ?thesis
        using True putFile_path [of "sg_local cf" cpf "we_local d" "remote_path (sg_dir cf) d" h] put by simp
    next
      case other: False
      moreover have "remote_path (sg_dir cf) e \<noteq> remote_path (sg_dir cf) d @ ''.part''"
        by (rule paths_apartD(2) [OF "2.prems"(1) assms(3) d])
      ultimately show ?thesis
        using putFile_other [of "remote_path (sg_dir cf) e" "remote_path (sg_dir cf) d" "sg_local cf" cpf "we_local d" h] put by simp
    qed
    consider "we_local d = []" "h' = h" | "we_local d \<noteq> []" "\<not> r" "h' = h1" | "we_local d \<noteq> []" "r" "Stage cf (tl flts) es h1 = (ok, h')"
      using "2.prems"(3) False put by (auto simp: f split: if_splits)
    then show ?thesis
    proof cases
      case 3
      then show ?thesis
        using "2.IH"(2) [OF refl f [symmetric] refl False 3(1) put [symmetric] refl 3(2) "2.prems"(1) _ 3(3)] "2.prems"(2) old by auto
    qed (use old in auto)
  qed
qed simp

section \<open>Properties\<close>

text \<open>
  When the paths of the recipe are apart, a staging that reports success has every file of the recipe on the host:
  the local content, or content of the same digest.  Whatever fails on the way, every path of the recipe holds its old content or a
  whole local file, never a part of one.
\<close>

theorem staged_files:
  assumes "paths_apart cf ws" "Stage cf flts ws h = (ok, h')"
  shows "(ok \<longrightarrow> (\<forall>e \<in> set ws. \<exists>c l. hf_file h' (remote_path (sg_dir cf) e) = Some c \<and> sg_local cf (we_local e) = Some l \<and>
      (c = l \<or> ToLower (sg_sha cf c) = sg_sha cf l))) \<and>
    (\<forall>e \<in> set ws. hf_file h' (remote_path (sg_dir cf) e) = hf_file h (remote_path (sg_dir cf) e) \<or>
      hf_file h' (remote_path (sg_dir cf) e) = sg_local cf (we_local e) \<and> sg_local cf (we_local e) \<noteq> None)"
  using Stage_holds [of cf flts ws h h' "[]"] Stage_atomic [of cf ws ws _ flts h ok h'] assms unfolding holds_file_def by simp

text \<open>A host with an old application and an up-to-date bootloader; the copy of the application breaks off.\<close>

definition stage_example :: stage_config where
  "stage_example = \<lparr>sg_sha = (\<lambda>c. c), sg_dir = ''/s'', sg_skip = True, sg_local = [''b'' \<mapsto> ''1'', ''a'' \<mapsto> ''2'']\<rparr>"

definition stage_entries :: "write_entry list" where
  "stage_entries =
     [\<lparr>we_name = ''boot'', we_offset = 0, we_size = 1, we_file = ''b'', we_local = ''b''\<rparr>,
      \<lparr>we_name = ''app'', we_offset = 0x20000, we_size = 1, we_file = ''a'', we_local = ''a''\<rparr>]"

definition stage_host :: host_files where
  "stage_host = \<lparr>hf_file = [''/s/b'' \<mapsto> ''1'', ''/s/a'' \<mapsto> ''0'']\<rparr>"

lemma stage_paths: "map (remote_path ''/s'') stage_entries = [''/s/b'', ''/s/a'']"
  by code_simp

lemma stage_apart: "paths_apart stage_example stage_entries"
  using stage_paths by (simp add: paths_apart_def stage_entries_def stage_example_def)

lemma staged_files_witness:
  "\<exists>h'. Stage stage_example [(False, None), (False, Some (Partial []))] stage_entries stage_host = (False, h') \<and>
     list_all (\<lambda>e. hf_file h' (remote_path ''/s'' e) = hf_file stage_host (remote_path ''/s'' e) \<or>
        hf_file h' (remote_path ''/s'' e) = sg_local stage_example (we_local e)) stage_entries"
proof -
  obtain ok h' where run: "Stage stage_example [(False, None), (False, Some (Partial []))] stage_entries stage_host = (ok, h')"
    by fastforce
  moreover have "\<not> ok"
    using run stage_paths
    by (auto simp: stage_entries_def stage_example_def stage_host_def unchanged_def sha256File_def remoteSHA256_def putFile_def ToLower_def to_lower_def
        split: if_splits)
  ultimately show ?thesis
    using conjunct2 [OF staged_files [OF stage_apart run]] by (auto simp: stage_example_def list_all_iff)
qed

end
