(* ===== verification/Flash_Batch.thy ===== *)
theory Flash_Batch
  imports Main
begin

text \<open>
  A flash run over several devices (\<open>runAll\<close>, \<open>Cancel\<close> and \<open>CancelAll\<close> in \<open>flash/controller.go\<close>): one goroutine per target, a lock
  per host, a semaphore of \<open>conc\<close> slots and the summary under its mutex.  The device sequence itself is the step \<open>Flashed\<close>, with an
  arbitrary result.

  Targets are numbered; \<open>host\<close> and \<open>tid\<close> give their host and identifier.  A device context exists from the start of the device sequence
  to its end, and only then can it be cancelled.
\<close>

datatype batch_pc = BWaiting | BHolding | BFlashing | BRecorded bool | BFreed bool | BFinished bool

record batch =
  ba_pc :: "nat \<Rightarrow> batch_pc"
  ba_lock :: "string \<rightharpoonup> nat"
  ba_slots :: nat
  ba_summary :: "string \<rightharpoonup> bool"
  ba_contexts :: "nat set"
  ba_cancelled :: "nat set"
  ba_announced :: bool

definition batch_init :: batch where
  "batch_init =
     \<lparr>ba_pc = (\<lambda>_. BWaiting), ba_lock = Map.empty, ba_slots = 0, ba_summary = Map.empty, ba_contexts = {}, ba_cancelled = {}, ba_announced = False\<rparr>"

definition step_pc :: "nat \<Rightarrow> batch_pc \<Rightarrow> batch \<Rightarrow> batch" where
  "step_pc i p s = s\<lparr>ba_pc := (ba_pc s)(i := p)\<rparr>"

fun finished :: "batch_pc \<Rightarrow> bool" where
  "finished (BFinished ok) = True"
| "finished _ = False"

inductive batch_step :: "(nat \<Rightarrow> string) \<Rightarrow> (nat \<Rightarrow> string) \<Rightarrow> nat \<Rightarrow> nat \<Rightarrow> batch \<Rightarrow> batch \<Rightarrow> bool" for host tid n conc where
  Lock: "i < n \<Longrightarrow> ba_pc s i = BWaiting \<Longrightarrow> ba_lock s (host i) = None \<Longrightarrow>
    batch_step host tid n conc s (step_pc i BHolding (s\<lparr>ba_lock := (ba_lock s)(host i \<mapsto> i)\<rparr>))"
| Slot: "i < n \<Longrightarrow> ba_pc s i = BHolding \<Longrightarrow> ba_slots s < conc \<Longrightarrow>
    batch_step host tid n conc s (step_pc i BFlashing (s\<lparr>ba_slots := ba_slots s + 1, ba_contexts := insert i (ba_contexts s)\<rparr>))"
| Flashed: "i < n \<Longrightarrow> ba_pc s i = BFlashing \<Longrightarrow>
    batch_step host tid n conc s (step_pc i (BRecorded ok) (s\<lparr>ba_summary := (ba_summary s)(tid i \<mapsto> ok), ba_contexts := ba_contexts s - {i}\<rparr>))"
| Free: "i < n \<Longrightarrow> ba_pc s i = BRecorded ok \<Longrightarrow> batch_step host tid n conc s (step_pc i (BFreed ok) (s\<lparr>ba_slots := ba_slots s - 1\<rparr>))"
| Unlock: "i < n \<Longrightarrow> ba_pc s i = BFreed ok \<Longrightarrow>
    batch_step host tid n conc s (step_pc i (BFinished ok) (s\<lparr>ba_lock := (ba_lock s)(host i := None)\<rparr>))"
| Announce: "\<forall>i < n. finished (ba_pc s i) \<Longrightarrow> \<not> ba_announced s \<Longrightarrow> batch_step host tid n conc s (s\<lparr>ba_announced := True\<rparr>)"

definition Cancel :: "nat \<Rightarrow> batch \<Rightarrow> batch" where
  "Cancel i s = (if i \<in> ba_contexts s then s\<lparr>ba_cancelled := insert i (ba_cancelled s)\<rparr> else s)"

definition CancelAll :: "batch \<Rightarrow> batch" where
  "CancelAll s = s\<lparr>ba_cancelled := ba_cancelled s \<union> ba_contexts s\<rparr>"

section \<open>Invariant\<close>

definition slot_holders :: "nat \<Rightarrow> batch \<Rightarrow> nat set" where
  "slot_holders n s = {i. i < n \<and> (ba_pc s i = BFlashing \<or> (\<exists>ok. ba_pc s i = BRecorded ok))}"

fun locked_pc :: "batch_pc \<Rightarrow> bool" where
  "locked_pc BWaiting = False"
| "locked_pc (BFinished ok) = False"
| "locked_pc _ = True"

fun result_pc :: "batch_pc \<Rightarrow> bool option" where
  "result_pc (BRecorded ok) = Some ok"
| "result_pc (BFreed ok) = Some ok"
| "result_pc (BFinished ok) = Some ok"
| "result_pc _ = None"

definition batch_ok :: "(nat \<Rightarrow> string) \<Rightarrow> (nat \<Rightarrow> string) \<Rightarrow> nat \<Rightarrow> nat \<Rightarrow> batch \<Rightarrow> bool" where
  "batch_ok host tid n conc s \<longleftrightarrow>
     ba_slots s = card (slot_holders n s) \<and> ba_slots s \<le> conc \<and>
     (\<forall>h i. ba_lock s h = Some i \<longleftrightarrow> i < n \<and> host i = h \<and> locked_pc (ba_pc s i)) \<and>
     (\<forall>i < n. \<forall>ok. result_pc (ba_pc s i) = Some ok \<longrightarrow> ba_summary s (tid i) = Some ok) \<and>
     (ba_announced s \<longrightarrow> (\<forall>i < n. finished (ba_pc s i))) \<and>
     ba_contexts s = {i. i < n \<and> ba_pc s i = BFlashing}"

lemma batch_okD:
  assumes "batch_ok host tid n conc s"
  shows "ba_slots s = card (slot_holders n s)" "ba_slots s \<le> conc"
    "\<And>h i. ba_lock s h = Some i \<longleftrightarrow> i < n \<and> host i = h \<and> locked_pc (ba_pc s i)"
    "\<And>i ok. i < n \<Longrightarrow> result_pc (ba_pc s i) = Some ok \<Longrightarrow> ba_summary s (tid i) = Some ok"
    "\<And>i. ba_announced s \<Longrightarrow> i < n \<Longrightarrow> finished (ba_pc s i)"
    "ba_contexts s = {i. i < n \<and> ba_pc s i = BFlashing}"
  using assms unfolding batch_ok_def by blast+

lemma batch_ok_init: "batch_ok host tid n conc batch_init"
  by (simp add: batch_ok_def batch_init_def slot_holders_def)

lemma slot_holders_step:
  "i < n \<Longrightarrow> slot_holders n (step_pc i p s) =
     (if p = BFlashing \<or> (\<exists>ok. p = BRecorded ok) then insert i (slot_holders n s) else slot_holders n s - {i})"
  by (auto simp: slot_holders_def step_pc_def)

lemma finite_holders [simp]: "finite (slot_holders n s)"
  by (simp add: slot_holders_def)

lemma slot_holders_upd [simp]:
  "slot_holders n (s\<lparr>ba_lock := x1\<rparr>) = slot_holders n s" "slot_holders n (s\<lparr>ba_slots := x2\<rparr>) = slot_holders n s"
  "slot_holders n (s\<lparr>ba_summary := x3\<rparr>) = slot_holders n s" "slot_holders n (s\<lparr>ba_contexts := x4\<rparr>) = slot_holders n s"
  "slot_holders n (s\<lparr>ba_announced := x5\<rparr>) = slot_holders n s" "slot_holders n (s\<lparr>ba_cancelled := x6\<rparr>) = slot_holders n s"
  by (simp_all add: slot_holders_def)

lemma step_pc_sel [simp]:
  "ba_pc (step_pc i p s) = (ba_pc s)(i := p)" "ba_lock (step_pc i p s) = ba_lock s" "ba_slots (step_pc i p s) = ba_slots s"
  "ba_summary (step_pc i p s) = ba_summary s" "ba_contexts (step_pc i p s) = ba_contexts s" "ba_cancelled (step_pc i p s) = ba_cancelled s"
  "ba_announced (step_pc i p s) = ba_announced s"
  by (simp_all add: step_pc_def)

lemma batch_okI:
  assumes "ba_slots s = card (slot_holders n s)" "ba_slots s \<le> conc"
    "\<And>h i. ba_lock s h = Some i \<longleftrightarrow> i < n \<and> host i = h \<and> locked_pc (ba_pc s i)"
    "\<And>i ok. i < n \<Longrightarrow> result_pc (ba_pc s i) = Some ok \<Longrightarrow> ba_summary s (tid i) = Some ok"
    "\<And>i. ba_announced s \<Longrightarrow> i < n \<Longrightarrow> finished (ba_pc s i)"
    "ba_contexts s = {i. i < n \<and> ba_pc s i = BFlashing}"
  shows "batch_ok host tid n conc s"
  using assms unfolding batch_ok_def by blast

lemma not_announced: "batch_ok host tid n conc s \<Longrightarrow> i < n \<Longrightarrow> \<not> finished (ba_pc s i) \<Longrightarrow> \<not> ba_announced s"
  using batch_okD(5) by blast

lemma batch_ok_step:
  assumes inj: "inj_on tid {..<n}" and "batch_step host tid n conc s s'" "batch_ok host tid n conc s"
  shows "batch_ok host tid n conc s'"
  using assms(2,3)
proof (induction rule: batch_step.induct)
  case (Lock i s)
  note ok = batch_okD [OF Lock.prems]
  have "i \<notin> slot_holders n s"
    using Lock.hyps by (simp add: slot_holders_def)
  moreover have "\<not> (j < n \<and> host j = host i \<and> locked_pc (ba_pc s j))" for j
    using ok(3) [of "host i" j] Lock.hyps(3) by simp
  moreover have "\<not> ba_announced s"
    using not_announced [OF Lock.prems Lock.hyps(1)] Lock.hyps(2) by simp
  ultimately show ?case
    by (intro batch_okI)
      (use Lock.hyps ok in \<open>auto simp: slot_holders_step split: if_splits\<close>)
next
  case (Slot i s)
  note ok = batch_okD [OF Slot.prems]
  have "i \<notin> slot_holders n s"
    using Slot.hyps by (simp add: slot_holders_def)
  moreover have "\<not> ba_announced s"
    using not_announced [OF Slot.prems Slot.hyps(1)] Slot.hyps(2) by simp
  ultimately show ?case
    by (intro batch_okI) (use Slot.hyps ok in \<open>auto simp: slot_holders_step split: if_splits\<close>)
next
  case (Flashed i s r)
  note ok = batch_okD [OF Flashed.prems]
  have "i \<in> slot_holders n s"
    using Flashed.hyps by (simp add: slot_holders_def)
  moreover have "tid j \<noteq> tid i" if "j < n" "j \<noteq> i" for j
    using inj_onD [OF inj, of j i] that Flashed.hyps(1) by auto
  moreover have "\<not> ba_announced s"
    using not_announced [OF Flashed.prems Flashed.hyps(1)] Flashed.hyps(2) by simp
  ultimately show ?case
    by (intro batch_okI) (use Flashed.hyps ok in \<open>auto simp: slot_holders_step insert_absorb split: if_splits\<close>)
next
  case (Free i s r)
  note ok = batch_okD [OF Free.prems]
  have "i \<in> slot_holders n s"
    using Free.hyps by (simp add: slot_holders_def)
  moreover have "\<not> ba_announced s"
    using not_announced [OF Free.prems Free.hyps(1)] Free.hyps(2) by simp
  ultimately show ?case
    by (intro batch_okI) (use Free.hyps ok in \<open>auto simp: slot_holders_step split: if_splits\<close>)
next
  case (Unlock i s r)
  note ok = batch_okD [OF Unlock.prems]
  have "i \<notin> slot_holders n s"
    using Unlock.hyps by (simp add: slot_holders_def)
  moreover have "\<not> ba_announced s"
    using not_announced [OF Unlock.prems Unlock.hyps(1)] Unlock.hyps(2) by simp
  moreover have "j = i" if "j < n" "host j = host i" "locked_pc (ba_pc s j)" for j
    using ok(3) [of "host i" i] ok(3) [of "host i" j] that Unlock.hyps by simp
  ultimately show ?case
    by (intro batch_okI) (use Unlock.hyps ok in \<open>auto simp: slot_holders_step split: if_splits\<close>)
next
  case (Announce s)
  note ok = batch_okD [OF Announce.prems]
  show ?case
    by (intro batch_okI) (use Announce.hyps ok in \<open>auto\<close>)
qed

section \<open>Runs\<close>

definition reachable_batch :: "(nat \<Rightarrow> string) \<Rightarrow> (nat \<Rightarrow> string) \<Rightarrow> nat \<Rightarrow> nat \<Rightarrow> batch \<Rightarrow> bool" where
  "reachable_batch host tid n conc s \<longleftrightarrow> (batch_step host tid n conc)\<^sup>*\<^sup>* batch_init s"

lemma reachable_batch_ok:
  assumes "inj_on tid {..<n}" "reachable_batch host tid n conc s"
  shows "batch_ok host tid n conc s"
  using assms(2) unfolding reachable_batch_def
  by (induction rule: rtranclp_induct) (auto intro: batch_ok_init batch_ok_step [OF assms(1)])

text \<open>Every step brings one goroutine, or the batch, nearer to its end.\<close>

fun steps_left :: "batch_pc \<Rightarrow> nat" where
  "steps_left BWaiting = 5"
| "steps_left BHolding = 4"
| "steps_left BFlashing = 3"
| "steps_left (BRecorded ok) = 2"
| "steps_left (BFreed ok) = 1"
| "steps_left (BFinished ok) = 0"

definition batch_left :: "nat \<Rightarrow> batch \<Rightarrow> nat" where
  "batch_left n s = (\<Sum>i < n. steps_left (ba_pc s i)) + (if ba_announced s then 0 else 1)"

lemma sum_step:
  assumes "i < (n :: nat)" "f i = Suc (g i)" "\<And>j. j \<noteq> i \<Longrightarrow> f j = g j"
  shows "(\<Sum>j < n. f j) = Suc (\<Sum>j < n. (g j :: nat))"
proof -
  have "(\<Sum>j \<in> {..<n} - {i}. f j) = (\<Sum>j \<in> {..<n} - {i}. g j)"
    by (rule sum.cong) (auto simp: assms(3))
  moreover have "sum h {..<n} = h i + sum h ({..<n} - {i})" for h :: "nat \<Rightarrow> nat"
    by (rule sum.remove) (use assms(1) in auto)
  ultimately show ?thesis
    using assms(2) by simp
qed

lemma batch_left_step: "batch_step host tid n conc s s' \<Longrightarrow> batch_left n s = Suc (batch_left n s')"
proof (induction rule: batch_step.induct)
  case (Lock i s)
  then show ?case
    using sum_step [of i n "\<lambda>j. steps_left (ba_pc s j)" "\<lambda>j. steps_left (((ba_pc s)(i := BHolding)) j)"] by (simp add: batch_left_def)
next
  case (Slot i s)
  then show ?case
    using sum_step [of i n "\<lambda>j. steps_left (ba_pc s j)" "\<lambda>j. steps_left (((ba_pc s)(i := BFlashing)) j)"] by (simp add: batch_left_def)
next
  case (Flashed i s r)
  then show ?case
    using sum_step [of i n "\<lambda>j. steps_left (ba_pc s j)" "\<lambda>j. steps_left (((ba_pc s)(i := BRecorded r)) j)"] by (simp add: batch_left_def)
next
  case (Free i s r)
  then show ?case
    using sum_step [of i n "\<lambda>j. steps_left (ba_pc s j)" "\<lambda>j. steps_left (((ba_pc s)(i := BFreed r)) j)"] by (simp add: batch_left_def)
next
  case (Unlock i s r)
  then show ?case
    using sum_step [of i n "\<lambda>j. steps_left (ba_pc s j)" "\<lambda>j. steps_left (((ba_pc s)(i := BFinished r)) j)"] by (simp add: batch_left_def)
qed (simp add: batch_left_def)

text \<open>No deadlock: until the end is announced, some step is possible.\<close>

lemma batch_progress:
  assumes ok: "batch_ok host tid n conc s" and conc: "0 < conc" and going: "\<not> ba_announced s"
  shows "\<exists>s'. batch_step host tid n conc s s'"
proof -
  note ok = batch_okD [OF ok]
  consider (finished) "\<forall>i < n. finished (ba_pc s i)"
    | (inside) i where "i < n" "ba_pc s i = BFlashing \<or> (\<exists>r. ba_pc s i = BRecorded r) \<or> (\<exists>r. ba_pc s i = BFreed r)"
    | (outside) i where "i < n" "ba_pc s i = BWaiting \<or> ba_pc s i = BHolding" "\<forall>j < n. ba_pc s j = BWaiting \<or> ba_pc s j = BHolding \<or> finished (ba_pc s j)"
    by (metis batch_pc.exhaust finished.simps(1))
  then show ?thesis
  proof cases
    case finished
    then show ?thesis
      using going batch_step.Announce by blast
  next
    case inside
    from this(2) show ?thesis
      using batch_step.Flashed [OF inside(1)] batch_step.Free [OF inside(1)] batch_step.Unlock [OF inside(1)] by (elim disjE exE) (rule exI, blast)+
  next
    case outside
    have "slot_holders n s = {}"
      using outside(3) by (auto simp: slot_holders_def)
    then have slots: "ba_slots s < conc"
      using ok(1) conc by simp
    show ?thesis
    proof (cases "\<exists>j < n. ba_pc s j = BHolding")
      case True
      then show ?thesis
        using slots batch_step.Slot by blast
    next
      case False
      then have "\<not> (j < n \<and> locked_pc (ba_pc s j))" for j
        using outside(3) by (cases "ba_pc s j") auto
      then have "ba_lock s (host i) = None"
        using ok(3) [of "host i"] by (metis option.exhaust)
      then show ?thesis
        using outside(1,2) False batch_step.Lock by blast
    qed
  qed
qed

section \<open>Properties\<close>

text \<open>
  C35 (a batch).  In every interleaving at most \<open>conc\<close> devices are flashed at a time and at most one per host, the summary holds the
  result of every device that is done, and the end is announced only when all devices are.  A run takes at most \<open>5 n + 1\<close> steps, and
  until the end is announced some step is possible: every batch ends with its announcement, without deadlock.
\<close>

theorem batch_bounded:
  assumes "inj_on tid {..<n}" "0 < conc" "reachable_batch host tid n conc s"
  shows "card {i. i < n \<and> ba_pc s i = BFlashing} \<le> conc \<and>
    (\<forall>i j. i < n \<longrightarrow> j < n \<longrightarrow> ba_pc s i = BFlashing \<longrightarrow> ba_pc s j = BFlashing \<longrightarrow> host i = host j \<longrightarrow> i = j) \<and>
    (\<forall>i ok. i < n \<longrightarrow> ba_pc s i = BFinished ok \<longrightarrow> ba_summary s (tid i) = Some ok) \<and>
    (ba_announced s \<longrightarrow> (\<forall>i < n. finished (ba_pc s i))) \<and>
    (\<forall>k s'. (batch_step host tid n conc ^^ k) batch_init s' \<longrightarrow> k \<le> 5 * n + 1) \<and>
    (ba_announced s \<or> (\<exists>s'. batch_step host tid n conc s s'))"
proof -
  have ok: "batch_ok host tid n conc s"
    using reachable_batch_ok [OF assms(1,3)] .
  note d = batch_okD [OF ok]
  have "card {i. i < n \<and> ba_pc s i = BFlashing} \<le> card (slot_holders n s)"
    by (rule card_mono) (auto simp: slot_holders_def)
  then have "card {i. i < n \<and> ba_pc s i = BFlashing} \<le> conc"
    using d(1,2) by linarith
  moreover have "\<forall>i ok. i < n \<longrightarrow> ba_pc s i = BFinished ok \<longrightarrow> ba_summary s (tid i) = Some ok"
    using d(4) by simp
  moreover have "ba_announced s \<longrightarrow> (\<forall>i < n. finished (ba_pc s i))"
    using d(5) by simp
  moreover have "i = j" if "i < n" "j < n" "ba_pc s i = BFlashing" "ba_pc s j = BFlashing" "host i = host j" for i j
    using d(3) [of "host i" i] d(3) [of "host i" j] that by simp
  moreover have "k \<le> 5 * n + 1" if "(batch_step host tid n conc ^^ k) batch_init s'" for k s'
  proof -
    have "batch_left n batch_init = k + batch_left n s'"
      using that by (induction k arbitrary: s') (auto dest: batch_left_step)
    then show ?thesis
      by (simp add: batch_left_def batch_init_def)
  qed
  moreover have "ba_announced s \<or> (\<exists>s'. batch_step host tid n conc s s')"
    using batch_progress [OF ok assms(2)] by blast
  ultimately show ?thesis
    by blast
qed

lemma batch_bounded_witness:
  "\<exists>s :: batch. reachable_batch (\<lambda>_. ''h'') (\<lambda>i. replicate i CHR ''t'') 2 1 s \<and> ba_pc s 0 = BHolding \<and> ba_pc s 1 = BWaiting \<and>
     (ba_announced s \<or> (\<exists>s'. batch_step (\<lambda>_. ''h'') (\<lambda>i. replicate i CHR ''t'') 2 1 s s'))"
proof -
  let ?s = "step_pc 0 BHolding (batch_init\<lparr>ba_lock := (ba_lock batch_init)(''h'' \<mapsto> 0)\<rparr>)"
  have "batch_step (\<lambda>_. ''h'') (\<lambda>i. replicate i CHR ''t'') 2 1 batch_init ?s"
    using batch_step.Lock [of 0 2 batch_init "\<lambda>_. ''h''"] by (simp add: batch_init_def)
  then have reach: "reachable_batch (\<lambda>_. ''h'') (\<lambda>i. replicate i CHR ''t'') 2 1 ?s"
    by (simp add: reachable_batch_def)
  have inj: "inj_on (\<lambda>i. replicate i CHR ''t'') {..<2}"
    by (rule inj_onI) (metis length_replicate)
  show ?thesis
  proof (intro exI [of _ ?s] conjI)
    show "ba_announced ?s \<or> (\<exists>s'. batch_step (\<lambda>_. ''h'') (\<lambda>i. replicate i CHR ''t'') 2 1 ?s s')"
      using batch_bounded [OF inj zero_less_one reach] by (elim conjE) assumption
  qed (rule reach, simp_all add: batch_init_def)
qed

text \<open>
  Only devices with a context can be cancelled.  A device that waits for its host or a slot is not, and starts when its turn comes.
\<close>

lemma abort_misses_waiting:
  assumes "batch_ok host tid n conc s" "ba_pc s i = BWaiting \<or> ba_pc s i = BHolding" "i \<notin> ba_cancelled s"
  shows "i \<notin> ba_cancelled (CancelAll s)" "Cancel i s = s"
proof -
  have "i \<notin> ba_contexts s"
    unfolding batch_okD(6) [OF assms(1)] using assms(2) by auto
  then show "i \<notin> ba_cancelled (CancelAll s)" "Cancel i s = s"
    using assms(3) by (simp_all add: CancelAll_def Cancel_def)
qed

end
