(* ===== verification/Ops_Gate.thy ===== *)
theory Ops_Gate
  imports Ops_Text Runs
begin

text \<open>
  Which devices the operator tool acts on: the reading of a host's device list (\<open>sshhost/discover.go\<close>) and the confirmation of a
  device by its USB identifiers with its cache (\<open>sshhost/gate.go\<close>).

  Regular expressions of the configuration are parameters (whether a descriptor matches, the first match of the MAC pattern), and so
  is what the host prints for a command (\<open>None\<close> when it fails).
\<close>

section \<open>Device list (discover.go)\<close>

record device =
  dv_host :: string
  dv_tty :: string
  dv_descriptor :: string
  dv_mac :: string

text \<open>\<open>strings.Index\<close> of the arrow: what is before it and what follows.\<close>

fun cut_at :: "string \<Rightarrow> string \<Rightarrow> (string \<times> string) option" where
  "cut_at sep [] = (if sep = [] then Some ([], []) else None)"
| "cut_at sep (c # cs) =
     (if is_prefix_of sep (c # cs) then Some ([], drop (length sep) (c # cs))
      else map_option (\<lambda>(a, b). (c # a, b)) (cut_at sep cs))"

definition splitSymlinkLine :: "string \<Rightarrow> (string \<times> string) option" where
  "splitSymlinkLine line =
     (case cut_at '' -> '' line of
        None \<Rightarrow> None
      | Some (left, right) \<Rightarrow>
          (let target = TrimSpace right; fields = Fields left
           in if fields = [] then None else if List.last fields = [] \<or> target = [] then None else Some (List.last fields, target)))"

definition resolveTTY :: "string \<Rightarrow> string" where
  "resolveTTY target =
     (if target = [] then []
      else if hd target = CHR ''/'' then Clean target
      else Clean (PathJoin [''/dev/serial/by-id'', target]))"

fun colon_pairs :: "string \<Rightarrow> string" where
  "colon_pairs (a # b # c # cs) = a # b # CHR '':'' # colon_pairs (c # cs)"
| "colon_pairs s = s"

definition normalizeMAC :: "string \<Rightarrow> string" where
  "normalizeMAC m = (let h = ToLower (filter (\<lambda>c. hex_val c \<noteq> None) m) in if length h \<noteq> 12 then ToLower m else colon_pairs h)"

definition parse_line :: "string \<Rightarrow> (string \<Rightarrow> bool) \<Rightarrow> (string \<Rightarrow> string) option \<Rightarrow> string \<Rightarrow> device option" where
  "parse_line host matches mac line0 =
     (let line = TrimSpace line0
      in if line = [] \<or> is_prefix_of ''total '' line then None
         else case splitSymlinkLine line of
           None \<Rightarrow> None
         | Some (desc, target) \<Rightarrow>
             if \<not> matches desc then None
             else let tty = resolveTTY target
               in if tty = [] then None
                  else Some \<lparr>dv_host = host, dv_tty = tty, dv_descriptor = desc,
                    dv_mac = (case mac of None \<Rightarrow> [] | Some f \<Rightarrow> if f desc = [] then [] else normalizeMAC (f desc))\<rparr>)"

definition parse_devices :: "string \<Rightarrow> (string \<Rightarrow> bool) \<Rightarrow> (string \<Rightarrow> string) option \<Rightarrow> string \<Rightarrow> device list" where
  "parse_devices host matches mac raw = List.map_filter (parse_line host matches mac) (Split CHR 0x0A raw)"

section \<open>Confirmation (gate.go)\<close>

record gate_entry =
  ge_at :: int
  ge_vid :: string
  ge_pid :: string

record gate =
  gt_vid :: string
  gt_pid :: string
  gt_command :: "string list"
  gt_required :: bool
  gt_ttl :: int
  gt_cache :: "string \<rightharpoonup> gate_entry"

definition newGate :: "string \<Rightarrow> string \<Rightarrow> string list \<Rightarrow> bool \<Rightarrow> int \<Rightarrow> gate" where
  "newGate vid pid command required ttl =
     \<lparr>gt_vid = ToLower vid, gt_pid = ToLower pid, gt_command = command, gt_required = required, gt_ttl = ttl, gt_cache = Map.empty\<rparr>"

definition confirmKey :: "device \<Rightarrow> string" where
  "confirmKey dev = dv_host dev @ [CHR 0x00] @ dv_tty dev @ [CHR 0x00] @ dv_descriptor dev"

text \<open>\<open>strings.ReplaceAll\<close> of the token.\<close>

function replace_tty :: "string \<Rightarrow> string \<Rightarrow> string" where
  "replace_tty tty [] = []"
| "replace_tty tty (c # cs) =
     (if is_prefix_of ''%TTY%'' (c # cs) then tty @ replace_tty tty (drop 4 cs) else c # replace_tty tty cs)"
  by pat_completeness auto
termination
  by (relation "measure (\<lambda>(tty, s). length s)") auto

definition substituteTTY :: "string list \<Rightarrow> string \<Rightarrow> string list" where
  "substituteTTY template tty = map (replace_tty tty) template"

definition CutPrefix_text :: "string \<Rightarrow> string \<Rightarrow> string option" where
  "CutPrefix_text s pre = (if is_prefix_of pre s then Some (drop (length pre) s) else None)"

definition udev_line :: "string \<times> string \<Rightarrow> string \<Rightarrow> string \<times> string" where
  "udev_line vp line0 =
     (let line = TrimSpace line0
      in case CutPrefix_text line ''ID_VENDOR_ID='' of
           Some v \<Rightarrow> (ToLower (TrimSpace v), snd vp)
         | None \<Rightarrow> (case CutPrefix_text line ''ID_MODEL_ID='' of Some v \<Rightarrow> (fst vp, ToLower (TrimSpace v)) | None \<Rightarrow> vp))"

definition parseUdevVIDPID :: "string \<Rightarrow> string \<times> string" where
  "parseUdevVIDPID out = foldl udev_line ([], []) (Split CHR 0x0A out)"

definition cached_ok :: "gate \<Rightarrow> int \<Rightarrow> string \<Rightarrow> bool" where
  "cached_ok g now key =
     (case gt_cache g key of
        None \<Rightarrow> False
      | Some e \<Rightarrow> ge_vid e = gt_vid g \<and> ge_pid e = gt_pid g \<and> (gt_ttl g \<le> 0 \<or> now - ge_at e < gt_ttl g))"

datatype confirm_error = ProbeFailed | WrongDevice

definition confirm :: "(string list \<Rightarrow> string option) \<Rightarrow> int \<Rightarrow> device \<Rightarrow> gate \<Rightarrow> confirm_error option \<times> gate" where
  "confirm host now dev g =
     (if cached_ok g now (confirmKey dev) then (None, g)
      else case host (substituteTTY (gt_command g) (dv_tty dev)) of
        None \<Rightarrow> (if gt_required g then Some ProbeFailed else None, g)
      | Some out \<Rightarrow>
          if parseUdevVIDPID out = (gt_vid g, gt_pid g)
          then (None, g\<lparr>gt_cache := (gt_cache g)(confirmKey dev \<mapsto> \<lparr>ge_at = now, ge_vid = gt_vid g, ge_pid = gt_pid g\<rparr>)\<rparr>)
          else (if gt_required g then Some WrongDevice else None, g))"

definition invalidate :: "device \<Rightarrow> gate \<Rightarrow> gate" where
  "invalidate dev g = g\<lparr>gt_cache := (gt_cache g)(confirmKey dev := None)\<rparr>"

datatype gate_op = OpConfirm "string list \<Rightarrow> string option" int device | OpInvalidate device

fun gate_step :: "gate_op \<Rightarrow> gate \<Rightarrow> gate" where
  "gate_step (OpConfirm host now dev) g = snd (confirm host now dev g)"
| "gate_step (OpInvalidate dev) g = invalidate dev g"

section \<open>Invariant\<close>

text \<open>The host answered for the device with the configured identifiers.\<close>

definition names_device :: "gate \<Rightarrow> (string list \<Rightarrow> string option) \<Rightarrow> device \<Rightarrow> bool" where
  "names_device g host dev \<longleftrightarrow> (\<exists>out. host (substituteTTY (gt_command g) (dv_tty dev)) = Some out \<and> parseUdevVIDPID out = (gt_vid g, gt_pid g))"

definition same_config :: "gate \<Rightarrow> gate \<Rightarrow> bool" where
  "same_config g h \<longleftrightarrow> gt_vid g = gt_vid h \<and> gt_pid g = gt_pid h \<and> gt_command g = gt_command h \<and> gt_required g = gt_required h \<and> gt_ttl g = gt_ttl h"

lemma gate_step_config: "same_config (gate_step op g) g"
  by (cases op) (auto simp: same_config_def confirm_def invalidate_def split: option.split)

lemma gate_run_config: "same_config (run gate_step ops g) g"
proof (induction ops rule: rev_induct)
  case (snoc op ops)
  then show ?case
    using gate_step_config [of op "run gate_step ops g"] by (simp add: same_config_def)
qed (simp add: same_config_def)

lemma names_device_config: "same_config g h \<Longrightarrow> names_device g host dev = names_device h host dev"
  by (simp add: names_device_def same_config_def)

text \<open>A cached entry stems from a confirmation of the same device that has not been invalidated since.\<close>

definition confirmed_in :: "gate \<Rightarrow> gate_op list \<Rightarrow> string \<Rightarrow> int \<Rightarrow> bool" where
  "confirmed_in g ops key at \<longleftrightarrow>
     (\<exists>pre host dev post. ops = pre @ OpConfirm host at dev # post \<and> confirmKey dev = key \<and> names_device g host dev \<and>
        (\<forall>d. OpInvalidate d \<in> set post \<longrightarrow> confirmKey d \<noteq> key))"

lemma confirmed_in_snoc:
  assumes "confirmed_in g ops key at" "\<forall>d. op = OpInvalidate d \<longrightarrow> confirmKey d \<noteq> key"
  shows "confirmed_in g (ops @ [op]) key at"
proof -
  obtain pre host dev post where "ops = pre @ OpConfirm host at dev # post" "confirmKey dev = key" "names_device g host dev"
    "\<forall>d. OpInvalidate d \<in> set post \<longrightarrow> confirmKey d \<noteq> key"
    using assms(1) unfolding confirmed_in_def by blast
  then show ?thesis
    unfolding confirmed_in_def using assms(2) by (intro exI [of _ pre] exI [of _ host] exI [of _ dev] exI [of _ "post @ [op]"]) auto
qed

lemma confirmed_in_last: "names_device g host dev \<Longrightarrow> confirmed_in g (ops @ [OpConfirm host at dev]) (confirmKey dev) at"
  unfolding confirmed_in_def by (intro exI [of _ ops] exI [of _ host] exI [of _ dev] exI [of _ "[]"]) simp

lemma cache_confirmed:
  assumes "gt_cache g = Map.empty"
  shows "gt_cache (run gate_step ops g) key = Some e \<Longrightarrow> confirmed_in g ops key (ge_at e)"
proof (induction ops arbitrary: e rule: rev_induct)
  case Nil
  then show ?case
    using assms by simp
next
  case (snoc op ops)
  let ?h = "run gate_step ops g"
  show ?case
  proof (cases op)
    case (OpInvalidate d)
    then have "confirmKey d \<noteq> key" "gt_cache ?h key = Some e"
      using snoc.prems by (auto simp: invalidate_def split: if_splits)
    then show ?thesis
      using snoc.IH confirmed_in_snoc [of g ops key "ge_at e" op] OpInvalidate by simp
  next
    case (OpConfirm host now dev)
    show ?thesis
    proof (cases "gt_cache ?h key = Some e")
      case True
      then show ?thesis
        using snoc.IH confirmed_in_snoc [of g ops key "ge_at e" op] OpConfirm by simp
    next
      case False
      have "names_device ?h host dev \<and> key = confirmKey dev \<and> ge_at e = now"
        using snoc.prems False OpConfirm by (auto simp: confirm_def names_device_def split: option.splits if_splits)
      then show ?thesis
        using OpConfirm confirmed_in_last [of g host dev ops now] names_device_config [OF gate_run_config] by auto
    qed
  qed
qed

section \<open>Properties\<close>

text \<open>
  C36 (confirmed devices only).  When confirmation is required, then after any sequence of confirmations and invalidations a device is
  confirmed only if the host names the configured vendor and product for it now, or did so in an earlier confirmation of the same
  host, port and descriptor that lies within the lifetime of the cache and was not invalidated since.
\<close>

theorem gate_sound:
  assumes "confirm host now dev (run gate_step ops (newGate vid pid command True ttl)) = (None, g')"
  shows "names_device (newGate vid pid command True ttl) host dev \<or>
    (\<exists>at. (ttl \<le> 0 \<or> now - at < ttl) \<and> confirmed_in (newGate vid pid command True ttl) ops (confirmKey dev) at)"
proof -
  let ?g = "newGate vid pid command True ttl"
  let ?h = "run gate_step ops ?g"
  have same: "same_config ?h ?g"
    by (rule gate_run_config)
  show ?thesis
  proof (cases "cached_ok ?h now (confirmKey dev)")
    case True
    then obtain e where e: "gt_cache ?h (confirmKey dev) = Some e" "gt_ttl ?h \<le> 0 \<or> now - ge_at e < gt_ttl ?h"
      by (auto simp: cached_ok_def split: option.splits)
    have "confirmed_in ?g ops (confirmKey dev) (ge_at e)"
      using cache_confirmed [OF _ e(1)] by (simp add: newGate_def)
    then show ?thesis
      using e(2) same by (auto simp: same_config_def newGate_def)
  next
    case False
    have "gt_required ?h"
      using same by (simp add: same_config_def newGate_def)
    then have "names_device ?h host dev"
      using assms False by (auto simp: confirm_def names_device_def split: option.splits if_splits)
    then show ?thesis
      using names_device_config [OF same] by simp
  qed
qed

definition picpak_device :: device where
  "picpak_device = \<lparr>dv_host = ''h'', dv_tty = ''/dev/ttyACM0'', dv_descriptor = ''usb-Espressif'', dv_mac = []\<rparr>"

definition picpak_host :: "string list \<Rightarrow> string option" where
  "picpak_host argv = (if argv = [''udevadm'', ''/dev/ttyACM0''] then Some (''ID_VENDOR_ID=303a'' @ [CHR 0x0A] @ ''ID_MODEL_ID=1001'') else None)"

lemma picpak_named: "names_device (newGate ''303a'' ''1001'' [''udevadm'', ''%TTY%''] True 60) picpak_host picpak_device"
proof -
  have "substituteTTY [''udevadm'', ''%TTY%''] ''/dev/ttyACM0'' = [''udevadm'', ''/dev/ttyACM0'']"
    by (simp add: substituteTTY_def)
  moreover have "parseUdevVIDPID (''ID_VENDOR_ID=303a'' @ [CHR 0x0A] @ ''ID_MODEL_ID=1001'') = (''303a'', ''1001'')"
    by (simp add: parseUdevVIDPID_def udev_line_def CutPrefix_text_def TrimSpace_def trim_by_def is_space_def ToLower_def to_lower_def)
  ultimately show ?thesis
    by (simp add: names_device_def newGate_def picpak_host_def picpak_device_def ToLower_def to_lower_def)
qed

text \<open>A second confirmation within the lifetime succeeds although the host no longer answers.\<close>

lemma picpak_cached:
  "fst (confirm (\<lambda>_. None) 50 picpak_device (run gate_step [OpConfirm picpak_host 10 picpak_device] (newGate ''303a'' ''1001'' [''udevadm'', ''%TTY%''] True 60))) = None"
  using picpak_named by (auto simp: confirm_def cached_ok_def names_device_def newGate_def split: option.splits)

lemma gate_sound_witness:
  "\<exists>at. (60 :: int) \<le> 0 \<or> 50 - at < 60 \<and>
     confirmed_in (newGate ''303a'' ''1001'' [''udevadm'', ''%TTY%''] True 60) [OpConfirm picpak_host 10 picpak_device] (confirmKey picpak_device) at"
proof -
  obtain g' where "confirm (\<lambda>_. None) 50 picpak_device (run gate_step [OpConfirm picpak_host 10 picpak_device]
      (newGate ''303a'' ''1001'' [''udevadm'', ''%TTY%''] True 60)) = (None, g')"
    using picpak_cached by (metis prod.collapse)
  from gate_sound [OF this] show ?thesis
    by (auto simp: names_device_def)
qed

text \<open>Every device of the list has a descriptor that passed the pattern and an absolute path.\<close>

lemma Clean_rooted: "hd p = CHR ''/'' \<Longrightarrow> p \<noteq> [] \<Longrightarrow> Clean p \<noteq> [] \<and> hd (Clean p) = CHR ''/''"
  by (simp add: Clean_def Let_def)

lemma resolveTTY_absolute: "target \<noteq> [] \<Longrightarrow> resolveTTY target \<noteq> [] \<and> hd (resolveTTY target) = CHR ''/''"
  by (simp add: resolveTTY_def PathJoin_def Clean_rooted)

lemma parse_line_gated:
  assumes "parse_line host matches mac line = Some d"
  shows "matches (dv_descriptor d) \<and> dv_host d = host \<and> hd (dv_tty d) = CHR ''/''"
proof -
  obtain desc target where link: "splitSymlinkLine (TrimSpace line) = Some (desc, target)" "matches desc" "dv_descriptor d = desc" "dv_host d = host"
    "dv_tty d = resolveTTY target"
    using assms by (auto simp: parse_line_def Let_def split: option.splits if_splits)
  have "target \<noteq> []"
    using link(1) by (auto simp: splitSymlinkLine_def Let_def split: option.splits if_splits)
  then show ?thesis
    using link resolveTTY_absolute by simp
qed

lemma parse_devices_gated:
  assumes "d \<in> set (parse_devices host matches mac raw)"
  shows "matches (dv_descriptor d) \<and> dv_host d = host \<and> hd (dv_tty d) = CHR ''/''"
proof -
  obtain line where "parse_line host matches mac line = Some d"
    using assms by (auto simp: parse_devices_def map_filter_def)
  then show ?thesis
    by (rule parse_line_gated)
qed

end
