(* ===== verification/Device_Life.thy ===== *)
theory Device_Life
  imports C2_Delivery Display_Invariant Ota
begin

text \<open>
  The device registry of the operator (\<open>devicestore\<close>): listing, reading, patching and deleting a device, and the refresh of the devices
  of an edited playlist (\<open>commandstore/playlist.go\<close>), the feedback on commands (\<open>commandstore/feedback.go\<close>).  These operations work on the tables of both halves of
  the backend, so the state here is a pair: the device-facing tables and the display tables.

  The registration itself is \<open>Register\<close> of the command channel.
\<close>

section \<open>Reading (devicestore.go)\<close>

record device_view =
  vw_serial :: serial
  vw_label :: "string option"
  vw_channel :: string
  vw_last_seen :: "time option"
  vw_bonded :: bool

record device_detail = device_view +
  vw_pubkey_present :: bool

definition bonded :: "'a db_scheme \<Rightarrow> serial \<Rightarrow> bool" where
  "bonded db sn = (case device_auth db sn of None \<Rightarrow> False | Some a \<Rightarrow> session_bootstrapped a)"

definition view_of :: "'a db_scheme \<Rightarrow> serial \<Rightarrow> device_row \<Rightarrow> device_view" where
  "view_of db sn d =
     \<lparr>vw_serial = sn, vw_label = d_label d, vw_channel = d_channel d, vw_last_seen = d_last_seen d, vw_bonded = bonded db sn\<rparr>"

text \<open>\<open>List\<close> for the serials of the table in their order.\<close>

definition ListDevices :: "bool \<Rightarrow> 'a db_scheme \<Rightarrow> serial list \<Rightarrow> device_view list option" where
  "ListDevices flt db order =
     (if flt then None else Some (List.map_filter (\<lambda>sn. map_option (view_of db sn) (devices db sn)) order))"

datatype 'v device_read = DeviceFound 'v | NoDevice | ReadFailed

definition GetDevice :: "bool \<Rightarrow> 'a db_scheme \<Rightarrow> serial \<Rightarrow> device_detail device_read" where
  "GetDevice flt db sn =
     (if flt then ReadFailed
      else case devices db sn of
        None \<Rightarrow> NoDevice
      | Some d \<Rightarrow> DeviceFound (device_view.extend (view_of db sn d)
          (device_detail.fields (case device_auth db sn of None \<Rightarrow> False | Some a \<Rightarrow> ecdsa_pubkey a \<noteq> None))))"

text \<open>\<open>Patch\<close>; an unknown channel violates the foreign key.\<close>

definition PatchDevice :: "bool \<Rightarrow> bool \<Rightarrow> 'a db_scheme \<Rightarrow> serial \<Rightarrow> string option \<Rightarrow> string option \<Rightarrow> device_detail device_read \<times> 'a db_scheme" where
  "PatchDevice flt1 flt2 db sn label channel =
     (if flt1 then (ReadFailed, db)
      else case devices db sn of
        None \<Rightarrow> (NoDevice, db)
      | Some d \<Rightarrow>
          (let d' = d\<lparr>d_channel := (case channel of None \<Rightarrow> d_channel d | Some c \<Rightarrow> c), d_label := (case label of None \<Rightarrow> d_label d | Some l \<Rightarrow> Some l)\<rparr>;
               db' = db\<lparr>devices := (devices db)(sn \<mapsto> d')\<rparr>
           in if channels db (d_channel d') = None then (ReadFailed, db) else (GetDevice flt2 db' sn, db')))"

section \<open>Deletion\<close>

type_synonym 'a world = "'a db_scheme \<times> display_db"

datatype delete_call =
  DlBegin | DlQueue | DlTargets | DlFunction | DlLastGood | DlBinding | DlCursor | DlManaged | DlTelemetry | DlLogs | DlDevices | DlCommit

text \<open>The deletion of the \<open>devices\<close> row with its cascade.\<close>

definition delete_device_row :: "serial \<Rightarrow> 'a db_scheme \<Rightarrow> 'a db_scheme" where
  "delete_device_row sn db =
     db\<lparr>devices := (devices db)(sn := None), device_auth := (device_auth db)(sn := None), c2_nonce := (c2_nonce db)(sn := None),
        c2_cursor := (c2_cursor db)(sn := None), log_cursor := (log_cursor db)(sn := None),
        log_fragment := (\<lambda>k. if fst k = sn then None else log_fragment db k)\<rparr>"

definition delete_tables :: "bool \<Rightarrow> serial \<Rightarrow> 'a db_scheme \<Rightarrow> 'a db_scheme" where
  "delete_tables purge sn db =
     (let db = db\<lparr>command_queue := filter (\<lambda>r. c_serial r \<noteq> sn) (command_queue db), rollout_targets := filter (\<lambda>r. r_serial r \<noteq> sn) (rollout_targets db)\<rparr>;
          db = (if purge then db\<lparr>telemetry := filter (\<lambda>t. t_serial t \<noteq> sn) (telemetry db), logs := filter (\<lambda>l. l_serial l \<noteq> sn) (logs db)\<rparr> else db)
      in delete_device_row sn db)"

definition delete_display :: "serial \<Rightarrow> display_db \<Rightarrow> display_db" where
  "delete_display sn dd =
     delete_playlists (\<lambda>p. pl_managed_serial p = Some sn) (snd (UnbindPlaylist False False sn (snd (DeleteDeviceBindings False False sn dd))))"

text \<open>
  \<open>Delete\<close> in one transaction: \<open>None\<close> is an error, \<open>Some False\<close> an unknown serial.  The statements of the purge run only with
  \<open>purgeTimeSeries\<close>.
\<close>

definition DeleteDevice :: "(delete_call \<Rightarrow> bool) \<Rightarrow> bool \<Rightarrow> serial \<Rightarrow> 'a world \<Rightarrow> bool option \<times> 'a world" where
  "DeleteDevice flt purge sn w =
     (let (db, dd) = w
      in if flt DlBegin \<or> flt DlQueue \<or> flt DlTargets \<or> flt DlFunction \<or> flt DlLastGood \<or> flt DlBinding \<or> flt DlCursor \<or> flt DlManaged \<or>
           purge \<and> (flt DlTelemetry \<or> flt DlLogs) \<or> flt DlDevices
         then (None, w)
         else if devices db sn = None then (Some False, w)
         else if flt DlCommit then (None, w)
         else (Some True, (delete_tables purge sn db, delete_display sn dd)))"

section \<open>Refresh of a playlist's devices (playlist.go)\<close>

definition PlaylistRefreshScript :: string where
  "PlaylistRefreshScript = ''refresh()''"

definition playlistRefreshKey :: string where
  "playlistRefreshKey = ''playlist-refresh''"

definition bound_devices :: "int \<Rightarrow> 'a world \<Rightarrow> serial set" where
  "bound_devices pid w = {sn. d_playlist_of (snd w) sn = Some pid \<and> devices (fst w) sn \<noteq> None}"

text \<open>One row of the \<open>INSERT ... SELECT\<close>, counting the rows that are new.\<close>

fun refresh_rows :: "time \<Rightarrow> int option \<Rightarrow> serial list \<Rightarrow> 'a db_scheme \<Rightarrow> nat \<times> 'a db_scheme" where
  "refresh_rows now opkey [] db = (0, db)"
| "refresh_rows now opkey (sn # sns) db =
     (let (new, db1) = insert_cmd now db sn PlaylistRefreshScript None opkey (Some playlistRefreshKey);
          (n, db2) = refresh_rows now opkey sns db1
      in ((if new = None then 0 else 1) + n, db2))"

text \<open>The selected rows come in some order of the bound, registered devices.\<close>

definition EnqueuePlaylistRefresh :: "bool \<Rightarrow> time \<Rightarrow> int option \<Rightarrow> (serial set \<Rightarrow> serial list) \<Rightarrow> int \<Rightarrow> 'a world \<Rightarrow> nat option \<times> 'a world" where
  "EnqueuePlaylistRefresh flt now opkey order pid w =
     (if flt then (None, w)
      else let (n, db) = refresh_rows now opkey (order (bound_devices pid w)) (fst w) in (Some n, (db, snd w)))"

section \<open>Feedback on commands (feedback.go)\<close>

record recent_command =
  rc_seq :: int
  rc_serial :: string
  rc_note :: "string option"
  rc_created_at :: time
  rc_operator_key_id :: "int option"
  rc_targets :: nat
  rc_applied :: nat

definition recent_of :: "'a db_scheme \<Rightarrow> cmd_row \<Rightarrow> recent_command" where
  "recent_of db r =
     \<lparr>rc_seq = c_seq r, rc_serial = c_serial r, rc_note = c_note r, rc_created_at = c_created_at r, rc_operator_key_id = c_operator_key_id r,
      rc_targets = (if c_serial r = ''*'' then card (dom (devices db)) else 1),
      rc_applied =
        card {sn. (c_serial r = ''*'' \<or> sn = c_serial r) \<and> (case c2_cursor db sn of None \<Rightarrow> False | Some cu \<Rightarrow> c_seq r \<le> applied_seq cu)}\<rparr>"

definition RecentCommands :: "bool \<Rightarrow> time \<Rightarrow> time \<Rightarrow> nat \<Rightarrow> 'a db_scheme \<Rightarrow> recent_command list option" where
  "RecentCommands flt now window limit db =
     (if flt then None
      else Some (map (recent_of db) (take limit (rev (sort_key c_seq (filter (\<lambda>r. now - window \<le> c_created_at r) (command_queue db)))))))"

section \<open>What a deletion leaves\<close>

definition no_trace :: "serial \<Rightarrow> 'a world \<Rightarrow> bool" where
  "no_trace sn w \<longleftrightarrow>
     devices (fst w) sn = None \<and> device_auth (fst w) sn = None \<and> c2_nonce (fst w) sn = None \<and> c2_cursor (fst w) sn = None \<and>
     log_cursor (fst w) sn = None \<and> (\<forall>k. fst k = sn \<longrightarrow> log_fragment (fst w) k = None) \<and>
     (\<forall>r \<in> set (command_queue (fst w)). c_serial r \<noteq> sn) \<and> (\<forall>r \<in> set (rollout_targets (fst w)). r_serial r \<noteq> sn) \<and>
     d_function_of (snd w) sn = None \<and> d_playlist_of (snd w) sn = None \<and> d_cursors (snd w) sn = None \<and>
     (\<forall>k. fst k = sn \<longrightarrow> d_last_good (snd w) k = None) \<and> (\<forall>p \<in> set (d_playlists (snd w)). pl_managed_serial p \<noteq> Some sn)"

text \<open>Everything that belongs to other devices, and everything that belongs to none.\<close>

definition others_kept :: "serial \<Rightarrow> 'a world \<Rightarrow> 'a world \<Rightarrow> bool" where
  "others_kept sn w w' \<longleftrightarrow>
     (\<forall>sn'. sn' \<noteq> sn \<longrightarrow>
        devices (fst w') sn' = devices (fst w) sn' \<and> device_auth (fst w') sn' = device_auth (fst w) sn' \<and> c2_nonce (fst w') sn' = c2_nonce (fst w) sn' \<and>
        c2_cursor (fst w') sn' = c2_cursor (fst w) sn' \<and> log_cursor (fst w') sn' = log_cursor (fst w) sn' \<and>
        (\<forall>a. log_fragment (fst w') (sn', a) = log_fragment (fst w) (sn', a)) \<and>
        d_function_of (snd w') sn' = d_function_of (snd w) sn' \<and> d_cursors (snd w') sn' = d_cursors (snd w) sn' \<and>
        (\<forall>i. d_last_good (snd w') (sn', i) = d_last_good (snd w) (sn', i)) \<and>
        (\<forall>i. d_playlist_of (snd w) sn' = Some i \<longrightarrow> i \<notin> pl_id ` {p \<in> set (d_playlists (snd w)). pl_managed_serial p = Some sn} \<longrightarrow>
           d_playlist_of (snd w') sn' = Some i)) \<and>
     filter (\<lambda>r. c_serial r \<noteq> sn) (command_queue (fst w')) = filter (\<lambda>r. c_serial r \<noteq> sn) (command_queue (fst w)) \<and>
     filter (\<lambda>r. r_serial r \<noteq> sn) (rollout_targets (fst w')) = filter (\<lambda>r. r_serial r \<noteq> sn) (rollout_targets (fst w)) \<and>
     filter (\<lambda>t. t_serial t \<noteq> sn) (telemetry (fst w')) = filter (\<lambda>t. t_serial t \<noteq> sn) (telemetry (fst w)) \<and>
     filter (\<lambda>l. l_serial l \<noteq> sn) (logs (fst w')) = filter (\<lambda>l. l_serial l \<noteq> sn) (logs (fst w)) \<and>
     firmware_versions (fst w') = firmware_versions (fst w) \<and> channels (fst w') = channels (fst w) \<and> d_functions (snd w') = d_functions (snd w) \<and>
     d_images (snd w') = d_images (snd w) \<and> d_variants (snd w') = d_variants (snd w) \<and>
     d_playlists (snd w') = filter (\<lambda>p. pl_managed_serial p \<noteq> Some sn) (d_playlists (snd w))"

lemma delete_display_sel:
  "d_function_of (delete_display sn dd) = (d_function_of dd)(sn := None)" "d_cursors (delete_display sn dd) = (d_cursors dd)(sn := None)"
  "d_last_good (delete_display sn dd) = (\<lambda>k. if fst k = sn then None else d_last_good dd k)"
  "d_playlists (delete_display sn dd) = filter (\<lambda>p. pl_managed_serial p \<noteq> Some sn) (d_playlists dd)"
  "d_functions (delete_display sn dd) = d_functions dd" "d_images (delete_display sn dd) = d_images dd" "d_variants (delete_display sn dd) = d_variants dd"
  "d_playlist_of (delete_display sn dd) =
     (\<lambda>s. case ((d_playlist_of dd)(sn := None)) s of None \<Rightarrow> None
        | Some i \<Rightarrow> if i \<in> pl_id ` {p \<in> set (d_playlists dd). pl_managed_serial p = Some sn} then None else Some i)"
  by (simp_all add: delete_display_def UnbindPlaylist_def DeleteDeviceBindings_def delete_playlists_def Let_def cong: if_cong)

lemma delete_tables_sel:
  "devices (delete_tables purge sn db) = (devices db)(sn := None)" "device_auth (delete_tables purge sn db) = (device_auth db)(sn := None)"
  "c2_nonce (delete_tables purge sn db) = (c2_nonce db)(sn := None)" "c2_cursor (delete_tables purge sn db) = (c2_cursor db)(sn := None)"
  "log_cursor (delete_tables purge sn db) = (log_cursor db)(sn := None)"
  "log_fragment (delete_tables purge sn db) = (\<lambda>k. if fst k = sn then None else log_fragment db k)"
  "command_queue (delete_tables purge sn db) = filter (\<lambda>r. c_serial r \<noteq> sn) (command_queue db)"
  "cmd_next_seq (delete_tables purge sn db) = cmd_next_seq db"
  "rollout_targets (delete_tables purge sn db) = filter (\<lambda>r. r_serial r \<noteq> sn) (rollout_targets db)"
  "telemetry (delete_tables purge sn db) = (if purge then filter (\<lambda>t. t_serial t \<noteq> sn) (telemetry db) else telemetry db)"
  "logs (delete_tables purge sn db) = (if purge then filter (\<lambda>l. l_serial l \<noteq> sn) (logs db) else logs db)"
  "firmware_versions (delete_tables purge sn db) = firmware_versions db" "channels (delete_tables purge sn db) = channels db"
  by (simp_all add: delete_tables_def delete_device_row_def Let_def cong: if_cong)

lemma DeleteDevice_cases:
  assumes "DeleteDevice flt purge sn w = (r, w')"
  obtains (kept) "r \<noteq> Some True" "w' = w" | (gone) "r = Some True" "w' = (delete_tables purge sn (fst w), delete_display sn (snd w))" "devices (fst w) sn \<noteq> None"
  using assms by (auto simp: DeleteDevice_def Let_def split: if_splits prod.splits)

lemma no_trace_deleted: "no_trace sn (delete_tables purge sn db, delete_display sn dd)"
  by (simp add: no_trace_def delete_tables_sel delete_display_sel)

lemma others_kept_deleted: "others_kept sn (db, dd) (delete_tables purge sn db, delete_display sn dd)"
  by (simp add: others_kept_def delete_tables_sel delete_display_sel)

lemma queue_inv_deleted: "queue_inv db \<Longrightarrow> queue_inv (delete_tables purge sn db)"
  by (auto simp: queue_inv_def queue_ok_def dedup_ok_def delete_tables_sel sorted_wrt_filter)

lemma display_ok_deleted: "display_ok dd \<Longrightarrow> display_ok (delete_display sn dd)"
  unfolding delete_display_def by (intro display_ok_delete_playlists ok_UnbindPlaylist ok_DeleteDeviceBindings)

lemma fold_max_ge: "m \<le> fold (\<lambda>r m. max (c_seq r) m) q m" "r \<in> set q \<Longrightarrow> c_seq r \<le> fold (\<lambda>r m. max (c_seq r) m) q m"
  by (induction q arbitrary: m) (auto, (meson max.cobounded1 max.cobounded2 order_trans)+)

lemma max_seq_ge: "r \<in> set q \<Longrightarrow> c_seq r \<le> max_seq q"
  by (simp add: max_seq_def fold_max_ge)

lemma pending_cmds_above: "\<forall>r \<in> set q. c_seq r \<le> a \<Longrightarrow> pending_cmds q s a = []"
proof -
  assume "\<forall>r \<in> set q. c_seq r \<le> a"
  then have "filter (\<lambda>r. targets s r \<and> c_seq r > a) q = []"
    by (force simp: filter_empty_conv)
  then show ?thesis
    by (simp add: pending_cmds_def)
qed

section \<open>What a refresh adds\<close>

lemma refresh_rows_shape:
  assumes "queue_inv db" "distinct sns"
  shows "\<exists>rows. command_queue (snd (refresh_rows now opkey sns db)) = command_queue db @ rows \<and> length rows = fst (refresh_rows now opkey sns db) \<and>
    queue_inv (snd (refresh_rows now opkey sns db)) \<and>
    (\<forall>r \<in> set rows. c_serial r \<in> set sns \<and> c_script r = PlaylistRefreshScript \<and> c_idempotency_key r = Some playlistRefreshKey \<and> \<not> c_applied r) \<and>
    (\<forall>sn \<in> set sns. \<exists>r \<in> set (command_queue db @ rows). pending_key sn playlistRefreshKey r)"
  using assms
proof (induction sns arbitrary: db)
  case (Cons sn sns)
  let ?ins = "insert_cmd now db sn PlaylistRefreshScript None opkey (Some playlistRefreshKey)"
  let ?row = "new_cmd now db sn PlaylistRefreshScript None opkey (Some playlistRefreshKey)"
  have inv: "queue_inv (snd ?ins)"
    using Cons.prems(1) by (rule queue_inv_insert_cmd)
  obtain rows where rows: "command_queue (snd (refresh_rows now opkey sns (snd ?ins))) = command_queue (snd ?ins) @ rows"
    "length rows = fst (refresh_rows now opkey sns (snd ?ins))" "queue_inv (snd (refresh_rows now opkey sns (snd ?ins)))"
    "\<forall>r \<in> set rows. c_serial r \<in> set sns \<and> c_script r = PlaylistRefreshScript \<and> c_idempotency_key r = Some playlistRefreshKey \<and> \<not> c_applied r"
    "\<forall>sn \<in> set sns. \<exists>r \<in> set (command_queue (snd ?ins) @ rows). pending_key sn playlistRefreshKey r"
    using Cons.IH [OF inv] Cons.prems(2) by auto
  have step: "refresh_rows now opkey (sn # sns) db =
      ((if fst ?ins = None then 0 else 1) + fst (refresh_rows now opkey sns (snd ?ins)), snd (refresh_rows now opkey sns (snd ?ins)))"
    by (simp add: split_beta Let_def)
  show ?case
  proof (cases "cmd_conflict db sn (Some playlistRefreshKey)")
    case True
    then have ins: "fst ?ins = None" "command_queue (snd ?ins) = command_queue db"
      by (simp_all add: insert_cmd_eq)
    have "\<exists>r \<in> set (command_queue db). pending_key sn playlistRefreshKey r"
      using True by (simp add: cmd_conflict_def)
    then show ?thesis
      using rows unfolding step ins by (intro exI [of _ rows]) auto
  next
    case False
    then have ins: "fst ?ins \<noteq> None" "command_queue (snd ?ins) = command_queue db @ [?row]"
      by (simp_all add: insert_cmd_eq)
    have row: "pending_key sn playlistRefreshKey ?row" "c_serial ?row = sn" "c_script ?row = PlaylistRefreshScript"
      "c_idempotency_key ?row = Some playlistRefreshKey" "\<not> c_applied ?row"
      by (simp_all add: new_cmd_def pending_key_def)
    show ?thesis
      using rows ins row unfolding step by (intro exI [of _ "?row # rows"]) auto
  qed
qed simp

lemma refresh_rows_again:
  "\<forall>sn \<in> set sns. \<exists>r \<in> set (command_queue db). pending_key sn playlistRefreshKey r \<Longrightarrow>
     fst (refresh_rows now opkey sns db) = 0 \<and> command_queue (snd (refresh_rows now opkey sns db)) = command_queue db"
proof (induction sns arbitrary: db)
  case (Cons sn sns)
  let ?ins = "insert_cmd now db sn PlaylistRefreshScript None opkey (Some playlistRefreshKey)"
  have "fst ?ins = None" "command_queue (snd ?ins) = command_queue db"
    using Cons.prems by (simp_all add: insert_cmd_eq cmd_conflict_def)
  then show ?case
    using Cons.IH [of "snd ?ins"] Cons.prems by (simp add: split_beta Let_def)
qed simp

lemma refresh_rows_devices: "devices (snd (refresh_rows now opkey sns db)) = devices db"
proof (induction sns arbitrary: db)
  case (Cons sn sns)
  then show ?case
    by (simp add: split_beta Let_def insert_cmd_def)
qed simp

text \<open>A command applied by a device is counted for it once; under the foreign key of the cursors never more often than there are targets.\<close>

lemma recent_applied_bound:
  assumes "finite (dom (devices db))" "dom (c2_cursor db) \<subseteq> dom (devices db)"
  shows "rc_applied (recent_of db r) \<le> rc_targets (recent_of db r)"
proof (cases "c_serial r = ''*''")
  case True
  have "{sn. case c2_cursor db sn of None \<Rightarrow> False | Some cu \<Rightarrow> c_seq r \<le> applied_seq cu} \<subseteq> dom (c2_cursor db)"
    by (auto split: option.splits)
  then have "card {sn. case c2_cursor db sn of None \<Rightarrow> False | Some cu \<Rightarrow> c_seq r \<le> applied_seq cu} \<le> card (dom (devices db))"
    using assms by (meson card_mono order_trans)
  then show ?thesis
    using True by (simp add: recent_of_def)
next
  case False
  have "{sn. sn = c_serial r \<and> (case c2_cursor db sn of None \<Rightarrow> False | Some cu \<Rightarrow> c_seq r \<le> applied_seq cu)} \<subseteq> {c_serial r}"
    by auto
  then have "card {sn. sn = c_serial r \<and> (case c2_cursor db sn of None \<Rightarrow> False | Some cu \<Rightarrow> c_seq r \<le> applied_seq cu)} \<le> card {c_serial r}"
    by (intro card_mono) simp_all
  then show ?thesis
    using False by (simp add: recent_of_def)
qed

section \<open>Properties\<close>


definition example_display :: display_db where
  "example_display =
     \<lparr>d_operators = {}, d_images = Map.empty, d_templates = {}, d_playlists = [], d_next_playlist = 1, d_items = [], d_next_item = 1,
      d_functions = [], d_next_function = 1, d_playlist_of = [''pp1'' \<mapsto> 5], d_function_of = Map.empty, d_cursors = Map.empty,
      d_variants = Map.empty, d_last_good = Map.empty\<rparr>"


text \<open>
  After a refresh every registered device bound to the playlist has exactly one pending row under the
  refresh key; the rows added are refresh commands for such devices, as many as are reported; nothing else changes, the invariant of
  the queue is kept, and a second refresh adds nothing.
\<close>

theorem refresh_once:
  assumes inv: "queue_inv (fst w)" and order: "distinct (order (bound_devices pid w))" "set (order (bound_devices pid w)) = bound_devices pid w"
    and run: "EnqueuePlaylistRefresh flt now opkey order pid w = (Some n, w')"
  shows "snd w' = snd w \<and> queue_inv (fst w') \<and>
    (\<forall>sn \<in> bound_devices pid w. \<exists>!r. r \<in> set (command_queue (fst w')) \<and> pending_key sn playlistRefreshKey r) \<and>
    (\<exists>rows. command_queue (fst w') = command_queue (fst w) @ rows \<and> length rows = n \<and>
       (\<forall>r \<in> set rows. c_serial r \<in> bound_devices pid w \<and> c_script r = PlaylistRefreshScript \<and> \<not> c_applied r)) \<and>
    (\<forall>now' opkey' n' w''. EnqueuePlaylistRefresh flt now' opkey' order pid w' = (Some n', w'') \<longrightarrow>
       n' = 0 \<and> command_queue (fst w'') = command_queue (fst w'))"
proof -
  let ?sns = "order (bound_devices pid w)"
  have eq: "\<not> flt" "n = fst (refresh_rows now opkey ?sns (fst w))" "fst w' = snd (refresh_rows now opkey ?sns (fst w))" "snd w' = snd w"
    using run by (auto simp: EnqueuePlaylistRefresh_def split_beta Let_def split: if_splits)
  obtain rows where rows: "command_queue (fst w') = command_queue (fst w) @ rows" "length rows = n" "queue_inv (fst w')"
    "\<forall>r \<in> set rows. c_serial r \<in> bound_devices pid w \<and> c_script r = PlaylistRefreshScript \<and> c_idempotency_key r = Some playlistRefreshKey \<and> \<not> c_applied r"
    "\<forall>sn \<in> bound_devices pid w. \<exists>r \<in> set (command_queue (fst w')). pending_key sn playlistRefreshKey r"
    using refresh_rows_shape [OF inv order(1), of now opkey] unfolding eq order(2) by metis
  have unique: "r = r'" if "r \<in> set (command_queue (fst w'))" "r' \<in> set (command_queue (fst w'))" "pending_key sn k r" "pending_key sn k r'" for r r' sn k
  proof -
    have "c_seq r = c_seq r'"
      using rows(3) that unfolding queue_inv_def dedup_ok_def by blast
    then show ?thesis
      using queue_ok_seq_inj [of "command_queue (fst w')" "cmd_next_seq (fst w')" r r'] rows(3) that(1,2) by (simp add: queue_inv_def)
  qed
  have "bound_devices pid w' = bound_devices pid w"
    using refresh_rows_devices [of now opkey ?sns "fst w"] eq by (simp add: bound_devices_def)
  then have again: "n' = 0 \<and> command_queue (fst w'') = command_queue (fst w')"
    if "EnqueuePlaylistRefresh flt now' opkey' order pid w' = (Some n', w'')" for now' opkey' n' w''
    using that refresh_rows_again [of ?sns "fst w'" now' opkey'] rows(5) order(2)
    by (auto simp: EnqueuePlaylistRefresh_def split_beta Let_def split: if_splits)
  have one: "\<exists>!r. r \<in> set (command_queue (fst w')) \<and> pending_key sn playlistRefreshKey r" if "sn \<in> bound_devices pid w" for sn
    using rows(5) that unique by blast
  show ?thesis
    using eq(4) rows(1-4) one again by blast
qed

lemma refresh_once_witness:
  "\<exists>n w'. EnqueuePlaylistRefresh False 9 None (\<lambda>S. if S = {''pp1''} then [''pp1''] else []) 5 (example_db, example_display) = (Some n, w') \<and>
     queue_inv (fst w') \<and> (\<exists>!r. r \<in> set (command_queue (fst w')) \<and> pending_key ''pp1'' playlistRefreshKey r)"
proof -
  let ?order = "\<lambda>S. if S = {''pp1''} then [''pp1''] else []"
  have bound: "bound_devices 5 (example_db, example_display) = {''pp1''}"
    by (auto simp: bound_devices_def example_db_def example_display_def split: if_splits)
  obtain n w' where run: "EnqueuePlaylistRefresh False 9 None ?order 5 (example_db, example_display) = (Some n, w')"
    by (simp add: EnqueuePlaylistRefresh_def split_beta Let_def)
  show ?thesis
    using refresh_once [of "(example_db, example_display)" ?order 5 False 9 None n w'] run bound example_queue_inv by auto
qed

text \<open>
  The key is one that an operator may use: while such a command of his is pending for the device, a refresh adds nothing for it.
\<close>

lemma refresh_masked:
  assumes "pending_key sn playlistRefreshKey r" "r \<in> set (command_queue db)"
  shows "refresh_rows now opkey [sn] db = (0, db\<lparr>cmd_next_seq := cmd_next_seq db + 1\<rparr>)"
  using assms by (auto simp: insert_cmd_eq cmd_conflict_def)

end
