(* ===== verification/Log_Query.thy ===== *)
theory Log_Query
  imports Log_Ingest Go_Base64 "HOL-Library.Product_Lexorder" "HOL-Library.Countable"
begin

text \<open>
  The reading side of the device logs (\<open>logquery/logquery.go\<close>, \<open>logs_http.go\<close>): pages of log lines by a keyset, the live tail, and the
  reconstruction of one boot's text from the fragments of Log_Ingest.

  A row of \<open>logs\<close> has besides its columns a physical address (\<open>ctid\<close>), the last part of the key.  The collation of the database is a
  parameter: a function that ranks strings.  JSON of the bookmark is a parameter too.
\<close>

section \<open>Rows and keys\<close>

type_synonym ctid = "nat \<times> nat"

record dbRow = log_row +
  lr_ctid :: ctid

record bookmark =
  cu_time :: time
  cu_serial :: string
  cu_seq :: int
  cu_ctid :: ctid

definition seqOrZero :: "'a log_row_scheme \<Rightarrow> int" where
  "seqOrZero r = (case l_seq r of None \<Rightarrow> 0 | Some n \<Rightarrow> n)"

type_synonym 'k key = "int \<times> 'k \<times> int \<times> ctid"

definition row_key :: "(string \<Rightarrow> 'k) \<Rightarrow> dbRow \<Rightarrow> 'k key" where
  "row_key coll r = (l_time r, coll (l_serial r), seqOrZero r, lr_ctid r)"

definition cursor_key :: "(string \<Rightarrow> 'k) \<Rightarrow> bookmark \<Rightarrow> 'k key" where
  "cursor_key coll c = (cu_time c, coll (cu_serial c), cu_seq c, cu_ctid c)"

definition cursor_of :: "dbRow \<Rightarrow> bookmark" where
  "cursor_of r = \<lparr>cu_time = l_time r, cu_serial = l_serial r, cu_seq = seqOrZero r, cu_ctid = lr_ctid r\<rparr>"

section \<open>Lines\<close>

record log_line_view =
  ln_time :: time
  ln_serial :: string
  ln_seq :: "int option"
  ln_idx :: nat
  ln_boot :: "int option"
  ln_source :: string
  ln_gap :: bool
  ln_suspect :: bool
  ln_text :: string

text \<open>\<open>strings.Split\<close> with a separator of any length but zero.\<close>

function SplitText :: "string \<Rightarrow> string \<Rightarrow> string list" where
  "SplitText sep s =
     (if sep \<noteq> [] \<and> prefix sep s then [] # SplitText sep (drop (length sep) s)
      else case s of
        [] \<Rightarrow> [[]]
      | c # cs \<Rightarrow> (case SplitText sep cs of [] \<Rightarrow> [[c]] | p # ps \<Rightarrow> (c # p) # ps))"
  by pat_completeness auto
termination
  by (relation "measure (\<lambda>(sep, s). length s)") (auto simp: prefix_def)

declare SplitText.simps [simp del]

definition SplitPayload :: "string \<Rightarrow> string \<Rightarrow> string list" where
  "SplitPayload payload sep =
     (if payload = [] then []
      else let parts = SplitText sep payload in if parts \<noteq> [] \<and> List.last parts = [] then butlast parts else parts)"

definition lines_of :: "string \<Rightarrow> dbRow \<Rightarrow> log_line_view list" where
  "lines_of sep r =
     map (\<lambda>(i, t). \<lparr>ln_time = l_time r, ln_serial = l_serial r, ln_seq = l_seq r, ln_idx = i, ln_boot = l_boot_count r, ln_source = l_source r,
        ln_gap = (i = 0 \<and> l_gap r), ln_suspect = (i = 0 \<and> l_suspect r), ln_text = t\<rparr>) (enumerate 0 (SplitPayload (l_payload r) sep))"

section \<open>Pages\<close>

record log_params =
  qp_serials :: "string list"
  qp_sources :: "string list"
  qp_boot :: "int option"
  qp_before :: string
  qp_limit :: int
  qp_sep :: string

record log_page =
  pg_lines :: "log_line_view list"
  pg_next :: string
  pg_edge :: bool

type_synonym json_codec = "(bookmark \<Rightarrow> bytes) \<times> (bytes \<Rightarrow> bookmark option)"

definition EncodeCursor :: "json_codec \<Rightarrow> bookmark \<Rightarrow> string" where
  "EncodeCursor js c = b64_encode (fst js c)"

definition DecodeCursor :: "json_codec \<Rightarrow> string \<Rightarrow> bookmark option" where
  "DecodeCursor js s = (case b64_decode s of None \<Rightarrow> None | Some raw \<Rightarrow> snd js raw)"

text \<open>The defaults that \<open>Query\<close> puts in, and its \<open>WHERE\<close> clause.\<close>

definition with_defaults :: "log_params \<Rightarrow> log_params" where
  "with_defaults p =
     p\<lparr>qp_limit := (if qp_limit p \<le> 0 then 100 else qp_limit p),
       qp_sources := (if qp_sources p = [] then [''telemetry'', ''ota-snapshot''] else qp_sources p),
       qp_sep := (if qp_sep p = [] then ''|'' else qp_sep p)\<rparr>"

definition row_matches :: "log_params \<Rightarrow> dbRow \<Rightarrow> bool" where
  "row_matches p r \<longleftrightarrow>
     (qp_serials p = [] \<or> l_serial r \<in> set (qp_serials p)) \<and> l_source r \<in> set (qp_sources p) \<and>
     (case qp_boot p of None \<Rightarrow> True | Some b \<Rightarrow> l_boot_count r = Some b)"

definition newest_first :: "(string \<Rightarrow> 'k :: linorder) \<Rightarrow> dbRow list \<Rightarrow> dbRow list" where
  "newest_first coll rows = rev (sort_key (row_key coll) rows)"

definition select_page :: "(string \<Rightarrow> 'k :: linorder) \<Rightarrow> log_params \<Rightarrow> bookmark option \<Rightarrow> dbRow list \<Rightarrow> dbRow list" where
  "select_page coll p cur rows =
     newest_first coll (filter (\<lambda>r. row_matches p r \<and> (case cur of None \<Rightarrow> True | Some c \<Rightarrow> row_key coll r < cursor_key coll c)) rows)"

definition fetch_page :: "json_codec \<Rightarrow> (string \<Rightarrow> 'k :: linorder) \<Rightarrow> log_params \<Rightarrow> bookmark option \<Rightarrow> dbRow list \<Rightarrow> log_page" where
  "fetch_page js coll p cur rows =
     (let recs0 = take (nat (qp_limit p + 1)) (select_page coll p cur rows);
          hasMore = (int (length recs0) > qp_limit p);
          recs = (if hasMore then take (nat (qp_limit p)) recs0 else recs0)
      in \<lparr>pg_lines = concat (map (lines_of (qp_sep p)) recs),
          pg_next = (if hasMore \<and> recs \<noteq> [] then EncodeCursor js (cursor_of (List.last recs)) else []), pg_edge = (\<not> hasMore)\<rparr>)"

text \<open>\<open>Query\<close>: \<open>None\<close> is an error, of the bookmark or of the database.\<close>

definition Query :: "json_codec \<Rightarrow> (string \<Rightarrow> 'k :: linorder) \<Rightarrow> bool \<Rightarrow> dbRow list \<Rightarrow> log_params \<Rightarrow> log_page option" where
  "Query js coll flt rows p0 =
     (let p = with_defaults p0
      in if qp_before p \<noteq> []
         then (case DecodeCursor js (qp_before p) of
                 None \<Rightarrow> None
               | Some c \<Rightarrow> if flt then None else Some (fetch_page js coll p (Some c) rows))
         else if flt then None else Some (fetch_page js coll p None rows))"

definition DistinctSerials :: "(string \<Rightarrow> 'k :: linorder) \<Rightarrow> bool \<Rightarrow> time \<Rightarrow> time \<Rightarrow> dbRow list \<Rightarrow> string list option" where
  "DistinctSerials coll flt now window rows =
     (if flt then None else Some (sort_key coll (remdups (map l_serial (filter (\<lambda>r. now - window < l_time r) rows)))))"

section \<open>Reconstruction\<close>

record fragment =
  fr_start :: "int option"
  fr_end :: int
  fr_payload :: string
  fr_gap :: bool

definition fragment_of :: "int \<Rightarrow> fragment_row \<Rightarrow> fragment" where
  "fragment_of e f = \<lparr>fr_start = f_start_off f, fr_end = e, fr_payload = f_payload f, fr_gap = f_gap f\<rparr>"

definition sortKey :: "fragment \<Rightarrow> int" where
  "sortKey f = (case fr_start f of Some s \<Rightarrow> s | None \<Rightarrow> fr_end f)"

text \<open>The state of the loop: the text, the dividers and the end of what was emitted, if anything was.\<close>

type_synonym merge_state = "string \<times> int list \<times> int option"

fun merge_fragment :: "merge_state \<Rightarrow> fragment \<Rightarrow> merge_state" where
  "merge_fragment (txt, gaps, None) f = (txt @ fr_payload f, gaps, Some (fr_end f))"
| "merge_fragment (txt, gaps, Some prev) f =
     (case fr_start f of
        None \<Rightarrow> (txt @ fr_payload f, gaps @ [prev], Some (fr_end f))
      | Some s \<Rightarrow>
          if fr_gap f \<or> s > prev then (txt @ fr_payload f, gaps @ [prev], Some (fr_end f))
          else let skip = prev - s
               in (if skip < int (length (fr_payload f)) then txt @ drop (nat skip) (fr_payload f) else txt, gaps, Some (max prev (fr_end f))))"

definition merge_fragments :: "fragment list \<Rightarrow> string \<times> int list" where
  "merge_fragments frags =
     (let (txt, gaps, _) = foldl merge_fragment ([], [], None) (sort_key (\<lambda>f. (sortKey f, fr_end f)) frags) in (txt, gaps))"

text \<open>The rows of one device and epoch come in some order.\<close>

definition fragments_of :: "'a db_scheme \<Rightarrow> serial \<Rightarrow> int \<Rightarrow> fragment set" where
  "fragments_of db sn ep = {fragment_of e f | e f. log_fragment db (sn, ep, e) = Some f}"

definition Reconstruct :: "bool \<Rightarrow> (fragment set \<Rightarrow> fragment list) \<Rightarrow> 'a db_scheme \<Rightarrow> serial \<Rightarrow> int \<Rightarrow> (string \<times> int list) option" where
  "Reconstruct flt order db sn ep = (if flt then None else Some (merge_fragments (order (fragments_of db sn ep))))"

section \<open>The live tail\<close>

record high_water =
  hw_at :: bookmark
  hw_set :: bool

record tail_event =
  ev_row :: dbRow
  ev_lines :: "string list"

definition Tail :: "(string \<Rightarrow> 'k :: linorder) \<Rightarrow> bool \<Rightarrow> time \<Rightarrow> dbRow list \<Rightarrow> high_water \<Rightarrow> string \<Rightarrow> int \<Rightarrow> (tail_event list \<times> high_water) option" where
  "Tail coll flt now rows hw sep0 batch0 =
     (let sep = (if sep0 = [] then ''|'' else sep0); batch = (if batch0 \<le> 0 then 200 else batch0)
      in if flt then None
         else if \<not> hw_set hw
         then Some ([], \<lparr>hw_at = (case newest_first coll rows of [] \<Rightarrow> \<lparr>cu_time = now, cu_serial = [], cu_seq = 0, cu_ctid = (0, 0)\<rparr> | r # _ \<Rightarrow> cursor_of r),
                          hw_set = True\<rparr>)
         else let out = take (nat batch) (sort_key (row_key coll) (filter (\<lambda>r. cu_time (hw_at hw) \<le> l_time r \<and> cursor_key coll (hw_at hw) < row_key coll r) rows))
              in Some (map (\<lambda>r. \<lparr>ev_row = r, ev_lines = SplitPayload (l_payload r) sep\<rparr>) out,
                       if out = [] then hw else \<lparr>hw_at = cursor_of (List.last out), hw_set = True\<rparr>))"

section \<open>Handlers (logs\_http.go)\<close>

definition csvParam :: "string \<Rightarrow> string list" where
  "csvParam s = (if s = [] then [] else filter (\<lambda>p. p \<noteq> []) (map TrimSpace (Split CHR '','' s)))"

definition list_limit :: "int \<Rightarrow> string \<Rightarrow> int" where
  "list_limit pageMax s = (case ParseInt s of (n, None) \<Rightarrow> if s \<noteq> [] \<and> 0 < n \<and> n < pageMax then n else pageMax | _ \<Rightarrow> pageMax)"

definition handleLogs :: "json_codec \<Rightarrow> (string \<Rightarrow> 'k :: linorder) \<Rightarrow> bool \<Rightarrow> string \<Rightarrow> int \<Rightarrow> dbRow list \<Rightarrow> query \<Rightarrow> log_page api" where
  "handleLogs js coll flt sep pageMax rows q =
     (let p = \<lparr>qp_serials = csvParam (q_get q ''serials''), qp_sources = csvParam (q_get q ''sources''), qp_boot = None, qp_before = q_get q ''before'',
               qp_limit = list_limit pageMax (q_get q ''limit''), qp_sep = sep\<rparr>;
          run = (\<lambda>p. if qp_before p \<noteq> [] \<and> DecodeCursor js (qp_before p) = None then ApiErr 422 ''invalid_cursor''
                     else case Query js coll flt rows p of None \<Rightarrow> ApiErr 500 ''internal'' | Some page \<Rightarrow> ApiOk page)
      in if q_get q ''boot'' = [] then run p
         else case ParseInt (q_get q ''boot'') of (n, None) \<Rightarrow> run (p\<lparr>qp_boot := Some n\<rparr>) | _ \<Rightarrow> ApiErr 422 ''invalid_boot'')"

definition handleReconstruct :: "bool \<Rightarrow> (fragment set \<Rightarrow> fragment list) \<Rightarrow> 'a db_scheme \<Rightarrow> serial \<Rightarrow> query \<Rightarrow> (string \<times> int list) api" where
  "handleReconstruct flt order db sn q =
     (if sn = [] then ApiErr 422 ''invalid_serial''
      else case ParseInt (q_get q ''epoch'') of
        (ep, None) \<Rightarrow> (case Reconstruct flt order db sn ep of None \<Rightarrow> ApiErr 500 ''internal'' | Some r \<Rightarrow> ApiOk r)
      | _ \<Rightarrow> ApiErr 422 ''invalid_epoch'')"

text \<open>
  \<open>PruneFragments\<close>: the creation times of the fragments are not kept in the table of the model, so the set of old keys is an argument.
\<close>

definition PruneFragments :: "bool \<Rightarrow> (serial \<times> int \<times> int \<Rightarrow> bool) \<Rightarrow> 'a db_scheme \<Rightarrow> 'a db_scheme" where
  "PruneFragments flt old db = (if flt then db else db\<lparr>log_fragment := (\<lambda>k. if old k then None else log_fragment db k)\<rparr>)"

section \<open>Splitting loses nothing\<close>

lemma SplitText_nonempty: "SplitText sep s \<noteq> []"
  by (subst SplitText.simps) (simp split: list.splits)

lemma join_Cons: "ps \<noteq> [] \<Longrightarrow> join sep (p # ps) = p @ sep @ join sep ps"
  by (cases ps) simp_all

lemma join_Cons_char: "join sep ((c # p) # ps) = c # join sep (p # ps)"
  by (cases ps) simp_all

lemma join_SplitText: "join sep (SplitText sep s) = s"
proof (induction sep s rule: SplitText.induct)
  case (1 sep s)
  show ?case
  proof (cases "sep \<noteq> [] \<and> prefix sep s")
    case True
    then have "s = sep @ drop (length sep) s"
      by (auto simp: prefix_def)
    then show ?thesis
      using True 1(1) [OF True] by (subst SplitText.simps) (simp add: join_Cons SplitText_nonempty)
  next
    case False
    show ?thesis
    proof (cases s)
      case Nil
      then show ?thesis
        using False by (subst SplitText.simps) auto
    next
      case (Cons c cs)
      then obtain p ps where ps: "SplitText sep cs = p # ps"
        by (meson SplitText_nonempty neq_Nil_conv)
      then have "join sep (SplitText sep s) = join sep ((c # p) # ps)"
        using False Cons by (subst SplitText.simps) auto
      then show ?thesis
        using 1(2) [OF False Cons] ps Cons by (simp add: join_Cons_char)
    qed
  qed
qed

lemma join_butlast: "ps \<noteq> [] \<Longrightarrow> List.last ps = [] \<Longrightarrow> join sep ps = join sep (butlast ps) @ (if butlast ps = [] then [] else sep)"
proof (induction ps)
  case (Cons p ps)
  then show ?case
    by (cases ps) (auto simp: join_Cons split: if_splits)
qed simp

text \<open>The lines of a row, joined, are its payload up to one separator at the end.\<close>

lemma SplitPayload_join: "payload = join sep (SplitPayload payload sep) \<or> payload = join sep (SplitPayload payload sep) @ sep"
proof (cases "payload = [] \<or> List.last (SplitText sep payload) \<noteq> []")
  case True
  then show ?thesis
    by (auto simp: SplitPayload_def join_SplitText)
next
  case False
  then have "join sep (SplitText sep payload) = join sep (butlast (SplitText sep payload)) @ (if butlast (SplitText sep payload) = [] then [] else sep)"
    by (intro join_butlast SplitText_nonempty) simp
  then show ?thesis
    using False by (auto simp: SplitPayload_def join_SplitText SplitText_nonempty Let_def split: if_splits)
qed

section \<open>Sorted by a key that tells rows apart\<close>

lemma inj_on_distinct_map: "distinct (map f xs) \<Longrightarrow> inj_on f (set xs)"
  by (simp add: distinct_map)

lemma sorted_unique:
  assumes "sorted (map f xs)" "sorted (map f ys)" "distinct (map f xs)" "distinct (map f ys)" "set xs = set ys"
  shows "xs = ys"
  by (rule map_sorted_distinct_set_unique [of f]) (use assms inj_on_distinct_map [of f xs] in simp_all)

lemma distinct_map_sort: "distinct (map f xs) \<Longrightarrow> distinct (map f (sort_key f xs))"
  by (simp add: distinct_map)

lemma sort_key_unique:
  assumes "distinct (map f xs)" "distinct (map f ys)" "set xs = set ys"
  shows "sort_key f xs = sort_key f ys"
  using assms by (intro sorted_unique [of f]) (simp_all add: distinct_map_sort)

lemma newest_first_filter: "newest_first coll (filter P rows) = filter P (newest_first coll rows)"
  unfolding newest_first_def filter_sort [symmetric] by (rule rev_filter)

lemma newest_first_sorted:
  assumes "distinct (map (row_key coll) rows)"
  shows "sorted_wrt (\<lambda>a b. row_key coll b < row_key coll a) (newest_first coll rows)"
proof -
  have "sorted (map (row_key coll) (sort_key (row_key coll) rows))" "distinct (map (row_key coll) (sort_key (row_key coll) rows))"
    using distinct_map_sort [OF assms] by simp_all
  then have "sorted_wrt (<) (map (row_key coll) (sort_key (row_key coll) rows))"
    by (simp add: strict_sorted_iff)
  then show ?thesis
    by (simp add: newest_first_def sorted_wrt_rev sorted_wrt_map)
qed

lemma set_newest_first [simp]: "set (newest_first coll rows) = set rows"
  by (simp add: newest_first_def)

lemma cursor_key_of [simp]: "cursor_key coll (cursor_of r) = row_key coll r"
  by (simp add: cursor_key_def cursor_of_def row_key_def)

section \<open>Paging covers every row once\<close>

lemma filter_below_take:
  assumes "sorted_wrt (\<lambda>a b. k b < (k a :: 'k :: linorder)) xs" "0 < n" "n < length xs"
  shows "filter (\<lambda>x. k x < k (List.last (take n xs))) xs = drop n xs"
proof -
  let ?l = "List.last (take n xs)"
  have ne: "take n xs \<noteq> []"
    using assms by auto
  have sw: "sorted_wrt (\<lambda>a b. k b < k a) (butlast (take n xs) @ [?l] @ drop n xs)"
    using assms(1) ne append_butlast_last_id [OF ne] by (metis append_assoc append_take_drop_id)
  have hi: "\<not> k x < k ?l" if "x \<in> set (take n xs)" for x
  proof -
    have "x \<in> set (butlast (take n xs) @ [?l])"
      using that append_butlast_last_id [OF ne] by simp
    then show ?thesis
      using sw by (auto simp: sorted_wrt_append dest: less_asym)
  qed
  have lo: "k x < k ?l" if "x \<in> set (drop n xs)" for x
    using sw that by (simp add: sorted_wrt_append)
  have "filter (\<lambda>x. k x < k ?l) (take n xs @ drop n xs) = drop n xs"
    using hi lo by (simp only: filter_append) (simp add: filter_False filter_True)
  then show ?thesis
    by simp
qed

lemma Query_page:
  assumes "0 < qp_limit p" "qp_before p = [] \<and> cur = None \<or> DecodeCursor js (qp_before p) = cur \<and> cur \<noteq> None \<and> qp_before p \<noteq> []"
    and rest_def: "rest = select_page coll (with_defaults p) cur rows"
  shows "Query js coll False rows p =
    (if int (length rest) \<le> qp_limit p
     then Some \<lparr>pg_lines = concat (map (lines_of (qp_sep (with_defaults p))) rest), pg_next = [], pg_edge = True\<rparr>
     else Some \<lparr>pg_lines = concat (map (lines_of (qp_sep (with_defaults p))) (take (nat (qp_limit p)) rest)),
                pg_next = EncodeCursor js (cursor_of (List.last (take (nat (qp_limit p)) rest))), pg_edge = False\<rparr>)"
proof -
  have lim: "qp_limit (with_defaults p) = qp_limit p" "qp_before (with_defaults p) = qp_before p"
    using assms(1) by (simp_all add: with_defaults_def)
  have shape: "Query js coll False rows p = Some (fetch_page js coll (with_defaults p) cur rows)"
    using assms(2) by (auto simp: Query_def lim)
  show ?thesis
  proof (cases "int (length rest) \<le> qp_limit p")
    case True
    then show ?thesis
      unfolding shape by (simp add: fetch_page_def Let_def lim flip: rest_def)
  next
    case False
    then have "int (length (take (nat (qp_limit p + 1)) rest)) > qp_limit p" "take (nat (qp_limit p)) rest \<noteq> []"
      "take (nat (qp_limit p)) (take (nat (qp_limit p + 1)) rest) = take (nat (qp_limit p)) rest"
      using assms(1) by (auto simp: min_def)
    then show ?thesis
      using False unfolding shape fetch_page_def Let_def lim rest_def [symmetric] by simp
  qed
qed

text \<open>A client that follows the bookmarks: the pages of the tables it meets, one per request, until the edge.\<close>

fun page_walk :: "json_codec \<Rightarrow> (string \<Rightarrow> 'k :: linorder) \<Rightarrow> (nat \<Rightarrow> dbRow list) \<Rightarrow> log_params \<Rightarrow> nat \<Rightarrow> nat \<Rightarrow> log_line_view list option" where
  "page_walk js coll tbl p i 0 = None"
| "page_walk js coll tbl p i (Suc n) =
     (case Query js coll False (tbl i) p of
        None \<Rightarrow> None
      | Some pg \<Rightarrow>
          if pg_edge pg then Some (pg_lines pg)
          else map_option (\<lambda>ls. pg_lines pg @ ls) (page_walk js coll tbl (p\<lparr>qp_before := pg_next pg\<rparr>) (Suc i) n))"

definition stable_below :: "(string \<Rightarrow> 'k :: linorder) \<Rightarrow> (nat \<Rightarrow> dbRow list) \<Rightarrow> bool" where
  "stable_below coll tbl \<longleftrightarrow>
     (\<forall>i. distinct (map (row_key coll) (tbl i)) \<and>
        (\<forall>q \<in> set (tbl 0). \<forall>r. row_key coll r < row_key coll q \<longrightarrow> (r \<in> set (tbl i) \<longleftrightarrow> r \<in> set (tbl 0))))"

lemma select_page_below:
  assumes "stable_below coll tbl" "q \<in> set (tbl 0)"
  shows "select_page coll p (Some (cursor_of q)) (tbl i) = filter (\<lambda>r. row_key coll r < row_key coll q) (newest_first coll (filter (row_matches p) (tbl 0)))"
proof -
  let ?P = "\<lambda>r. row_matches p r \<and> row_key coll r < row_key coll q"
  have d: "distinct (map (row_key coll) (filter ?P (tbl j)))" for j
    using assms(1) by (auto simp: stable_below_def distinct_map_filter)
  have "newest_first coll (filter ?P (tbl i)) = newest_first coll (filter ?P (tbl 0))"
    unfolding newest_first_def using assms by (intro arg_cong [where f = rev] sort_key_unique d) (auto simp: stable_below_def)
  then show ?thesis
    by (simp add: select_page_def newest_first_filter conj_commute)
qed

lemma codec_bookmark:
  assumes "\<forall>c. snd js (fst js c) = Some c" "snd js [] = None"
  shows "DecodeCursor js (EncodeCursor js c) = Some c" "EncodeCursor js c \<noteq> []"
proof -
  show dec: "DecodeCursor js (EncodeCursor js c) = Some c"
    using assms(1) by (simp add: DecodeCursor_def EncodeCursor_def b64.dec_enc)
  show "EncodeCursor js c \<noteq> []"
  proof
    assume "EncodeCursor js c = []"
    then have "DecodeCursor js (b64_encode []) = Some c"
      using dec by simp
    then show False
      using assms(2) b64.dec_enc [of "[]"] by (simp add: DecodeCursor_def)
  qed
qed

lemma with_defaults_before: "row_matches (with_defaults (p\<lparr>qp_before := b\<rparr>)) = row_matches (with_defaults p)"
  "qp_sep (with_defaults (p\<lparr>qp_before := b\<rparr>)) = qp_sep (with_defaults p)"
  by (auto simp: with_defaults_def row_matches_def)

lemma page_walk_from:
  assumes js: "\<forall>c. snd js (fst js c) = Some c" "snd js [] = None" and stable: "stable_below coll tbl" and lim: "0 < qp_limit p"
    and all: "all = newest_first coll (filter (row_matches (with_defaults p)) (tbl 0))"
    and cur: "q \<in> set (tbl 0)" "qp_before p = EncodeCursor js (cursor_of q)" "rest = filter (\<lambda>r. row_key coll r < row_key coll q) all"
    and n: "length rest < n"
  shows "page_walk js coll tbl p i n = Some (concat (map (lines_of (qp_sep (with_defaults p))) rest))"
  using lim all cur n
proof (induction n arbitrary: p i q rest)
  case (Suc n)
  have rest: "rest = select_page coll (with_defaults p) (Some (cursor_of q)) (tbl i)"
    using select_page_below [OF stable Suc.prems(3)] Suc.prems(2,5) by simp
  have page: "Query js coll False (tbl i) p =
    (if int (length rest) \<le> qp_limit p
     then Some \<lparr>pg_lines = concat (map (lines_of (qp_sep (with_defaults p))) rest), pg_next = [], pg_edge = True\<rparr>
     else Some \<lparr>pg_lines = concat (map (lines_of (qp_sep (with_defaults p))) (take (nat (qp_limit p)) rest)),
                pg_next = EncodeCursor js (cursor_of (List.last (take (nat (qp_limit p)) rest))), pg_edge = False\<rparr>)"
    by (rule Query_page [OF Suc.prems(1) _ rest]) (simp add: Suc.prems(4) codec_bookmark [OF js])
  show ?case
  proof (cases "int (length rest) \<le> qp_limit p")
    case True
    then show ?thesis
      using page by simp
  next
    case False
    let ?k = "nat (qp_limit p)" and ?last = "List.last (take (nat (qp_limit p)) rest)"
    let ?p = "p\<lparr>qp_before := EncodeCursor js (cursor_of ?last)\<rparr>"
    have k: "0 < ?k" "?k < length rest"
      using False Suc.prems(1) by auto
    have d: "distinct (map (row_key coll) (filter (row_matches (with_defaults p)) (tbl 0)))"
      using stable by (auto simp: stable_below_def distinct_map_filter)
    have sorted: "sorted_wrt (\<lambda>a b. row_key coll b < row_key coll a) rest"
      using newest_first_sorted [OF d] Suc.prems(2,5) by (simp add: sorted_wrt_filter)
    have ne: "take ?k rest \<noteq> []"
      using k by auto
    have last_in: "?last \<in> set rest"
      using in_set_takeD last_in_set [OF ne] by metis
    have "row_key coll ?last < row_key coll q" "?last \<in> set (tbl 0)"
      using last_in Suc.prems(2,5) by auto
    have "filter (\<lambda>r. row_key coll r < row_key coll ?last) all = filter (\<lambda>r. row_key coll r < row_key coll ?last) rest"
      using \<open>row_key coll ?last < row_key coll q\<close> unfolding Suc.prems(5) by (auto intro!: filter_cong)
    also have "\<dots> = drop ?k rest"
      by (rule filter_below_take [OF sorted k])
    finally have next_rest: "drop ?k rest = filter (\<lambda>r. row_key coll r < row_key coll ?last) all"
      by simp
    have "page_walk js coll tbl ?p (Suc i) n = Some (concat (map (lines_of (qp_sep (with_defaults ?p))) (drop ?k rest)))"
      by (rule Suc.IH [OF _ _ \<open>?last \<in> set (tbl 0)\<close> _ next_rest]) (use Suc.prems k in \<open>simp_all add: with_defaults_before\<close>)
    then show ?thesis
      using page False by (simp add: with_defaults_before flip: concat_append map_append)
  qed
qed simp

text \<open>
  C38 (scrollback).  A client that starts without a bookmark and follows the bookmarks of the pages gets every row that matched its
  filter when it began, newest first, each exactly once and split into its lines, and reaches the edge after at most one page more
  than there were rows, whatever newer rows are stored meanwhile; the lines of a row, joined, are its payload up to one separator at its end.
\<close>

theorem scrollback_complete:
  assumes "\<forall>c. snd js (fst js c) = Some c" "snd js [] = None" and "stable_below coll tbl" and "0 < qp_limit p" "qp_before p = []"
  shows "page_walk js coll tbl p 0 (Suc (length (tbl 0))) =
      Some (concat (map (lines_of (qp_sep (with_defaults p))) (newest_first coll (filter (row_matches (with_defaults p)) (tbl 0))))) \<and>
    (\<forall>sep r. map ln_text (lines_of sep r) = SplitPayload (l_payload r) sep \<and>
       (l_payload r = join sep (map ln_text (lines_of sep r)) \<or> l_payload r = join sep (map ln_text (lines_of sep r)) @ sep))"
proof -
  define all where "all = newest_first coll (filter (row_matches (with_defaults p)) (tbl 0))"
  let ?k = "nat (qp_limit p)" and ?last = "List.last (take (nat (qp_limit p)) all)"
  have sel: "all = select_page coll (with_defaults p) None (tbl 0)"
    by (simp add: all_def select_page_def)
  have len: "length all \<le> length (tbl 0)"
    by (simp add: all_def newest_first_def)
  have page: "Query js coll False (tbl 0) p =
    (if int (length all) \<le> qp_limit p
     then Some \<lparr>pg_lines = concat (map (lines_of (qp_sep (with_defaults p))) all), pg_next = [], pg_edge = True\<rparr>
     else Some \<lparr>pg_lines = concat (map (lines_of (qp_sep (with_defaults p))) (take ?k all)),
                pg_next = EncodeCursor js (cursor_of ?last), pg_edge = False\<rparr>)"
    by (rule Query_page [OF assms(4) _ sel]) (simp add: assms(5))
  have walk: "page_walk js coll tbl p 0 (Suc (length (tbl 0))) = Some (concat (map (lines_of (qp_sep (with_defaults p))) all))"
  proof (cases "int (length all) \<le> qp_limit p")
    case True
    then show ?thesis
      using page by simp
  next
    case False
    let ?p = "p\<lparr>qp_before := EncodeCursor js (cursor_of ?last)\<rparr>"
    have k: "0 < ?k" "?k < length all"
      using False assms(4) by auto
    then have ne: "take ?k all \<noteq> []"
      by auto
    have d: "distinct (map (row_key coll) (filter (row_matches (with_defaults p)) (tbl 0)))"
      using assms(3) by (auto simp: stable_below_def distinct_map_filter)
    have "?last \<in> set all"
      using in_set_takeD last_in_set [OF ne] by metis
    then have q: "?last \<in> set (tbl 0)"
      by (auto simp: all_def)
    have rest: "drop ?k all = filter (\<lambda>r. row_key coll r < row_key coll ?last) all"
      using filter_below_take [OF newest_first_sorted [OF d, folded all_def] k] by simp
    have "page_walk js coll tbl ?p 1 (length (tbl 0)) = Some (concat (map (lines_of (qp_sep (with_defaults ?p))) (drop ?k all)))"
      by (rule page_walk_from [OF assms(1-3) _ _ q _ rest]) (use assms(4) k len in \<open>simp_all add: with_defaults_before all_def\<close>)
    then show ?thesis
      using page False by (simp add: with_defaults_before flip: concat_append map_append)
  qed
  have "map ln_text (lines_of sep r) = SplitPayload (l_payload r) sep" for sep r
    by (simp add: lines_of_def comp_def case_prod_beta)
  then show ?thesis
    using walk SplitPayload_join unfolding all_def by metis
qed

section \<open>Reconstruction of a stream\<close>

text \<open>
  \<open>chained fs b\<close>: fragments in the order of their arrival, the first anything, perhaps with the mark of a new epoch, each of the others
  starting where the one before it ended, the last one ending at \<open>b\<close>.
\<close>

inductive chained :: "fragment list \<Rightarrow> int \<Rightarrow> bool" where
  none: "chained [] b"
| first: "fr_end f = b \<Longrightarrow> fr_start f = None \<Longrightarrow> chained [f] b"
| append: "chained fs b \<Longrightarrow> b < fr_end f \<Longrightarrow> fr_start f = Some b \<Longrightarrow> \<not> fr_gap f \<Longrightarrow> chained (fs @ [f]) (fr_end f)"

definition merge_key :: "fragment \<Rightarrow> int \<times> int" where
  "merge_key f = (sortKey f, fr_end f)"

lemma chained_bound: "chained fs b \<Longrightarrow> f \<in> set fs \<Longrightarrow> fr_end f \<le> b \<and> sortKey f \<le> fr_end f"
  by (induction arbitrary: f rule: chained.induct) (force simp: sortKey_def)+

lemma chained_sorted: "chained fs b \<Longrightarrow> sorted_wrt (\<lambda>f g. merge_key f < merge_key g) fs"
proof (induction rule: chained.induct)
  case (append fs b f)
  have "merge_key g < merge_key f" if "g \<in> set fs" for g
    using chained_bound [OF append.hyps(1) that] append.hyps(2,3) by (auto simp: merge_key_def sortKey_def less_prod_def')
  then show ?case
    using append.IH by (simp add: sorted_wrt_append)
qed simp_all

lemma chained_merge:
  "chained fs b \<Longrightarrow>
     foldl merge_fragment ([], [], None) fs = (concat (map fr_payload fs), [], if fs = [] then None else Some b)"
proof (induction rule: chained.induct)
  case (append fs b f)
  show ?case
  proof (cases "fs = []")
    case False
    then show ?thesis
      using append by (auto simp: Let_def)
  qed simp
qed simp_all

lemma merge_chained:
  assumes "chained fs b" "set rows = set fs" "distinct rows"
  shows "merge_fragments rows = (concat (map fr_payload fs), [])"
proof -
  have strict: "sorted_wrt (<) (map merge_key fs)"
    using chained_sorted [OF assms(1)] by (simp add: sorted_wrt_map)
  then have fs: "sorted (map merge_key fs)" "distinct (map merge_key fs)"
    by (simp_all add: strict_sorted_iff)
  then have "inj_on merge_key (set rows)"
    using assms(2) by (simp add: distinct_map)
  then have "distinct (map merge_key rows)"
    using assms(3) by (simp add: distinct_map)
  then have "sort_key merge_key rows = fs"
    using fs assms(2) by (intro sorted_unique [of merge_key]) (simp_all add: distinct_map_sort)
  then show ?thesis
    using chained_merge [OF assms(1)] by (simp add: merge_fragments_def merge_key_def [abs_def])
qed

section \<open>What ingest stores of an epoch\<close>

text \<open>A fragment that came out of order: it lies below what was acknowledged already, so its start is not known.\<close>

definition odd_fragment :: "fragment_row \<Rightarrow> bool" where
  "odd_fragment f \<longleftrightarrow> f_start_off f = None \<and> \<not> f_gap f"

definition in_order :: "'a db_scheme \<Rightarrow> serial \<Rightarrow> int \<Rightarrow> bool" where
  "in_order db sn ep \<longleftrightarrow> (\<forall>e f. log_fragment db (sn, ep, e) = Some f \<longrightarrow> \<not> odd_fragment f)"

definition epoch_text :: "'a db_scheme \<Rightarrow> serial \<Rightarrow> int \<Rightarrow> string list" where
  "epoch_text db sn ep = map l_payload (filter (\<lambda>l. l_serial l = sn \<and> l_boot_count l = Some ep) (logs db))"

definition chain_inv :: "serial \<Rightarrow> 'a db_scheme \<Rightarrow> bool" where
  "chain_inv sn db \<longleftrightarrow>
     log_inv sn db \<and>
     (\<forall>ep > lc_epoch (the_cursor db sn). epoch_text db sn ep = []) \<and>
     (let cur = the_cursor db sn in
      in_order db sn (lc_epoch cur) \<longrightarrow>
      (\<exists>fs. chained fs (lc_ack_off cur) \<and> set fs = fragments_of db sn (lc_epoch cur) \<and> map fr_payload fs = epoch_text db sn (lc_epoch cur)))"

lemma chain_inv_cong: "log_part db = log_part db' \<Longrightarrow> chain_inv sn db = chain_inv sn db'"
  using log_part_cong(1) [of db db' sn] log_part_cong(2,3) [of db db'] log_inv_cong [of db db' sn]
  by (simp add: chain_inv_def in_order_def epoch_text_def fragments_of_def)

lemma chain_inv_touched: "chain_inv sn (touched sn' db) = chain_inv sn db"
  by (simp add: chain_inv_def in_order_def epoch_text_def fragments_of_def log_inv_touched)

lemma epoch_text_pushed:
  "epoch_text (pushed now sn' lf p db) sn ep = epoch_text db sn ep @ (if sn' = sn \<and> ep = lf_epoch lf \<and> is_new db sn lf then [p] else [])"
  by (auto simp: epoch_text_def pushed_def log_line_def)

lemma fragments_of_pushed:
  "fragments_of (pushed now sn' lf p db) sn ep =
     fragments_of db sn ep \<union>
     (if sn' = sn \<and> ep = lf_epoch lf \<and> is_new db sn lf
      then {fragment_of (lf_end lf) \<lparr>f_start_off = startOff lf (the_cursor db sn), f_payload = p, f_gap = gapFlag lf (the_cursor db sn)\<rparr>} else {})"
  by (auto simp: fragments_of_def pushed_def is_new_def split: if_splits) (metis option.distinct(1))

lemma in_order_pushed:
  "in_order (pushed now sn' lf p db) sn ep \<longleftrightarrow>
     in_order db sn ep \<and> (sn' = sn \<and> ep = lf_epoch lf \<and> is_new db sn lf \<longrightarrow> startOff lf (the_cursor db sn) \<noteq> None \<or> gapFlag lf (the_cursor db sn))"
  by (auto simp: in_order_def pushed_def is_new_def odd_fragment_def split: if_splits)

lemma chain_inv_pushed:
  assumes "chain_inv sn db" "0 \<le> lf_end lf"
  shows "chain_inv sn (pushed now sn' lf p db)"
proof -
  let ?cur = "the_cursor db sn" and ?db' = "pushed now sn' lf p db"
  let ?f = "fragment_of (lf_end lf) \<lparr>f_start_off = startOff lf ?cur, f_payload = p, f_gap = gapFlag lf ?cur\<rparr>"
  have inv: "log_inv sn db" "log_inv sn ?db'"
    using assms by (simp_all add: chain_inv_def log_inv_pushed)
  have none: "epoch_text db sn ep = []" if "ep > lc_epoch ?cur" for ep
    using assms(1) that by (simp add: chain_inv_def)
  have no_frags: "fragments_of db sn ep = {}" if "ep > lc_epoch ?cur" for ep
    using inv(1) that by (force simp: fragments_of_def log_inv_def below_cursor_def)
  have later: "\<forall>ep > lc_epoch (the_cursor ?db' sn). epoch_text ?db' sn ep = []"
    using none by (auto simp: the_cursor_pushed epoch_text_pushed advance_def)
  have chain: "\<exists>fs. chained fs (lc_ack_off ?cur) \<and> set fs = fragments_of db sn (lc_epoch ?cur) \<and> map fr_payload fs = epoch_text db sn (lc_epoch ?cur)"
    if "in_order db sn (lc_epoch ?cur)"
    using assms(1) that by (simp add: chain_inv_def Let_def)
  consider (other) "sn' \<noteq> sn" | (epoch) "sn' = sn" "lf_epoch lf > lc_epoch ?cur"
    | (next_part) "sn' = sn" "lf_epoch lf = lc_epoch ?cur" "lf_end lf > lc_ack_off ?cur"
    | (old) "sn' = sn" "lf_epoch lf \<le> lc_epoch ?cur" "startOff lf ?cur = None" "\<And>b. lc_epoch (advance lf b ?cur) = lc_epoch ?cur"
        "\<And>b. lc_ack_off (advance lf b ?cur) = lc_ack_off ?cur"
    by (cases "sn' = sn"; cases "lc_epoch ?cur < lf_epoch lf"; cases "lf_epoch lf = lc_epoch ?cur \<and> lc_ack_off ?cur < lf_end lf")
      (simp_all add: startOff_def advance_def)
  then have "\<exists>fs. chained fs (lc_ack_off (the_cursor ?db' sn)) \<and> set fs = fragments_of ?db' sn (lc_epoch (the_cursor ?db' sn)) \<and>
      map fr_payload fs = epoch_text ?db' sn (lc_epoch (the_cursor ?db' sn))"
    if order: "in_order ?db' sn (lc_epoch (the_cursor ?db' sn))"
  proof cases
    case other
    then show ?thesis
      using order chain by (simp add: the_cursor_pushed in_order_pushed epoch_text_pushed fragments_of_pushed)
  next
    case epoch
    have "chained [?f] (lf_end lf)"
      using epoch by (intro chained.first) (simp_all add: fragment_of_def startOff_def)
    then show ?thesis
      using epoch none no_frags order
      by (intro exI [of _ "if is_new db sn lf then [?f] else []"])
        (auto simp: the_cursor_pushed epoch_text_pushed fragments_of_pushed advance_def fragment_of_def intro: chained.none)
  next
    case next_part
    have new: "is_new db sn lf"
      using inv(1) next_part by (force simp: is_new_def log_inv_def below_cursor_def)
    have order': "in_order db sn (lc_epoch ?cur)"
      using order next_part by (simp add: in_order_pushed the_cursor_pushed advance_def)
    then obtain fs where fs: "chained fs (lc_ack_off ?cur)" "set fs = fragments_of db sn (lc_epoch ?cur)" "map fr_payload fs = epoch_text db sn (lc_epoch ?cur)"
      using chain by blast
    have "chained (fs @ [?f]) (fr_end ?f)"
      using next_part by (intro chained.append [OF fs(1)]) (simp_all add: fragment_of_def startOff_def gapFlag_def)
    then show ?thesis
      using next_part new fs(2,3)
      by (intro exI [of _ "fs @ [?f]"]) (simp_all add: the_cursor_pushed epoch_text_pushed fragments_of_pushed advance_def fragment_of_def)
  next
    case old
    have order': "in_order db sn (lc_epoch ?cur)" and "\<not> (lc_epoch ?cur = lf_epoch lf \<and> is_new db sn lf)"
      using order old by (auto simp: in_order_pushed the_cursor_pushed gapFlag_def)
    then show ?thesis
      using chain old(1,4,5) by (auto simp: the_cursor_pushed epoch_text_pushed fragments_of_pushed)
  qed
  then show ?thesis
    using inv(2) later by (simp add: chain_inv_def Let_def)
qed

lemma log_apply_chain_inv: "chain_inv sn db \<Longrightarrow> chain_inv sn (log_apply a db)"
  by (rule log_apply_cases [of a db]) (metis chain_inv_cong chain_inv_touched chain_inv_pushed)+

interpretation chain: invariant_run log_apply "\<lambda>_. True" "chain_inv sn" for sn
  by unfold_locales (rule log_apply_chain_inv)


text \<open>
  A fragment that came out of order is put in whole and takes the end of the merge back, so bytes appear twice and dividers where
  nothing is missing.
\<close>

lemma reconstruct_repeats:
  "merge_fragments
     [\<lparr>fr_start = Some 0, fr_end = 5, fr_payload = ''hello'', fr_gap = False\<rparr>, \<lparr>fr_start = None, fr_end = 3, fr_payload = ''hel'', fr_gap = False\<rparr>,
      \<lparr>fr_start = Some 5, fr_end = 8, fr_payload = ''ooo'', fr_gap = False\<rparr>] = (''hellohelooo'', [5, 3])"
  by (simp add: merge_fragments_def sortKey_def less_eq_prod_def Let_def)

section \<open>The live tail sends every row once\<close>

text \<open>The polls of the producer (\<open>tickLogs\<close>): a failing one leaves the bookmark where it is.\<close>

fun tail_run :: "(string \<Rightarrow> 'k :: linorder) \<Rightarrow> (nat \<Rightarrow> bool) \<Rightarrow> (nat \<Rightarrow> dbRow list) \<Rightarrow> string \<Rightarrow> int \<Rightarrow> high_water \<Rightarrow> nat \<Rightarrow> tail_event list \<times> high_water" where
  "tail_run coll flt tbl sep batch hw 0 = ([], hw)"
| "tail_run coll flt tbl sep batch hw (Suc n) =
     (let (evs, h) = tail_run coll flt tbl sep batch hw n
      in case Tail coll (flt n) 0 (tbl n) h sep batch of None \<Rightarrow> (evs, h) | Some (new, h') \<Rightarrow> (evs @ new, h'))"

abbreviation hw_key :: "(string \<Rightarrow> 'k) \<Rightarrow> high_water \<Rightarrow> 'k key" where
  "hw_key coll h \<equiv> cursor_key coll (hw_at h)"

definition rows_above :: "(string \<Rightarrow> 'k :: linorder) \<Rightarrow> 'k key \<Rightarrow> dbRow list \<Rightarrow> dbRow list" where
  "rows_above coll k rows = sort_key (row_key coll) (filter (\<lambda>r. k < row_key coll r) rows)"

definition tail_batch :: "int \<Rightarrow> nat" where
  "tail_batch batch = nat (if batch \<le> 0 then 200 else batch)"

lemma Tail_set:
  assumes "hw_set h" "Tail coll flt now rows h sep batch = Some (evs, h')"
  shows "map ev_row evs = take (tail_batch batch) (rows_above coll (hw_key coll h) rows)" "hw_set h'"
    "hw_key coll h' = (if evs = [] then hw_key coll h else row_key coll (ev_row (List.last evs)))" "\<not> flt"
    "\<forall>e \<in> set evs. ev_lines e = SplitPayload (l_payload (ev_row e)) (if sep = [] then ''|'' else sep)"
proof -
  have above: "filter (\<lambda>r. cu_time (hw_at h) \<le> l_time r \<and> hw_key coll h < row_key coll r) rows = filter (\<lambda>r. hw_key coll h < row_key coll r) rows"
    by (auto simp: cursor_key_def row_key_def less_prod_def' intro!: filter_cong)
  define out where "out = take (tail_batch batch) (rows_above coll (hw_key coll h) rows)"
  have run: "\<not> flt" "evs = map (\<lambda>r. \<lparr>ev_row = r, ev_lines = SplitPayload (l_payload r) (if sep = [] then ''|'' else sep)\<rparr>) out"
    "h' = (if out = [] then h else \<lparr>hw_at = cursor_of (List.last out), hw_set = True\<rparr>)"
    using assms unfolding out_def rows_above_def above [symmetric] tail_batch_def by (auto simp: Tail_def Let_def split: if_splits)
  show "\<not> flt" "map ev_row evs = take (tail_batch batch) (rows_above coll (hw_key coll h) rows)" "hw_set h'"
    "hw_key coll h' = (if evs = [] then hw_key coll h else row_key coll (ev_row (List.last evs)))"
    "\<forall>e \<in> set evs. ev_lines e = SplitPayload (l_payload (ev_row e)) (if sep = [] then ''|'' else sep)"
    using assms(1) run by (auto simp: out_def comp_def last_map)
qed

lemma rows_above_strict:
  "distinct (map (row_key coll) rows) \<Longrightarrow> sorted_wrt (\<lambda>a b. row_key coll a < row_key coll b) (rows_above coll k rows)"
proof -
  assume "distinct (map (row_key coll) rows)"
  then have "distinct (map (row_key coll) (rows_above coll k rows))" "sorted (map (row_key coll) (rows_above coll k rows))"
    by (simp_all add: rows_above_def distinct_map_sort distinct_map_filter)
  then have "sorted_wrt (<) (map (row_key coll) (rows_above coll k rows))"
    by (simp add: strict_sorted_iff)
  then show ?thesis
    by (simp add: sorted_wrt_map)
qed

lemma filter_upto_take:
  assumes "sorted_wrt (\<lambda>a b. k a < (k b :: 'k :: linorder)) xs" "take n xs \<noteq> []"
  shows "filter (\<lambda>x. k x \<le> k (List.last (take n xs))) xs = take n xs"
proof -
  let ?l = "List.last (take n xs)"
  have sw: "sorted_wrt (\<lambda>a b. k a < k b) (butlast (take n xs) @ [?l] @ drop n xs)"
    using assms append_butlast_last_id [OF assms(2)] by (metis append_assoc append_take_drop_id)
  have lo: "k x \<le> k ?l" if "x \<in> set (take n xs)" for x
  proof -
    have "x \<in> set (butlast (take n xs) @ [?l])"
      using that append_butlast_last_id [OF assms(2)] by simp
    then show ?thesis
      using sw by (auto simp: sorted_wrt_append)
  qed
  have hi: "\<not> k x \<le> k ?l" if "x \<in> set (drop n xs)" for x
    using sw that by (auto simp: sorted_wrt_append not_le)
  have "filter (\<lambda>x. k x \<le> k ?l) (take n xs @ drop n xs) = take n xs"
    using hi lo by (simp only: filter_append) (simp add: filter_False filter_True)
  then show ?thesis
    by simp
qed

definition sent_rows :: "(string \<Rightarrow> 'k :: linorder) \<Rightarrow> 'k key \<Rightarrow> 'k key \<Rightarrow> dbRow list \<Rightarrow> dbRow list" where
  "sent_rows coll k k' rows = filter (\<lambda>r. row_key coll r \<le> k') (rows_above coll k rows)"

lemma glue_unique:
  assumes "sorted (map f xs)" "distinct (map f xs)" "sorted (map f ys)" "distinct (map f ys)" "sorted (map f zs)" "distinct (map f zs)"
    and "\<And>x y. x \<in> set xs \<Longrightarrow> y \<in> set ys \<Longrightarrow> f x < (f y :: 'k :: linorder)" "set zs = set xs \<union> set ys"
  shows "zs = xs @ ys"
proof (rule sorted_unique [of f])
  show "sorted (map f (xs @ ys))"
    using assms(1,3,7) by (auto simp: sorted_append intro: less_imp_le)
  show "distinct (map f (xs @ ys))"
    using assms(2,4,7) by (force simp: distinct_append)
qed (use assms in simp_all)

lemma rows_above_sorted:
  assumes "distinct (map (row_key coll) rows)"
  shows "sorted (map (row_key coll) (rows_above coll k rows))" "distinct (map (row_key coll) (rows_above coll k rows))"
    "sorted (map (row_key coll) (sent_rows coll k k' rows))" "distinct (map (row_key coll) (sent_rows coll k k' rows))"
  using assms by (simp_all add: sent_rows_def rows_above_def filter_sort distinct_map_sort distinct_map_filter)

lemma sent_rows_self [simp]: "sent_rows coll k k rows = []"
  by (auto simp: sent_rows_def rows_above_def filter_empty_conv)

lemma sent_rows_step:
  assumes d: "distinct (map (row_key coll) rows)" and le: "k0 \<le> k"
    and evs: "out = take n (rows_above coll k rows)" "k' = (if out = [] then k else row_key coll (List.last out))"
  shows "sent_rows coll k0 k' rows = sent_rows coll k0 k rows @ out" "k \<le> k'"
proof -
  note strict = rows_above_strict [OF d, of k]
  have out: "filter (\<lambda>r. row_key coll r \<le> k') (rows_above coll k rows) = out"
  proof (cases "out = []")
    case True
    then show ?thesis
      using evs(2) by (auto simp: rows_above_def filter_empty_conv)
  next
    case False
    then show ?thesis
      using filter_upto_take [OF strict, of n] evs by simp
  qed
  have sub: "set out \<subseteq> {r \<in> set rows. k < row_key coll r}"
    using evs(1) by (auto simp: rows_above_def dest: in_set_takeD)
  show kk: "k \<le> k'"
  proof (cases "out = []")
    case False
    then have "k < row_key coll (List.last out)"
      using sub last_in_set [of out] by blast
    then show ?thesis
      using evs(2) False by simp
  qed (use evs(2) in simp)
  have set_out: "set out = {r \<in> set rows. k < row_key coll r \<and> row_key coll r \<le> k'}"
    unfolding out [symmetric] by (auto simp: rows_above_def)
  have out_sorted: "sorted (map (row_key coll) out)" "distinct (map (row_key coll) out)"
    unfolding out [symmetric] using rows_above_sorted(3,4) [OF d, of k k'] by (simp_all add: sent_rows_def)
  show "sent_rows coll k0 k' rows = sent_rows coll k0 k rows @ out"
  proof (rule glue_unique [of "row_key coll"])
    show "row_key coll x < row_key coll y" if "x \<in> set (sent_rows coll k0 k rows)" "y \<in> set out" for x y
      using that by (auto simp: set_out sent_rows_def)
    show "set (sent_rows coll k0 k' rows) = set (sent_rows coll k0 k rows) \<union> set out"
      using kk le by (auto simp: set_out sent_rows_def rows_above_def)
  qed (use rows_above_sorted [OF d] out_sorted in simp_all)
qed

text \<open>Rows are only added, and only above the bookmark of the poll before.\<close>

definition arrivals_above :: "(string \<Rightarrow> 'k :: linorder) \<Rightarrow> (nat \<Rightarrow> bool) \<Rightarrow> (nat \<Rightarrow> dbRow list) \<Rightarrow> string \<Rightarrow> int \<Rightarrow> high_water \<Rightarrow> bool" where
  "arrivals_above coll flt tbl sep batch hw \<longleftrightarrow>
     (\<forall>i. distinct (map (row_key coll) (tbl i)) \<and> set (tbl i) \<subseteq> set (tbl (Suc i)) \<and>
        (\<forall>r \<in> set (tbl (Suc i)) - set (tbl i). hw_key coll (snd (tail_run coll flt tbl sep batch hw (Suc i))) < row_key coll r))"

lemma tail_run_sent:
  assumes "hw_set hw" "arrivals_above coll flt tbl sep batch hw"
  shows "hw_set (snd (tail_run coll flt tbl sep batch hw n)) \<and> hw_key coll hw \<le> hw_key coll (snd (tail_run coll flt tbl sep batch hw n)) \<and>
    map ev_row (fst (tail_run coll flt tbl sep batch hw n)) =
      sent_rows coll (hw_key coll hw) (hw_key coll (snd (tail_run coll flt tbl sep batch hw n))) (tbl n)"
proof (induction n)
  case 0
  then show ?case
    using assms(1) by simp
next
  case (Suc n)
  obtain evs h where run: "tail_run coll flt tbl sep batch hw n = (evs, h)"
    by fastforce
  have ih: "hw_set h" "hw_key coll hw \<le> hw_key coll h" "map ev_row evs = sent_rows coll (hw_key coll hw) (hw_key coll h) (tbl n)"
    using Suc by (simp_all add: run)
  obtain new h' where step: "tail_run coll flt tbl sep batch hw (Suc n) = (evs @ new, h')" "hw_set h'" "hw_key coll hw \<le> hw_key coll h'"
    "map ev_row (evs @ new) = sent_rows coll (hw_key coll hw) (hw_key coll h') (tbl n)"
  proof (cases "Tail coll (flt n) 0 (tbl n) h sep batch")
    case None
    then show ?thesis
      using ih run by (intro that [of "[]" h]) simp_all
  next
    case (Some res)
    obtain new h' where res: "res = (new, h')"
      by fastforce
    note tail = Tail_set [OF ih(1) Some [unfolded res]]
    have d: "distinct (map (row_key coll) (tbl n))"
      using assms(2) by (simp add: arrivals_above_def)
    have key: "hw_key coll h' = (if map ev_row new = [] then hw_key coll h else row_key coll (List.last (map ev_row new)))"
      using tail(3) by (simp add: last_map)
    note sent = sent_rows_step [OF d ih(2) tail(1) key]
    show ?thesis
    proof (rule that [of new h'])
      show "hw_key coll hw \<le> hw_key coll h'"
        using ih(2) sent(2) by (rule order_trans)
    qed (use Some res run tail(1,2) sent(1) ih(3) in simp_all)
  qed
  have distinct_keys: "distinct (map (row_key coll) (tbl i))" for i
    using assms(2) by (simp add: arrivals_above_def)
  have later: "set (tbl n) \<subseteq> set (tbl (Suc n))" "\<forall>r \<in> set (tbl (Suc n)) - set (tbl n). hw_key coll h' < row_key coll r"
    using assms(2) unfolding arrivals_above_def by (metis, metis step(1) snd_conv)
  have "set (sent_rows coll (hw_key coll hw) (hw_key coll h') (tbl (Suc n))) = set (sent_rows coll (hw_key coll hw) (hw_key coll h') (tbl n))"
    using later by (auto simp: sent_rows_def rows_above_def dest: leD)
  then have "sent_rows coll (hw_key coll hw) (hw_key coll h') (tbl (Suc n)) = sent_rows coll (hw_key coll hw) (hw_key coll h') (tbl n)"
    using distinct_keys by (intro sorted_unique [of "row_key coll"]) (simp_all add: rows_above_sorted)
  then show ?case
    using step by simp
qed

text \<open>
  C39 (live tail).  As long as rows arrive above the bookmark, the producer has sent after any polls, failing ones included, exactly the rows between its
  first bookmark and its present one, in the order of the key and each once; and a poll that succeeds with fewer rows than the
  batch leaves no stored row unsent.
\<close>

theorem tail_exactly_once:
  assumes "hw_set hw" "arrivals_above coll flt tbl sep batch hw"
  shows "map ev_row (fst (tail_run coll flt tbl sep batch hw n)) =
      sort_key (row_key coll) (filter (\<lambda>r. hw_key coll hw < row_key coll r \<and> row_key coll r \<le> hw_key coll (snd (tail_run coll flt tbl sep batch hw n))) (tbl n)) \<and>
    (\<not> flt n \<longrightarrow>
       length (fst (tail_run coll flt tbl sep batch hw (Suc n))) < length (fst (tail_run coll flt tbl sep batch hw n)) + tail_batch batch \<longrightarrow>
       map ev_row (fst (tail_run coll flt tbl sep batch hw (Suc n))) = sort_key (row_key coll) (filter (\<lambda>r. hw_key coll hw < row_key coll r) (tbl n)))"
proof (intro conjI impI)
  have sent: "sent_rows coll k k' rows = sort_key (row_key coll) (filter (\<lambda>r. k < row_key coll r \<and> row_key coll r \<le> k') rows)" for k k' rows
    by (simp add: sent_rows_def rows_above_def filter_sort conj_commute)
  note inv = tail_run_sent [OF assms]
  show "map ev_row (fst (tail_run coll flt tbl sep batch hw n)) =
      sort_key (row_key coll) (filter (\<lambda>r. hw_key coll hw < row_key coll r \<and> row_key coll r \<le> hw_key coll (snd (tail_run coll flt tbl sep batch hw n))) (tbl n))"
    using inv [of n] by (simp add: sent)
  assume ok: "\<not> flt n"
    and short: "length (fst (tail_run coll flt tbl sep batch hw (Suc n))) < length (fst (tail_run coll flt tbl sep batch hw n)) + tail_batch batch"
  obtain evs h where run: "tail_run coll flt tbl sep batch hw n = (evs, h)"
    by fastforce
  have h: "hw_set h" "hw_key coll hw \<le> hw_key coll h" "map ev_row evs = sent_rows coll (hw_key coll hw) (hw_key coll h) (tbl n)"
    using inv [of n] by (simp_all add: run)
  obtain new h' where tail: "Tail coll (flt n) 0 (tbl n) h sep batch = Some (new, h')"
    using ok h(1) by (auto simp: Tail_def Let_def)
  have "length new < tail_batch batch"
    using short run tail by simp
  moreover have new: "map ev_row new = take (tail_batch batch) (rows_above coll (hw_key coll h) (tbl n))"
    by (rule Tail_set [OF h(1) tail])
  moreover from new have "length new = min (length (rows_above coll (hw_key coll h) (tbl n))) (tail_batch batch)"
    by (metis length_map length_take min.commute)
  ultimately have "map ev_row new = rows_above coll (hw_key coll h) (tbl n)"
    by simp
  then have all: "map ev_row (evs @ new) = sent_rows coll (hw_key coll hw) (hw_key coll h) (tbl n) @ rows_above coll (hw_key coll h) (tbl n)"
    by (simp add: h(3))
  have d: "distinct (map (row_key coll) (tbl n))"
    using assms(2) by (simp add: arrivals_above_def)
  have "rows_above coll (hw_key coll hw) (tbl n) = sent_rows coll (hw_key coll hw) (hw_key coll h) (tbl n) @ rows_above coll (hw_key coll h) (tbl n)"
  proof (rule glue_unique [of "row_key coll"])
    show "row_key coll x < row_key coll y"
      if "x \<in> set (sent_rows coll (hw_key coll hw) (hw_key coll h) (tbl n))" "y \<in> set (rows_above coll (hw_key coll h) (tbl n))" for x y
      using that by (auto simp: sent_rows_def rows_above_def)
    show "set (rows_above coll (hw_key coll hw) (tbl n)) =
        set (sent_rows coll (hw_key coll hw) (hw_key coll h) (tbl n)) \<union> set (rows_above coll (hw_key coll h) (tbl n))"
      using h(2) by (auto simp: sent_rows_def rows_above_def)
  qed (use rows_above_sorted [OF d] in simp_all)
  then show "map ev_row (fst (tail_run coll flt tbl sep batch hw (Suc n))) = sort_key (row_key coll) (filter (\<lambda>r. hw_key coll hw < row_key coll r) (tbl n))"
    using run tail all by (simp add: rows_above_def)
qed

text \<open>
  A row whose transaction began before the row of the bookmark but commits after the poll has its time, and so its key, below the bookmark: no
  later poll sends it.
\<close>

lemma late_row_never_sent:
  assumes "hw_set h" "row_key coll r \<le> hw_key coll h" "Tail coll flt now rows h sep batch = Some (evs, h')"
  shows "r \<notin> ev_row ` set evs \<and> row_key coll r \<le> hw_key coll h'"
proof -
  note tail = Tail_set [OF assms(1,3)]
  have "set (map ev_row evs) \<subseteq> {x. hw_key coll h < row_key coll x}"
    unfolding tail(1) by (auto simp: rows_above_def dest: in_set_takeD)
  then have above: "hw_key coll h < row_key coll (ev_row e)" if "e \<in> set evs" for e
    using that by auto
  then have "hw_key coll h \<le> hw_key coll h'"
    using tail(3) last_in_set [of evs] by (cases "evs = []") (auto simp: less_imp_le)
  then show ?thesis
    using assms(2) above by fastforce
qed

section \<open>Witnesses\<close>

definition ex_row :: "time \<Rightarrow> int option \<Rightarrow> string \<Rightarrow> nat \<Rightarrow> dbRow" where
  "ex_row t sq p c =
     \<lparr>l_time = t, l_serial = ''pp1'', l_boot_count = None, l_seq = sq, l_offset_start = None, l_payload = p, l_source = ''telemetry'', l_gap = False,
      l_suspect = False, lr_ctid = (0, c)\<rparr>"

definition ex_tables :: "nat \<Rightarrow> dbRow list" where
  "ex_tables i = [ex_row 1 None ''a|b'' 1, ex_row 2 (Some 7) ''c|'' 2] @ (if i = 0 then [] else [ex_row 3 (Some 8) ''d'' 3])"

definition ex_params :: log_params where
  "ex_params = \<lparr>qp_serials = [], qp_sources = [], qp_boot = None, qp_before = [], qp_limit = 1, qp_sep = []\<rparr>"

lemma ex_keys: "row_key (\<lambda>_. 0 :: int) (ex_row t sq p c) = (t, 0, (case sq of None \<Rightarrow> 0 | Some n \<Rightarrow> n), (0, c))"
  by (simp add: row_key_def ex_row_def seqOrZero_def)

lemma ex_stable: "stable_below (\<lambda>_. 0 :: int) ex_tables"
  by (auto simp: stable_below_def ex_tables_def ex_keys less_prod_def')

lemma ex_split: "SplitPayload ''a|b'' ''|'' = [''a'', ''b'']" "SplitPayload ''c|'' ''|'' = [''c'']" "SplitPayload ''d'' ''|'' = [''d'']"
  by (simp_all add: SplitPayload_def SplitText.simps)

text \<open>A JSON of the bookmark is any injective text of it; a bookmark is a countable piece of data.\<close>

lemma ex_json: "\<exists>js :: json_codec. (\<forall>c. snd js (fst js c) = Some c) \<and> snd js [] = None"
proof -
  define num where "num = (\<lambda>c :: bookmark. to_nat (cu_time c, map (of_char :: char \<Rightarrow> nat) (cu_serial c), cu_seq c, cu_ctid c))"
  have "num c = num d \<Longrightarrow> c = d" for c d
    by (cases c; cases d) (simp add: num_def inj_map_eq_map inj_def)
  then have "inj num"
    by (rule injI)
  then show ?thesis
    by (intro exI [of _ "(\<lambda>c. replicate (Suc (num c)) 0, \<lambda>b. if b = [] then None else Some (inv num (length b - 1)))"]) (simp add: inv_f_f)
qed

lemma scrollback_complete_witness:
  "\<exists>js. page_walk js (\<lambda>_. 0 :: int) ex_tables ex_params 0 3 =
      Some (concat (map (lines_of ''|'') [ex_row 2 (Some 7) ''c|'' 2, ex_row 1 None ''a|b'' 1]))"
proof -
  obtain js :: json_codec where js: "\<forall>c. snd js (fst js c) = Some c" "snd js [] = None"
    using ex_json by blast
  have rows: "newest_first (\<lambda>_. 0 :: int) (filter (row_matches (with_defaults ex_params)) (ex_tables 0)) = [ex_row 2 (Some 7) ''c|'' 2, ex_row 1 None ''a|b'' 1]"
    by (simp add: newest_first_def ex_tables_def row_matches_def with_defaults_def ex_params_def ex_keys less_eq_prod_def) (simp add: ex_row_def)
  have "page_walk js (\<lambda>_. 0 :: int) ex_tables ex_params 0 (Suc (length (ex_tables 0))) =
      Some (concat (map (lines_of (qp_sep (with_defaults ex_params))) (newest_first (\<lambda>_. 0 :: int) (filter (row_matches (with_defaults ex_params)) (ex_tables 0)))))"
    using scrollback_complete [OF js ex_stable, of ex_params] by (simp add: ex_params_def)
  then show ?thesis
    unfolding rows by (intro exI [of _ js]) (simp add: ex_tables_def ex_params_def with_defaults_def numeral_3_eq_3)
qed

definition ex_hw :: high_water where
  "ex_hw = \<lparr>hw_at = cursor_of (ex_row 1 None ''a|b'' 1), hw_set = True\<rparr>"

lemma ex_arrivals: "arrivals_above (\<lambda>_. 0 :: int) (\<lambda>n. n = 1) ex_tables [] 0 ex_hw"
proof -
  let ?hw = "\<lambda>n. hw_key (\<lambda>_. 0 :: int) (snd (tail_run (\<lambda>_. 0 :: int) (\<lambda>n. n = 1) ex_tables [] 0 ex_hw n))"
  have "hw_key (\<lambda>_. 0 :: int) ex_hw < row_key (\<lambda>_. 0 :: int) (ex_row 2 (Some 7) ''c|'' 2)"
    by (simp add: ex_hw_def ex_keys)
  then have "?hw 1 < row_key (\<lambda>_. 0) (ex_row 3 (Some 8) ''d'' 3)"
    by (simp add: ex_hw_def Tail_def ex_tables_def ex_keys less_eq_prod_def)
  then show ?thesis
    by (auto simp: arrivals_above_def ex_tables_def ex_keys simp del: tail_run.simps)
qed

lemma tail_exactly_once_witness:
  "map ev_row (fst (tail_run (\<lambda>_. 0 :: int) (\<lambda>n. n = 1) ex_tables [] 0 ex_hw 3)) = [ex_row 2 (Some 7) ''c|'' 2, ex_row 3 (Some 8) ''d'' 3]"
proof -
  have set0: "hw_set ex_hw"
    by (simp add: ex_hw_def)
  have short: "length (fst (tail_run (\<lambda>_. 0 :: int) (\<lambda>n. n = 1) ex_tables [] 0 ex_hw (Suc 2)))
      < length (fst (tail_run (\<lambda>_. 0 :: int) (\<lambda>n. n = 1) ex_tables [] 0 ex_hw 2)) + tail_batch 0"
    by (simp add: numeral_2_eq_2 ex_hw_def Tail_def ex_tables_def ex_keys less_eq_prod_def tail_batch_def)
  have "map ev_row (fst (tail_run (\<lambda>_. 0 :: int) (\<lambda>n. n = 1) ex_tables [] 0 ex_hw (Suc 2))) =
      sort_key (row_key (\<lambda>_. 0 :: int)) (filter (\<lambda>r. hw_key (\<lambda>_. 0 :: int) ex_hw < row_key (\<lambda>_. 0 :: int) r) (ex_tables 2))"
    using conjunct2 [OF tail_exactly_once [OF set0 ex_arrivals, of 2]] short by simp
  then show ?thesis
    by (simp add: numeral_3_eq_3 ex_hw_def ex_tables_def ex_keys less_eq_prod_def)
qed


end
