(* ===== verification/Spec2Isabelle.thy ===== *)
theory Spec2Isabelle
  imports C2_Delivery C2_Longpoll Log_Ingest Ota Bwry Faas_Proto Admin_Auth Display_Rotation Faas_Serving Egress Imgstore Template_Apply Single_Flight
    Flash_Run Flash_Stage Flash_Batch Ops_Gate Device_Life Log_Query
begin

text \<open>
  A verification library for open-PicPak: the backend that drives battery-powered e-paper panels
  (\<open>src/backend\<close>) and the operator's console tool (\<open>src/tools/picpak-ops\<close>), both in Go.

  \<^bold>\<open>The program and its parts.\<close>  A panel wakes up, polls the backend for a command, pushes its telemetry and log, fetches a
  firmware update when one is offered and a frame to show, and sleeps again.  The device-facing half
  (\<open>internal/ingestcore\<close>) answers these requests; it trusts a device by one-time passwords over a shared session secret that a signed
  re-key installs.  The control plane (\<open>cmd/backend\<close> over the store packages) lets operators register devices, queue commands,
  roll out firmware, keep images, playlists, templates and render functions.  The supervisor
  (\<open>internal/faascore\<close>) decides what a panel shows: a picture of its playlist or the output of a render function that runs in a worker
  process, spoken to over pipes (\<open>internal/faasproto\<close>) and confined by an egress proxy (\<open>cmd/faas-egress\<close>).  The halves meet in one
  PostgreSQL database: the tables are the shared state of the model.  The operator tool flashes panels over serial ports of remote hosts.

  \<^bold>\<open>How the code is modelled.\<close>  A table is a map from its key or, where order and duplicates matter, a list of rows; a database is a record of tables
  (\<open>db\<close> in Schema for the device-facing half, \<open>display_db\<close> in Display_Store and its extensions for the display half).  An operation is
  a function from the tables to a result and the tables after it.  What may fail from outside is an argument: a fault function says which
  call of a transaction fails, so every error branch of the code is a branch of the model, and a transaction that fails returns the tables
  it was given.  Errors are values of a sum or of a result datatype.  Machine integers are words where the code relies on their width
  (passwords, counters, packing, addresses, flash offsets) and bounded \<open>int\<close> where a parser bounds them.  Go strings are byte strings
  (lists of characters).  Concurrency is a step relation over program counters: the held poll, the in-flight deduplication, the flash batch.

  \<^bold>\<open>Shared theories.\<close>
  Picpak_Base holds the types and generic lemmas and the collections \<open>go_simps\<close>, \<open>db_defs\<close>, \<open>inv_intros\<close>.
  Runs holds two interfaces: \<open>invariant_run\<close> (an operation keeps an invariant, so every sequence does) and \<open>monotone_run\<close>
  (an operation moves up in a preorder); every component with reachable-state properties interprets one of them on its own operations.
  Go_Strings holds \<open>strconv\<close>, \<open>strings\<close> and \<open>encoding/hex\<close>, Go_Base64 \<open>encoding/base64\<close>, with the interface \<open>codec\<close> (decoding what was
  encoded), interpreted for decimal, hexadecimal, base64 and split text; Go_Net holds addresses and their parsers; Ops_Text what the tool uses of text.
  Sha and Aes_Gcm compute SHA-1, SHA-256, HMAC, AES-256 and GCM.

  \<^bold>\<open>Device-facing half.\<close>
  \<^item> Hotp is \<open>internal/auth/hotp.go\<close> and \<open>validate.go\<close>: \<open>HOTP\<close> and \<open>ValidateSession\<close>.  The passwords are the ones of RFC 4226, the check accepts exactly
    fresh counters in the window (which wraps with the 64-bit counter).
  \<^item> Schema holds the tables; C2_Channel is \<open>ingestcore/c2.go\<close>, \<open>c2auth.go\<close>, \<open>c2rekey.go\<close>, \<open>commandstore/commandstore.go\<close> and the registration of
    \<open>devicestore/devicestore.go\<close>.
    C2_Security proves that forged, replayed and reordered requests change nothing; C2_Delivery that the cursor only moves forward, that the queue keeps
    its indexes, that enqueueing is idempotent and that a polling device drains its queue in order; C2_Longpoll is the held poll as a
    step relation, with no lost wake-up between the check of the queue and the wait.
  \<^item> Log_Ingest is \<open>ingestcore/server.go\<close> (push) and \<open>logingest.go\<close>: reassembly of the log stream from overlapping fragments; what is
    acknowledged is stored, the positioned lines of an epoch form one stream, a repeated push stores nothing twice.
  \<^item> Ota is \<open>internal/rollout\<close>, \<open>internal/rolloutadmin\<close>, \<open>internal/otaticket\<close> and \<open>ingestcore/ota.go\<close>: which target a device gets, tickets that only the key
    holder mints, and that a served file has the digest it was registered with.
  \<^item> Device_Life is the rest of \<open>devicestore\<close>, \<open>commandstore/playlist.go\<close> and \<open>feedback.go\<close>; it works on both halves at once: a deletion
    leaves no trace of a serial and a new device under it starts clean.

  \<^bold>\<open>Control plane.\<close>
  \<^item> Rate_Limit and Basic_Cache are \<open>adminhttp/ratelimit.go\<close> and \<open>basicauth.go\<close>: capped structures in least-recently-used order, the bound of a token
    bucket, and the eviction loop as a partial function that is proved to return.
  \<^item> Admin_Store is \<open>apitoken\<close>, \<open>operator\<close>, \<open>adminsession\<close>, \<open>adminuser\<close>; Argon2_Phc the password string of \<open>argon2id\<close>; Admin_Auth the
    middleware of \<open>adminhttp\<close>: an admin route runs only for a principal whose credential the stores hold.
  \<^item> Display_Store (\<open>playliststore\<close>), Display_Binding (\<open>plrender\<close> and \<open>faasstore\<close>), Display_Invariant and Display_Rotation: the tables of playlists, items, functions,
    bindings and cursors, their well-formedness kept by every operation, the reorder in two stages over a unique index, and the rotation
    cursor as a refinement of a slide show.
  \<^item> Imgstore is \<open>imgstore\<close> over the blob directory; Template_Text, Templates and Template_Apply are \<open>templatestore\<close> and its
    handlers: typed substitution, an immutable catalog, idempotent application.
  \<^item> Secrets is \<open>sealbox\<close> and \<open>secrets\<close> with the sweep that re-seals everything under a new master key.

  \<^bold>\<open>Supervisor.\<close>
  \<^item> Bwry is the quantizer and packer of frames; Faas_Proto the pipe protocol; Faas_Render \<open>faascore/render.go\<close>; Faas_Core \<open>buildframe.go\<close>, \<open>fanout.go\<close>, \<open>schedule.go\<close>,
    \<open>playlistframe.go\<close>, \<open>wake.go\<close> and \<open>supervisor.go\<close>; Faas_Serving proves that every answer is a full frame, that a fresh frame was rendered from the current
    version, and that the scheduler runs what is due.
  \<^item> Single_Flight is the deduplication of renders, request by request.
  \<^item> Egress is \<open>cmd/faas-egress\<close>: an address is dialled only when the allowlist of the credential and the deny-set permit it.

  \<^bold>\<open>Operator tool.\<close>
  \<^item> Flash_Set (\<open>flash/writeset.go\<close>, \<open>esptool.go\<close>), Flash_Run (\<open>progress.go\<close>, \<open>recovery.go\<close>, \<open>controller.go\<close>), Flash_Stage (\<open>stage.go\<close>) and Flash_Batch
    (\<open>runAll\<close>): a recipe that spares the factory region, one verdict per device, staged files, bounded batches.
  \<^item> Ops_Gate is \<open>sshhost/discover.go\<close> and \<open>gate.go\<close>: a device is confirmed only when the host names it.

  \<^bold>\<open>Loops, bounds and fuel.\<close>  Loops are structural or carry a measure (the rest of the input, the keys of a cache, the retries left); none runs on
  fuel.  The eviction loop of Basic_Cache, which loops on an emptied list when the cap is negative, is a \<open>partial_function\<close> and its
  return is part of the property.  The step relations are unbounded; the flash batch is shown to end after at most \<open>5 n + 1\<close> steps.

  \<^bold>\<open>Parameters.\<close>  What is not in the repository is an argument of the definitions: the ECDSA verification, the key derivation of argon2, JSON, PNG and image decoding,
  JSONB normal form, collation, \<open>url.Parse\<close> and \<open>strconv.ParseFloat\<close>, the resolver and the dialler, regular expressions of the configuration, the answers of remote hosts, the
  random bytes, the clock and the rounding of floating-point numbers.  Hypotheses about them state documented behaviour only.

  \<^bold>\<open>Not modelled.\<close>  Request ids and success envelopes of the admin API, log lines and error texts; the rounding of the rate limiter's floats;
  overflow of INT columns of the display tables; gaps in identity columns after failed inserts; case folding beyond ASCII; daylight-saving changes.  A
  render with its fan-out is one step of the supervisor (its interleavings are in Single_Flight).  Of \<open>cmd/backend\<close> the
  listing handlers, server set-up and the command-line tools are input and output over the modelled stores.  Of the operator tool
  the terminal user interface is left out.
\<close>

end
